(* ===== verification/Prelude.thy ===== *)
theory Prelude
  imports
    "HOL-Library.Word"
    "HOL-Library.FSet"
    "HOL-Library.Finite_Map"
    "HOL-Library.List_Lexorder"
    "HOL-Library.Multiset"
begin

unbundle bit_operations_syntax

text \<open>
  Shared vocabulary of the development.

  \<^item> Go types: a byte slice and a Go string are both lists of 8-bit words
    (a Go string is a byte sequence, and the sources convert freely between
    the two); \<open>uint64\<close> is a 64-bit word, with its wrap-around; \<open>int\<close>
    and \<open>int64\<close> values that the code only adds up or compares (sizes, costs,
    nanosecond times, indices) are mathematical integers.
  \<^item> The parts of the Go standard library the sources rely on:
    \<open>encoding/binary\<close> (uvarint and little-endian words), \<open>hash/fnv\<close>,
    \<open>sort.Slice\<close>, and the comparison of \<open>float64\<close> values on their
    IEEE bit patterns.
  \<^item> Generic facts about lists, finite sets and finite maps.
\<close>

type_synonym byte = "8 word"
type_synonym bytes = "byte list"
type_synonym u64 = "64 word"
type_synonym f64 = "64 word"
type_synonym time = int

named_theorems codec_simps \<open>round trips of the encoders and decoders\<close>
named_theorems flag_simps \<open>tests of the Entry flag bits\<close>

text \<open>A Go string literal as bytes.\<close>

definition str :: "string \<Rightarrow> bytes" where
  "str s = map of_char s"

text \<open>The length of a Go slice or string fits in a non-negative \<open>int\<close>.\<close>

definition go_len :: "'a list \<Rightarrow> bool" where
  "go_len xs \<longleftrightarrow> length xs < 2 ^ 63"

lemma go_len_append: "go_len (xs @ ys) \<Longrightarrow> go_len xs \<and> go_len ys"
  by (simp add: go_len_def)

lemma unat_of_nat_go_len [simp]: "go_len xs \<Longrightarrow> unat (of_nat (length xs) :: u64) = length xs"
  by (simp add: go_len_def unat_of_nat take_bit_nat_eq_self)

section \<open>Uvarints\<close>

text \<open>\<open>binary.PutUvarint\<close> / \<open>binary.AppendUvarint\<close>: seven bits per byte, low bits
  first, the top bit set on every byte but the last.\<close>

lemma unat_drop_bit_7_less: "0x80 \<le> (x::u64) \<Longrightarrow> unat (drop_bit 7 x) < unat x"
  by (simp add: unat_drop_bit_eq drop_bit_eq_div word_le_nat_alt unat_div)

function PutUvarint :: "u64 \<Rightarrow> bytes" where
  "PutUvarint x =
     (if 0x80 \<le> x then (ucast x OR 0x80) # PutUvarint (drop_bit 7 x) else [ucast x])"
  by pat_completeness auto
termination
  by (relation "measure unat") (simp_all add: unat_drop_bit_7_less)

declare PutUvarint.simps [simp del]

text \<open>\<open>binary.Uvarint\<close>: the value and the number of bytes read; 0 bytes for a
  truncated buffer, a negative number for an overflow of 64 bits.\<close>

fun uvarint_loop :: "bytes \<Rightarrow> nat \<Rightarrow> u64 \<Rightarrow> nat \<Rightarrow> u64 \<times> int" where
  "uvarint_loop [] i x s = (0, 0)"
| "uvarint_loop (b # bs) i x s =
     (if i = 10 then (0, - (int i + 1))
      else if b < 0x80 then
        (if i = 9 \<and> 1 < b then (0, - (int i + 1))
         else (x OR push_bit s (ucast b), int i + 1))
      else uvarint_loop bs (i + 1) (x OR push_bit s (ucast (b AND 0x7f))) (s + 7))"

definition Uvarint :: "bytes \<Rightarrow> u64 \<times> int" where
  "Uvarint buf = uvarint_loop buf 0 0 0"

lemma take_bit_step: "take_bit s v OR push_bit s (take_bit 7 (drop_bit s v)) = take_bit (s + 7) (v::u64)"
  by (rule bit_word_eqI) (auto simp: bit_simps not_less)

lemma take_bit_drop_bit_id: "take_bit s v OR push_bit s (drop_bit s v) = (v::u64)"
proof (rule bit_word_eqI)
  fix n :: nat
  show "bit (take_bit s v OR push_bit s (drop_bit s v)) n = bit v n"
    if "n < LENGTH(64)"
    using that by (cases "n < s") (auto simp: bit_simps)
qed

lemma ucast_or_0x80_and: "ucast ((ucast w OR 0x80 :: byte) AND 0x7f) = take_bit 7 (w::u64)"
proof (rule bit_word_eqI)
  fix n :: nat
  have "n < 8 \<Longrightarrow> bit (0x7f::byte) n = (n < 7)"
    using bit_mask_iff [of 7 n, where ?'a = byte] by (auto simp add: mask_eq_exp_minus_1)
  moreover have "bit (0x80::byte) n \<Longrightarrow> n = 7"
    using bit_exp_iff [of 7 n, where ?'a = byte] by simp
  ultimately show "bit (ucast ((ucast w OR 0x80 :: byte) AND 0x7f) :: u64) n = bit (take_bit 7 w) n"
    by (auto simp: bit_simps)
qed

lemma or_0x80_ge: "\<not> ucast (w::u64) OR 0x80 < (0x80::byte)"
  using le_word_or1 [of "0x80::byte" "ucast w"] by (simp add: not_less)

lemma unat_ucast_byte: "(w::u64) < 0x100 \<Longrightarrow> unat (ucast w :: byte) = unat w"
  by (simp add: word_less_nat_alt unsigned_ucast_eq unsigned_take_bit_eq take_bit_nat_eq_self)

lemma ucast_byte_less: "(w::u64) < 0x80 \<Longrightarrow> (ucast w :: byte) < 0x80"
  by (simp add: word_less_nat_alt unat_ucast_byte)

lemma ucast_ucast_byte: "(w::u64) < 0x100 \<Longrightarrow> ucast (ucast w :: byte) = w"
  by (simp add: word_unat_eq_iff unat_ucast_byte unsigned_ucast_eq unsigned_take_bit_eq take_bit_nat_eq_self word_less_nat_alt)

lemma unat_drop_bit_63: "unat (drop_bit 63 (v::u64)) \<le> 1"
proof -
  have "unat v < 2 ^ 64" by (rule order_less_le_trans [OF unsigned_less]) simp
  then show ?thesis
    by (simp add: unat_drop_bit_eq drop_bit_eq_div unat_div) 
qed

lemma uvarint_loop_PutUvarint:
  assumes "w = drop_bit (7 * i) v" and "i \<le> 9"
  shows "uvarint_loop (PutUvarint w @ rest) i (take_bit (7 * i) v) (7 * i) =
    (v, int i + int (length (PutUvarint w)))"
  using assms
proof (induction w arbitrary: i rule: PutUvarint.induct)
  case (1 w)
  have i9: "i = 9 \<Longrightarrow> unat w \<le> 1"
    using 1 unat_drop_bit_63 [of v] by simp
  show ?case
  proof (cases "0x80 \<le> w")
    case True
    then have "i < 9" using i9 1 by (cases "i = 9") (auto simp: word_le_nat_alt)
    moreover have "drop_bit 7 w = drop_bit (7 * Suc i) v"
      using 1 by simp
    ultimately have "uvarint_loop (PutUvarint (drop_bit 7 w) @ rest) (Suc i)
        (take_bit (7 * Suc i) v) (7 * Suc i) =
        (v, int (Suc i) + int (length (PutUvarint (drop_bit 7 w))))"
      using 1(1) [OF True, of "Suc i"] by simp
    moreover have "take_bit (7 * i) v OR push_bit (7 * i) (take_bit 7 w) = take_bit (7 * Suc i) v"
      using 1 take_bit_step [of "7 * i" v] by (simp add: add.commute)
    ultimately show ?thesis
      using True \<open>i < 9\<close>
      by (simp add: PutUvarint.simps [of w] or_0x80_ge ucast_or_0x80_and add.commute)
  next
    case False
    then have w: "w < 0x80" "w < 0x100"
      by (auto simp: word_less_nat_alt word_le_nat_alt)
    have "\<not> (i = 9 \<and> 1 < (ucast w :: byte))"
      using i9 w by (auto simp: word_less_nat_alt unat_ucast_byte)
    moreover have "take_bit (7 * i) v OR push_bit (7 * i) w = v"
      using 1 take_bit_drop_bit_id by simp
    ultimately show ?thesis
      using False w 1(3)
      by (simp add: PutUvarint.simps [of w] ucast_byte_less ucast_ucast_byte)
  qed
qed

lemma Uvarint_PutUvarint [codec_simps]:
  "Uvarint (PutUvarint v @ rest) = (v, int (length (PutUvarint v)))"
  using uvarint_loop_PutUvarint [of v 0 v rest] by (simp add: Uvarint_def)


text \<open>The number of bytes a uvarint takes, computed without encoding it.\<close>

function uvarintSize :: "u64 \<Rightarrow> nat" where
  "uvarintSize x = (if 0x80 \<le> x then Suc (uvarintSize (drop_bit 7 x)) else 1)"
  by pat_completeness auto
termination
  by (relation "measure unat") (simp_all add: unat_drop_bit_7_less)

declare uvarintSize.simps [simp del]

lemma length_PutUvarint [simp]: "length (PutUvarint x) = uvarintSize x"
  by (induction x rule: PutUvarint.induct)
    (simp add: PutUvarint.simps uvarintSize.simps)

lemma uvarintSize_pos [simp]: "0 < uvarintSize x"
  by (simp add: uvarintSize.simps [of x])

lemma uvarint_loop_bound: "snd (uvarint_loop b i x s) \<le> int i + int (length b)"
  by (induction b i x s rule: uvarint_loop.induct) auto

lemma uvarint_loop_pos: "0 < snd (uvarint_loop b i x s) \<Longrightarrow> b \<noteq> []"
  by auto

lemma Uvarint_bound: "Uvarint b = (n, w) \<Longrightarrow> w \<le> int (length b)"
  using uvarint_loop_bound [of b 0 0 0] by (simp add: Uvarint_def)

lemma Uvarint_Nil [simp]: "Uvarint [] = (0, 0)"
  by (simp add: Uvarint_def)

section \<open>Length-prefixed items\<close>

datatype codec_err = BadUvarint | Truncated | BadValue

text \<open>One record of the set, list and hash codecs: a uvarint length, then the bytes.\<close>

definition put_item :: "bytes \<Rightarrow> bytes" where
  "put_item it = PutUvarint (of_nat (length it)) @ it"

definition take_item :: "bytes \<Rightarrow> codec_err + bytes \<times> bytes" where
  "take_item b =
     (case Uvarint b of (n, w) \<Rightarrow>
        if w \<le> 0 then Inl BadUvarint
        else let b' = drop (nat w) b in
          if length b' < unat n then Inl Truncated
          else Inr (take (unat n) b', drop (unat n) b'))"

lemma take_item_put_item [codec_simps]:
  "go_len it \<Longrightarrow> take_item (put_item it @ rest) = Inr (it, rest)"
  by (simp add: take_item_def put_item_def codec_simps)

lemma take_item_shorter: "take_item b = Inr (it, r) \<Longrightarrow> length r < length b"
  using Uvarint_bound [of b]
  by (auto simp: take_item_def Let_def split: prod.splits if_splits)

lemma take_item_go_len: "take_item b = Inr (it, r) \<Longrightarrow> go_len b \<Longrightarrow> go_len it \<and> go_len r"
  by (auto simp: take_item_def Let_def go_len_def split: prod.splits if_splits)

lemma put_item_not_Nil [simp]: "put_item it \<noteq> []"
  by (metis append_is_Nil_conv length_0_conv length_PutUvarint less_irrefl put_item_def uvarintSize_pos)

lemma length_put_item: "length (put_item it) = uvarintSize (of_nat (length it)) + length it"
  by (simp add: put_item_def)

section \<open>Little-endian words\<close>

definition PutUint64LE :: "u64 \<Rightarrow> bytes" where
  "PutUint64LE v = map (\<lambda>i. ucast (drop_bit (8 * i) v)) [0..<8]"

definition Uint64LE :: "bytes \<Rightarrow> u64" where
  "Uint64LE b = foldr (\<lambda>x acc. ucast x OR push_bit 8 acc) (take 8 b) 0"

lemma length_PutUint64LE [simp]: "length (PutUint64LE v) = 8"
  by (simp add: PutUint64LE_def)

lemma ucast_byte_or_push: "ucast (ucast x :: byte) OR push_bit 8 (drop_bit 8 x) = (x::u64)"
proof (rule bit_word_eqI)
  fix n :: nat
  show "bit (ucast (ucast x :: byte) OR push_bit 8 (drop_bit 8 x)) n = bit x n"
    if "n < LENGTH(64)"
    using that by (cases "n < 8") (auto simp: bit_simps)
qed

lemma foldr_le_bytes:
  "j \<le> 8 \<Longrightarrow> foldr (\<lambda>x acc. ucast (x::byte) OR push_bit 8 acc)
     (map (\<lambda>i. ucast (drop_bit (8 * i) v)) [j..<8]) 0 = drop_bit (8 * j) (v::u64)"
proof (induction j rule: inc_induct)
  case base
  show ?case by (simp add: bit_eq_iff bit_simps)
next
  case (step j)
  then show ?case
    using ucast_byte_or_push [of "drop_bit (8 * j) v"]
    by (simp add: upt_rec [of j] add.commute)
qed

lemma Uint64LE_PutUint64LE [codec_simps]: "Uint64LE (PutUint64LE v @ rest) = v"
  using foldr_le_bytes [of 0 v] by (simp add: Uint64LE_def PutUint64LE_def)

lemma Uint64LE_PutUint64LE' [codec_simps]: "Uint64LE (PutUint64LE v) = v"
  using Uint64LE_PutUint64LE [of v "[]"] by simp

section \<open>Signed 64-bit integers\<close>

definition int64 :: "int \<Rightarrow> bool" where
  "int64 v \<longleftrightarrow> - (2 ^ 63) \<le> v \<and> v < 2 ^ 63"

definition wrap64 :: "int \<Rightarrow> int" where
  "wrap64 v = sint (word_of_int v :: u64)"

lemma wrap64_id: "int64 v \<Longrightarrow> wrap64 v = v"
  by (simp add: wrap64_def int64_def sint_sbintrunc' signed_take_bit_int_eq_self)

section \<open>FNV hashes\<close>

definition offset64 :: u64 where "offset64 = 14695981039346656037"
definition prime64 :: u64 where "prime64 = 1099511628211"

text \<open>\<open>fnv.New64a\<close> and \<open>fnv.New64\<close> (\<open>hash/fnv\<close>).\<close>

definition fnv1a :: "bytes \<Rightarrow> u64" where
  "fnv1a b = fold (\<lambda>c h. (h XOR ucast c) * prime64) b offset64"

definition fnv1 :: "bytes \<Rightarrow> u64" where
  "fnv1 b = fold (\<lambda>c h. (h * prime64) XOR ucast c) b offset64"

section \<open>Comparison of float64 values\<close>

text \<open>A \<open>float64\<close> is kept as its IEEE 754 bit pattern (\<open>math.Float64bits\<close>).
  All NaNs are unordered; the two zeros are equal; other values compare as
  sign and magnitude.\<close>

definition f64_mag :: "f64 \<Rightarrow> int" where
  "f64_mag w = uint (take_bit 63 w)"

definition f64_is_nan :: "f64 \<Rightarrow> bool" where
  "f64_is_nan w \<longleftrightarrow> 0x7ff0000000000000 < f64_mag w"

definition f64_is_inf :: "f64 \<Rightarrow> bool" where
  "f64_is_inf w \<longleftrightarrow> f64_mag w = 0x7ff0000000000000"

definition f64_key :: "f64 \<Rightarrow> int" where
  "f64_key w = (if bit w 63 then - f64_mag w else f64_mag w)"

definition f64_lt :: "f64 \<Rightarrow> f64 \<Rightarrow> bool" where
  "f64_lt a b \<longleftrightarrow> \<not> f64_is_nan a \<and> \<not> f64_is_nan b \<and> f64_key a < f64_key b"

definition f64_eq :: "f64 \<Rightarrow> f64 \<Rightarrow> bool" where
  "f64_eq a b \<longleftrightarrow> \<not> f64_is_nan a \<and> \<not> f64_is_nan b \<and> f64_key a = f64_key b"

definition f64_le :: "f64 \<Rightarrow> f64 \<Rightarrow> bool" where
  "f64_le a b \<longleftrightarrow> f64_lt a b \<or> f64_eq a b"

text \<open>The rounded arithmetic of the machine and of package \<open>math\<close> is a parameter of the
  operations that use it. \<open>fp_const p q\<close> is the constant \<open>p / q\<close>, \<open>fp_nat\<close> and \<open>fp_u64\<close> convert
  from and to integers, \<open>fp_of32\<close> and \<open>fp_to32\<close> from and to \<open>float32\<close>.\<close>

type_synonym f32 = "32 word"

record fpu =
  fp_const :: "int \<Rightarrow> int \<Rightarrow> f64"
  fp_add :: "f64 \<Rightarrow> f64 \<Rightarrow> f64"
  fp_sub :: "f64 \<Rightarrow> f64 \<Rightarrow> f64"
  fp_mul :: "f64 \<Rightarrow> f64 \<Rightarrow> f64"
  fp_div :: "f64 \<Rightarrow> f64 \<Rightarrow> f64"
  fp_min :: "f64 \<Rightarrow> f64 \<Rightarrow> f64"
  fp_sqrt :: "f64 \<Rightarrow> f64"
  fp_sin :: "f64 \<Rightarrow> f64"
  fp_cos :: "f64 \<Rightarrow> f64"
  fp_asin :: "f64 \<Rightarrow> f64"
  fp_log :: "f64 \<Rightarrow> f64"
  fp_floor :: "f64 \<Rightarrow> f64"
  fp_ldexp :: "f64 \<Rightarrow> int \<Rightarrow> f64"
  fp_nat :: "nat \<Rightarrow> f64"
  fp_u64 :: "f64 \<Rightarrow> u64"
  fp_of32 :: "f32 \<Rightarrow> f64"
  fp_to32 :: "f64 \<Rightarrow> f32"

text \<open>An arithmetic in which every result is zero, for closed examples.\<close>

definition zero_fpu :: fpu where
  "zero_fpu =
     \<lparr>fp_const = (\<lambda>p q. 0), fp_add = (\<lambda>a b. 0), fp_sub = (\<lambda>a b. 0), fp_mul = (\<lambda>a b. 0),
      fp_div = (\<lambda>a b. 0), fp_min = (\<lambda>a b. 0), fp_sqrt = (\<lambda>a. 0), fp_sin = (\<lambda>a. 0),
      fp_cos = (\<lambda>a. 0), fp_asin = (\<lambda>a. 0), fp_log = (\<lambda>a. 0), fp_floor = (\<lambda>a. 0),
      fp_ldexp = (\<lambda>a n. 0), fp_nat = (\<lambda>n. 0), fp_u64 = (\<lambda>a. 0), fp_of32 = (\<lambda>a. 0),
      fp_to32 = (\<lambda>a. 0)\<rparr>"

section \<open>sort.Slice\<close>

text \<open>\<open>sort.Slice\<close> orders by a strict comparison. Where the comparison is a strict
  total order of the elements the result is unique, so an insertion sort stands
  for any sorting algorithm; the locale states that contract.\<close>

fun insort_by :: "('a \<Rightarrow> 'a \<Rightarrow> bool) \<Rightarrow> 'a \<Rightarrow> 'a list \<Rightarrow> 'a list" where
  "insort_by lt x [] = [x]"
| "insort_by lt x (y # ys) = (if lt y x then y # insort_by lt x ys else x # y # ys)"

definition sort_by :: "('a \<Rightarrow> 'a \<Rightarrow> bool) \<Rightarrow> 'a list \<Rightarrow> 'a list" where
  "sort_by lt xs = foldr (insort_by lt) xs []"

lemma mset_insort_by [simp]: "mset (insort_by lt x ys) = add_mset x (mset ys)"
  by (induction ys) auto

lemma mset_sort_by [simp]: "mset (sort_by lt xs) = mset xs"
  by (induction xs) (auto simp: sort_by_def)

lemma set_sort_by [simp]: "set (sort_by lt xs) = set xs"
  by (metis mset_sort_by set_mset_mset)

lemma length_sort_by [simp]: "length (sort_by lt xs) = length xs"
  by (metis mset_sort_by size_mset)

lemma distinct_sort_by [simp]: "distinct (sort_by lt xs) = distinct xs"
  by (metis mset_sort_by distinct_count_atmost_1 mset_eq_imp_distinct_iff)

lemma set_insort_by: "set (insort_by lt x ys) = insert x (set ys)"
  by (metis mset_insort_by set_mset_add_mset_insert set_mset_mset)

locale total_less =
  fixes lt :: "'a \<Rightarrow> 'a \<Rightarrow> bool" and A :: "'a set"
  assumes lt_irrefl: "a \<in> A \<Longrightarrow> \<not> lt a a"
    and lt_trans: "a \<in> A \<Longrightarrow> b \<in> A \<Longrightarrow> c \<in> A \<Longrightarrow> lt a b \<Longrightarrow> lt b c \<Longrightarrow> lt a c"
    and lt_total: "a \<in> A \<Longrightarrow> b \<in> A \<Longrightarrow> a \<noteq> b \<Longrightarrow> lt a b \<or> lt b a"
begin

lemma sorted_insort_by:
  "insert x (set ys) \<subseteq> A \<Longrightarrow> x \<notin> set ys \<Longrightarrow> sorted_wrt lt ys \<Longrightarrow> sorted_wrt lt (insort_by lt x ys)"
proof (induction ys)
  case Nil
  then show ?case by simp
next
  case (Cons y ys)
  have A: "x \<in> A" "y \<in> A" "set ys \<subseteq> A" using Cons.prems by auto
  show ?case
  proof (cases "lt y x")
    case True
    then show ?thesis using Cons by (auto simp: set_insort_by)
  next
    case False
    then have xy: "lt x y" using lt_total A Cons.prems(2) by auto
    then have "\<forall>z \<in> set ys. lt x z"
      using Cons.prems(3) A lt_trans [OF A(1) A(2) _ xy] by auto
    then show ?thesis using False xy Cons.prems(3) by auto
  qed
qed

lemma sorted_sort_by: "set xs \<subseteq> A \<Longrightarrow> distinct xs \<Longrightarrow> sorted_wrt lt (sort_by lt xs)"
proof (induction xs)
  case Nil
  then show ?case by (simp add: sort_by_def)
next
  case (Cons x xs)
  then have "sorted_wrt lt (insort_by lt x (sort_by lt xs))"
    by (intro sorted_insort_by) auto
  then show ?case by (simp add: sort_by_def)
qed

lemma sorted_unique:
  "sorted_wrt lt xs \<Longrightarrow> sorted_wrt lt ys \<Longrightarrow> mset xs = mset ys \<Longrightarrow> set xs \<subseteq> A \<Longrightarrow> xs = ys"
proof (induction xs arbitrary: ys)
  case Nil
  then show ?case by simp
next
  case (Cons x xs)
  then obtain y ys' where ys: "ys = y # ys'" by (cases ys) auto
  have sets: "insert y (set ys') = insert x (set xs)"
    using Cons.prems(3) ys by (metis list.simps(15) set_mset_mset)
  have "x = y"
  proof (rule ccontr)
    assume "x \<noteq> y"
    then have "lt x y" "lt y x" "x \<in> A" "y \<in> A"
      using Cons.prems sets ys by auto
    then show False using lt_trans [of x y x] lt_irrefl by blast
  qed
  then show ?case using Cons ys by auto
qed

theorem sort_by_unique:
  assumes "set xs \<subseteq> A" "distinct xs" "mset ys = mset xs" "sorted_wrt lt ys"
  shows "ys = sort_by lt xs"
proof (rule sorted_unique)
  show "sorted_wrt lt (sort_by lt xs)" using assms sorted_sort_by by blast
  show "set ys \<subseteq> A" using assms by (metis set_mset_mset)
qed (use assms in auto)

end

section \<open>Finite maps as Go maps\<close>

lemma fmlookup_fold_fmupd:
  "fmlookup (fold (\<lambda>(k, v). fmupd k v) xs m) k =
     (case map_of (rev xs) k of Some v \<Rightarrow> Some v | None \<Rightarrow> fmlookup m k)"
  by (induction xs arbitrary: m) (auto simp: map_add_def split: option.splits)

lemma distinct_sorted_list_of_fset [simp]: "distinct (sorted_list_of_fset S)"
  by (simp add: sorted_list_of_fset.rep_eq)

lemma sorted_sorted_list_of_fset [simp]: "sorted (sorted_list_of_fset S)"
  by (simp add: sorted_list_of_fset.rep_eq)

lemma map_fst_sorted_list_of_fmap [simp]:
  "map fst (sorted_list_of_fmap m) = sorted_list_of_fset (fmdom m)"
  by (simp add: sorted_list_of_fmap_def comp_def)

lemma set_sorted_list_of_fmap: "set (sorted_list_of_fmap m) = {(k, v). fmlookup m k = Some v}"
  by (auto simp: sorted_list_of_fmap_def fmlookup_dom_iff image_iff)

lemma map_of_rev_distinct:
  "distinct (map fst xs) \<Longrightarrow> map_of (rev xs) = map_of xs"
  by (simp add: map_of_inject_set rev_map [symmetric])

lemma map_of_pairs_fmlookup:
  assumes "set xs = {(k, v). fmlookup m k = Some v}" "distinct (map fst xs)"
  shows "map_of xs = fmlookup m"
proof
  fix k
  show "map_of xs k = fmlookup m k"
    using assms by (cases "map_of xs k"; cases "fmlookup m k")
      (auto simp: map_of_eq_None_iff dest: map_of_SomeD intro!: image_eqI)
qed

lemma fold_fmupd_pairs:
  assumes "set xs = {(k, v). fmlookup m k = Some v}" "distinct (map fst xs)"
  shows "fold (\<lambda>(k, v). fmupd k v) xs fmempty = m"
  by (rule fmap_ext)
    (simp add: fmlookup_fold_fmupd map_of_rev_distinct assms map_of_pairs_fmlookup [OF assms] split: option.splits)

section \<open>The contract of a container codec\<close>

text \<open>What the store relies on for every cached container: what it encodes it can
  decode, and the size it estimates without encoding is the size it writes.\<close>

locale blob_codec =
  fixes enc :: "'a \<Rightarrow> bytes" and dec :: "bytes \<Rightarrow> 'e + 'a"
    and wire :: "'a \<Rightarrow> int" and ok :: "'a \<Rightarrow> bool"
  assumes round_trip: "ok x \<Longrightarrow> dec (enc x) = Inr x"
    and wire_size: "wire x = int (length (enc x))"
    and dec_ok: "go_len b \<Longrightarrow> dec b = Inr x \<Longrightarrow> ok x"
begin

lemma enc_inj: "ok x \<Longrightarrow> ok y \<Longrightarrow> enc x = enc y \<Longrightarrow> x = y"
  by (metis round_trip sum.inject(2))

lemma wire_nonneg: "0 \<le> wire x"
  by (simp add: wire_size)

lemma enc_dec_enc: "ok x \<Longrightarrow> (case dec (enc x) of Inl e \<Rightarrow> b | Inr y \<Rightarrow> enc y) = enc x"
  by (simp add: round_trip)

end

end
