(* ===== verification/StoreEntry.thy ===== *)
theory StoreEntry
  imports Prelude
begin

text \<open>
  The entry envelope of \<open>pkg/store/entry.go\<close>: value, version, expiry and flag
  bits. A nil and an empty value are the same list. The clock is a parameter of
  every operation that reads it.
\<close>

record entry =
  Value :: bytes
  Version :: u64
  ExpireAt :: time
  Flags :: u64

section \<open>Flag bits\<close>

definition FlagNegative :: u64 where "FlagNegative = 1"
definition FlagTombstone :: u64 where "FlagTombstone = 2"
definition FlagBloom :: u64 where "FlagBloom = 4"
definition FlagBloomAdd :: u64 where "FlagBloomAdd = 8"
definition FlagSet :: u64 where "FlagSet = 16"
definition FlagSetAdd :: u64 where "FlagSetAdd = 32"
definition FlagSetRemove :: u64 where "FlagSetRemove = 64"
definition FlagZSet :: u64 where "FlagZSet = 128"
definition FlagZSetAdd :: u64 where "FlagZSetAdd = 256"
definition FlagZSetRem :: u64 where "FlagZSetRem = 512"
definition FlagGeo :: u64 where "FlagGeo = 1024"
definition FlagGeoAdd :: u64 where "FlagGeoAdd = 2048"
definition FlagGeoRem :: u64 where "FlagGeoRem = 4096"
definition FlagList :: u64 where "FlagList = 8192"
definition FlagListLPush :: u64 where "FlagListLPush = 16384"
definition FlagListRPush :: u64 where "FlagListRPush = 32768"
definition FlagHash :: u64 where "FlagHash = 65536"
definition FlagHashSet :: u64 where "FlagHashSet = 131072"
definition FlagHashDel :: u64 where "FlagHashDel = 262144"
definition FlagCounter :: u64 where "FlagCounter = 524288"
definition FlagJSON :: u64 where "FlagJSON = 1048576"
definition FlagJSONSet :: u64 where "FlagJSONSet = 2097152"
definition FlagJSONDel :: u64 where "FlagJSONDel = 4194304"
definition FlagBitmap :: u64 where "FlagBitmap = 8388608"
definition FlagBitmapSet :: u64 where "FlagBitmapSet = 16777216"
definition FlagHLL :: u64 where "FlagHLL = 33554432"
definition FlagHLLAdd :: u64 where "FlagHLLAdd = 67108864"
definition FlagTopK :: u64 where "FlagTopK = 134217728"
definition FlagTopKAdd :: u64 where "FlagTopKAdd = 268435456"
definition FlagCMS :: u64 where "FlagCMS = 536870912"
definition FlagCMSIncr :: u64 where "FlagCMSIncr = 1073741824"
definition FlagVectorSet :: u64 where "FlagVectorSet = 2147483648"
definition FlagStream :: u64 where "FlagStream = 4294967296"

lemmas Flag_defs [flag_simps] =
  FlagNegative_def
  FlagTombstone_def
  FlagBloom_def
  FlagBloomAdd_def
  FlagSet_def
  FlagSetAdd_def
  FlagSetRemove_def
  FlagZSet_def
  FlagZSetAdd_def
  FlagZSetRem_def
  FlagGeo_def
  FlagGeoAdd_def
  FlagGeoRem_def
  FlagList_def
  FlagListLPush_def
  FlagListRPush_def
  FlagHash_def
  FlagHashSet_def
  FlagHashDel_def
  FlagCounter_def
  FlagJSON_def
  FlagJSONSet_def
  FlagJSONDel_def
  FlagBitmap_def
  FlagBitmapSet_def
  FlagHLL_def
  FlagHLLAdd_def
  FlagTopK_def
  FlagTopKAdd_def
  FlagCMS_def
  FlagCMSIncr_def
  FlagVectorSet_def
  FlagStream_def

definition IsNegative :: "entry \<Rightarrow> bool" where "IsNegative e \<longleftrightarrow> Flags e AND FlagNegative \<noteq> 0"
definition IsTombstone :: "entry \<Rightarrow> bool" where "IsTombstone e \<longleftrightarrow> Flags e AND FlagTombstone \<noteq> 0"
definition IsBloom :: "entry \<Rightarrow> bool" where "IsBloom e \<longleftrightarrow> Flags e AND FlagBloom \<noteq> 0"
definition IsBloomAdd :: "entry \<Rightarrow> bool" where "IsBloomAdd e \<longleftrightarrow> Flags e AND FlagBloomAdd \<noteq> 0"
definition IsSet :: "entry \<Rightarrow> bool" where "IsSet e \<longleftrightarrow> Flags e AND FlagSet \<noteq> 0"
definition IsSetAdd :: "entry \<Rightarrow> bool" where "IsSetAdd e \<longleftrightarrow> Flags e AND FlagSetAdd \<noteq> 0"
definition IsSetRemove :: "entry \<Rightarrow> bool" where "IsSetRemove e \<longleftrightarrow> Flags e AND FlagSetRemove \<noteq> 0"
definition IsZSet :: "entry \<Rightarrow> bool" where "IsZSet e \<longleftrightarrow> Flags e AND FlagZSet \<noteq> 0"
definition IsZSetAdd :: "entry \<Rightarrow> bool" where "IsZSetAdd e \<longleftrightarrow> Flags e AND FlagZSetAdd \<noteq> 0"
definition IsZSetRem :: "entry \<Rightarrow> bool" where "IsZSetRem e \<longleftrightarrow> Flags e AND FlagZSetRem \<noteq> 0"
definition IsGeo :: "entry \<Rightarrow> bool" where "IsGeo e \<longleftrightarrow> Flags e AND FlagGeo \<noteq> 0"
definition IsGeoAdd :: "entry \<Rightarrow> bool" where "IsGeoAdd e \<longleftrightarrow> Flags e AND FlagGeoAdd \<noteq> 0"
definition IsGeoRem :: "entry \<Rightarrow> bool" where "IsGeoRem e \<longleftrightarrow> Flags e AND FlagGeoRem \<noteq> 0"
definition IsList :: "entry \<Rightarrow> bool" where "IsList e \<longleftrightarrow> Flags e AND FlagList \<noteq> 0"
definition IsListLPush :: "entry \<Rightarrow> bool" where "IsListLPush e \<longleftrightarrow> Flags e AND FlagListLPush \<noteq> 0"
definition IsListRPush :: "entry \<Rightarrow> bool" where "IsListRPush e \<longleftrightarrow> Flags e AND FlagListRPush \<noteq> 0"
definition IsHash :: "entry \<Rightarrow> bool" where "IsHash e \<longleftrightarrow> Flags e AND FlagHash \<noteq> 0"
definition IsHashSet :: "entry \<Rightarrow> bool" where "IsHashSet e \<longleftrightarrow> Flags e AND FlagHashSet \<noteq> 0"
definition IsHashDel :: "entry \<Rightarrow> bool" where "IsHashDel e \<longleftrightarrow> Flags e AND FlagHashDel \<noteq> 0"
definition IsCounter :: "entry \<Rightarrow> bool" where "IsCounter e \<longleftrightarrow> Flags e AND FlagCounter \<noteq> 0"
definition IsJSON :: "entry \<Rightarrow> bool" where "IsJSON e \<longleftrightarrow> Flags e AND FlagJSON \<noteq> 0"
definition IsJSONSet :: "entry \<Rightarrow> bool" where "IsJSONSet e \<longleftrightarrow> Flags e AND FlagJSONSet \<noteq> 0"
definition IsJSONDel :: "entry \<Rightarrow> bool" where "IsJSONDel e \<longleftrightarrow> Flags e AND FlagJSONDel \<noteq> 0"
definition IsBitmap :: "entry \<Rightarrow> bool" where "IsBitmap e \<longleftrightarrow> Flags e AND FlagBitmap \<noteq> 0"
definition IsBitmapSet :: "entry \<Rightarrow> bool" where "IsBitmapSet e \<longleftrightarrow> Flags e AND FlagBitmapSet \<noteq> 0"
definition IsHLL :: "entry \<Rightarrow> bool" where "IsHLL e \<longleftrightarrow> Flags e AND FlagHLL \<noteq> 0"
definition IsHLLAdd :: "entry \<Rightarrow> bool" where "IsHLLAdd e \<longleftrightarrow> Flags e AND FlagHLLAdd \<noteq> 0"
definition IsTopK :: "entry \<Rightarrow> bool" where "IsTopK e \<longleftrightarrow> Flags e AND FlagTopK \<noteq> 0"
definition IsTopKAdd :: "entry \<Rightarrow> bool" where "IsTopKAdd e \<longleftrightarrow> Flags e AND FlagTopKAdd \<noteq> 0"
definition IsCMS :: "entry \<Rightarrow> bool" where "IsCMS e \<longleftrightarrow> Flags e AND FlagCMS \<noteq> 0"
definition IsCMSIncr :: "entry \<Rightarrow> bool" where "IsCMSIncr e \<longleftrightarrow> Flags e AND FlagCMSIncr \<noteq> 0"
definition IsVectorSet :: "entry \<Rightarrow> bool" where "IsVectorSet e \<longleftrightarrow> Flags e AND FlagVectorSet \<noteq> 0"
definition IsStream :: "entry \<Rightarrow> bool" where "IsStream e \<longleftrightarrow> Flags e AND FlagStream \<noteq> 0"

lemmas Is_defs [flag_simps] =
  IsNegative_def
  IsTombstone_def
  IsBloom_def
  IsBloomAdd_def
  IsSet_def
  IsSetAdd_def
  IsSetRemove_def
  IsZSet_def
  IsZSetAdd_def
  IsZSetRem_def
  IsGeo_def
  IsGeoAdd_def
  IsGeoRem_def
  IsList_def
  IsListLPush_def
  IsListRPush_def
  IsHash_def
  IsHashSet_def
  IsHashDel_def
  IsCounter_def
  IsJSON_def
  IsJSONSet_def
  IsJSONDel_def
  IsBitmap_def
  IsBitmapSet_def
  IsHLL_def
  IsHLLAdd_def
  IsTopK_def
  IsTopKAdd_def
  IsCMS_def
  IsCMSIncr_def
  IsVectorSet_def
  IsStream_def

section \<open>Operations\<close>

definition Expired :: "entry \<Rightarrow> time \<Rightarrow> bool" where
  "Expired e now = (if ExpireAt e = 0 then False else ExpireAt e \<le> now)"

definition CloneValue :: "entry \<Rightarrow> bytes" where
  "CloneValue e = Value e"

definition Cost :: "entry \<Rightarrow> int" where
  "Cost e = int (length (Value e)) + 64"

definition entryCost :: "bytes \<Rightarrow> entry \<Rightarrow> int" where
  "entryCost k e = int (length k) + Cost e"

definition copyEntry :: "entry \<Rightarrow> entry" where
  "copyEntry e = \<lparr>Value = CloneValue e, Version = Version e, ExpireAt = ExpireAt e, Flags = Flags e\<rparr>"

lemma copyEntry_id [simp]: "copyEntry e = e"
  by (simp add: copyEntry_def CloneValue_def)

lemma entryCost_pos: "0 < entryCost k e"
  by (simp add: entryCost_def Cost_def)

text \<open>Expiry is permanent: an entry that has expired stays expired.\<close>

lemma Expired_mono: "Expired e t \<Longrightarrow> t \<le> t' \<Longrightarrow> Expired e t'"
  by (auto simp: Expired_def split: if_splits)

text \<open>Entries that carry no flag of a cached container: plain values, negatives,
  tombstones and the containers kept only in encoded form.\<close>

definition plain :: "entry \<Rightarrow> bool" where
  "plain e \<longleftrightarrow> \<not> IsSet e \<and> \<not> IsZSet e \<and> \<not> IsGeo e \<and> \<not> IsList e \<and> \<not> IsHash e \<and> \<not> IsJSON e"

end
