(* ===== verification/SetCodec.thy ===== *)
theory SetCodec
  imports Prelude
begin

text \<open>
  The exact set of \<open>pkg/set/set.go\<close> and its wire form. A Go
  \<open>map[string]struct{}\<close> is a finite set of byte strings; a nil map and an empty
  map behave alike in every operation. \<open>Encode\<close> writes the members in byte
  order, each with a uvarint length prefix.
\<close>

section \<open>The set\<close>

type_synonym gset = "bytes fset"

definition set_New :: gset where
  "set_New = {||}"

definition set_Add :: "bytes \<Rightarrow> gset \<Rightarrow> gset" where
  "set_Add item s = finsert item s"

definition set_Remove :: "bytes \<Rightarrow> gset \<Rightarrow> gset" where
  "set_Remove item s = s - {|item|}"

definition set_Contains :: "gset \<Rightarrow> bytes \<Rightarrow> bool" where
  "set_Contains s item \<longleftrightarrow> item |\<in>| s"

definition set_Len :: "gset \<Rightarrow> nat" where
  "set_Len s = fcard s"

definition set_FromMembers :: "bytes list \<Rightarrow> gset" where
  "set_FromMembers items = fold set_Add items set_New"

definition set_Members :: "gset \<Rightarrow> bytes list" where
  "set_Members s = sorted_list_of_fset s"

definition set_Encode :: "gset \<Rightarrow> bytes" where
  "set_Encode s = concat (map put_item (set_Members s))"

definition set_ApproxWireBytes :: "gset \<Rightarrow> int" where
  "set_ApproxWireBytes s =
     (\<Sum>k \<in> fset s. int (uvarintSize (of_nat (length k))) + int (length k))"

text \<open>The loop of \<open>Decode\<close>.\<close>

function set_decode_loop :: "bytes \<Rightarrow> bytes list \<Rightarrow> codec_err + bytes list" where
  "set_decode_loop b out =
     (if b = [] then Inr out
      else case take_item b of
        Inl e \<Rightarrow> Inl e
      | Inr (item, r) \<Rightarrow> set_decode_loop r (out @ [item]))"
  by pat_completeness auto
termination
  by (relation "measure (\<lambda>(b, out). length b)") (auto dest: take_item_shorter)

declare set_decode_loop.simps [simp del]

definition set_Decode :: "bytes \<Rightarrow> codec_err + bytes list" where
  "set_Decode b =
     (if b = [] then Inr []
      else case set_decode_loop b [] of
        Inl e \<Rightarrow> Inl e
      | Inr out \<Rightarrow> Inr (set_Members (set_FromMembers out)))"

definition set_DecodeSet :: "bytes \<Rightarrow> codec_err + gset" where
  "set_DecodeSet b =
     (case set_Decode b of Inl e \<Rightarrow> Inl e | Inr mem \<Rightarrow> Inr (set_FromMembers mem))"

text \<open>Every member is a Go string, so its length fits an \<open>int\<close>.\<close>

definition set_ok :: "gset \<Rightarrow> bool" where
  "set_ok s \<longleftrightarrow> (\<forall>k \<in> fset s. go_len k)"

section \<open>Facts\<close>

lemma fset_fold_Add: "fset (fold set_Add xs s) = set xs \<union> fset s"
  by (induction xs arbitrary: s) (auto simp: set_Add_def)

lemma fset_FromMembers [simp]: "fset (set_FromMembers xs) = set xs"
  by (simp add: set_FromMembers_def fset_fold_Add set_New_def)

lemma set_set_Members [simp]: "set (set_Members s) = fset s"
  by (simp add: set_Members_def)

lemma FromMembers_Members [simp]: "set_FromMembers (set_Members s) = s"
  by (rule fset_inject [THEN iffD1]) simp

lemma distinct_set_Members [simp]: "distinct (set_Members s)"
  by (simp add: set_Members_def)

lemma set_Contains_Add: "set_Contains (set_Add x s) y \<longleftrightarrow> x = y \<or> set_Contains s y"
  by (auto simp: set_Contains_def set_Add_def)

lemma set_Contains_Remove: "set_Contains (set_Remove x s) y \<longleftrightarrow> x \<noteq> y \<and> set_Contains s y"
  by (auto simp: set_Contains_def set_Remove_def)

lemma set_decode_loop_items:
  "\<forall>k \<in> set xs. go_len k \<Longrightarrow> set_decode_loop (concat (map put_item xs)) out = Inr (out @ xs)"
  by (induction xs arbitrary: out) (auto simp: set_decode_loop.simps codec_simps)

lemma set_Encode_Nil_iff: "set_Encode s = [] \<longleftrightarrow> s = {||}"
  by (auto simp: set_Encode_def set_Members_def sorted_list_of_fset.rep_eq bot_fset.rep_eq fset_inject [symmetric]
      simp del: fset_inject)

lemma sum_list_set_Members:
  "sum_list (map f (set_Members s)) = (\<Sum>k \<in> fset s. (f k :: int))"
  by (simp add: sum_list_distinct_conv_sum_set)

lemma set_DecodeSet_Encode:
  assumes "set_ok s"
  shows "set_DecodeSet (set_Encode s) = Inr s"
proof (cases "s = {||}")
  case True
  then show ?thesis
    by (simp add: set_Encode_Nil_iff [THEN iffD2] set_DecodeSet_def set_Decode_def set_FromMembers_def set_New_def)
next
  case False
  then have "set_Encode s \<noteq> []" by (simp add: set_Encode_Nil_iff)
  moreover have "set_decode_loop (set_Encode s) [] = Inr (set_Members s)"
    using assms by (simp add: set_Encode_def set_decode_loop_items set_ok_def)
  ultimately show ?thesis by (simp add: set_DecodeSet_def set_Decode_def)
qed

lemma length_set_Encode: "int (length (set_Encode s)) = set_ApproxWireBytes s"
  unfolding set_ApproxWireBytes_def sum_list_set_Members [symmetric]
  by (simp add: set_Encode_def length_concat length_put_item comp_def flip: of_nat_add)
    (simp add: sum_list_of_nat [symmetric] comp_def)

lemma set_decode_loop_go_len:
  "set_decode_loop b out = Inr xs \<Longrightarrow> go_len b \<Longrightarrow> \<forall>k \<in> set out. go_len k \<Longrightarrow> \<forall>k \<in> set xs. go_len k"
proof (induction b out rule: set_decode_loop.induct)
  case (1 b out)
  show ?case
  proof (cases "b = []")
    case False
    with 1(2) obtain k r where *: "take_item b = Inr (k, r)" "set_decode_loop r (out @ [k]) = Inr xs"
      by (subst (asm) set_decode_loop.simps) (auto split: sum.splits)
    with 1(3,4) have "\<forall>k \<in> set (out @ [k]). go_len k" "go_len r"
      using take_item_go_len by auto
    then show ?thesis
      using 1(1) [OF False *(1) refl *(2)] by blast
  qed (use 1(2,4) in \<open>simp add: set_decode_loop.simps\<close>)
qed

lemma set_DecodeSet_ok: "go_len b \<Longrightarrow> set_DecodeSet b = Inr s \<Longrightarrow> set_ok s"
  using set_decode_loop_go_len [of b "[]"]
  by (auto simp: set_DecodeSet_def set_Decode_def set_ok_def split: if_splits sum.splits)

interpretation sc: blob_codec set_Encode set_DecodeSet set_ApproxWireBytes set_ok
  by unfold_locales (simp_all add: set_DecodeSet_Encode length_set_Encode set_DecodeSet_ok)

lemma set_ok_ops:
  "set_ok set_New"
  "set_ok s \<Longrightarrow> go_len x \<Longrightarrow> set_ok (set_Add x s)"
  "set_ok s \<Longrightarrow> set_ok (set_Remove x s)"
  by (auto simp: set_ok_def set_New_def set_Add_def set_Remove_def)

end
