(* ===== verification/ListCodec.thy ===== *)
theory ListCodec
  imports Prelude
begin

text \<open>
  The list of \<open>pkg/list/codec.go\<close> (index 0 is the head), its Redis-style index
  and range resolution, and its wire form.
\<close>

type_synonym glist = "bytes list"

definition list_New :: glist where
  "list_New = []"

definition list_LPush :: "bytes \<Rightarrow> glist \<Rightarrow> glist" where
  "list_LPush item l = item # l"

definition list_RPush :: "bytes \<Rightarrow> glist \<Rightarrow> glist" where
  "list_RPush item l = l @ [item]"

text \<open>A pop returns the item and the shortened list, or None on an empty list.\<close>

definition list_LPop :: "glist \<Rightarrow> (bytes \<times> glist) option" where
  "list_LPop l = (case l of [] \<Rightarrow> None | it # r \<Rightarrow> Some (it, r))"

definition list_RPop :: "glist \<Rightarrow> (bytes \<times> glist) option" where
  "list_RPop l = (if l = [] then None else Some (last l, butlast l))"

definition list_Len :: "glist \<Rightarrow> int" where
  "list_Len l = int (length l)"

definition list_resolve :: "glist \<Rightarrow> int \<Rightarrow> int option" where
  "list_resolve l idx =
     (let n = list_Len l in
      if n = 0 then None
      else let i = (if idx < 0 then n + idx else idx) in
        if i < 0 \<or> n \<le> i then None else Some i)"

definition list_Index :: "glist \<Rightarrow> int \<Rightarrow> bytes option" where
  "list_Index l idx = (case list_resolve l idx of None \<Rightarrow> None | Some i \<Rightarrow> Some (l ! nat i))"

text \<open>\<open>Range\<close>: both ends resolved and clamped, then the inclusive window.\<close>

definition list_Range :: "glist \<Rightarrow> int \<Rightarrow> int \<Rightarrow> bytes list" where
  "list_Range l start stop =
     (let n = list_Len l in
      if n = 0 then []
      else
        let start1 = (if start < 0 then n + start else start);
            stop1 = (if stop < 0 then n + stop else stop);
            start2 = (if start1 < 0 then 0 else start1);
            stop2 = (if n \<le> stop1 then n - 1 else stop1)
        in if stop2 < start2 \<or> n \<le> start2 then []
           else map (\<lambda>i. l ! nat i) [start2..stop2])"

definition list_Encode :: "glist \<Rightarrow> bytes" where
  "list_Encode l = concat (map put_item l)"

definition list_ApproxWireBytes :: "glist \<Rightarrow> int" where
  "list_ApproxWireBytes l =
     sum_list (map (\<lambda>it. int (uvarintSize (of_nat (length it))) + int (length it)) l)"

function list_decode_loop :: "bytes \<Rightarrow> glist \<Rightarrow> codec_err + glist" where
  "list_decode_loop b l =
     (if b = [] then Inr l
      else case take_item b of
        Inl e \<Rightarrow> Inl e
      | Inr (item, r) \<Rightarrow> list_decode_loop r (l @ [item]))"
  by pat_completeness auto
termination
  by (relation "measure (\<lambda>(b, out). length b)") (auto dest: take_item_shorter)

declare list_decode_loop.simps [simp del]

definition list_Decode :: "bytes \<Rightarrow> codec_err + glist" where
  "list_Decode b = list_decode_loop b list_New"

definition list_ok :: "glist \<Rightarrow> bool" where
  "list_ok l \<longleftrightarrow> (\<forall>it \<in> set l. go_len it)"

section \<open>Facts\<close>

lemma list_decode_loop_items:
  "\<forall>k \<in> set xs. go_len k \<Longrightarrow> list_decode_loop (concat (map put_item xs)) out = Inr (out @ xs)"
  by (induction xs arbitrary: out) (auto simp: list_decode_loop.simps codec_simps)

lemma list_Decode_Encode: "list_ok l \<Longrightarrow> list_Decode (list_Encode l) = Inr l"
  by (simp add: list_Decode_def list_Encode_def list_New_def list_ok_def list_decode_loop_items)

lemma length_list_Encode: "list_ApproxWireBytes l = int (length (list_Encode l))"
  by (induction l) (simp_all add: list_ApproxWireBytes_def list_Encode_def length_put_item)

lemma list_decode_loop_ok:
  "list_decode_loop b l = Inr l' \<Longrightarrow> go_len b \<Longrightarrow> list_ok l \<Longrightarrow> list_ok l'"
proof (induction b l rule: list_decode_loop.induct)
  case (1 b l)
  show ?case
  proof (cases "b = []")
    case False
    with 1(2) obtain k r where *: "take_item b = Inr (k, r)" "list_decode_loop r (l @ [k]) = Inr l'"
      by (subst (asm) list_decode_loop.simps) (auto split: sum.splits)
    with 1(3,4) have "list_ok (l @ [k])" "go_len r"
      using take_item_go_len by (auto simp: list_ok_def)
    then show ?thesis
      using 1(1) [OF False *(1) refl *(2)] by blast
  qed (use 1(2,4) in \<open>simp add: list_decode_loop.simps\<close>)
qed

lemma list_ok_ops:
  "list_ok list_New"
  "list_ok l \<Longrightarrow> go_len x \<Longrightarrow> list_ok (list_LPush x l)"
  "list_ok l \<Longrightarrow> go_len x \<Longrightarrow> list_ok (list_RPush x l)"
  "list_ok l \<Longrightarrow> list_LPop l = Some (y, l') \<Longrightarrow> list_ok l'"
  "list_ok l \<Longrightarrow> list_RPop l = Some (y, l') \<Longrightarrow> list_ok l'"
  by (auto simp: list_ok_def list_New_def list_LPush_def list_RPush_def list_LPop_def list_RPop_def
      split: list.splits if_splits dest: in_set_butlastD)

lemma list_Decode_ok: "go_len b \<Longrightarrow> list_Decode b = Inr l \<Longrightarrow> list_ok l"
  by (simp add: list_Decode_def list_decode_loop_ok list_ok_ops)

interpretation lc: blob_codec list_Encode list_Decode list_ApproxWireBytes list_ok
  by unfold_locales (simp_all add: list_Decode_Encode length_list_Encode list_Decode_ok)

text \<open>Pops undo pushes at their own end, and pops at the two ends see the list's ends.\<close>

lemma list_LPop_LPush [simp]: "list_LPop (list_LPush x l) = Some (x, l)"
  by (simp add: list_LPop_def list_LPush_def)

lemma list_RPop_RPush [simp]: "list_RPop (list_RPush x l) = Some (x, l)"
  by (simp add: list_RPop_def list_RPush_def)

lemma map_nth_upto:
  "0 \<le> a \<Longrightarrow> b < int (length l) \<Longrightarrow> map (\<lambda>i. l ! nat i) [a..b] = take (nat (b - a + 1)) (drop (nat a) l)"
proof (rule nth_equalityI)
  assume a: "0 \<le> a" "b < int (length l)"
  then show "length (map (\<lambda>i. l ! nat i) [a..b]) = length (take (nat (b - a + 1)) (drop (nat a) l))"
    by simp
  fix i assume "i < length (map (\<lambda>i. l ! nat i) [a..b])"
  then have "i < nat (b - a + 1)" by simp
  moreover from this a have "[a..b] ! i = a + int i" by (intro nth_upto) linarith
  ultimately show "map (\<lambda>i. l ! nat i) [a..b] ! i = take (nat (b - a + 1)) (drop (nat a) l) ! i"
    using a by (simp add: nat_add_distrib)
qed

text \<open>The window as a slice: a negative end counts from the tail, and whatever lies
  outside the list is cut off.\<close>

definition list_from_end :: "glist \<Rightarrow> int \<Rightarrow> int" where
  "list_from_end l i = (if i < 0 then int (length l) + i else i)"

lemma list_Range_slice:
  "list_Range l start stop =
     take (nat (list_from_end l stop + 1 - max 0 (list_from_end l start)))
       (drop (nat (max 0 (list_from_end l start))) l)"
proof -
  define lo where "lo = max 0 (list_from_end l start)"
  define hi where "hi = list_from_end l stop"
  have R: "list_Range l start stop =
    (if length l = 0 \<or> min hi (int (length l) - 1) < lo \<or> int (length l) \<le> lo then []
     else map (\<lambda>i. l ! nat i) [lo..min hi (int (length l) - 1)])"
    by (auto simp: list_Range_def list_Len_def Let_def lo_def hi_def list_from_end_def min_def max_def)
  have lo: "0 \<le> lo" by (simp add: lo_def)
  have "list_Range l start stop = take (nat (hi + 1 - lo)) (drop (nat lo) l)"
  proof (cases "length l = 0 \<or> min hi (int (length l) - 1) < lo \<or> int (length l) \<le> lo")
    case True
    then show ?thesis using lo by (auto simp: R)
  next
    case False
    have "map (\<lambda>i. l ! nat i) [lo..min hi (int (length l) - 1)] =
        take (nat (min hi (int (length l) - 1) - lo + 1)) (drop (nat lo) l)"
      using lo by (intro map_nth_upto) auto
    also have "\<dots> = take (nat (hi + 1 - lo)) (drop (nat lo) l)"
      using False by (cases "hi \<le> int (length l) - 1") (auto simp: min_def algebra_simps)
    finally show ?thesis using False R by simp
  qed
  then show ?thesis by (simp add: lo_def hi_def)
qed

end
