(* ===== verification/HashCodec.thy ===== *)
theory HashCodec
  imports Prelude
begin

text \<open>
  The field map of \<open>pkg/hashx/hashx.go\<close> and its two wire forms: the whole hash in
  field-byte order, and the single field/value pair sent by fan-out.
\<close>

type_synonym ghash = "(bytes, bytes) fmap"

definition hash_New :: ghash where
  "hash_New = fmempty"

definition hash_Set :: "bytes \<Rightarrow> bytes \<Rightarrow> ghash \<Rightarrow> ghash" where
  "hash_Set field value h = fmupd field value h"

definition hash_Del :: "bytes \<Rightarrow> ghash \<Rightarrow> ghash" where
  "hash_Del field h = fmdrop field h"

definition hash_Get :: "ghash \<Rightarrow> bytes \<Rightarrow> bytes option" where
  "hash_Get h field = fmlookup h field"

definition hash_Exists :: "ghash \<Rightarrow> bytes \<Rightarrow> bool" where
  "hash_Exists h field = (case fmlookup h field of None \<Rightarrow> False | Some v \<Rightarrow> True)"

definition hash_Len :: "ghash \<Rightarrow> nat" where
  "hash_Len h = fcard (fmdom h)"

definition hash_All :: "ghash \<Rightarrow> (bytes \<times> bytes) list" where
  "hash_All h = sorted_list_of_fmap h"

definition put_pair :: "bytes \<Rightarrow> bytes \<Rightarrow> bytes" where
  "put_pair field value = put_item field @ put_item value"

definition hash_Encode :: "ghash \<Rightarrow> bytes" where
  "hash_Encode h = concat (map (\<lambda>(f, v). put_pair f v) (hash_All h))"

definition hash_ApproxWireBytes :: "ghash \<Rightarrow> int" where
  "hash_ApproxWireBytes h =
     (\<Sum>k \<in> fset (fmdom h). let v = the (fmlookup h k) in
        int (uvarintSize (of_nat (length k))) + int (length k) +
        (int (uvarintSize (of_nat (length v))) + int (length v)))"

definition hash_consumePair :: "bytes \<Rightarrow> codec_err + bytes \<times> bytes \<times> bytes" where
  "hash_consumePair b =
     (case take_item b of
        Inl e \<Rightarrow> Inl e
      | Inr (field, r) \<Rightarrow>
          (case take_item r of
             Inl e \<Rightarrow> Inl e
           | Inr (value, rest) \<Rightarrow> Inr (field, value, rest)))"

lemma hash_consumePair_shorter: "hash_consumePair b = Inr (f, v, r) \<Longrightarrow> length r < length b"
  by (auto simp: hash_consumePair_def split: sum.splits dest!: take_item_shorter)

function hash_decode_loop :: "bytes \<Rightarrow> ghash \<Rightarrow> codec_err + ghash" where
  "hash_decode_loop b h =
     (if b = [] then Inr h
      else case hash_consumePair b of
        Inl e \<Rightarrow> Inl e
      | Inr (field, value, rest) \<Rightarrow> hash_decode_loop rest (hash_Set field value h))"
  by pat_completeness auto
termination
  by (relation "measure (\<lambda>(b, h). length b)") (auto dest: hash_consumePair_shorter)

declare hash_decode_loop.simps [simp del]

definition hash_Decode :: "bytes \<Rightarrow> codec_err + ghash" where
  "hash_Decode b = hash_decode_loop b hash_New"

definition hash_EncodeSet :: "bytes \<Rightarrow> bytes \<Rightarrow> bytes" where
  "hash_EncodeSet field value = put_pair field value"

definition hash_DecodeSet :: "bytes \<Rightarrow> codec_err + bytes \<times> bytes" where
  "hash_DecodeSet b =
     (if b = [] then Inl BadValue
      else case hash_consumePair b of
        Inl e \<Rightarrow> Inl e
      | Inr (field, value, rest) \<Rightarrow> if rest \<noteq> [] then Inl BadValue else Inr (field, value))"

definition hash_ok :: "ghash \<Rightarrow> bool" where
  "hash_ok h \<longleftrightarrow> (\<forall>(k, v) \<in> set (hash_All h). go_len k \<and> go_len v)"

section \<open>Facts\<close>

lemma put_pair_not_Nil [simp]: "put_pair f v \<noteq> []"
  by (simp add: put_pair_def)

lemma hash_consumePair_put_pair [codec_simps]:
  "go_len f \<Longrightarrow> go_len v \<Longrightarrow> hash_consumePair (put_pair f v @ rest) = Inr (f, v, rest)"
  by (simp add: hash_consumePair_def put_pair_def codec_simps)

lemma hash_decode_loop_pairs:
  "\<forall>(f, v) \<in> set xs. go_len f \<and> go_len v \<Longrightarrow>
   hash_decode_loop (concat (map (\<lambda>(f, v). put_pair f v) xs)) h = Inr (fold (\<lambda>(f, v). hash_Set f v) xs h)"
  by (induction xs arbitrary: h) (auto simp: hash_decode_loop.simps codec_simps)

lemma hash_All_distinct: "distinct (map fst (hash_All h))"
  by (simp add: hash_All_def)

lemma set_hash_All: "set (hash_All h) = {(k, v). fmlookup h k = Some v}"
  by (simp add: hash_All_def set_sorted_list_of_fmap)

lemma hash_Decode_Encode:
  assumes "hash_ok h"
  shows "hash_Decode (hash_Encode h) = Inr h"
proof -
  have "fold (\<lambda>(f, v). hash_Set f v) (hash_All h) hash_New = h"
    unfolding hash_Set_def hash_New_def
    by (rule fold_fmupd_pairs [OF set_hash_All hash_All_distinct])
  then show ?thesis
    using assms by (simp add: hash_Decode_def hash_Encode_def hash_ok_def hash_decode_loop_pairs)
qed

lemma length_hash_Encode: "hash_ApproxWireBytes h = int (length (hash_Encode h))"
proof -
  let ?f = "\<lambda>k. int (length (put_pair k (the (fmlookup h k))))"
  have "int (length (hash_Encode h)) = sum_list (map ?f (sorted_list_of_fset (fmdom h)))"
    by (simp add: hash_Encode_def hash_All_def sorted_list_of_fmap_def length_concat comp_def
        sum_list_of_nat [symmetric])
  also have "\<dots> = (\<Sum>k \<in> fset (fmdom h). ?f k)"
    by (simp add: sum_list_distinct_conv_sum_set)
  also have "\<dots> = hash_ApproxWireBytes h"
    by (simp add: hash_ApproxWireBytes_def put_pair_def length_put_item Let_def)
  finally show ?thesis by simp
qed

lemma hash_ok_lookup: "hash_ok h \<longleftrightarrow> (\<forall>k v. fmlookup h k = Some v \<longrightarrow> go_len k \<and> go_len v)"
  by (auto simp: hash_ok_def set_hash_All)

lemma hash_ok_ops:
  "hash_ok hash_New"
  "hash_ok h \<Longrightarrow> go_len k \<Longrightarrow> go_len v \<Longrightarrow> hash_ok (hash_Set k v h)"
  "hash_ok h \<Longrightarrow> hash_ok (hash_Del k h)"
  by (auto simp: hash_ok_lookup hash_New_def hash_Set_def hash_Del_def split: if_splits)

lemma hash_consumePair_go_len:
  "hash_consumePair b = Inr (f, v, r) \<Longrightarrow> go_len b \<Longrightarrow> go_len f \<and> go_len v \<and> go_len r"
  by (auto simp: hash_consumePair_def split: sum.splits dest!: take_item_go_len)

lemma hash_decode_loop_ok:
  "hash_decode_loop b h = Inr h' \<Longrightarrow> go_len b \<Longrightarrow> hash_ok h \<Longrightarrow> hash_ok h'"
proof (induction b h rule: hash_decode_loop.induct)
  case (1 b h)
  show ?case
  proof (cases "b = []")
    case False
    with 1(2) obtain k v r where *: "hash_consumePair b = Inr (k, v, r)"
        "hash_decode_loop r (hash_Set k v h) = Inr h'"
      by (subst (asm) hash_decode_loop.simps) (auto split: sum.splits)
    with 1(3,4) show ?thesis
      using 1(1) [OF False *(1) refl refl *(2)] by (metis hash_consumePair_go_len hash_ok_ops(2))
  qed (use 1(2,4) in \<open>simp add: hash_decode_loop.simps\<close>)
qed

lemma hash_Decode_ok: "go_len b \<Longrightarrow> hash_Decode b = Inr h \<Longrightarrow> hash_ok h"
  by (simp add: hash_Decode_def hash_decode_loop_ok hash_ok_ops)

interpretation hc: blob_codec hash_Encode hash_Decode hash_ApproxWireBytes hash_ok
  by unfold_locales (simp_all add: hash_Decode_Encode length_hash_Encode hash_Decode_ok)

lemma hash_DecodeSet_EncodeSet:
  "go_len f \<Longrightarrow> go_len v \<Longrightarrow> hash_DecodeSet (hash_EncodeSet f v) = Inr (f, v)"
  using hash_consumePair_put_pair [of f v "[]"] by (simp add: hash_DecodeSet_def hash_EncodeSet_def)

end
