(* ===== verification/ZSetCodec.thy ===== *)
theory ZSetCodec
  imports Prelude
begin

text \<open>
  The sorted set of \<open>pkg/zset/zset.go\<close>: a map from members to \<open>float64\<close> scores,
  listed by ascending score and then by member bytes. Scores are kept as bit
  patterns and compared with the IEEE rules of the prelude; \<open>Add\<close> refuses NaN, so
  the order is total on every set that the code builds.
\<close>

type_synonym gzset = "(bytes, f64) fmap"
type_synonym zmember = "bytes \<times> f64"

definition zset_New :: gzset where
  "zset_New = fmempty"

definition zset_Add :: "bytes \<Rightarrow> f64 \<Rightarrow> gzset \<Rightarrow> codec_err + gzset" where
  "zset_Add member score z = (if f64_is_nan score then Inl BadValue else Inr (fmupd member score z))"

definition zset_Rem :: "bytes \<Rightarrow> gzset \<Rightarrow> gzset" where
  "zset_Rem member z = fmdrop member z"

definition zset_Score :: "gzset \<Rightarrow> bytes \<Rightarrow> f64 option" where
  "zset_Score z member = fmlookup z member"

definition zset_Card :: "gzset \<Rightarrow> nat" where
  "zset_Card z = fcard (fmdom z)"

definition zset_less :: "zmember \<Rightarrow> zmember \<Rightarrow> bool" where
  "zset_less a b =
     (if \<not> f64_eq (snd a) (snd b) then f64_lt (snd a) (snd b) else fst a < fst b)"

definition zset_ordered :: "gzset \<Rightarrow> zmember list" where
  "zset_ordered z = sort_by zset_less (sorted_list_of_fmap z)"

definition zset_Range :: "gzset \<Rightarrow> int \<Rightarrow> int \<Rightarrow> zmember list" where
  "zset_Range z start stop =
     (let all = zset_ordered z; n = int (length all) in
      if n = 0 then []
      else
        let start1 = (if start < 0 then n + start else start);
            stop1 = (if stop < 0 then n + stop else stop);
            start2 = (if start1 < 0 then 0 else start1);
            stop2 = (if n \<le> stop1 then n - 1 else stop1)
        in if stop2 < start2 \<or> n \<le> start2 then []
           else map (\<lambda>i. all ! nat i) [start2..stop2])"

text \<open>The loop of \<open>RangeByScore\<close>: skip below the window, stop above it.\<close>

fun zset_score_loop :: "f64 \<Rightarrow> f64 \<Rightarrow> zmember list \<Rightarrow> zmember list" where
  "zset_score_loop mn mx [] = []"
| "zset_score_loop mn mx (m # ms) =
     (if f64_lt (snd m) mn then zset_score_loop mn mx ms
      else if f64_lt mx (snd m) then []
      else m # zset_score_loop mn mx ms)"

definition zset_RangeByScore :: "gzset \<Rightarrow> f64 \<Rightarrow> f64 \<Rightarrow> zmember list" where
  "zset_RangeByScore z mn mx = zset_score_loop mn mx (zset_ordered z)"

definition put_zmember :: "zmember \<Rightarrow> bytes" where
  "put_zmember m = PutUint64LE (snd m) @ put_item (fst m)"

definition zset_Encode :: "gzset \<Rightarrow> bytes" where
  "zset_Encode z = concat (map put_zmember (zset_ordered z))"

definition zset_ApproxWireBytes :: "gzset \<Rightarrow> int" where
  "zset_ApproxWireBytes z =
     (\<Sum>k \<in> fset (fmdom z). 8 + int (uvarintSize (of_nat (length k))) + int (length k))"

definition take_zmember :: "bytes \<Rightarrow> codec_err + bytes \<times> f64 \<times> bytes" where
  "take_zmember b =
     (if length b < 8 then Inl Truncated
      else case take_item (drop 8 b) of
        Inl e \<Rightarrow> Inl e
      | Inr (mem, r) \<Rightarrow> Inr (mem, Uint64LE b, r))"

lemma take_zmember_shorter: "take_zmember b = Inr (mem, sc, r) \<Longrightarrow> length r < length b"
  by (auto simp: take_zmember_def split: if_splits sum.splits dest!: take_item_shorter)

function zset_decode_loop :: "bytes \<Rightarrow> gzset \<Rightarrow> codec_err + gzset" where
  "zset_decode_loop b z =
     (if b = [] then Inr z
      else case take_zmember b of
        Inl e \<Rightarrow> Inl e
      | Inr (mem, score, r) \<Rightarrow>
          (case zset_Add mem score z of
             Inl e \<Rightarrow> Inl e
           | Inr z' \<Rightarrow> zset_decode_loop r z'))"
  by pat_completeness auto
termination
  by (relation "measure (\<lambda>(b, z). length b)") (auto dest: take_zmember_shorter)

declare zset_decode_loop.simps [simp del]

definition zset_Decode :: "bytes \<Rightarrow> codec_err + gzset" where
  "zset_Decode b = zset_decode_loop b zset_New"

definition zset_EncodeAdd :: "bytes \<Rightarrow> f64 \<Rightarrow> bytes" where
  "zset_EncodeAdd member score =
     zset_Encode (case zset_Add member score zset_New of Inl e \<Rightarrow> zset_New | Inr z \<Rightarrow> z)"

definition zset_DecodeAdd :: "bytes \<Rightarrow> codec_err + zmember" where
  "zset_DecodeAdd b =
     (case zset_Decode b of
        Inl e \<Rightarrow> Inl e
      | Inr z \<Rightarrow> (case zset_ordered z of [m] \<Rightarrow> Inr m | _ \<Rightarrow> Inl BadValue))"

definition zset_ok :: "gzset \<Rightarrow> bool" where
  "zset_ok z \<longleftrightarrow> (\<forall>(k, s) \<in> set (sorted_list_of_fmap z). go_len k \<and> \<not> f64_is_nan s)"

section \<open>The order is total on NaN-free sets\<close>

definition zset_pairs :: "gzset \<Rightarrow> zmember set" where
  "zset_pairs z = {(k, s). fmlookup z k = Some s \<and> \<not> f64_is_nan s}"

interpretation zl: total_less zset_less "zset_pairs z" for z
proof
  fix a b c
  show "a \<in> zset_pairs z \<Longrightarrow> \<not> zset_less a a"
    by (auto simp: zset_less_def f64_lt_def f64_eq_def)
  show "a \<in> zset_pairs z \<Longrightarrow> b \<in> zset_pairs z \<Longrightarrow> c \<in> zset_pairs z \<Longrightarrow>
      zset_less a b \<Longrightarrow> zset_less b c \<Longrightarrow> zset_less a c"
    by (auto simp: zset_less_def f64_lt_def f64_eq_def zset_pairs_def split: if_splits)
  show "a \<in> zset_pairs z \<Longrightarrow> b \<in> zset_pairs z \<Longrightarrow> a \<noteq> b \<Longrightarrow> zset_less a b \<or> zset_less b a"
    by (auto simp: zset_less_def f64_lt_def f64_eq_def zset_pairs_def split: if_splits)
      (metis linorder_less_linear option.inject)
qed

lemma zset_ok_pairs: "zset_ok z \<Longrightarrow> set (sorted_list_of_fmap z) \<subseteq> zset_pairs z"
  by (auto simp: zset_ok_def zset_pairs_def set_sorted_list_of_fmap)

lemma set_zset_ordered [simp]: "set (zset_ordered z) = {(k, s). fmlookup z k = Some s}"
  by (simp add: zset_ordered_def set_sorted_list_of_fmap)

lemma distinct_sorted_list_of_fmap: "distinct (sorted_list_of_fmap m)"
  by (metis distinct_map distinct_sorted_list_of_fset map_fst_sorted_list_of_fmap)

lemma sorted_zset_ordered: "zset_ok z \<Longrightarrow> sorted_wrt zset_less (zset_ordered z)"
  unfolding zset_ordered_def
  by (rule zl.sorted_sort_by) (auto simp: zset_ok_pairs distinct_sorted_list_of_fmap dest: zset_ok_pairs)

lemma zset_ordered_unique:
  assumes "zset_ok z" "mset ms = mset (sorted_list_of_fmap z)" "sorted_wrt zset_less ms"
  shows "ms = zset_ordered z"
  unfolding zset_ordered_def
  by (rule zl.sort_by_unique [of _ z]) (use assms zset_ok_pairs distinct_sorted_list_of_fmap in auto)

lemma distinct_fst_zset_ordered: "distinct (map fst (zset_ordered z))"
proof -
  have "mset (map fst (zset_ordered z)) = mset (map fst (sorted_list_of_fmap z))"
    by (metis mset_map mset_sort_by zset_ordered_def)
  then show ?thesis
    by (metis distinct_sorted_list_of_fset map_fst_sorted_list_of_fmap mset_eq_imp_distinct_iff)
qed

section \<open>Codec\<close>

lemma take_zmember_put [codec_simps]:
  "go_len (fst m) \<Longrightarrow> take_zmember (put_zmember m @ rest) = Inr (fst m, snd m, rest)"
  by (simp add: take_zmember_def put_zmember_def codec_simps)

lemma put_zmember_not_Nil [simp]: "put_zmember m \<noteq> []"
  by (simp add: put_zmember_def)

lemma zset_decode_loop_members:
  "\<forall>(k, s) \<in> set xs. go_len k \<and> \<not> f64_is_nan s \<Longrightarrow>
   zset_decode_loop (concat (map put_zmember xs)) z = Inr (fold (\<lambda>(k, s). fmupd k s) xs z)"
  by (induction xs arbitrary: z) (auto simp: zset_decode_loop.simps codec_simps zset_Add_def)

lemma zset_Decode_Encode:
  assumes "zset_ok z"
  shows "zset_Decode (zset_Encode z) = Inr z"
proof -
  have "fold (\<lambda>(k, s). fmupd k s) (zset_ordered z) fmempty = z"
    by (rule fold_fmupd_pairs [OF set_zset_ordered distinct_fst_zset_ordered])
  moreover have "\<forall>(k, s) \<in> set (zset_ordered z). go_len k \<and> \<not> f64_is_nan s"
    using assms by (auto simp: zset_ok_def set_sorted_list_of_fmap)
  ultimately show ?thesis
    by (simp add: zset_Decode_def zset_Encode_def zset_New_def zset_decode_loop_members)
qed

lemma length_zset_Encode: "zset_ApproxWireBytes z = int (length (zset_Encode z))"
proof -
  let ?f = "\<lambda>k. 8 + int (length (put_item k))"
  have "int (length (zset_Encode z)) = sum_list (map ?f (map fst (zset_ordered z)))"
    by (simp add: zset_Encode_def length_concat comp_def put_zmember_def sum_list_of_nat [symmetric])
  also have "\<dots> = (\<Sum>k \<in> fset (fmdom z). ?f k)"
    using distinct_fst_zset_ordered [of z]
    by (simp add: sum_list_distinct_conv_sum_set del: map_map)
      (rule sum.cong, auto simp: image_iff fmlookup_dom_iff)
  also have "\<dots> = zset_ApproxWireBytes z"
    by (simp add: zset_ApproxWireBytes_def length_put_item algebra_simps)
  finally show ?thesis by simp
qed

lemma zset_ok_lookup: "zset_ok z \<longleftrightarrow> (\<forall>k s. fmlookup z k = Some s \<longrightarrow> go_len k \<and> \<not> f64_is_nan s)"
  by (auto simp: zset_ok_def set_sorted_list_of_fmap)

lemma zset_ok_ops:
  "zset_ok zset_New"
  "zset_ok z \<Longrightarrow> go_len k \<Longrightarrow> zset_Add k s z = Inr z' \<Longrightarrow> zset_ok z'"
  "zset_ok z \<Longrightarrow> zset_ok (zset_Rem k z)"
  by (auto simp: zset_ok_lookup zset_New_def zset_Add_def zset_Rem_def split: if_splits)

lemma take_zmember_go_len:
  "take_zmember b = Inr (k, s, r) \<Longrightarrow> go_len b \<Longrightarrow> go_len k \<and> go_len r"
  using take_item_go_len [of "drop 8 b"]
  by (auto simp: take_zmember_def go_len_def split: if_splits sum.splits)

lemma zset_decode_loop_ok:
  "zset_decode_loop b z = Inr z' \<Longrightarrow> go_len b \<Longrightarrow> zset_ok z \<Longrightarrow> zset_ok z'"
proof (induction b z rule: zset_decode_loop.induct)
  case (1 b z)
  show ?case
  proof (cases "b = []")
    case False
    with 1(2) obtain k s r z1 where *: "take_zmember b = Inr (k, s, r)" "zset_Add k s z = Inr z1"
        "zset_decode_loop r z1 = Inr z'"
      by (subst (asm) zset_decode_loop.simps) (auto split: sum.splits)
    with 1(3,4) show ?thesis
      using 1(1) [OF False *(1) refl refl *(2,3)] by (metis take_zmember_go_len zset_ok_ops(2))
  qed (use 1(2,4) in \<open>simp add: zset_decode_loop.simps\<close>)
qed

lemma zset_Decode_ok: "go_len b \<Longrightarrow> zset_Decode b = Inr z \<Longrightarrow> zset_ok z"
  by (simp add: zset_Decode_def zset_decode_loop_ok zset_ok_ops)

interpretation zc: blob_codec zset_Encode zset_Decode zset_ApproxWireBytes zset_ok
  by unfold_locales (simp_all add: zset_Decode_Encode length_zset_Encode zset_Decode_ok)

lemma zset_DecodeAdd_EncodeAdd:
  assumes "go_len k" "\<not> f64_is_nan s"
  shows "zset_DecodeAdd (zset_EncodeAdd k s) = Inr (k, s)"
proof -
  let ?z = "fmupd k s fmempty"
  have one: "sorted_list_of_fmap ?z = [(k, s)]"
    by (simp add: sorted_list_of_fmap_def sorted_list_of_fset.rep_eq finsert.rep_eq bot_fset.rep_eq)
  then have "zset_ok ?z" using assms by (simp add: zset_ok_def)
  then show ?thesis
    using assms one
    by (simp add: zset_DecodeAdd_def zset_EncodeAdd_def zset_Add_def zset_New_def
        zset_Decode_Encode zset_ordered_def sort_by_def)
qed

section \<open>Range by score\<close>

lemma zset_less_score_mono:
  "zset_less a b \<Longrightarrow> f64_lt mx (snd a) \<Longrightarrow> f64_lt mx (snd b)"
  by (auto simp: zset_less_def f64_lt_def f64_eq_def split: if_splits)

lemma zset_score_loop_filter:
  "sorted_wrt zset_less ms \<Longrightarrow>
   zset_score_loop mn mx ms = filter (\<lambda>m. \<not> f64_lt (snd m) mn \<and> \<not> f64_lt mx (snd m)) ms"
proof (induction ms)
  case Nil
  then show ?case by simp
next
  case (Cons m ms)
  have "filter (\<lambda>m. \<not> f64_lt (snd m) mn \<and> \<not> f64_lt mx (snd m)) ms = []" if "f64_lt mx (snd m)"
    using Cons.prems that by (auto simp: filter_empty_conv dest: zset_less_score_mono)
  then show ?case using Cons by auto
qed

end
