(* ===== verification/GeoCodec.thy ===== *)
theory GeoCodec
  imports Prelude
begin

text \<open>
  The point index of \<open>pkg/geo/geo.go\<close>: members with a longitude and a latitude,
  kept as \<open>float64\<close> bit patterns. The great-circle distance \<open>Haversine\<close> is
  written over the machine's arithmetic and trigonometric functions, the parameter \<open>fp\<close>.
\<close>

type_synonym geo_point = "f64 \<times> f64"
type_synonym ggeo = "(bytes, geo_point) fmap"

text \<open>The bit patterns of 180, -180, 90 and -90.\<close>

definition f64_180 :: f64 where "f64_180 = 0x4066800000000000"
definition f64_m180 :: f64 where "f64_m180 = 0xc066800000000000"
definition f64_90 :: f64 where "f64_90 = 0x4056800000000000"
definition f64_m90 :: f64 where "f64_m90 = 0xc056800000000000"

definition geo_New :: ggeo where
  "geo_New = fmempty"

definition geo_ValidCoord :: "f64 \<Rightarrow> f64 \<Rightarrow> bool" where
  "geo_ValidCoord lon lat =
     (if f64_is_nan lon \<or> f64_is_nan lat \<or> f64_is_inf lon \<or> f64_is_inf lat then False
      else f64_le f64_m180 lon \<and> f64_le lon f64_180 \<and> f64_le f64_m90 lat \<and> f64_le lat f64_90)"

definition geo_Add :: "bytes \<Rightarrow> f64 \<Rightarrow> f64 \<Rightarrow> ggeo \<Rightarrow> codec_err + ggeo" where
  "geo_Add member lon lat g =
     (if \<not> geo_ValidCoord lon lat then Inl BadValue else Inr (fmupd member (lon, lat) g))"

definition geo_Rem :: "bytes \<Rightarrow> ggeo \<Rightarrow> ggeo" where
  "geo_Rem member g = fmdrop member g"

definition geo_Pos :: "ggeo \<Rightarrow> bytes \<Rightarrow> geo_point option" where
  "geo_Pos g member = fmlookup g member"

definition geo_Card :: "ggeo \<Rightarrow> nat" where
  "geo_Card g = fcard (fmdom g)"

text \<open>Degrees to radians, then the haversine formula with the mean Earth radius 6371008.8 m;
  \<open>math.Pi\<close> to 36 places.\<close>

definition fp_pi :: "fpu \<Rightarrow> f64" where
  "fp_pi fp = fp_const fp 3141592653589793238462643383279502884 (10 ^ 36)"

definition radians :: "fpu \<Rightarrow> f64 \<Rightarrow> f64" where
  "radians fp x = fp_div fp (fp_mul fp x (fp_pi fp)) (fp_const fp 180 1)"

definition Haversine :: "fpu \<Rightarrow> f64 \<Rightarrow> f64 \<Rightarrow> f64 \<Rightarrow> f64 \<Rightarrow> f64" where
  "Haversine fp lon1 lat1 lon2 lat2 =
     (let p1 = radians fp lat1; p2 = radians fp lat2;
          dp = radians fp (fp_sub fp lat2 lat1); dl = radians fp (fp_sub fp lon2 lon1);
          sp = fp_sin fp (fp_div fp dp (fp_const fp 2 1)); sl = fp_sin fp (fp_div fp dl (fp_const fp 2 1));
          h = fp_add fp (fp_mul fp sp sp)
                (fp_mul fp (fp_mul fp (fp_mul fp (fp_cos fp p1) (fp_cos fp p2)) sl) sl)
      in fp_mul fp (fp_const fp 127420176 10) (fp_asin fp (fp_min fp (fp_const fp 1 1) (fp_sqrt fp h))))"

definition geo_Dist :: "fpu \<Rightarrow> ggeo \<Rightarrow> bytes \<Rightarrow> bytes \<Rightarrow> f64 option" where
  "geo_Dist fp g a b =
     (case (geo_Pos g a, geo_Pos g b) of
        (Some pa, Some pb) \<Rightarrow> Some (Haversine fp (fst pa) (snd pa) (fst pb) (snd pb))
      | _ \<Rightarrow> None)"

record geo_member =
  gm_Member :: bytes
  gm_Lon :: f64
  gm_Lat :: f64
  gm_Dist :: f64

definition geo_dist_less :: "geo_member \<Rightarrow> geo_member \<Rightarrow> bool" where
  "geo_dist_less a b =
     (if \<not> f64_eq (gm_Dist a) (gm_Dist b) then f64_lt (gm_Dist a) (gm_Dist b)
      else gm_Member a < gm_Member b)"

definition geo_hits :: "fpu \<Rightarrow> ggeo \<Rightarrow> f64 \<Rightarrow> f64 \<Rightarrow> f64 \<Rightarrow> geo_member list" where
  "geo_hits fp g lon lat radiusM =
     filter (\<lambda>m. \<not> f64_lt radiusM (gm_Dist m))
       (map (\<lambda>(k, p). \<lparr>gm_Member = k, gm_Lon = fst p, gm_Lat = snd p,
                        gm_Dist = Haversine fp lon lat (fst p) (snd p)\<rparr>)
         (sorted_list_of_fmap g))"

definition geo_Radius :: "fpu \<Rightarrow> ggeo \<Rightarrow> f64 \<Rightarrow> f64 \<Rightarrow> f64 \<Rightarrow> int \<Rightarrow> geo_member list" where
  "geo_Radius fp g lon lat radiusM limit =
     (let out = sort_by geo_dist_less (geo_hits fp g lon lat radiusM) in
      if 0 < limit \<and> limit < int (length out) then take (nat limit) out else out)"

definition geo_orderedMembers :: "ggeo \<Rightarrow> (bytes \<times> geo_point) list" where
  "geo_orderedMembers g = sorted_list_of_fmap g"

definition put_geo :: "bytes \<times> geo_point \<Rightarrow> bytes" where
  "put_geo m = PutUint64LE (fst (snd m)) @ PutUint64LE (snd (snd m)) @ put_item (fst m)"

definition geo_Encode :: "ggeo \<Rightarrow> bytes" where
  "geo_Encode g = concat (map put_geo (geo_orderedMembers g))"

definition geo_ApproxWireBytes :: "ggeo \<Rightarrow> int" where
  "geo_ApproxWireBytes g =
     (\<Sum>k \<in> fset (fmdom g). 16 + int (uvarintSize (of_nat (length k))) + int (length k))"

definition take_geo :: "bytes \<Rightarrow> codec_err + bytes \<times> f64 \<times> f64 \<times> bytes" where
  "take_geo b =
     (if length b < 16 then Inl Truncated
      else case take_item (drop 16 b) of
        Inl e \<Rightarrow> Inl e
      | Inr (mem, r) \<Rightarrow> Inr (mem, Uint64LE b, Uint64LE (drop 8 b), r))"

lemma take_geo_shorter: "take_geo b = Inr (mem, lon, lat, r) \<Longrightarrow> length r < length b"
  by (auto simp: take_geo_def split: if_splits sum.splits dest!: take_item_shorter)

function geo_decode_loop :: "bytes \<Rightarrow> ggeo \<Rightarrow> codec_err + ggeo" where
  "geo_decode_loop b g =
     (if b = [] then Inr g
      else case take_geo b of
        Inl e \<Rightarrow> Inl e
      | Inr (mem, lon, lat, r) \<Rightarrow>
          (case geo_Add mem lon lat g of
             Inl e \<Rightarrow> Inl e
           | Inr g' \<Rightarrow> geo_decode_loop r g'))"
  by pat_completeness auto
termination
  by (relation "measure (\<lambda>(b, z). length b)") (auto dest: take_geo_shorter)

declare geo_decode_loop.simps [simp del]

definition geo_Decode :: "bytes \<Rightarrow> codec_err + ggeo" where
  "geo_Decode b = geo_decode_loop b geo_New"

definition geo_EncodeAdd :: "bytes \<Rightarrow> f64 \<Rightarrow> f64 \<Rightarrow> bytes" where
  "geo_EncodeAdd member lon lat =
     geo_Encode (case geo_Add member lon lat geo_New of Inl e \<Rightarrow> geo_New | Inr g \<Rightarrow> g)"

definition geo_DecodeAdd :: "bytes \<Rightarrow> codec_err + bytes \<times> f64 \<times> f64" where
  "geo_DecodeAdd b =
     (case geo_Decode b of
        Inl e \<Rightarrow> Inl e
      | Inr g \<Rightarrow> (case geo_orderedMembers g of [(m, lon, lat)] \<Rightarrow> Inr (m, lon, lat) | _ \<Rightarrow> Inl BadValue))"

definition geo_ok :: "ggeo \<Rightarrow> bool" where
  "geo_ok g \<longleftrightarrow>
     (\<forall>(k, p) \<in> set (sorted_list_of_fmap g). go_len k \<and> geo_ValidCoord (fst p) (snd p))"

section \<open>Codec\<close>

lemma take_geo_put [codec_simps]:
  "go_len (fst m) \<Longrightarrow> take_geo (put_geo m @ rest) = Inr (fst m, fst (snd m), snd (snd m), rest)"
proof -
  have "drop 16 (put_geo m @ rest) = put_item (fst m) @ rest"
    by (simp add: put_geo_def)
  moreover have "drop 8 (put_geo m @ rest) = PutUint64LE (snd (snd m)) @ put_item (fst m) @ rest"
    by (simp add: put_geo_def)
  moreover have "\<not> length (put_geo m @ rest) < 16"
    by (simp add: put_geo_def)
  moreover have "Uint64LE (put_geo m @ rest) = fst (snd m)"
    by (simp add: put_geo_def codec_simps)
  ultimately show "go_len (fst m) \<Longrightarrow> ?thesis"
    by (simp add: take_geo_def codec_simps)
qed

lemma put_geo_not_Nil [simp]: "put_geo m \<noteq> []"
  by (simp add: put_geo_def)

lemma geo_decode_loop_members:
  "\<forall>(k, p) \<in> set xs. go_len k \<and> geo_ValidCoord (fst p) (snd p) \<Longrightarrow>
   geo_decode_loop (concat (map put_geo xs)) g = Inr (fold (\<lambda>(k, p). fmupd k p) xs g)"
  by (induction xs arbitrary: g) (auto simp: geo_decode_loop.simps codec_simps geo_Add_def)

lemma geo_Decode_Encode:
  assumes "geo_ok g"
  shows "geo_Decode (geo_Encode g) = Inr g"
proof -
  have "fold (\<lambda>(k, p). fmupd k p) (sorted_list_of_fmap g) fmempty = g"
    by (rule fold_fmupd_pairs [OF set_sorted_list_of_fmap]) simp
  then show ?thesis
    using assms by (simp add: geo_Decode_def geo_Encode_def geo_New_def geo_ok_def geo_decode_loop_members
        geo_orderedMembers_def)
qed

lemma length_geo_Encode: "geo_ApproxWireBytes g = int (length (geo_Encode g))"
proof -
  let ?f = "\<lambda>k. 16 + int (length (put_item k))"
  have "int (length (geo_Encode g)) = sum_list (map ?f (map fst (sorted_list_of_fmap g)))"
    by (simp add: geo_Encode_def geo_orderedMembers_def length_concat comp_def put_geo_def
        sum_list_of_nat [symmetric] del: map_fst_sorted_list_of_fmap)
  also have "\<dots> = (\<Sum>k \<in> fset (fmdom g). ?f k)"
    by (simp add: sum_list_distinct_conv_sum_set)
  also have "\<dots> = geo_ApproxWireBytes g"
    by (simp add: geo_ApproxWireBytes_def length_put_item algebra_simps)
  finally show ?thesis by simp
qed

lemma geo_ok_lookup:
  "geo_ok g \<longleftrightarrow> (\<forall>k p. fmlookup g k = Some p \<longrightarrow> go_len k \<and> geo_ValidCoord (fst p) (snd p))"
  by (auto simp: geo_ok_def set_sorted_list_of_fmap)

lemma geo_ok_ops:
  "geo_ok geo_New"
  "geo_ok g \<Longrightarrow> go_len k \<Longrightarrow> geo_Add k lon lat g = Inr g' \<Longrightarrow> geo_ok g'"
  "geo_ok g \<Longrightarrow> geo_ok (geo_Rem k g)"
  by (auto simp: geo_ok_lookup geo_New_def geo_Add_def geo_Rem_def split: if_splits)

lemma take_geo_go_len:
  "take_geo b = Inr (k, lon, lat, r) \<Longrightarrow> go_len b \<Longrightarrow> go_len k \<and> go_len r"
  using take_item_go_len [of "drop 16 b"]
  by (auto simp: take_geo_def go_len_def split: if_splits sum.splits)

lemma geo_decode_loop_ok:
  "geo_decode_loop b g = Inr g' \<Longrightarrow> go_len b \<Longrightarrow> geo_ok g \<Longrightarrow> geo_ok g'"
proof (induction b g rule: geo_decode_loop.induct)
  case (1 b g)
  show ?case
  proof (cases "b = []")
    case False
    with 1(2) obtain k lon lat r g1 where *: "take_geo b = Inr (k, lon, lat, r)"
        "geo_Add k lon lat g = Inr g1" "geo_decode_loop r g1 = Inr g'"
      by (subst (asm) geo_decode_loop.simps) (auto split: sum.splits)
    with 1(3,4) show ?thesis
      using 1(1) [OF False *(1) refl refl refl *(2,3)] by (metis take_geo_go_len geo_ok_ops(2))
  qed (use 1(2,4) in \<open>simp add: geo_decode_loop.simps\<close>)
qed

lemma geo_Decode_ok: "go_len b \<Longrightarrow> geo_Decode b = Inr g \<Longrightarrow> geo_ok g"
  by (simp add: geo_Decode_def geo_decode_loop_ok geo_ok_ops)

interpretation gc: blob_codec geo_Encode geo_Decode geo_ApproxWireBytes geo_ok
  by unfold_locales (simp_all add: geo_Decode_Encode length_geo_Encode geo_Decode_ok)

lemma geo_DecodeAdd_EncodeAdd:
  assumes "go_len k" "geo_ValidCoord lon lat"
  shows "geo_DecodeAdd (geo_EncodeAdd k lon lat) = Inr (k, lon, lat)"
proof -
  let ?g = "fmupd k (lon, lat) fmempty"
  have one: "sorted_list_of_fmap ?g = [(k, lon, lat)]"
    by (simp add: sorted_list_of_fmap_def sorted_list_of_fset.rep_eq finsert.rep_eq bot_fset.rep_eq)
  then have "geo_ok ?g" using assms by (simp add: geo_ok_def)
  then show ?thesis
    using assms one
    by (simp add: geo_DecodeAdd_def geo_EncodeAdd_def geo_Add_def geo_New_def
        geo_Decode_Encode geo_orderedMembers_def)
qed

section \<open>Radius queries\<close>

text \<open>The order of the hits is total where no distance is NaN and no member occurs twice.\<close>

definition geo_hit_set :: "fpu \<Rightarrow> ggeo \<Rightarrow> f64 \<Rightarrow> f64 \<Rightarrow> geo_member set" where
  "geo_hit_set fp g lon lat =
     {m. fmlookup g (gm_Member m) = Some (gm_Lon m, gm_Lat m) \<and>
         gm_Dist m = Haversine fp lon lat (gm_Lon m) (gm_Lat m) \<and> \<not> f64_is_nan (gm_Dist m) \<and>
         geo_member.more m = ()}"

lemma geo_hit_set_eq:
  "a \<in> geo_hit_set fp g lon lat \<Longrightarrow> b \<in> geo_hit_set fp g lon lat \<Longrightarrow>
   gm_Member a = gm_Member b \<Longrightarrow> a = b"
  by (rule geo_member.equality) (auto simp: geo_hit_set_def)

interpretation gl: total_less geo_dist_less "geo_hit_set fp g lon lat" for fp g lon lat
proof
  fix a b c
  show "a \<in> geo_hit_set fp g lon lat \<Longrightarrow> \<not> geo_dist_less a a"
    by (auto simp: geo_dist_less_def f64_lt_def f64_eq_def)
  show "a \<in> geo_hit_set fp g lon lat \<Longrightarrow> b \<in> geo_hit_set fp g lon lat \<Longrightarrow>
      c \<in> geo_hit_set fp g lon lat \<Longrightarrow> geo_dist_less a b \<Longrightarrow> geo_dist_less b c \<Longrightarrow> geo_dist_less a c"
    by (auto simp: geo_dist_less_def f64_lt_def f64_eq_def geo_hit_set_def split: if_splits)
  show "a \<in> geo_hit_set fp g lon lat \<Longrightarrow> b \<in> geo_hit_set fp g lon lat \<Longrightarrow> a \<noteq> b \<Longrightarrow>
      geo_dist_less a b \<or> geo_dist_less b a"
    using geo_hit_set_eq [of a fp g lon lat b]
    by (auto simp: geo_dist_less_def f64_lt_def f64_eq_def geo_hit_set_def not_less_iff_gr_or_eq)
qed

end
