(* ===== verification/JsonDoc.thy ===== *)
theory JsonDoc
  imports Prelude
begin

text \<open>
  The JSON documents of \<open>pkg/jsonx/jsonx.go\<close>: the decoded tree, path lookup,
  update and removal, the owner-inbox payload, and the compact encoder. A Go
  \<open>map[string]any\<close> is a finite map; Go's nil interface is JSON null; a
  \<open>json.Number\<close> keeps its literal. \<open>encoding/json\<close> is modelled as far as the
  encoder is used: compact output, sorted object keys, no HTML escaping.
\<close>

datatype json =
    JNull
  | JBool bool
  | JNum bytes
  | JStr bytes
  | JArr "json list"
  | JObj "(bytes, json) fmap"

datatype seg = SegKey bytes | SegIndex int

type_synonym jpath = "seg list"

datatype json_err = ErrPath | ErrType | ErrIndex | ErrJSON

section \<open>Path operations\<close>

primrec json_Clone :: "json \<Rightarrow> json" where
  "json_Clone JNull = JNull"
| "json_Clone (JBool b) = JBool b"
| "json_Clone (JNum n) = JNum n"
| "json_Clone (JStr s) = JStr s"
| "json_Clone (JArr xs) = JArr (map json_Clone xs)"
| "json_Clone (JObj m) = JObj (fmmap json_Clone m)"

fun json_Get :: "json \<Rightarrow> jpath \<Rightarrow> json option" where
  "json_Get cur [] = Some cur"
| "json_Get cur (SegIndex i # p) =
     (case cur of
        JArr arr \<Rightarrow> if i < 0 \<or> int (length arr) \<le> i then None else json_Get (arr ! nat i) p
      | _ \<Rightarrow> None)"
| "json_Get cur (SegKey k # p) =
     (case cur of
        JObj obj \<Rightarrow> (case fmlookup obj k of None \<Rightarrow> None | Some v \<Rightarrow> json_Get v p)
      | _ \<Rightarrow> None)"

fun json_createPath :: "jpath \<Rightarrow> json \<Rightarrow> json_err + json" where
  "json_createPath [] val = Inr val"
| "json_createPath (SegIndex i # p) val = Inl ErrType"
| "json_createPath (SegKey k # p) val =
     (case json_createPath p val of
        Inl e \<Rightarrow> Inl e
      | Inr child \<Rightarrow> Inr (JObj (fmupd k child fmempty)))"

text \<open>\<open>setRec\<close> is only called with a non-empty path; its last segment assigns the
  value, which the equation for the empty rest does.\<close>

fun json_setRec :: "json \<Rightarrow> jpath \<Rightarrow> json \<Rightarrow> json_err + json" where
  "json_setRec cur [] val = Inr val"
| "json_setRec cur (SegIndex n # rest) val =
     (case cur of
        JArr arr \<Rightarrow>
          if n < 0 then Inl ErrIndex
          else if n < int (length arr) then
            (case json_setRec (arr ! nat n) rest val of
               Inl e \<Rightarrow> Inl e
             | Inr child \<Rightarrow> Inr (JArr (arr[nat n := child])))
          else if n = int (length arr) then
            (case json_createPath rest val of
               Inl e \<Rightarrow> Inl e
             | Inr child \<Rightarrow> Inr (JArr (arr @ [child])))
          else Inl ErrIndex
      | _ \<Rightarrow> Inl ErrType)"
| "json_setRec cur (SegKey k # rest) val =
     (case cur of
        JObj obj \<Rightarrow>
          (case fmlookup obj k of
             None \<Rightarrow>
               (case json_createPath rest val of
                  Inl e \<Rightarrow> Inl e
                | Inr next \<Rightarrow> Inr (JObj (fmupd k next obj)))
           | Some child \<Rightarrow>
               (case json_setRec child rest val of
                  Inl e \<Rightarrow> Inl e
                | Inr newChild \<Rightarrow> Inr (JObj (fmupd k newChild obj))))
      | _ \<Rightarrow> Inl ErrType)"

definition json_Set :: "json \<Rightarrow> jpath \<Rightarrow> json \<Rightarrow> json_err + json" where
  "json_Set doc p val =
     (if p = [] then Inr val
      else if doc = JNull then Inl ErrType
      else json_setRec (json_Clone doc) p val)"

fun json_delRec :: "json \<Rightarrow> jpath \<Rightarrow> json \<times> bool" where
  "json_delRec cur [] = (cur, False)"
| "json_delRec cur (SegIndex i # rest) =
     (case cur of
        JArr arr \<Rightarrow>
          if i < 0 \<or> int (length arr) \<le> i then (cur, False)
          else if rest = [] then (JArr (take (nat i) arr @ drop (Suc (nat i)) arr), True)
          else
            (case json_delRec (arr ! nat i) rest of
               (child, ok) \<Rightarrow> if \<not> ok then (cur, False) else (JArr (arr[nat i := child]), True))
      | _ \<Rightarrow> (cur, False))"
| "json_delRec cur (SegKey k # rest) =
     (case cur of
        JObj obj \<Rightarrow>
          (case fmlookup obj k of
             None \<Rightarrow> (cur, False)
           | Some child \<Rightarrow>
               if rest = [] then (JObj (fmdrop k obj), True)
               else
                 (case json_delRec child rest of
                    (newChild, ok) \<Rightarrow>
                      if \<not> ok then (cur, False) else (JObj (fmupd k newChild obj), True)))
      | _ \<Rightarrow> (cur, False))"

definition json_Del :: "json \<Rightarrow> jpath \<Rightarrow> json \<times> bool" where
  "json_Del doc p =
     (if p = [] then (JObj fmempty, True)
      else if doc = JNull then (JNull, False)
      else case json_delRec (json_Clone doc) p of
        (newRoot, ok) \<Rightarrow> if \<not> ok then (doc, False) else (newRoot, True))"

definition json_EncodeSet :: "bytes \<Rightarrow> bytes \<Rightarrow> bytes" where
  "json_EncodeSet path raw = put_item path @ raw"

definition json_DecodeSet :: "bytes \<Rightarrow> codec_err + bytes \<times> bytes" where
  "json_DecodeSet b = take_item b"

section \<open>The compact encoder\<close>

definition hex_digit :: "nat \<Rightarrow> byte" where
  "hex_digit n = (if n < 10 then of_nat (48 + n) else of_nat (87 + n))"

text \<open>\<open>utf8.DecodeRune\<close>: the code point and its width; an invalid or truncated
  sequence is \<open>(0xFFFD, 1)\<close>.\<close>

definition utf8_cont :: "byte \<Rightarrow> nat \<Rightarrow> nat \<Rightarrow> bool" where
  "utf8_cont b lo hi \<longleftrightarrow> lo \<le> unat b \<and> unat b \<le> hi"

definition DecodeRune :: "bytes \<Rightarrow> nat \<times> nat" where
  "DecodeRune bs =
     (let at = (\<lambda>i. if i < length bs then Some (bs ! i) else None);
          c = (\<lambda>i. case at i of None \<Rightarrow> 0 | Some b \<Rightarrow> unat b mod 64);
          ct = (\<lambda>i lo hi. case at i of None \<Rightarrow> False | Some b \<Rightarrow> utf8_cont b lo hi)
      in case at 0 of
           None \<Rightarrow> (0xFFFD, 0)
         | Some b0 \<Rightarrow>
             let x = unat b0 in
             if x < 0x80 then (x, 1)
             else if 0xC2 \<le> x \<and> x \<le> 0xDF \<and> ct 1 0x80 0xBF then ((x - 0xC0) * 64 + c 1, 2)
             else if 0xE0 \<le> x \<and> x \<le> 0xEF \<and>
                 ct 1 (if x = 0xE0 then 0xA0 else 0x80) (if x = 0xED then 0x9F else 0xBF) \<and>
                 ct 2 0x80 0xBF
               then ((x - 0xE0) * 4096 + c 1 * 64 + c 2, 3)
             else if 0xF0 \<le> x \<and> x \<le> 0xF4 \<and>
                 ct 1 (if x = 0xF0 then 0x90 else 0x80) (if x = 0xF4 then 0x8F else 0xBF) \<and>
                 ct 2 0x80 0xBF \<and> ct 3 0x80 0xBF
               then ((x - 0xF0) * 262144 + c 1 * 4096 + c 2 * 64 + c 3, 4)
             else (0xFFFD, 1))"

definition json_escape :: "byte \<Rightarrow> bytes" where
  "json_escape b =
     (if b = 0x22 \<or> b = 0x5c then [0x5c, b]
      else if b = 0x08 then [0x5c, 0x62] else if b = 0x0c then [0x5c, 0x66]
      else if b = 0x0a then [0x5c, 0x6e] else if b = 0x0d then [0x5c, 0x72]
      else if b = 0x09 then [0x5c, 0x74]
      else if b < 0x20 then
        [0x5c, 0x75, 0x30, 0x30, hex_digit (unat b div 16), hex_digit (unat b mod 16)]
      else [b])"

lemma DecodeRune_width: "1 \<le> snd (DecodeRune (b # bs))"
  by (auto simp: DecodeRune_def Let_def)

function json_quote_loop :: "bytes \<Rightarrow> bytes" where
  "json_quote_loop s =
     (case s of
        [] \<Rightarrow> []
      | b # bs \<Rightarrow>
          if b < 0x80 then json_escape b @ json_quote_loop bs
          else if DecodeRune s = (0xFFFD, 1) then
            [0x5c] @ str ''ufffd'' @ json_quote_loop bs
          else if fst (DecodeRune s) = 0x2028 \<or> fst (DecodeRune s) = 0x2029 then
            [0x5c] @ str ''u202'' @ [hex_digit (fst (DecodeRune s) mod 16)] @
              json_quote_loop (drop (snd (DecodeRune s)) s)
          else take (snd (DecodeRune s)) s @ json_quote_loop (drop (snd (DecodeRune s)) s))"
  by pat_completeness auto
termination
proof (relation "measure length")
  fix s :: bytes and b bs
  assume "s = b # bs"
  then have "1 \<le> snd (DecodeRune s)" and "0 < length s"
    using DecodeRune_width [of b bs] by auto
  then show "(drop (snd (DecodeRune s)) s, s) \<in> measure length"
    and "(drop (snd (DecodeRune s)) s, s) \<in> measure length"
    by auto
qed auto

declare json_quote_loop.simps [simp del]

definition json_quote :: "bytes \<Rightarrow> bytes" where
  "json_quote s = [0x22] @ json_quote_loop s @ [0x22]"

text \<open>\<open>isValidNumber\<close> of \<open>encoding/json\<close>.\<close>

definition is_digit :: "byte \<Rightarrow> bool" where
  "is_digit b \<longleftrightarrow> 48 \<le> b \<and> b \<le> 57"

definition num_int :: "bytes \<Rightarrow> bytes option" where
  "num_int s =
     (case s of
        [] \<Rightarrow> None
      | b # bs \<Rightarrow>
          if b = 48 then Some bs
          else if 49 \<le> b \<and> b \<le> 57 then Some (dropWhile is_digit bs)
          else None)"

definition num_frac :: "bytes \<Rightarrow> bytes" where
  "num_frac s =
     (case s of
        a # b # bs \<Rightarrow> if a = 46 \<and> is_digit b then dropWhile is_digit bs else s
      | _ \<Rightarrow> s)"

definition num_exp :: "bytes \<Rightarrow> bytes option" where
  "num_exp s =
     (case s of
        a # b # bs \<Rightarrow>
          if a = 101 \<or> a = 69 then
            (let r = (if b = 43 \<or> b = 45 then bs else b # bs) in
             if r = [] then None else Some (dropWhile is_digit r))
          else Some s
      | _ \<Rightarrow> Some s)"

definition isValidNumber :: "bytes \<Rightarrow> bool" where
  "isValidNumber s =
     (if s = [] then False
      else let s1 = (if hd s = 45 then tl s else s) in
        case num_int s1 of
          None \<Rightarrow> False
        | Some s2 \<Rightarrow> (case num_exp (num_frac s2) of None \<Rightarrow> False | Some r \<Rightarrow> r = []))"

definition json_join :: "bytes list \<Rightarrow> bytes" where
  "json_join bs = (case bs of [] \<Rightarrow> [] | x # xs \<Rightarrow> x @ concat (map (\<lambda>y. 0x2c # y) xs))"

primrec json_Encode :: "json \<Rightarrow> bytes option" where
  "json_Encode JNull = Some (str ''null'')"
| "json_Encode (JBool b) = Some (if b then str ''true'' else str ''false'')"
| "json_Encode (JNum n) =
     (if n = [] then Some (str ''0'') else if isValidNumber n then Some n else None)"
| "json_Encode (JStr s) = Some (json_quote s)"
| "json_Encode (JArr xs) =
     map_option (\<lambda>bs. [0x5b] @ json_join bs @ [0x5d]) (those (map json_Encode xs))"
| "json_Encode (JObj m) =
     map_option (\<lambda>bs. [0x7b] @ json_join bs @ [0x7d])
       (those (map (\<lambda>(k, v). map_option (\<lambda>b. json_quote k @ [0x3a] @ b) v)
         (sorted_list_of_fmap (fmmap json_Encode m))))"

definition json_ApproxWireBytes :: "json \<Rightarrow> int" where
  "json_ApproxWireBytes v = (case json_Encode v of None \<Rightarrow> 0 | Some b \<Rightarrow> int (length b))"

section \<open>Facts\<close>

lemma json_Clone_id [simp]: "json_Clone d = d"
proof (induction d)
  case (JArr xs)
  then show ?case by (simp add: map_idI)
next
  case (JObj m)
  then have "fmmap json_Clone m = m"
    by (intro fmap_ext) (auto simp: option.map_ident_strong fmran'I split: option.splits
        intro!: option.map_ident_strong)
  then show ?case by simp
qed simp_all

lemma json_DecodeSet_EncodeSet [codec_simps]:
  "go_len path \<Longrightarrow> json_DecodeSet (json_EncodeSet path raw) = Inr (path, raw)"
  by (simp add: json_DecodeSet_def json_EncodeSet_def codec_simps)

lemma json_createPath_Get: "json_createPath p v = Inr d \<Longrightarrow> json_Get d p = Some v"
  by (induction p v arbitrary: d rule: json_createPath.induct) (auto split: sum.splits)

lemma json_setRec_Get: "json_setRec cur p v = Inr d \<Longrightarrow> json_Get d p = Some v"
  by (induction cur p v arbitrary: d rule: json_setRec.induct)
    (auto split: sum.splits json.splits option.splits if_splits dest: json_createPath_Get
      simp: nth_append)

lemma json_Set_Get: "json_Set doc p v = Inr d \<Longrightarrow> json_Get d p = Some v"
  by (auto simp: json_Set_def dest: json_setRec_Get split: if_splits)

text \<open>Two paths diverge when neither is a prefix of the other.\<close>

fun diverge :: "jpath \<Rightarrow> jpath \<Rightarrow> bool" where
  "diverge (a # p) (b # q) \<longleftrightarrow> a \<noteq> b \<or> diverge p q"
| "diverge _ _ \<longleftrightarrow> False"

lemma json_createPath_frame:
  "json_createPath p v = Inr d \<Longrightarrow> diverge p q \<Longrightarrow> json_Get d q = None"
proof (induction p v arbitrary: d q rule: json_createPath.induct)
  case (3 k p v)
  then show ?case by (cases q; cases "hd q") (auto split: sum.splits)
qed auto

lemma json_setRec_IndexE:
  assumes "json_setRec cur (SegIndex n # rest) v = Inr d"
  obtains (upd) arr child where "cur = JArr arr" "0 \<le> n" "n < int (length arr)"
      "json_setRec (arr ! nat n) rest v = Inr child" "d = JArr (arr[nat n := child])"
    | (app) arr child where "cur = JArr arr" "n = int (length arr)"
      "json_createPath rest v = Inr child" "d = JArr (arr @ [child])"
  using assms by (auto split: json.splits if_splits sum.splits)

lemma json_setRec_KeyE:
  assumes "json_setRec cur (SegKey k # rest) v = Inr d"
  obtains (new) obj child where "cur = JObj obj" "fmlookup obj k = None"
      "json_createPath rest v = Inr child" "d = JObj (fmupd k child obj)"
    | (old) obj c child where "cur = JObj obj" "fmlookup obj k = Some c"
      "json_setRec c rest v = Inr child" "d = JObj (fmupd k child obj)"
  using assms by (auto split: json.splits option.splits sum.splits)

lemma json_setRec_frame:
  "json_setRec cur p v = Inr d \<Longrightarrow> diverge p q \<Longrightarrow> json_Get d q = json_Get cur q"
proof (induction p arbitrary: cur d q)
  case Nil
  then show ?case by simp
next
  case (Cons a rest)
  then obtain s q' where q: "q = s # q'" by (cases q) auto
  show ?case
  proof (cases a)
    case (SegIndex n)
    from Cons.prems(1) [unfolded SegIndex] show ?thesis
    proof (cases rule: json_setRec_IndexE)
      case (upd arr child)
      then show ?thesis
        using Cons.IH [OF upd(4), of q'] Cons.prems(2) q SegIndex
        by (cases s) (auto simp: nth_list_update)
    next
      case (app arr child)
      then show ?thesis
        using json_createPath_frame [OF app(3), of q'] Cons.prems(2) q SegIndex
        by (cases s) (auto simp: nth_append)
    qed
  next
    case (SegKey k)
    from Cons.prems(1) [unfolded SegKey] show ?thesis
    proof (cases rule: json_setRec_KeyE)
      case (new obj child)
      then show ?thesis
        using json_createPath_frame [OF new(3), of q'] Cons.prems(2) q SegKey
        by (cases s) auto
    next
      case (old obj c child)
      then show ?thesis
        using Cons.IH [OF old(3), of q'] Cons.prems(2) q SegKey
        by (cases s) auto
    qed
  qed
qed

lemma json_Set_frame:
  "json_Set doc p v = Inr d \<Longrightarrow> diverge p q \<Longrightarrow> json_Get d q = json_Get doc q"
  by (cases "p = []") (auto simp: json_Set_def dest: json_setRec_frame split: if_splits)

lemma json_delRec_IndexE:
  assumes "json_delRec cur (SegIndex n # rest) = (d, True)"
  obtains (last) arr where "cur = JArr arr" "rest = []" "0 \<le> n" "n < int (length arr)"
      "d = JArr (take (nat n) arr @ drop (Suc (nat n)) arr)"
    | (deep) arr child where "cur = JArr arr" "rest \<noteq> []" "0 \<le> n" "n < int (length arr)"
      "json_delRec (arr ! nat n) rest = (child, True)" "d = JArr (arr[nat n := child])"
  using assms by (auto split: json.splits if_splits prod.splits)

lemma json_delRec_KeyE:
  assumes "json_delRec cur (SegKey k # rest) = (d, True)"
  obtains (last) obj where "cur = JObj obj" "rest = []" "fmlookup obj k \<noteq> None" "d = JObj (fmdrop k obj)"
    | (deep) obj c child where "cur = JObj obj" "rest \<noteq> []" "fmlookup obj k = Some c"
      "json_delRec c rest = (child, True)" "d = JObj (fmupd k child obj)"
  using assms by (auto split: json.splits option.splits if_splits prod.splits)

lemma json_delRec_removed:
  "p \<noteq> [] \<Longrightarrow> snd (json_delRec cur p) \<longleftrightarrow> json_Get cur p \<noteq> None"
proof (induction p arbitrary: cur)
  case Nil
  then show ?case by simp
next
  case (Cons a rest)
  show ?case
  proof (cases "rest = []")
    case True
    then show ?thesis
      by (cases a; cases cur) (auto split: option.splits)
  next
    case False
    then show ?thesis
      using Cons.IH by (cases a; cases cur) (auto split: option.splits prod.splits simp: prod_eq_iff)
  qed
qed

lemma json_Del_removed: "p \<noteq> [] \<Longrightarrow> snd (json_Del doc p) \<longleftrightarrow> json_Get doc p \<noteq> None"
proof (cases "doc = JNull")
  case True
  then show "p \<noteq> [] \<Longrightarrow> ?thesis" by (cases p; cases "hd p") (auto simp: json_Del_def)
next
  case False
  then show "p \<noteq> [] \<Longrightarrow> ?thesis"
    using json_delRec_removed [of p doc] by (auto simp: json_Del_def split: prod.splits)
qed

text \<open>Removing an object key changes nothing on a diverging path, and the path is gone.
  (Removing an array element shifts its successors down.)\<close>

definition ends_in_key :: "jpath \<Rightarrow> bool" where
  "ends_in_key p \<longleftrightarrow> (case last p of SegKey k \<Rightarrow> True | SegIndex i \<Rightarrow> False)"

lemma json_delRec_frame:
  "json_delRec cur p = (d, True) \<Longrightarrow> ends_in_key p \<Longrightarrow> diverge p q \<Longrightarrow> json_Get d q = json_Get cur q"
proof (induction p arbitrary: cur d q)
  case Nil
  then show ?case by simp
next
  case (Cons a rest)
  then obtain s q' where q: "q = s # q'" by (cases q) auto
  show ?case
  proof (cases a)
    case (SegIndex n)
    from Cons.prems(1) [unfolded SegIndex] show ?thesis
    proof (cases rule: json_delRec_IndexE)
      case (last arr)
      then show ?thesis using Cons.prems(2) SegIndex by (simp add: ends_in_key_def)
    next
      case (deep arr child)
      then show ?thesis
        using Cons.IH [OF deep(5), of q'] Cons.prems q SegIndex
        by (cases s) (auto simp: nth_list_update ends_in_key_def)
    qed
  next
    case (SegKey k)
    from Cons.prems(1) [unfolded SegKey] show ?thesis
    proof (cases rule: json_delRec_KeyE)
      case (last obj)
      then show ?thesis using Cons.prems(3) q SegKey by (cases s) auto
    next
      case (deep obj c child)
      then show ?thesis
        using Cons.IH [OF deep(4), of q'] Cons.prems q SegKey
        by (cases s) (auto simp: ends_in_key_def)
    qed
  qed
qed

lemma json_delRec_gone:
  "json_delRec cur p = (d, True) \<Longrightarrow> ends_in_key p \<Longrightarrow> json_Get d p = None"
proof (induction p arbitrary: cur d)
  case Nil
  then show ?case by simp
next
  case (Cons a rest)
  show ?case
  proof (cases a)
    case (SegIndex n)
    from Cons.prems(1) [unfolded SegIndex] show ?thesis
    proof (cases rule: json_delRec_IndexE)
      case (last arr)
      then show ?thesis using Cons.prems(2) SegIndex by (simp add: ends_in_key_def)
    next
      case (deep arr child)
      then show ?thesis
        using Cons.IH [OF deep(5)] Cons.prems(2) SegIndex by (simp add: ends_in_key_def)
    qed
  next
    case (SegKey k)
    from Cons.prems(1) [unfolded SegKey] show ?thesis
    proof (cases rule: json_delRec_KeyE)
      case (last obj)
      then show ?thesis using SegKey by simp
    next
      case (deep obj c child)
      then show ?thesis
        using Cons.IH [OF deep(4)] Cons.prems(2) SegKey by (simp add: ends_in_key_def)
    qed
  qed
qed

end
