(* ===== verification/Memory.thy ===== *)
theory Memory
  imports StoreEntry SetCodec ListCodec HashCodec ZSetCodec GeoCodec JsonDoc
begin

text \<open>
  The LRU store of \<open>pkg/store/memory.go\<close>, with the flush functions of the cached
  containers (\<open>pkg/store/set.go\<close>, \<open>zset.go\<close>, \<open>geo.go\<close>, \<open>list.go\<close>,
  \<open>hash.go\<close>, \<open>json.go\<close>) that \<open>Get\<close> and \<open>Peek\<close> call.

  \<^item> \<open>items\<close> and \<open>order\<close> are kept apart as in the code: a map from keys to items
    and the recency list, front first. A list element of the Go code is identified
    with the key its item carries; the invariant \<open>mem_wf\<close> says that the list and
    the map hold the same keys, each once.
  \<^item> Every exported operation runs under the store's mutex, so it is one atomic step:
    a function from the clock reading, the arguments and the state to the result and
    the next state. The code reads the clock at most once per decision; the model
    uses one reading for a whole operation.
  \<^item> Byte counts are mathematical integers and the statistics natural numbers.
\<close>

record lru_item =
  key :: bytes
  entry :: entry
  cost :: int
  setCache :: "gset option"
  setDirty :: bool
  zCache :: "gzset option"
  zDirty :: bool
  gCache :: "ggeo option"
  gDirty :: bool
  lCache :: "glist option"
  lDirty :: bool
  hCache :: "ghash option"
  hDirty :: bool
  jCache :: json
  jDirty :: bool

record memory =
  maxBytes :: int
  mbytes :: int
  items :: "bytes \<rightharpoonup> lru_item"
  order :: "bytes list"
  tombstoneTTL :: int
  hits :: nat
  misses :: nat
  evictions :: nat
  staleSkip :: nat

text \<open>\<open>DefaultTombstoneTTL\<close>: five minutes in nanoseconds.\<close>

definition DefaultTombstoneTTL :: int where
  "DefaultTombstoneTTL = 300000000000"

definition NewMemory :: "int \<Rightarrow> int \<Rightarrow> memory" where
  "NewMemory mx ttl =
     \<lparr>maxBytes = mx, mbytes = 0, items = Map.empty, order = [], tombstoneTTL = ttl,
      hits = 0, misses = 0, evictions = 0, staleSkip = 0\<rparr>"

section \<open>List and map primitives\<close>

definition mkItem :: "bytes \<Rightarrow> entry \<Rightarrow> int \<Rightarrow> lru_item" where
  "mkItem k e c =
     \<lparr>key = k, entry = copyEntry e, cost = c,
      setCache = None, setDirty = False, zCache = None, zDirty = False,
      gCache = None, gDirty = False, lCache = None, lDirty = False,
      hCache = None, hDirty = False, jCache = JNull, jDirty = False\<rparr>"

definition clearCaches :: "lru_item \<Rightarrow> lru_item" where
  "clearCaches it = it\<lparr>setCache := None, setDirty := False, zCache := None, zDirty := False,
      gCache := None, gDirty := False, lCache := None, lDirty := False,
      hCache := None, hDirty := False, jCache := JNull, jDirty := False\<rparr>"

definition putItem :: "bytes \<Rightarrow> lru_item \<Rightarrow> memory \<Rightarrow> memory" where
  "putItem k it m = m\<lparr>items := (items m)(k \<mapsto> it)\<rparr>"

definition addBytes :: "int \<Rightarrow> memory \<Rightarrow> memory" where
  "addBytes d m = m\<lparr>mbytes := mbytes m + d\<rparr>"

definition clampBytes :: "memory \<Rightarrow> memory" where
  "clampBytes m = (if mbytes m < 0 then m\<lparr>mbytes := 0\<rparr> else m)"

definition moveToFront :: "bytes \<Rightarrow> memory \<Rightarrow> memory" where
  "moveToFront k m = m\<lparr>order := k # remove1 k (order m)\<rparr>"

text \<open>An item whose fields changed in place, with the byte count moved by the change of
  its cost.\<close>

definition replaceItem :: "bytes \<Rightarrow> lru_item \<Rightarrow> memory \<Rightarrow> memory" where
  "replaceItem k it' m =
     (case items m k of
        None \<Rightarrow> m
      | Some it \<Rightarrow> addBytes (cost it' - cost it) (putItem k it' m))"

text \<open>\<open>PushFront\<close> of a new item, its map entry and its cost.\<close>

definition pushFront :: "bytes \<Rightarrow> lru_item \<Rightarrow> memory \<Rightarrow> memory" where
  "pushFront k it m =
     m\<lparr>items := (items m)(k \<mapsto> it), order := k # order m, mbytes := mbytes m + cost it\<rparr>"

definition has :: "bytes \<Rightarrow> memory \<Rightarrow> bool" where
  "has k m \<longleftrightarrow> (case items m k of None \<Rightarrow> False | Some it \<Rightarrow> True)"

definition skipStale :: "memory \<Rightarrow> memory" where
  "skipStale m = m\<lparr>staleSkip := staleSkip m + 1\<rparr>"

definition removeElement :: "bytes \<Rightarrow> memory \<Rightarrow> memory" where
  "removeElement k m =
     (case items m k of
        None \<Rightarrow> m
      | Some it \<Rightarrow>
          clampBytes (m\<lparr>items := (items m)(k := None), order := remove1 k (order m),
                        mbytes := mbytes m - cost it\<rparr>))"

section \<open>Eviction\<close>

definition lru_pinned :: "entry \<Rightarrow> time \<Rightarrow> bool" where
  "lru_pinned e now \<longleftrightarrow>
     (IsTombstone e \<or> IsBloom e \<or> IsSet e \<or> IsZSet e \<or> IsGeo e \<or> IsList e \<or> IsHash e \<or>
      IsCounter e \<or> IsJSON e \<or> IsBitmap e \<or> IsHLL e \<or> IsTopK e \<or> IsCMS e \<or> IsVectorSet e \<or>
      IsStream e) \<and> \<not> Expired e now"

text \<open>The least recent item that is not pinned: the search runs from the back.\<close>

definition lruVictim :: "time \<Rightarrow> memory \<Rightarrow> bytes option" where
  "lruVictim now m =
     find (\<lambda>k. case items m k of None \<Rightarrow> False | Some it \<Rightarrow> \<not> lru_pinned (entry it) now)
       (rev (order m))"

lemma lruVictim_Some:
  "lruVictim now m = Some k \<Longrightarrow>
     k \<in> set (order m) \<and> (\<exists>it. items m k = Some it \<and> \<not> lru_pinned (entry it) now)"
  by (auto simp: lruVictim_def find_Some_iff split: option.splits)
    (metis nth_mem set_rev length_rev)+

lemma order_removeElement:
  "items m k = Some it \<Longrightarrow> order (removeElement k m) = remove1 k (order m)"
  by (simp add: removeElement_def clampBytes_def)

function evict_loop :: "time \<Rightarrow> memory \<Rightarrow> memory" where
  "evict_loop now m =
     (if maxBytes m < mbytes m \<and> order m \<noteq> [] then
        (case lruVictim now m of
           None \<Rightarrow> m
         | Some k \<Rightarrow> evict_loop now ((removeElement k m)\<lparr>evictions := evictions m + 1\<rparr>))
      else m)"
  by pat_completeness auto
termination
proof (relation "measure (\<lambda>(now, m). length (order m))")
  fix now :: time and m :: memory and k
  assume "lruVictim now m = Some k"
  then obtain it where "k \<in> set (order m)" "items m k = Some it"
    using lruVictim_Some by blast
  then show "((now, (removeElement k m)\<lparr>evictions := evictions m + 1\<rparr>), (now, m))
      \<in> measure (\<lambda>(now, m). length (order m))"
    by (auto simp: order_removeElement length_remove1 dest: length_pos_if_in_set)
qed simp

declare evict_loop.simps [simp del]

definition evictLocked :: "time \<Rightarrow> memory \<Rightarrow> memory" where
  "evictLocked now m = (if maxBytes m \<le> 0 then m else evict_loop now m)"

section \<open>Flushing cached containers\<close>

definition flushSetValueLocked :: "bytes \<Rightarrow> memory \<Rightarrow> memory" where
  "flushSetValueLocked k m =
     (case items m k of
        None \<Rightarrow> m
      | Some it \<Rightarrow>
          (case setCache it of
             None \<Rightarrow> m
           | Some s \<Rightarrow>
               if \<not> setDirty it \<or> \<not> IsSet (entry it) then m
               else
                 let e' = (entry it)\<lparr>Value := set_Encode s\<rparr>;
                     it' = it\<lparr>entry := e', setDirty := False, cost := entryCost (key it) e'\<rparr>
                 in clampBytes (replaceItem k it' m)))"

definition flushZSetValueLocked :: "bytes \<Rightarrow> memory \<Rightarrow> memory" where
  "flushZSetValueLocked k m =
     (case items m k of
        None \<Rightarrow> m
      | Some it \<Rightarrow>
          (case zCache it of
             None \<Rightarrow> m
           | Some z \<Rightarrow>
               if \<not> zDirty it \<or> \<not> IsZSet (entry it) then m
               else
                 let e' = (entry it)\<lparr>Value := zset_Encode z\<rparr>;
                     it' = it\<lparr>entry := e', zDirty := False, cost := entryCost (key it) e'\<rparr>
                 in clampBytes (replaceItem k it' m)))"

definition flushGeoValueLocked :: "bytes \<Rightarrow> memory \<Rightarrow> memory" where
  "flushGeoValueLocked k m =
     (case items m k of
        None \<Rightarrow> m
      | Some it \<Rightarrow>
          (case gCache it of
             None \<Rightarrow> m
           | Some g \<Rightarrow>
               if \<not> gDirty it \<or> \<not> IsGeo (entry it) then m
               else
                 let e' = (entry it)\<lparr>Value := geo_Encode g\<rparr>;
                     it' = it\<lparr>entry := e', gDirty := False, cost := entryCost (key it) e'\<rparr>
                 in clampBytes (replaceItem k it' m)))"

definition flushListValueLocked :: "bytes \<Rightarrow> memory \<Rightarrow> memory" where
  "flushListValueLocked k m =
     (case items m k of
        None \<Rightarrow> m
      | Some it \<Rightarrow>
          (case lCache it of
             None \<Rightarrow> m
           | Some l \<Rightarrow>
               if \<not> lDirty it \<or> \<not> IsList (entry it) then m
               else
                 let e' = (entry it)\<lparr>Value := list_Encode l\<rparr>;
                     it' = it\<lparr>entry := e', lDirty := False, cost := entryCost (key it) e'\<rparr>
                 in clampBytes (replaceItem k it' m)))"

definition flushHashValueLocked :: "bytes \<Rightarrow> memory \<Rightarrow> memory" where
  "flushHashValueLocked k m =
     (case items m k of
        None \<Rightarrow> m
      | Some it \<Rightarrow>
          (case hCache it of
             None \<Rightarrow> m
           | Some h \<Rightarrow>
               if \<not> hDirty it \<or> \<not> IsHash (entry it) then m
               else
                 let e' = (entry it)\<lparr>Value := hash_Encode h\<rparr>;
                     it' = it\<lparr>entry := e', hDirty := False, cost := entryCost (key it) e'\<rparr>
                 in clampBytes (replaceItem k it' m)))"

definition flushJSONValueLocked :: "bytes \<Rightarrow> memory \<Rightarrow> memory" where
  "flushJSONValueLocked k m =
     (case items m k of
        None \<Rightarrow> m
      | Some it \<Rightarrow>
          if \<not> jDirty it \<or> \<not> IsJSON (entry it) then m
          else
            (case json_Encode (jCache it) of
               None \<Rightarrow> m
             | Some blob \<Rightarrow>
                 let e' = (entry it)\<lparr>Value := blob\<rparr>;
                     it' = it\<lparr>entry := e', jDirty := False, cost := entryCost (key it) e'\<rparr>
                 in clampBytes (replaceItem k it' m)))"

definition flushAll :: "bytes \<Rightarrow> memory \<Rightarrow> memory" where
  "flushAll k m =
     flushJSONValueLocked k (flushHashValueLocked k (flushListValueLocked k
       (flushGeoValueLocked k (flushZSetValueLocked k (flushSetValueLocked k m)))))"

section \<open>Reads\<close>

definition miss :: "memory \<Rightarrow> memory" where
  "miss m = m\<lparr>misses := misses m + 1\<rparr>"

definition Get :: "time \<Rightarrow> bytes \<Rightarrow> memory \<Rightarrow> entry option \<times> memory" where
  "Get now k m =
     (case items m k of
        None \<Rightarrow> (None, miss m)
      | Some it \<Rightarrow>
          if Expired (entry it) now then (None, miss (removeElement k m))
          else if IsTombstone (entry it) then (None, miss m)
          else
            let m1 = moveToFront k (flushAll k m);
                m2 = m1\<lparr>hits := hits m1 + 1\<rparr>
            in (map_option (\<lambda>it'. (entry it')\<lparr>Value := CloneValue (entry it')\<rparr>) (items m2 k), m2))"

definition Peek :: "time \<Rightarrow> bytes \<Rightarrow> memory \<Rightarrow> entry option \<times> memory" where
  "Peek now k m =
     (case items m k of
        None \<Rightarrow> (None, m)
      | Some it \<Rightarrow>
          if Expired (entry it) now then (None, removeElement k m)
          else
            let m1 = flushAll k m
            in (map_option (\<lambda>it'. (entry it')\<lparr>Value := CloneValue (entry it')\<rparr>) (items m1 k), m1))"

definition PeekVersion :: "time \<Rightarrow> bytes \<Rightarrow> memory \<Rightarrow> u64 option \<times> memory" where
  "PeekVersion now k m =
     (case items m k of
        None \<Rightarrow> (None, m)
      | Some it \<Rightarrow>
          if Expired (entry it) now then (None, removeElement k m)
          else (Some (Version (entry it)), m))"

section \<open>Writes\<close>

text \<open>The replacement \<open>Set\<close> and \<open>AcceptIfNewer\<close> perform on an existing item: the new
  entry, its cost, and no cached container.\<close>

definition overwrite :: "bytes \<Rightarrow> entry \<Rightarrow> lru_item \<Rightarrow> lru_item" where
  "overwrite k e it = clearCaches (it\<lparr>entry := copyEntry e, cost := entryCost k e\<rparr>)"

definition memory_Set :: "time \<Rightarrow> bytes \<Rightarrow> entry \<Rightarrow> memory \<Rightarrow> bool \<times> memory" where
  "memory_Set now k e m =
     (if 0 < maxBytes m \<and> maxBytes m < entryCost k e then (False, m)
      else
        (case items m k of
           Some it \<Rightarrow>
             (True, evictLocked now (moveToFront k (replaceItem k (overwrite k e it) m)))
         | None \<Rightarrow> (True, evictLocked now (pushFront k (mkItem k e (entryCost k e)) m))))"

definition AcceptIfNewer :: "time \<Rightarrow> bytes \<Rightarrow> entry \<Rightarrow> memory \<Rightarrow> bool \<times> memory" where
  "AcceptIfNewer now k e m =
     (case items m k of
        Some it \<Rightarrow>
          if \<not> Expired (entry it) now \<and> Version e \<le> Version (entry it) then (False, skipStale m)
          else if 0 < maxBytes m \<and> maxBytes m < entryCost k e then (False, m)
          else (True, evictLocked now (moveToFront k (replaceItem k (overwrite k e it) m)))
      | None \<Rightarrow>
          if 0 < maxBytes m \<and> maxBytes m < entryCost k e then (False, m)
          else (True, evictLocked now (pushFront k (mkItem k e (entryCost k e)) m)))"

text \<open>\<open>AcceptNegative\<close> and \<open>DeleteIfVersion\<close> replace the entry and its cost but leave
  the cached containers of the item as they are.\<close>

definition AcceptNegative :: "time \<Rightarrow> bytes \<Rightarrow> entry \<Rightarrow> memory \<Rightarrow> bool \<times> memory" where
  "AcceptNegative now k e m =
     (if 0 < maxBytes m \<and> maxBytes m < entryCost k e then (False, m)
      else
        (case items m k of
           Some it \<Rightarrow>
             (let install =
                (True, evictLocked now (moveToFront k
                   (replaceItem k (it\<lparr>entry := copyEntry e, cost := entryCost k e\<rparr>) m)))
              in if \<not> Expired (entry it) now then
                   if IsTombstone (entry it) then
                     if Version e \<le> Version (entry it) then (False, skipStale m) else install
                   else if \<not> IsNegative (entry it) then (False, m)
                   else if Version e \<le> Version (entry it) then (False, skipStale m)
                   else install
                 else install)
         | None \<Rightarrow> (True, evictLocked now (pushFront k (mkItem k e (entryCost k e)) m))))"

definition Delete :: "bytes \<Rightarrow> memory \<Rightarrow> bool \<times> memory" where
  "Delete k m =
     (case items m k of None \<Rightarrow> (False, m) | Some it \<Rightarrow> (True, removeElement k m))"

definition tombstoneExpireAt :: "time \<Rightarrow> memory \<Rightarrow> time" where
  "tombstoneExpireAt now m = (if tombstoneTTL m \<le> 0 then 0 else now + tombstoneTTL m)"

definition tombstone :: "u64 \<Rightarrow> time \<Rightarrow> entry" where
  "tombstone v ex = \<lparr>Value = [], Version = v, ExpireAt = ex, Flags = FlagTombstone\<rparr>"

definition DeleteIfVersion :: "time \<Rightarrow> bytes \<Rightarrow> u64 \<Rightarrow> memory \<Rightarrow> bool \<times> memory" where
  "DeleteIfVersion now k deleteVersion m =
     (let tomb = tombstone deleteVersion (tombstoneExpireAt now m);
          c = entryCost k tomb
      in case items m k of
           Some it \<Rightarrow>
             if \<not> Expired (entry it) now \<and> deleteVersion < Version (entry it)
             then (False, skipStale m)
             else (True, evictLocked now (moveToFront k
                     (replaceItem k (it\<lparr>entry := copyEntry tomb, cost := c\<rparr>) m)))
         | None \<Rightarrow> (True, evictLocked now (pushFront k (mkItem k tomb c) m)))"

section \<open>Enumeration, statistics, shutdown\<close>

record stats =
  stHits :: nat
  stMisses :: nat
  stEvictions :: nat
  stItems :: int
  stBytes :: int
  stStaleSkip :: nat

definition Stats :: "memory \<Rightarrow> stats" where
  "Stats m = \<lparr>stHits = hits m, stMisses = misses m, stEvictions = evictions m,
     stItems = int (card (dom (items m))), stBytes = mbytes m, stStaleSkip = staleSkip m\<rparr>"

text \<open>\<open>Range\<close> and \<open>RangeAll\<close> peek the keys of a snapshot in map order, which is any
  order: the snapshot is the argument \<open>keys\<close>. The result lists the pairs the callback
  is called with; it stops the visit by returning false.\<close>

fun RangeAll :: "time \<Rightarrow> bytes list \<Rightarrow> (bytes \<Rightarrow> entry \<Rightarrow> bool) \<Rightarrow> memory \<Rightarrow> (bytes \<times> entry) list \<times> memory" where
  "RangeAll now [] fn m = ([], m)"
| "RangeAll now (k # keys) fn m =
     (case Peek now k m of
        (None, m1) \<Rightarrow> RangeAll now keys fn m1
      | (Some e, m1) \<Rightarrow>
          if \<not> fn k e then ([(k, e)], m1)
          else (case RangeAll now keys fn m1 of (out, m2) \<Rightarrow> ((k, e) # out, m2)))"

fun Range :: "time \<Rightarrow> bytes list \<Rightarrow> (bytes \<Rightarrow> entry \<Rightarrow> bool) \<Rightarrow> memory \<Rightarrow> (bytes \<times> entry) list \<times> memory" where
  "Range now [] fn m = ([], m)"
| "Range now (k # keys) fn m =
     (case Peek now k m of
        (None, m1) \<Rightarrow> Range now keys fn m1
      | (Some e, m1) \<Rightarrow>
          if IsTombstone e then Range now keys fn m1
          else if \<not> fn k e then ([(k, e)], m1)
          else (case Range now keys fn m1 of (out, m2) \<Rightarrow> ((k, e) # out, m2)))"

definition Close :: "memory \<Rightarrow> memory" where
  "Close m = m\<lparr>items := Map.empty, order := [], mbytes := 0\<rparr>"

end
