(* ===== verification/MemoryFacts.thy ===== *)
theory MemoryFacts
  imports Memory
begin

text \<open>
  The invariant of the store and what its primitives keep of it.

  \<^item> \<open>cache_coh\<close>: a live decoded container agrees with the encoded value, or is
    newer than it and marked dirty.
  \<^item> \<open>materialise\<close>: the value a reader is owed: the encoding of a dirty container,
    the stored value otherwise.
  \<^item> \<open>mem_wf\<close>: the recency list and the map hold the same keys, every item is
    coherent, its cost is the cost of its materialised entry, and the byte count is
    the sum of the costs.
  \<^item> \<open>view\<close>: the abstract content, a map from keys to materialised entries.
\<close>

section \<open>The invariant\<close>

definition cache_coh ::
    "(bytes \<Rightarrow> 'e + 'a) \<Rightarrow> ('a \<Rightarrow> bool) \<Rightarrow> u64 \<Rightarrow> entry \<Rightarrow> 'a option \<Rightarrow> bool \<Rightarrow> bool" where
  "cache_coh dec ok flag e c d \<longleftrightarrow>
     (Flags e AND flag \<noteq> 0 \<longrightarrow>
        (case c of
           None \<Rightarrow> \<not> d \<and> (\<forall>x. dec (Value e) = Inr x \<longrightarrow> ok x)
         | Some x \<Rightarrow> ok x \<and> (if d then Flags e = flag else dec (Value e) = Inr x)))"

definition caches_coh :: "lru_item \<Rightarrow> bool" where
  "caches_coh it \<longleftrightarrow>
     cache_coh set_DecodeSet set_ok FlagSet (entry it) (setCache it) (setDirty it) \<and>
     cache_coh zset_Decode zset_ok FlagZSet (entry it) (zCache it) (zDirty it) \<and>
     cache_coh geo_Decode geo_ok FlagGeo (entry it) (gCache it) (gDirty it) \<and>
     cache_coh list_Decode list_ok FlagList (entry it) (lCache it) (lDirty it) \<and>
     cache_coh hash_Decode hash_ok FlagHash (entry it) (hCache it) (hDirty it) \<and>
     (IsJSON (entry it) \<longrightarrow> \<not> jDirty it)"

definition dirty_value :: "bool \<Rightarrow> ('a \<Rightarrow> bytes) \<Rightarrow> 'a option \<Rightarrow> bytes \<Rightarrow> bytes" where
  "dirty_value d enc c v = (if d then (case c of None \<Rightarrow> v | Some x \<Rightarrow> enc x) else v)"

definition materialise :: "lru_item \<Rightarrow> bytes" where
  "materialise it =
     (let e = entry it in
      dirty_value (IsSet e \<and> setDirty it) set_Encode (setCache it)
     (dirty_value (IsZSet e \<and> zDirty it) zset_Encode (zCache it)
     (dirty_value (IsGeo e \<and> gDirty it) geo_Encode (gCache it)
     (dirty_value (IsList e \<and> lDirty it) list_Encode (lCache it)
     (dirty_value (IsHash e \<and> hDirty it) hash_Encode (hCache it) (Value e))))))"

definition mat :: "lru_item \<Rightarrow> entry" where
  "mat it = (entry it)\<lparr>Value := materialise it\<rparr>"

definition item_wf :: "lru_item \<Rightarrow> bool" where
  "item_wf it \<longleftrightarrow> caches_coh it \<and> cost it = entryCost (key it) (mat it)"

definition total_cost :: "(bytes \<rightharpoonup> lru_item) \<Rightarrow> int" where
  "total_cost f = (\<Sum>k \<in> dom f. cost (the (f k)))"

definition mem_wf :: "memory \<Rightarrow> bool" where
  "mem_wf m \<longleftrightarrow>
     distinct (order m) \<and> set (order m) = dom (items m) \<and>
     (\<forall>k it. items m k = Some it \<longrightarrow> key it = k \<and> item_wf it) \<and>
     mbytes m = total_cost (items m)"

definition view :: "memory \<Rightarrow> bytes \<Rightarrow> entry option" where
  "view m k = map_option mat (items m k)"

lemma dirty_value_off: "\<not> d \<Longrightarrow> dirty_value d enc c v = v"
  by (simp add: dirty_value_def)

lemma mat_simps [simp]:
  "Version (mat it) = Version (entry it)" "ExpireAt (mat it) = ExpireAt (entry it)"
  "Flags (mat it) = Flags (entry it)" "Value (mat it) = materialise it"
  "Expired (mat it) now = Expired (entry it) now"
  by (simp_all add: mat_def Expired_def)

lemma mat_flags [simp]:
  "IsTombstone (mat it) = IsTombstone (entry it)" "IsNegative (mat it) = IsNegative (entry it)"
  "lru_pinned (mat it) now = lru_pinned (entry it) now"
  by (simp_all add: Is_defs lru_pinned_def)

lemma mem_wfD:
  assumes "mem_wf m" "items m k = Some it"
  shows "key it = k" "item_wf it" "k \<in> set (order m)"
  using assms by (auto simp: mem_wf_def)

lemma item_cost_pos: "item_wf it \<Longrightarrow> 0 < cost it"
  by (simp add: item_wf_def entryCost_pos)

lemma mem_wf_NewMemory [simp]: "mem_wf (NewMemory mx ttl)"
  by (simp add: mem_wf_def NewMemory_def total_cost_def)

lemma view_NewMemory [simp]: "view (NewMemory mx ttl) k = None"
  by (simp add: view_def NewMemory_def)

lemma finite_dom_items: "mem_wf m \<Longrightarrow> finite (dom (items m))"
  by (metis List.finite_set mem_wf_def)

lemma mbytes_nonneg: "mem_wf m \<Longrightarrow> 0 \<le> mbytes m"
  unfolding mem_wf_def total_cost_def
  by (auto intro!: sum_nonneg, force dest: item_cost_pos)

lemma clampBytes_id: "0 \<le> mbytes m \<Longrightarrow> clampBytes m = m"
  by (simp add: clampBytes_def)

section \<open>Primitives keep the invariant\<close>

lemma total_cost_remove:
  assumes "finite (dom f)" "f k = Some it"
  shows "total_cost (f(k := None)) = total_cost f - cost it"
proof -
  have "total_cost f = cost it + (\<Sum>j \<in> dom f - {k}. cost (the (f j)))"
    using assms sum.remove [of "dom f" k "\<lambda>j. cost (the (f j))"] by (auto simp: total_cost_def)
  moreover have "total_cost (f(k := None)) = (\<Sum>j \<in> dom f - {k}. cost (the (f j)))"
    unfolding total_cost_def by (rule sum.cong) auto
  ultimately show ?thesis by simp
qed

lemma total_cost_insert:
  assumes "finite (dom f)" "f k = None"
  shows "total_cost (f(k \<mapsto> it)) = total_cost f + cost it"
  using total_cost_remove [of "f(k \<mapsto> it)" k it] assms by (simp add: fun_upd_idem)

lemma total_cost_update:
  assumes "finite (dom f)" "f k = Some it"
  shows "total_cost (f(k \<mapsto> it')) = total_cost f + (cost it' - cost it)"
  using total_cost_remove [of f k it] total_cost_insert [of "f(k := None)" k it'] assms by simp

lemma mem_wf_replaceItem:
  assumes "mem_wf m" "items m k = Some it" "key it' = k" "item_wf it'"
  shows "mem_wf (replaceItem k it' m)"
  using assms total_cost_update [OF finite_dom_items [OF assms(1)] assms(2), of it']
  by (auto simp: mem_wf_def replaceItem_def addBytes_def putItem_def simp del: fun_upd_apply)
    (auto split: if_splits)

lemma mem_wf_moveToFront:
  assumes "mem_wf m" "items m k = Some it"
  shows "mem_wf (moveToFront k m)"
  using assms by (auto simp: mem_wf_def moveToFront_def)

lemma mem_wf_pushFront:
  assumes "mem_wf m" "items m k = None" "key it = k" "item_wf it"
  shows "mem_wf (pushFront k it m)"
  using assms total_cost_insert [OF finite_dom_items [OF assms(1)] assms(2), of it]
  by (auto simp: mem_wf_def pushFront_def simp del: fun_upd_apply) (auto split: if_splits)

lemma mem_wf_removeElement:
  assumes "mem_wf m"
  shows "mem_wf (removeElement k m)"
proof (cases "items m k")
  case None
  then show ?thesis using assms by (simp add: removeElement_def)
next
  case (Some it)
  let ?m = "m\<lparr>items := (items m)(k := None), order := remove1 k (order m), mbytes := mbytes m - cost it\<rparr>"
  have "mem_wf ?m"
    using assms Some total_cost_remove [OF finite_dom_items [OF assms] Some]
    by (auto simp: mem_wf_def simp del: fun_upd_apply) (auto split: if_splits)
  then show ?thesis
    using Some mbytes_nonneg [of ?m] by (simp add: removeElement_def clampBytes_id)
qed

lemma mem_wf_counters:
  "mem_wf (m\<lparr>evictions := n\<rparr>) = mem_wf m" "mem_wf (m\<lparr>hits := n\<rparr>) = mem_wf m"
  "mem_wf (skipStale m) = mem_wf m" "mem_wf (miss m) = mem_wf m"
  by (simp_all add: mem_wf_def skipStale_def miss_def)

lemma mem_wf_evict_loop: "mem_wf m \<Longrightarrow> mem_wf (evict_loop now m)"
proof (induction now m rule: evict_loop.induct)
  case (1 now m)
  then show ?case
    by (subst evict_loop.simps) (auto simp: mem_wf_counters mem_wf_removeElement split: option.splits)
qed

lemma mem_wf_evictLocked: "mem_wf m \<Longrightarrow> mem_wf (evictLocked now m)"
  by (simp add: evictLocked_def mem_wf_evict_loop)

section \<open>Items that hold no cached container\<close>

lemma cache_coh_empty:
  "(\<And>x. dec (Value e) = Inr x \<Longrightarrow> ok x) \<Longrightarrow> cache_coh dec ok flag e None False"
  by (simp add: cache_coh_def)

lemma cache_coh_off: "Flags e AND flag = 0 \<Longrightarrow> cache_coh dec ok flag e c d"
  by (simp add: cache_coh_def)

lemma item_wf_fresh:
  assumes "go_len (Value (entry it))" "cost it = entryCost (key it) (entry it)"
    "setCache it = None" "zCache it = None" "gCache it = None" "lCache it = None" "hCache it = None"
    "\<not> setDirty it" "\<not> zDirty it" "\<not> gDirty it" "\<not> lDirty it" "\<not> hDirty it" "\<not> jDirty it"
  shows "item_wf it"
proof -
  have "caches_coh it"
    using assms unfolding caches_coh_def
    by (simp add: cache_coh_empty sc.dec_ok zc.dec_ok gc.dec_ok lc.dec_ok hc.dec_ok)
  moreover have "mat it = entry it"
    using assms by (simp add: mat_def materialise_def dirty_value_def Let_def)
  ultimately show ?thesis using assms by (simp add: item_wf_def)
qed

lemma item_wf_mkItem: "go_len (Value e) \<Longrightarrow> item_wf (mkItem k e (entryCost k e))"
  by (rule item_wf_fresh) (simp_all add: mkItem_def)

lemma item_wf_overwrite: "go_len (Value e) \<Longrightarrow> key it = k \<Longrightarrow> item_wf (overwrite k e it)"
  by (rule item_wf_fresh) (simp_all add: overwrite_def clearCaches_def)

lemma mat_mkItem [simp]: "mat (mkItem k e c) = e"
  by (simp add: mat_def materialise_def dirty_value_def mkItem_def)

lemma mat_overwrite [simp]: "mat (overwrite k e it) = e"
  by (simp add: mat_def materialise_def dirty_value_def overwrite_def clearCaches_def)

lemma key_mkItem [simp]: "key (mkItem k e c) = k" "entry (mkItem k e c) = e" "cost (mkItem k e c) = c"
  by (simp_all add: mkItem_def)

lemma key_overwrite [simp]: "key (overwrite k e it) = key it"
  by (simp add: overwrite_def clearCaches_def)

text \<open>An entry without a container flag may be put into an item in place: whatever the
  item caches is out of use.\<close>

lemma mat_plain: "plain (entry it) \<Longrightarrow> mat it = entry it"
  by (simp add: mat_def materialise_def dirty_value_def plain_def Let_def)

lemma item_wf_plain:
  "plain (entry it) \<Longrightarrow> cost it = entryCost (key it) (entry it) \<Longrightarrow> item_wf it"
  by (simp add: item_wf_def mat_plain)
    (simp add: caches_coh_def plain_def Is_defs cache_coh_off)

section \<open>Views of the primitives\<close>

lemma view_replaceItem:
  "items m k = Some it \<Longrightarrow> view (replaceItem k it' m) = (view m)(k \<mapsto> mat it')"
  by (auto simp: view_def replaceItem_def addBytes_def putItem_def)

lemma view_pushFront: "view (pushFront k it m) = (view m)(k \<mapsto> mat it)"
  by (auto simp: view_def pushFront_def)

lemma items_removeElement: "items (removeElement k m) = (items m)(k := None)"
  by (auto simp: removeElement_def clampBytes_def fun_upd_idem split: option.splits)

lemma view_removeElement: "view (removeElement k m) = (view m)(k := None)"
  by (auto simp: view_def items_removeElement)

lemma view_simps [simp]:
  "view (moveToFront k m) = view m" "view (skipStale m) = view m" "view (miss m) = view m"
  "view (m\<lparr>hits := h\<rparr>) = view m" "view (m\<lparr>evictions := n\<rparr>) = view m"
  by (auto simp: view_def moveToFront_def skipStale_def miss_def)

lemma items_simps [simp]:
  "items (moveToFront k m) = items m" "items (skipStale m) = items m" "items (miss m) = items m"
  by (auto simp: moveToFront_def skipStale_def miss_def)

lemma items_replaceItem:
  "items m k = Some it \<Longrightarrow> items (replaceItem k it' m) = (items m)(k \<mapsto> it')"
  by (auto simp: replaceItem_def addBytes_def putItem_def)

lemma items_pushFront [simp]: "items (pushFront k it m) = (items m)(k \<mapsto> it)"
  by (simp add: pushFront_def)

text \<open>The configuration of a store never changes.\<close>

lemma config_simps [simp]:
  "maxBytes (moveToFront k m) = maxBytes m" "tombstoneTTL (moveToFront k m) = tombstoneTTL m"
  "maxBytes (skipStale m) = maxBytes m" "tombstoneTTL (skipStale m) = tombstoneTTL m"
  "maxBytes (miss m) = maxBytes m" "tombstoneTTL (miss m) = tombstoneTTL m"
  "maxBytes (pushFront k it m) = maxBytes m" "tombstoneTTL (pushFront k it m) = tombstoneTTL m"
  "maxBytes (removeElement k m) = maxBytes m" "tombstoneTTL (removeElement k m) = tombstoneTTL m"
  "maxBytes (replaceItem k it m) = maxBytes m" "tombstoneTTL (replaceItem k it m) = tombstoneTTL m"
  by (auto simp: moveToFront_def skipStale_def miss_def pushFront_def removeElement_def clampBytes_def
      replaceItem_def addBytes_def putItem_def split: option.splits)

section \<open>Eviction\<close>

definition unpinned :: "time \<Rightarrow> memory \<Rightarrow> bytes \<Rightarrow> bool" where
  "unpinned now m k \<longleftrightarrow> (case view m k of None \<Rightarrow> False | Some e \<Rightarrow> \<not> lru_pinned e now)"

lemma unpinned_iff: "unpinned now m k \<longleftrightarrow> (\<exists>e. view m k = Some e \<and> \<not> lru_pinned e now)"
  by (simp add: unpinned_def split: option.splits)

lemma lruVictim_unpinned: "lruVictim now m = find (unpinned now m) (rev (order m))"
  unfolding lruVictim_def by (rule find_cong) (auto simp: unpinned_def view_def split: option.splits)

text \<open>What an eviction run may do to a store: drop unpinned entries, nothing else.\<close>

definition evicted :: "time \<Rightarrow> memory \<Rightarrow> memory \<Rightarrow> bool" where
  "evicted now m m' \<longleftrightarrow>
     (\<forall>k. view m' k = view m k \<or> (view m' k = None \<and> unpinned now m k)) \<and>
     maxBytes m' = maxBytes m \<and> tombstoneTTL m' = tombstoneTTL m"

lemma evicted_refl [simp]: "evicted now m m"
  by (simp add: evicted_def)

lemma evicted_trans: "evicted now a b \<Longrightarrow> evicted now b c \<Longrightarrow> evicted now a c"
  unfolding evicted_def unpinned_def by (metis option.simps(4))

lemma evicted_step:
  assumes "lruVictim now m = Some k"
  shows "evicted now m ((removeElement k m)\<lparr>evictions := n\<rparr>)"
  using assms lruVictim_Some [OF assms]
  by (auto simp: evicted_def view_removeElement unpinned_def view_def)

lemma evicted_evict_loop: "evicted now m (evict_loop now m)"
proof (induction now m rule: evict_loop.induct)
  case (1 now m)
  then show ?case
    by (subst evict_loop.simps) (auto split: option.splits dest: evicted_step intro: evicted_trans)
qed

lemma evicted_evictLocked: "evicted now m (evictLocked now m)"
  by (simp add: evictLocked_def evicted_evict_loop)

lemma evictLocked_config [simp]:
  "maxBytes (evictLocked now m) = maxBytes m" "tombstoneTTL (evictLocked now m) = tombstoneTTL m"
  using evicted_evictLocked [of now m] by (simp_all add: evicted_def)

lemma evictLocked_pinned:
  "view m k = Some e \<Longrightarrow> lru_pinned e now \<Longrightarrow> view (evictLocked now m) k = Some e"
  using evicted_evictLocked [of now m] unfolding evicted_def unpinned_def by (metis option.simps(5))

lemma evictLocked_le:
  "view (evictLocked now m) k = Some e \<Longrightarrow> view m k = Some e"
  using evicted_evictLocked [of now m] unfolding evicted_def by (metis option.distinct(1))

lemma evictLocked_unbounded: "maxBytes m \<le> 0 \<Longrightarrow> evictLocked now m = m"
  by (simp add: evictLocked_def)

lemma evict_loop_budget:
  "mem_wf m \<Longrightarrow>
   mbytes (evict_loop now m) \<le> maxBytes m \<or> (\<forall>k. \<not> unpinned now (evict_loop now m) k) "
proof (induction now m rule: evict_loop.induct)
  case (1 now m)
  show ?case
  proof (cases "maxBytes m < mbytes m \<and> order m \<noteq> []")
    case over: True
    show ?thesis
    proof (cases "lruVictim now m")
      case None
      then have "\<not> unpinned now m k" for k
        using 1(2) by (auto simp: lruVictim_unpinned find_None_iff mem_wf_def)
          (metis domIff map_option_is_None option.simps(4) unpinned_def view_def)
      then show ?thesis
        using over None by (subst (2) evict_loop.simps) simp
    next
      case (Some k)
      let ?m = "(removeElement k m)\<lparr>evictions := evictions m + 1\<rparr>"
      have "mem_wf ?m" using 1(2) by (simp add: mem_wf_counters mem_wf_removeElement)
      with 1(1) [OF over Some] Some over show ?thesis
        by (subst (1 2) evict_loop.simps) simp
    qed
  next
    case False
    have "mbytes m = 0" if "order m = []"
      using 1(2) that by (simp add: mem_wf_def total_cost_def)
    with False have "mbytes m \<le> maxBytes m \<or> order m = []" by auto
    moreover have "\<not> unpinned now m k" if "order m = []" for k
      using 1(2) that by (auto simp: mem_wf_def unpinned_def view_def split: option.splits)
    ultimately show ?thesis
      using False by (subst (1 2) evict_loop.simps) auto
  qed
qed

lemma evictLocked_budget:
  "mem_wf m \<Longrightarrow> 0 < maxBytes m \<Longrightarrow>
   mbytes (evictLocked now m) \<le> maxBytes m \<or> (\<forall>k. \<not> unpinned now (evictLocked now m) k)"
  using evict_loop_budget by (simp add: evictLocked_def)

section \<open>Flushing changes neither the view nor the byte count\<close>

definition same_view :: "memory \<Rightarrow> memory \<Rightarrow> bool" where
  "same_view m m' \<longleftrightarrow>
     mem_wf m' \<and> view m' = view m \<and> order m' = order m \<and> mbytes m' = mbytes m \<and>
     maxBytes m' = maxBytes m \<and> tombstoneTTL m' = tombstoneTTL m \<and> evictions m' = evictions m"

lemma same_view_refl: "mem_wf m \<Longrightarrow> same_view m m"
  by (simp add: same_view_def)

lemma same_view_replaceItem:
  assumes "mem_wf m" "items m k = Some it" "key it' = k" "item_wf it'" "mat it' = mat it"
  shows "same_view m (clampBytes (replaceItem k it' m))"
proof -
  have wf: "mem_wf (replaceItem k it' m)" by (rule mem_wf_replaceItem [OF assms(1-4)])
  have "cost it' = cost it"
    using assms mem_wfD [OF assms(1,2)] by (simp add: item_wf_def)
  moreover have "view (replaceItem k it' m) = view m"
    using assms by (simp add: view_replaceItem fun_upd_idem view_def)
  ultimately show ?thesis
    using wf assms(2)
    by (simp add: same_view_def clampBytes_id mbytes_nonneg)
      (simp add: replaceItem_def addBytes_def putItem_def)
qed

text \<open>
  One cached container type: where an item keeps the decoded value and its dirty bit,
  and the flush function of that type. The laws say that the slots do not interfere.
\<close>

locale cache_slot = blob_codec enc dec wire ok
  for enc :: "'a \<Rightarrow> bytes" and dec :: "bytes \<Rightarrow> codec_err + 'a" and wire ok +
  fixes flag :: u64
    and cacheOf :: "lru_item \<Rightarrow> 'a option"
    and dirtyOf :: "lru_item \<Rightarrow> bool"
    and setSlot :: "'a option \<Rightarrow> bool \<Rightarrow> lru_item \<Rightarrow> lru_item"
    and flush :: "bytes \<Rightarrow> memory \<Rightarrow> memory"
  assumes slot_get [simp]: "cacheOf (setSlot c d it) = c" "dirtyOf (setSlot c d it) = d"
    and slot_frame [simp]: "key (setSlot c d it) = key it" "entry (setSlot c d it) = entry it"
      "cost (setSlot c d it) = cost it"
    and slot_upd [simp]: "cacheOf (it\<lparr>entry := e\<rparr>) = cacheOf it" "dirtyOf (it\<lparr>entry := e\<rparr>) = dirtyOf it"
      "cacheOf (it\<lparr>cost := n\<rparr>) = cacheOf it" "dirtyOf (it\<lparr>cost := n\<rparr>) = dirtyOf it"
    and slot_mkItem [simp]: "cacheOf (mkItem k e n) = None" "\<not> dirtyOf (mkItem k e n)"
    and slot_coh: "caches_coh it \<Longrightarrow> cache_coh dec ok flag (entry it) (cacheOf it) (dirtyOf it)"
    and slot_intro: "Flags (entry it) = flag \<Longrightarrow>
      cache_coh dec ok flag (entry it) (cacheOf it) (dirtyOf it) \<Longrightarrow> caches_coh it"
    and slot_load: "caches_coh it \<Longrightarrow> cache_coh dec ok flag (entry it) c d \<Longrightarrow> caches_coh (setSlot c d it)"
    and slot_materialise: "Flags (entry it) = flag \<Longrightarrow>
      materialise it = dirty_value (dirtyOf it) enc (cacheOf it) (Value (entry it))"
    and slot_value: "caches_coh it \<Longrightarrow> Flags (entry it) AND flag \<noteq> 0 \<Longrightarrow> \<not> dirtyOf it \<Longrightarrow>
      materialise it = Value (entry it)"
    and slot_materialise_clean: "\<not> dirtyOf it \<Longrightarrow> materialise (setSlot c False it) = materialise it"
    and flag_bit: "flag \<noteq> 0" "flag AND FlagTombstone = 0"
    and flag_pinned: "Flags e = flag \<Longrightarrow> \<not> Expired e now \<Longrightarrow> lru_pinned e now"
    and flush_eq: "flush k m =
      (case items m k of
         None \<Rightarrow> m
       | Some it \<Rightarrow>
           (case cacheOf it of
              None \<Rightarrow> m
            | Some x \<Rightarrow>
                if \<not> dirtyOf it \<or> \<not> Flags (entry it) AND flag \<noteq> 0 then m
                else
                  let e' = (entry it)\<lparr>Value := enc x\<rparr>;
                      it' = (setSlot (Some x) False (it\<lparr>entry := e', cost := entryCost (key it) e'\<rparr>))
                  in clampBytes (replaceItem k it' m)))"
begin

lemma flush_other: "items m k = Some it \<Longrightarrow> Flags (entry it) AND flag = 0 \<Longrightarrow> flush k m = m"
  by (auto simp: flush_eq split: option.splits)

lemma flush_clean: "items m k = Some it \<Longrightarrow> \<not> dirtyOf it \<Longrightarrow> flush k m = m"
  by (auto simp: flush_eq split: option.splits)

lemma dirty_flag:
  "item_wf it \<Longrightarrow> Flags (entry it) AND flag \<noteq> 0 \<Longrightarrow> dirtyOf it \<Longrightarrow> Flags (entry it) = flag"
  using slot_coh [of it] by (auto simp: item_wf_def cache_coh_def split: option.splits)

lemma flush_dirty:
  assumes wf: "mem_wf m" and it: "items m k = Some it" and fl: "Flags (entry it) = flag" and d: "dirtyOf it"
  shows "same_view m (flush k m) \<and> (\<exists>it'. items (flush k m) k = Some it' \<and> entry it' = mat it)"
proof -
  note wfit = mem_wfD [OF wf it]
  have "cache_coh dec ok flag (entry it) (cacheOf it) (dirtyOf it)"
    using wfit by (simp add: item_wf_def slot_coh)
  with fl d obtain x where x: "cacheOf it = Some x" "ok x"
    by (auto simp: cache_coh_def flag_bit split: option.splits)
  let ?e = "(entry it)\<lparr>Value := enc x\<rparr>"
  let ?it = "setSlot (Some x) False (it\<lparr>entry := ?e, cost := entryCost (key it) ?e\<rparr>)"
  have mats: "mat ?it = ?e" "mat it = ?e"
    using fl d x by (simp_all add: mat_def slot_materialise dirty_value_def)
  have "caches_coh ?it"
    using fl x by (intro slot_intro) (simp_all add: cache_coh_def round_trip)
  then have "item_wf ?it" by (simp add: item_wf_def mats)
  then have "same_view m (clampBytes (replaceItem k ?it m))"
    using wfit wf it mats by (intro same_view_replaceItem) auto
  moreover have "flush k m = clampBytes (replaceItem k ?it m)"
    using it fl d x by (simp add: flush_eq flag_bit Let_def)
  moreover have "items (clampBytes (replaceItem k ?it m)) k = Some ?it"
    using it by (simp add: clampBytes_def items_replaceItem)
  ultimately show ?thesis by (simp add: mats)
qed

end

lemma flag_words:
  "FlagSet AND FlagZSet = 0" "FlagSet AND FlagGeo = 0" "FlagSet AND FlagList = 0" "FlagSet AND FlagHash = 0"
  "FlagZSet AND FlagSet = 0" "FlagZSet AND FlagGeo = 0" "FlagZSet AND FlagList = 0" "FlagZSet AND FlagHash = 0"
  "FlagGeo AND FlagSet = 0" "FlagGeo AND FlagZSet = 0" "FlagGeo AND FlagList = 0" "FlagGeo AND FlagHash = 0"
  "FlagList AND FlagSet = 0" "FlagList AND FlagZSet = 0" "FlagList AND FlagGeo = 0" "FlagList AND FlagHash = 0"
  "FlagHash AND FlagSet = 0" "FlagHash AND FlagZSet = 0" "FlagHash AND FlagGeo = 0" "FlagHash AND FlagList = 0"
  "FlagSet AND FlagJSON = 0" "FlagZSet AND FlagJSON = 0" "FlagGeo AND FlagJSON = 0"
  "FlagList AND FlagJSON = 0" "FlagHash AND FlagJSON = 0"
  "FlagSet AND FlagTombstone = 0" "FlagZSet AND FlagTombstone = 0" "FlagGeo AND FlagTombstone = 0"
  "FlagList AND FlagTombstone = 0" "FlagHash AND FlagTombstone = 0"
  "FlagSet \<noteq> 0" "FlagZSet \<noteq> 0" "FlagGeo \<noteq> 0" "FlagList \<noteq> 0" "FlagHash \<noteq> 0"
  by (simp_all add: Flag_defs)

definition setSetSlot :: "gset option \<Rightarrow> bool \<Rightarrow> lru_item \<Rightarrow> lru_item" where
  "setSetSlot c d it = it\<lparr>setCache := c, setDirty := d\<rparr>"

definition setZSlot :: "gzset option \<Rightarrow> bool \<Rightarrow> lru_item \<Rightarrow> lru_item" where
  "setZSlot c d it = it\<lparr>zCache := c, zDirty := d\<rparr>"

definition setGSlot :: "ggeo option \<Rightarrow> bool \<Rightarrow> lru_item \<Rightarrow> lru_item" where
  "setGSlot c d it = it\<lparr>gCache := c, gDirty := d\<rparr>"

definition setLSlot :: "glist option \<Rightarrow> bool \<Rightarrow> lru_item \<Rightarrow> lru_item" where
  "setLSlot c d it = it\<lparr>lCache := c, lDirty := d\<rparr>"

definition setHSlot :: "ghash option \<Rightarrow> bool \<Rightarrow> lru_item \<Rightarrow> lru_item" where
  "setHSlot c d it = it\<lparr>hCache := c, hDirty := d\<rparr>"

lemmas slot_defs = setSetSlot_def setZSlot_def setGSlot_def setLSlot_def setHSlot_def mkItem_def
  caches_coh_def materialise_def dirty_value_def Let_def flag_words lru_pinned_def cache_coh_off

lemma coh_dirty: "cache_coh dec ok flag e c d \<Longrightarrow> Flags e AND flag \<noteq> 0 \<Longrightarrow> d \<Longrightarrow> Flags e = flag"
  by (auto simp: cache_coh_def split: option.splits)

lemma slot_value_lemma:
  assumes "caches_coh it"
    "IsSet (entry it) \<and> \<not> setDirty it \<or> IsZSet (entry it) \<and> \<not> zDirty it \<or>
     IsGeo (entry it) \<and> \<not> gDirty it \<or> IsList (entry it) \<and> \<not> lDirty it \<or>
     IsHash (entry it) \<and> \<not> hDirty it"
  shows "materialise it = Value (entry it)"
proof -
  have "\<not> (IsSet (entry it) \<and> setDirty it)" "\<not> (IsZSet (entry it) \<and> zDirty it)"
    "\<not> (IsGeo (entry it) \<and> gDirty it)" "\<not> (IsList (entry it) \<and> lDirty it)"
    "\<not> (IsHash (entry it) \<and> hDirty it)"
    using assms coh_dirty unfolding caches_coh_def Is_defs by (metis flag_words)+
  note off = this [THEN dirty_value_off]
  show ?thesis unfolding materialise_def Let_def off ..
qed

lemmas slot_cong = arg_cong [where f = clampBytes] arg_cong [where f = "\<lambda>it. replaceItem k it m" for k m]
  lru_item.equality

interpretation ss: cache_slot set_Encode set_DecodeSet set_ApproxWireBytes set_ok FlagSet
  setCache setDirty setSetSlot flushSetValueLocked
  by (unfold_locales; (rule slot_value_lemma, assumption, force simp: Is_defs)?)
    (auto simp: slot_defs Is_defs flushSetValueLocked_def split: option.splits intro!: slot_cong)

interpretation zs: cache_slot zset_Encode zset_Decode zset_ApproxWireBytes zset_ok FlagZSet
  zCache zDirty setZSlot flushZSetValueLocked
  by (unfold_locales; (rule slot_value_lemma, assumption, force simp: Is_defs)?)
    (auto simp: slot_defs Is_defs flushZSetValueLocked_def split: option.splits intro!: slot_cong)

interpretation gs: cache_slot geo_Encode geo_Decode geo_ApproxWireBytes geo_ok FlagGeo
  gCache gDirty setGSlot flushGeoValueLocked
  by (unfold_locales; (rule slot_value_lemma, assumption, force simp: Is_defs)?)
    (auto simp: slot_defs Is_defs flushGeoValueLocked_def split: option.splits intro!: slot_cong)

interpretation ls: cache_slot list_Encode list_Decode list_ApproxWireBytes list_ok FlagList
  lCache lDirty setLSlot flushListValueLocked
  by (unfold_locales; (rule slot_value_lemma, assumption, force simp: Is_defs)?)
    (auto simp: slot_defs Is_defs flushListValueLocked_def split: option.splits intro!: slot_cong)

interpretation hs: cache_slot hash_Encode hash_Decode hash_ApproxWireBytes hash_ok FlagHash
  hCache hDirty setHSlot flushHashValueLocked
  by (unfold_locales; (rule slot_value_lemma, assumption, force simp: Is_defs)?)
    (auto simp: slot_defs Is_defs flushHashValueLocked_def split: option.splits intro!: slot_cong)

lemma flushJSON_id: "mem_wf m \<Longrightarrow> flushJSONValueLocked k m = m"
  by (auto simp: flushJSONValueLocked_def caches_coh_def item_wf_def split: option.splits dest!: mem_wfD(2))

text \<open>At most one container of an item is dirty, so \<open>flushAll\<close> is one flush or none.\<close>

lemma flushAll_spec:
  assumes "mem_wf m" "items m k = Some it"
  shows "same_view m (flushAll k m) \<and> (\<exists>it'. items (flushAll k m) k = Some it' \<and> entry it' = mat it)"
proof -
  let ?e = "entry it"
  note others = ss.flush_other zs.flush_other gs.flush_other ls.flush_other hs.flush_other flag_words
  note [simp] = flushAll_def flushJSON_id same_view_def
  have wfit: "item_wf it" using mem_wfD [OF assms] by simp
  note flags = ss.dirty_flag [OF wfit] zs.dirty_flag [OF wfit] gs.dirty_flag [OF wfit]
    ls.dirty_flag [OF wfit] hs.dirty_flag [OF wfit]
  consider (s) "Flags ?e = FlagSet" "setDirty it" | (z) "Flags ?e = FlagZSet" "zDirty it"
    | (g) "Flags ?e = FlagGeo" "gDirty it" | (l) "Flags ?e = FlagList" "lDirty it"
    | (h) "Flags ?e = FlagHash" "hDirty it"
    | (none) "\<not> (IsSet ?e \<and> setDirty it)" "\<not> (IsZSet ?e \<and> zDirty it)" "\<not> (IsGeo ?e \<and> gDirty it)"
        "\<not> (IsList ?e \<and> lDirty it)" "\<not> (IsHash ?e \<and> hDirty it)"
    using flags unfolding Is_defs by blast
  then show ?thesis
  proof cases
    case s
    then show ?thesis using ss.flush_dirty [OF assms s] by (auto simp: others)
  next
    case z
    then show ?thesis using zs.flush_dirty [OF assms z] assms by (auto simp: others)
  next
    case g
    then show ?thesis using gs.flush_dirty [OF assms g] assms by (auto simp: others)
  next
    case l
    then show ?thesis using ls.flush_dirty [OF assms l] assms by (auto simp: others)
  next
    case h
    then show ?thesis using hs.flush_dirty [OF assms h] assms by (auto simp: others)
  next
    case none
    then have "flushSetValueLocked k m = m" "flushZSetValueLocked k m = m" "flushGeoValueLocked k m = m"
      "flushListValueLocked k m = m" "flushHashValueLocked k m = m"
      using assms(2) unfolding Is_defs
      by (auto intro: ss.flush_other zs.flush_other gs.flush_other ls.flush_other hs.flush_other
          ss.flush_clean zs.flush_clean gs.flush_clean ls.flush_clean hs.flush_clean)
    moreover have "mat it = entry it"
      unfolding mat_def materialise_def Let_def none [THEN dirty_value_off] by simp
    ultimately show ?thesis using assms by simp
  qed
qed

definition cached_flags :: "u64 set" where
  "cached_flags = {FlagSet, FlagZSet, FlagGeo, FlagList, FlagHash}"

lemma mat_entry: "item_wf it \<Longrightarrow> Flags (entry it) \<notin> cached_flags \<Longrightarrow> mat it = entry it"
proof -
  assume wf: "item_wf it" and "Flags (entry it) \<notin> cached_flags"
  then have "\<not> (IsSet (entry it) \<and> setDirty it)" "\<not> (IsZSet (entry it) \<and> zDirty it)"
    "\<not> (IsGeo (entry it) \<and> gDirty it)" "\<not> (IsList (entry it) \<and> lDirty it)"
    "\<not> (IsHash (entry it) \<and> hDirty it)"
    using ss.dirty_flag [OF wf] zs.dirty_flag [OF wf] gs.dirty_flag [OF wf] ls.dirty_flag [OF wf]
      hs.dirty_flag [OF wf] unfolding Is_defs cached_flags_def by blast+
  note off = this [THEN dirty_value_off]
  show ?thesis unfolding mat_def materialise_def Let_def off by simp
qed

section \<open>Reads return the view\<close>

lemma Peek_spec:
  assumes "mem_wf m"
  shows "fst (Peek now k m) = (case view m k of None \<Rightarrow> None | Some e \<Rightarrow> if Expired e now then None else Some e)"
    and "mem_wf (snd (Peek now k m))"
    and "view (snd (Peek now k m)) =
      (case view m k of None \<Rightarrow> view m | Some e \<Rightarrow> if Expired e now then (view m)(k := None) else view m)"
proof -
  show "fst (Peek now k m) = (case view m k of None \<Rightarrow> None | Some e \<Rightarrow> if Expired e now then None else Some e)"
    using flushAll_spec [OF assms]
    by (fastforce simp: Peek_def view_def CloneValue_def Let_def split: option.splits)
  show "mem_wf (snd (Peek now k m))"
    using flushAll_spec [OF assms] assms
    by (auto simp: Peek_def same_view_def mem_wf_removeElement Let_def split: option.splits)
  show "view (snd (Peek now k m)) =
      (case view m k of None \<Rightarrow> view m | Some e \<Rightarrow> if Expired e now then (view m)(k := None) else view m)"
    using flushAll_spec [OF assms]
    by (auto simp: Peek_def same_view_def view_removeElement Let_def split: option.splits)
      (auto simp: view_def)
qed

lemma Get_spec:
  assumes "mem_wf m"
  shows "fst (Get now k m) =
      (case view m k of None \<Rightarrow> None | Some e \<Rightarrow> if Expired e now \<or> IsTombstone e then None else Some e)"
    and "mem_wf (snd (Get now k m))"
    and "view (snd (Get now k m)) =
      (case view m k of None \<Rightarrow> view m | Some e \<Rightarrow> if Expired e now then (view m)(k := None) else view m)"
proof -
  show "fst (Get now k m) =
      (case view m k of None \<Rightarrow> None | Some e \<Rightarrow> if Expired e now \<or> IsTombstone e then None else Some e)"
    using flushAll_spec [OF assms]
    by (fastforce simp: Get_def view_def CloneValue_def Let_def split: option.splits)
  show "mem_wf (snd (Get now k m))"
    using flushAll_spec [OF assms] assms
    by (fastforce simp: Get_def same_view_def mem_wf_removeElement mem_wf_counters mem_wf_moveToFront Let_def
        split: option.splits)
  show "view (snd (Get now k m)) =
      (case view m k of None \<Rightarrow> view m | Some e \<Rightarrow> if Expired e now then (view m)(k := None) else view m)"
    using flushAll_spec [OF assms]
    by (auto simp: Get_def same_view_def view_removeElement Let_def split: option.splits)
      (auto simp: view_def)
qed

lemma read_config:
  assumes "mem_wf m"
  shows "maxBytes (snd (Get now k m)) = maxBytes m" "tombstoneTTL (snd (Get now k m)) = tombstoneTTL m"
    "maxBytes (snd (Peek now k m)) = maxBytes m" "tombstoneTTL (snd (Peek now k m)) = tombstoneTTL m"
  using flushAll_spec [OF assms]
  by (auto simp: Get_def Peek_def same_view_def Let_def split: option.splits)

section \<open>Writes store their entry\<close>

text \<open>
  \<open>stored now k e m m'\<close>: \<open>m'\<close> is \<open>m\<close> with \<open>e\<close> under \<open>k\<close>, less some unpinned entries if
  the store is bounded, and it is within its budget or holds pinned entries only.
\<close>

definition stored :: "time \<Rightarrow> bytes \<Rightarrow> entry \<Rightarrow> memory \<Rightarrow> memory \<Rightarrow> bool" where
  "stored now k e m m' \<longleftrightarrow>
     mem_wf m' \<and> maxBytes m' = maxBytes m \<and> tombstoneTTL m' = tombstoneTTL m \<and>
     (\<forall>j. view m' j = ((view m)(k \<mapsto> e)) j \<or>
          (view m' j = None \<and> 0 < maxBytes m \<and>
           (\<exists>e'. ((view m)(k \<mapsto> e)) j = Some e' \<and> \<not> lru_pinned e' now))) \<and>
     (0 < maxBytes m \<longrightarrow>
        mbytes m' \<le> maxBytes m \<or> (\<forall>j e'. view m' j = Some e' \<longrightarrow> lru_pinned e' now))"

lemma stored_evictLocked:
  assumes wf: "mem_wf m1" and v: "view m1 = (view m)(k \<mapsto> e)"
    and c: "maxBytes m1 = maxBytes m" "tombstoneTTL m1 = tombstoneTTL m"
  shows "stored now k e m (evictLocked now m1)"
proof -
  have "view (evictLocked now m1) j = view m1 j \<or>
      (view (evictLocked now m1) j = None \<and> 0 < maxBytes m \<and>
       (\<exists>e'. view m1 j = Some e' \<and> \<not> lru_pinned e' now))" for j
  proof (cases "0 < maxBytes m")
    case True
    then show ?thesis
      using evicted_evictLocked [of now m1]
      unfolding evicted_def unpinned_iff by metis
  qed (simp add: evictLocked_unbounded c)
  moreover have "mbytes (evictLocked now m1) \<le> maxBytes m \<or>
      (\<forall>j e'. view (evictLocked now m1) j = Some e' \<longrightarrow> lru_pinned e' now)" if "0 < maxBytes m"
    using evictLocked_budget [OF wf, of now] that
    by (auto simp: c unpinned_iff)
  ultimately show ?thesis
    unfolding stored_def by (simp add: c mem_wf_evictLocked [OF wf] v del: fun_upd_apply)
qed

lemma stored_replace:
  assumes "mem_wf m" "items m k = Some it" "key it' = k" "item_wf it'"
  shows "stored now k (mat it') m (evictLocked now (moveToFront k (replaceItem k it' m)))"
proof -
  let ?m1 = "replaceItem k it' m"
  have "mem_wf (moveToFront k ?m1)"
    using mem_wf_replaceItem [OF assms] assms(2)
    by (auto intro: mem_wf_moveToFront simp: items_replaceItem)
  then show ?thesis
    using assms(2) by (intro stored_evictLocked) (simp_all add: view_replaceItem)
qed

lemma stored_push:
  assumes "mem_wf m" "items m k = None" "key it = k" "item_wf it"
  shows "stored now k (mat it) m (evictLocked now (pushFront k it m))"
  by (rule stored_evictLocked) (simp_all add: mem_wf_pushFront assms view_pushFront)

lemma stored_unbounded: "stored now k e m m' \<Longrightarrow> maxBytes m \<le> 0 \<Longrightarrow> view m' = (view m)(k \<mapsto> e)"
  unfolding stored_def fun_eq_iff by (metis leD)

lemma stored_wf: "stored now k e m m' \<Longrightarrow> mem_wf m'"
  by (simp add: stored_def)

lemma stored_self: "stored now k e m m' \<Longrightarrow> lru_pinned e now \<Longrightarrow> view m' k = Some e"
  unfolding stored_def by (metis fun_upd_same option.inject)

lemma stored_other_pinned:
  "stored now k e m m' \<Longrightarrow> j \<noteq> k \<Longrightarrow> view m j = Some e' \<Longrightarrow> lru_pinned e' now \<Longrightarrow> view m' j = Some e'"
  unfolding stored_def by (metis fun_upd_other option.inject)

lemma stored_le: "stored now k e m m' \<Longrightarrow> view m' j = Some e' \<Longrightarrow> ((view m)(k \<mapsto> e)) j = Some e'"
  unfolding stored_def by (metis option.distinct(1))

lemma mat_in_place [simp]:
  "plain e \<Longrightarrow> mat (it\<lparr>entry := e, cost := c\<rparr>) = e"
  by (simp add: mat_plain)

lemma item_wf_in_place: "plain e \<Longrightarrow> key it = k \<Longrightarrow> item_wf (it\<lparr>entry := e, cost := entryCost k e\<rparr>)"
  by (rule item_wf_plain) simp_all

lemma plain_tombstone [simp]: "plain (tombstone v ex)"
  by (simp add: plain_def tombstone_def flag_simps)

lemma tombstone_simps [simp]:
  "Version (tombstone v ex) = v" "ExpireAt (tombstone v ex) = ex" "Value (tombstone v ex) = []"
  "IsTombstone (tombstone v ex)"
  by (simp_all add: tombstone_def flag_simps)

text \<open>Each write either leaves the view alone or stores its entry, and says which.\<close>

lemma memory_Set_spec:
  assumes "mem_wf m" "go_len (Value e)"
  shows "if fst (memory_Set now k e m) then stored now k e m (snd (memory_Set now k e m))
         else snd (memory_Set now k e m) = m \<and> 0 < maxBytes m \<and> maxBytes m < entryCost k e"
  using stored_replace [OF assms(1) _ _ item_wf_overwrite [OF assms(2)], of k]
    stored_push [OF assms(1) _ _ item_wf_mkItem [OF assms(2)], of k] mem_wfD(1) [OF assms(1)]
  by (auto simp: memory_Set_def split: option.splits)

lemma AcceptIfNewer_spec:
  assumes "mem_wf m" "go_len (Value e)"
  shows "if fst (AcceptIfNewer now k e m)
         then stored now k e m (snd (AcceptIfNewer now k e m)) \<and>
              (\<forall>e0. view m k = Some e0 \<longrightarrow> Expired e0 now \<or> Version e0 < Version e)
         else mem_wf (snd (AcceptIfNewer now k e m)) \<and> view (snd (AcceptIfNewer now k e m)) = view m \<and>
              maxBytes (snd (AcceptIfNewer now k e m)) = maxBytes m \<and>
              tombstoneTTL (snd (AcceptIfNewer now k e m)) = tombstoneTTL m \<and>
              (0 < maxBytes m \<and> maxBytes m < entryCost k e \<or>
               (\<exists>e0. view m k = Some e0 \<and> \<not> Expired e0 now \<and> Version e \<le> Version e0))"
  using stored_replace [OF assms(1) _ _ item_wf_overwrite [OF assms(2)], of k]
    stored_push [OF assms(1) _ _ item_wf_mkItem [OF assms(2)], of k] mem_wfD(1) [OF assms(1)] assms(1)
  by (auto simp: AcceptIfNewer_def view_def mem_wf_counters not_le split: option.splits)

lemma AcceptNegative_spec:
  assumes "mem_wf m" "go_len (Value e)" "plain e"
  shows "if fst (AcceptNegative now k e m)
         then stored now k e m (snd (AcceptNegative now k e m)) \<and>
              (\<forall>e0. view m k = Some e0 \<longrightarrow>
                 Expired e0 now \<or> (Version e0 < Version e \<and> (IsTombstone e0 \<or> IsNegative e0)))
         else mem_wf (snd (AcceptNegative now k e m)) \<and> view (snd (AcceptNegative now k e m)) = view m \<and>
              maxBytes (snd (AcceptNegative now k e m)) = maxBytes m \<and>
              tombstoneTTL (snd (AcceptNegative now k e m)) = tombstoneTTL m"
  using stored_replace [OF assms(1) _ _ item_wf_in_place [OF assms(3)], of k]
    stored_push [OF assms(1) _ _ item_wf_mkItem [OF assms(2)], of k] mem_wfD(1) [OF assms(1)] assms
  by (auto simp: AcceptNegative_def view_def mem_wf_counters not_le Let_def split: option.splits)

lemma DeleteIfVersion_spec:
  assumes "mem_wf m"
  shows "if fst (DeleteIfVersion now k v m)
         then stored now k (tombstone v (tombstoneExpireAt now m)) m (snd (DeleteIfVersion now k v m)) \<and>
              (\<forall>e0. view m k = Some e0 \<longrightarrow> Expired e0 now \<or> Version e0 \<le> v)
         else mem_wf (snd (DeleteIfVersion now k v m)) \<and> view (snd (DeleteIfVersion now k v m)) = view m \<and>
              maxBytes (snd (DeleteIfVersion now k v m)) = maxBytes m \<and>
              tombstoneTTL (snd (DeleteIfVersion now k v m)) = tombstoneTTL m \<and>
              (\<exists>e0. view m k = Some e0 \<and> \<not> Expired e0 now \<and> v < Version e0)"
proof -
  let ?t = "tombstone v (tombstoneExpireAt now m)"
  have "go_len (Value ?t)" by (simp add: go_len_def)
  then show ?thesis
    using stored_replace [OF assms _ _ item_wf_in_place [of ?t], of k]
      stored_push [OF assms _ _ item_wf_mkItem [of ?t], of k] mem_wfD(1) [OF assms] assms
    by (auto simp: DeleteIfVersion_def view_def mem_wf_counters not_le Let_def split: option.splits)
qed

lemma Delete_spec:
  assumes "mem_wf m"
  shows "mem_wf (snd (Delete k m))" "view (snd (Delete k m)) = (view m)(k := None)"
    "fst (Delete k m) \<longleftrightarrow> k \<in> dom (view m)"
  using assms mem_wf_removeElement
  by (auto simp: Delete_def view_removeElement split: option.splits) (auto simp: view_def)

end
