(* ===== verification/Lww.thy ===== *)
theory Lww
  imports MemoryFacts
begin

text \<open>
  Last-writer-wins replication at the store: the abstract specification that
  \<open>AcceptIfNewer\<close> and \<open>DeleteIfVersion\<close> implement, convergence of replicas that
  apply the same puts and deletes in different orders, and the protection a tombstone
  gives until it expires.
\<close>

section \<open>The abstract specification\<close>

text \<open>The two operations on the abstract content: a put needs a strictly newer version, a
  delete a version at least as new; an expired entry never stands in the way.\<close>

definition spec_put :: "time \<Rightarrow> bytes \<Rightarrow> entry \<Rightarrow> (bytes \<rightharpoonup> entry) \<Rightarrow> (bytes \<rightharpoonup> entry)" where
  "spec_put now k e V =
     (case V k of
        None \<Rightarrow> V(k \<mapsto> e)
      | Some e0 \<Rightarrow> if \<not> Expired e0 now \<and> Version e \<le> Version e0 then V else V(k \<mapsto> e))"

definition spec_del :: "time \<Rightarrow> time \<Rightarrow> bytes \<Rightarrow> u64 \<Rightarrow> (bytes \<rightharpoonup> entry) \<Rightarrow> (bytes \<rightharpoonup> entry)" where
  "spec_del now ex k v V =
     (case V k of
        None \<Rightarrow> V(k \<mapsto> tombstone v ex)
      | Some e0 \<Rightarrow> if \<not> Expired e0 now \<and> v < Version e0 then V else V(k \<mapsto> tombstone v ex))"

text \<open>C12. An unbounded store implements the last-writer-wins map: the view after a put is
  the abstract put of the view before, and the put reports whether it changed anything.\<close>

theorem AcceptIfNewer_refines:
  assumes wf: "mem_wf m" and len: "go_len (Value e)" and unb: "maxBytes m \<le> 0"
  shows "view (snd (AcceptIfNewer now k e m)) = spec_put now k e (view m) \<and>
    (fst (AcceptIfNewer now k e m) \<longleftrightarrow>
      (\<forall>e0. view m k = Some e0 \<longrightarrow> Expired e0 now \<or> Version e0 < Version e))"
proof (cases "fst (AcceptIfNewer now k e m)")
  case True
  with AcceptIfNewer_spec [OF wf len, of now k]
  have st: "stored now k e m (snd (AcceptIfNewer now k e m))"
    and new: "\<forall>e0. view m k = Some e0 \<longrightarrow> Expired e0 now \<or> Version e0 < Version e" by simp_all
  have "spec_put now k e (view m) = (view m)(k \<mapsto> e)"
    using new by (auto simp: spec_put_def split: option.splits)
  then show ?thesis using True new stored_unbounded [OF st unb] by simp
next
  case False
  with AcceptIfNewer_spec [OF wf len, of now k] unb obtain e0 where
    "view (snd (AcceptIfNewer now k e m)) = view m"
    "view m k = Some e0" "\<not> Expired e0 now" "Version e \<le> Version e0" by auto
  then show ?thesis using False by (auto simp: spec_put_def not_less)
qed

theorem AcceptIfNewer_refines_witness:
  "let e = \<lparr>Value = [1], Version = 2, ExpireAt = 0, Flags = 0\<rparr>; m = NewMemory 0 0
   in view (snd (AcceptIfNewer 5 [107] e m)) = spec_put 5 [107] e (view m) \<and>
      (fst (AcceptIfNewer 5 [107] e m) \<longleftrightarrow>
        (\<forall>e0. view m [107] = Some e0 \<longrightarrow> Expired e0 5 \<or> Version e0 < Version e))"
  unfolding Let_def
  by (rule AcceptIfNewer_refines) (simp_all add: go_len_def, simp add: NewMemory_def)

text \<open>C13. Likewise for deletes: the tombstone carries the deleting version and the
  configured lifetime.\<close>

theorem DeleteIfVersion_refines:
  assumes wf: "mem_wf m" and unb: "maxBytes m \<le> 0"
  shows "view (snd (DeleteIfVersion now k v m)) = spec_del now (tombstoneExpireAt now m) k v (view m) \<and>
    (fst (DeleteIfVersion now k v m) \<longleftrightarrow>
      (\<forall>e0. view m k = Some e0 \<longrightarrow> Expired e0 now \<or> Version e0 \<le> v))"
proof (cases "fst (DeleteIfVersion now k v m)")
  case True
  let ?t = "tombstone v (tombstoneExpireAt now m)"
  from True DeleteIfVersion_spec [OF wf, of now k v]
  have st: "stored now k ?t m (snd (DeleteIfVersion now k v m))"
    and new: "\<forall>e0. view m k = Some e0 \<longrightarrow> Expired e0 now \<or> Version e0 \<le> v" by simp_all
  have "spec_del now (tombstoneExpireAt now m) k v (view m) = (view m)(k \<mapsto> ?t)"
    using new by (auto simp: spec_del_def split: option.splits)
  then show ?thesis using True new stored_unbounded [OF st unb] by simp
next
  case False
  with DeleteIfVersion_spec [OF wf, of now k v] obtain e0 where
    "view (snd (DeleteIfVersion now k v m)) = view m"
    "view m k = Some e0" "\<not> Expired e0 now" "v < Version e0" by auto
  then show ?thesis using False by (auto simp: spec_del_def not_le)
qed

theorem DeleteIfVersion_refines_witness:
  "let m = NewMemory 0 7
   in view (snd (DeleteIfVersion 5 [107] 2 m)) = spec_del 5 (tombstoneExpireAt 5 m) [107] 2 (view m) \<and>
      (fst (DeleteIfVersion 5 [107] 2 m) \<longleftrightarrow>
        (\<forall>e0. view m [107] = Some e0 \<longrightarrow> Expired e0 5 \<or> Version e0 \<le> 2))"
  unfolding Let_def
  by (rule DeleteIfVersion_refines) (simp_all, simp add: NewMemory_def)

section \<open>Convergence\<close>

datatype msg = Put bytes entry | Del bytes u64

fun msg_key :: "msg \<Rightarrow> bytes" where
  "msg_key (Put k e) = k"
| "msg_key (Del k v) = k"

fun msg_version :: "msg \<Rightarrow> u64" where
  "msg_version (Put k e) = Version e"
| "msg_version (Del k v) = v"

fun applyMsg :: "time \<Rightarrow> msg \<Rightarrow> memory \<Rightarrow> memory" where
  "applyMsg now (Put k e) m = snd (AcceptIfNewer now k e m)"
| "applyMsg now (Del k v) m = snd (DeleteIfVersion now k v m)"

definition applyAll :: "(time \<times> msg) list \<Rightarrow> memory \<Rightarrow> memory" where
  "applyAll tms m = fold (\<lambda>(now, x). applyMsg now x) tms m"

text \<open>What a reader can compare between replicas: a tombstone's expiry is local.\<close>

definition observe :: "memory \<Rightarrow> bytes \<Rightarrow> (u64 \<times> u64 \<times> bytes) option" where
  "observe m k = map_option (\<lambda>e. (Version e, Flags e, Value e)) (view m k)"

fun msg_obs :: "msg \<Rightarrow> u64 \<times> u64 \<times> bytes" where
  "msg_obs (Put k e) = (Version e, Flags e, Value e)"
| "msg_obs (Del k v) = (v, FlagTombstone, [])"

text \<open>The order of messages on one key: by version, a delete before a put of its version.\<close>

fun msg_beats :: "msg \<Rightarrow> msg \<Rightarrow> bool" where
  "msg_beats (Put k e) y = (case y of Put k' e' \<Rightarrow> Version e' \<le> Version e | Del k' v' \<Rightarrow> v' < Version e)"
| "msg_beats (Del k v) y = (msg_version y \<le> v)"

text \<open>Messages that stay alive throughout a time window.\<close>

fun msg_lasting :: "time \<Rightarrow> msg \<Rightarrow> bool" where
  "msg_lasting t1 (Put k e) \<longleftrightarrow> go_len (Value e) \<and> (ExpireAt e = 0 \<or> t1 < ExpireAt e)"
| "msg_lasting t1 (Del k v) \<longleftrightarrow> True"

definition lasting_tombs :: "time \<Rightarrow> time \<Rightarrow> memory \<Rightarrow> bool" where
  "lasting_tombs t0 t1 m \<longleftrightarrow> tombstoneTTL m \<le> 0 \<or> t1 < t0 + tombstoneTTL m"

text \<open>The store holds, under every key, the best message seen for it.\<close>

definition holds_best :: "time \<Rightarrow> msg set \<Rightarrow> memory \<Rightarrow> bool" where
  "holds_best t1 S m \<longleftrightarrow>
     (\<forall>k. case view m k of
        None \<Rightarrow> (\<forall>x \<in> S. msg_key x \<noteq> k)
      | Some e \<Rightarrow>
          (ExpireAt e = 0 \<or> t1 < ExpireAt e) \<and>
          (\<exists>x \<in> S. msg_key x = k \<and> msg_obs x = (Version e, Flags e, Value e) \<and>
             (\<forall>y \<in> S. msg_key y = k \<longrightarrow> msg_beats x y)))"

lemma msg_beats_trans: "msg_beats x y \<Longrightarrow> msg_beats y z \<Longrightarrow> msg_beats x z"
  by (cases x; cases y; cases z) auto

lemma msg_beats_refl: "msg_beats x x"
  by (cases x) auto

lemma msg_version_obs: "fst (msg_obs x) = msg_version x"
  by (cases x) auto

lemma not_expired: "ExpireAt e = 0 \<or> t1 < ExpireAt e \<Longrightarrow> now \<le> t1 \<Longrightarrow> \<not> Expired e now"
  by (auto simp: Expired_def)

lemma holds_best_insert:
  assumes hb: "holds_best t1 S m"
    and other: "\<And>j. j \<noteq> msg_key x \<Longrightarrow> view m' j = view m j"
    and key: "case view m' (msg_key x) of
        None \<Rightarrow> False
      | Some e \<Rightarrow> (ExpireAt e = 0 \<or> t1 < ExpireAt e) \<and>
          (\<exists>z \<in> insert x S. msg_key z = msg_key x \<and> msg_obs z = (Version e, Flags e, Value e) \<and>
             (\<forall>y \<in> insert x S. msg_key y = msg_key x \<longrightarrow> msg_beats z y))"
  shows "holds_best t1 (insert x S) m'"
  unfolding holds_best_def
proof (intro allI)
  fix k
  show "case view m' k of
        None \<Rightarrow> (\<forall>y \<in> insert x S. msg_key y \<noteq> k)
      | Some e \<Rightarrow> (ExpireAt e = 0 \<or> t1 < ExpireAt e) \<and>
          (\<exists>z \<in> insert x S. msg_key z = k \<and> msg_obs z = (Version e, Flags e, Value e) \<and>
             (\<forall>y \<in> insert x S. msg_key y = k \<longrightarrow> msg_beats z y))"
  proof (cases "k = msg_key x")
    case True
    then show ?thesis using key by (simp split: option.splits)
  next
    case False
    then show ?thesis
      using other [OF False] hb [unfolded holds_best_def, rule_format, of k]
      by (auto split: option.splits)
  qed
qed

text \<open>A message that is turned down is beaten by the one the store holds.\<close>

lemma holds_best_skip:
  assumes hb: "holds_best t1 S m" and e0: "view m (msg_key x) = Some e0"
    and v: "(case x of Put k e \<Rightarrow> Version e \<le> Version e0 | Del k v \<Rightarrow> v < Version e0)"
  shows "holds_best t1 (insert x S) m"
proof (rule holds_best_insert [OF hb refl])
  from hb e0 obtain z where z: "ExpireAt e0 = 0 \<or> t1 < ExpireAt e0" "z \<in> S" "msg_key z = msg_key x"
    "msg_obs z = (Version e0, Flags e0, Value e0)" "\<forall>y \<in> S. msg_key y = msg_key x \<longrightarrow> msg_beats z y"
    unfolding holds_best_def by (force dest: spec [of _ "msg_key x"])
  have "msg_beats z x" using v z(4) by (cases x; cases z) auto
  with z e0 show "case view m (msg_key x) of None \<Rightarrow> False
      | Some e \<Rightarrow> (ExpireAt e = 0 \<or> t1 < ExpireAt e) \<and>
          (\<exists>z \<in> insert x S. msg_key z = msg_key x \<and> msg_obs z = (Version e, Flags e, Value e) \<and>
             (\<forall>y \<in> insert x S. msg_key y = msg_key x \<longrightarrow> msg_beats z y))"
    by auto
qed

text \<open>A message that is taken beats everything seen for its key.\<close>

lemma holds_best_take:
  assumes hb: "holds_best t1 S m" and view: "view m' = (view m)(msg_key x \<mapsto> e)"
    and e: "ExpireAt e = 0 \<or> t1 < ExpireAt e" "msg_obs x = (Version e, Flags e, Value e)"
    and v: "\<And>e0. view m (msg_key x) = Some e0 \<Longrightarrow>
      (case x of Put k e \<Rightarrow> Version e0 < Version e | Del k v \<Rightarrow> Version e0 \<le> v)"
  shows "holds_best t1 (insert x S) m'"
proof (rule holds_best_insert [OF hb])
  have beats: "msg_beats x y" if y: "y \<in> S" "msg_key y = msg_key x" for y
  proof -
    obtain e0 z where z: "view m (msg_key x) = Some e0" "msg_obs z = (Version e0, Flags e0, Value e0)" "msg_beats z y"
      using hb [unfolded holds_best_def, rule_format, of "msg_key x"] y by (auto split: option.splits)
    have "msg_beats x z" using v [OF z(1)] z(2) by (cases x; cases z) auto
    then show ?thesis using z(3) by (rule msg_beats_trans)
  qed
  then show "case view m' (msg_key x) of None \<Rightarrow> False
      | Some e \<Rightarrow> (ExpireAt e = 0 \<or> t1 < ExpireAt e) \<and>
          (\<exists>z \<in> insert x S. msg_key z = msg_key x \<and> msg_obs z = (Version e, Flags e, Value e) \<and>
             (\<forall>y \<in> insert x S. msg_key y = msg_key x \<longrightarrow> msg_beats z y))"
    using e view by (auto simp: msg_beats_refl intro!: bexI [of _ x])
qed (simp add: view)

lemma applyMsg_step:
  assumes wf: "mem_wf m" and unb: "maxBytes m \<le> 0" and hb: "holds_best t1 S m"
    and t: "t0 \<le> now" "now \<le> t1" and x: "msg_lasting t1 x" and ttl: "lasting_tombs t0 t1 m"
  shows "mem_wf (applyMsg now x m) \<and> maxBytes (applyMsg now x m) = maxBytes m \<and>
    tombstoneTTL (applyMsg now x m) = tombstoneTTL m \<and> holds_best t1 (insert x S) (applyMsg now x m)"
proof -
  have alive: "\<not> Expired e0 now" if "view m k = Some e0" for k e0
    using hb [unfolded holds_best_def, rule_format, of k] that t(2) not_expired [of e0 t1 now] by auto
  show ?thesis
  proof (cases x)
    case (Put k e)
    have len: "go_len (Value e)" using x Put by simp
    note spec = AcceptIfNewer_spec [OF wf len, of now k]
    show ?thesis
    proof (cases "fst (AcceptIfNewer now k e m)")
      case True
      with spec have st: "stored now k e m (applyMsg now x m)"
        and new: "\<forall>e0. view m k = Some e0 \<longrightarrow> Expired e0 now \<or> Version e0 < Version e"
        by (simp_all add: Put)
      have "holds_best t1 (insert x S) (applyMsg now x m)"
        by (rule holds_best_take [OF hb, of _ _ e])
          (use stored_unbounded [OF st unb] x new alive in \<open>auto simp: Put\<close>)
      then show ?thesis using st by (simp add: stored_def)
    next
      case False
      with spec unb obtain e0 where
        "mem_wf (applyMsg now x m)" "view (applyMsg now x m) = view m"
        "maxBytes (applyMsg now x m) = maxBytes m" "tombstoneTTL (applyMsg now x m) = tombstoneTTL m"
        "view m k = Some e0" "Version e \<le> Version e0" by (auto simp: Put)
      then show ?thesis
        using holds_best_skip [OF hb, of x e0] by (simp add: Put holds_best_def)
    qed
  next
    case (Del k v)
    let ?t = "tombstone v (tombstoneExpireAt now m)"
    note spec = DeleteIfVersion_spec [OF wf, of now k v]
    show ?thesis
    proof (cases "fst (DeleteIfVersion now k v m)")
      case True
      with spec have st: "stored now k ?t m (applyMsg now x m)"
        and new: "\<forall>e0. view m k = Some e0 \<longrightarrow> Expired e0 now \<or> Version e0 \<le> v"
        by (simp_all add: Del)
      have "ExpireAt ?t = 0 \<or> t1 < ExpireAt ?t"
        using ttl t by (auto simp: tombstoneExpireAt_def lasting_tombs_def)
      then have "holds_best t1 (insert x S) (applyMsg now x m)"
        by (intro holds_best_take [OF hb, of _ _ ?t])
          (use stored_unbounded [OF st unb] new alive in \<open>auto simp: Del tombstone_def\<close>)
      then show ?thesis using st by (simp add: stored_def)
    next
      case False
      with spec obtain e0 where
        "mem_wf (applyMsg now x m)" "view (applyMsg now x m) = view m"
        "maxBytes (applyMsg now x m) = maxBytes m" "tombstoneTTL (applyMsg now x m) = tombstoneTTL m"
        "view m k = Some e0" "v < Version e0" by (auto simp: Del)
      then show ?thesis
        using holds_best_skip [OF hb, of x e0] by (simp add: Del holds_best_def)
    qed
  qed
qed

lemma applyAll_best:
  assumes "mem_wf m" "maxBytes m \<le> 0" "holds_best t1 S m" "lasting_tombs t0 t1 m"
    and "\<forall>(now, x) \<in> set tms. t0 \<le> now \<and> now \<le> t1 \<and> msg_lasting t1 x"
  shows "mem_wf (applyAll tms m) \<and> holds_best t1 (S \<union> snd ` set tms) (applyAll tms m)"
  using assms
proof (induction tms arbitrary: m S)
  case Nil
  then show ?case by (simp add: applyAll_def)
next
  case (Cons tx tms)
  obtain now x where tx: "tx = (now, x)" by (cases tx)
  note step = applyMsg_step [OF Cons.prems(1-3), of t0 now x]
  have "mem_wf (applyAll tms (applyMsg now x m)) \<and>
      holds_best t1 (insert x S \<union> snd ` set tms) (applyAll tms (applyMsg now x m))"
    using step Cons.prems tx by (intro Cons.IH) (auto simp: lasting_tombs_def)
  then show ?case by (simp add: tx applyAll_def)
qed

text \<open>No two puts give one key the same version but different contents.\<close>

definition versions_unique :: "msg set \<Rightarrow> bool" where
  "versions_unique S \<longleftrightarrow>
     (\<forall>k e e'. Put k e \<in> S \<longrightarrow> Put k e' \<in> S \<longrightarrow> Version e = Version e' \<longrightarrow>
        Flags e = Flags e' \<and> Value e = Value e')"

lemma best_unique:
  assumes "versions_unique S" "x \<in> S" "y \<in> S" "msg_key x = k" "msg_key y = k" "msg_beats x y" "msg_beats y x"
  shows "msg_obs x = msg_obs y"
proof (cases x)
  case px: (Put k1 e1)
  show ?thesis
  proof (cases y)
    case py: (Put k2 e2)
    have "Version e1 = Version e2" using assms(6,7) px py by (simp add: order_antisym)
    moreover have "Put k e1 \<in> S" "Put k e2 \<in> S" using assms(2-5) px py by simp_all
    ultimately show ?thesis
      using assms(1) [unfolded versions_unique_def, rule_format, of k e1 e2] px py by simp
  next
    case (Del k2 v2)
    then show ?thesis using assms(6,7) px by (simp add: leD)
  qed
next
  case dx: (Del k1 v1)
  then show ?thesis using assms(6,7) by (cases y) (simp_all add: leD order_antisym)
qed

lemma observe_best:
  assumes "holds_best t1 S m" "holds_best t2 S m'" "versions_unique S"
  shows "observe m = observe m'"
proof
  fix k
  note a = assms(1) [unfolded holds_best_def, rule_format, of k]
  note b = assms(2) [unfolded holds_best_def, rule_format, of k]
  show "observe m k = observe m' k"
  proof (cases "view m k")
    case None
    then show ?thesis using a b by (auto simp: observe_def split: option.splits)
  next
    case (Some e)
    then obtain x where x: "x \<in> S" "msg_key x = k" "msg_obs x = (Version e, Flags e, Value e)"
      "\<forall>y \<in> S. msg_key y = k \<longrightarrow> msg_beats x y" using a by auto
    then obtain e' y where y: "view m' k = Some e'" "y \<in> S" "msg_key y = k"
      "msg_obs y = (Version e', Flags e', Value e')" "\<forall>z \<in> S. msg_key z = k \<longrightarrow> msg_beats y z"
      using b by (auto split: option.splits)
    have "msg_obs x = msg_obs y" using best_unique [OF assms(3) x(1) y(2) x(2) y(3)] x y by blast
    then show ?thesis using Some x y by (simp add: observe_def)
  qed
qed

text \<open>C1. Replicas converge: two unbounded replicas that start empty and receive the same
  set of puts and deletes, each in its own order, at its own times and with any
  repetitions, end up with the same versions, flags and values under every key. All messages
  come within a window of time in which no put and no tombstone expires, and no two
  different puts share a key and a version.\<close>

theorem replicas_converge:
  assumes unb: "mx \<le> 0" "mx' \<le> 0"
    and same: "snd ` set tms = snd ` set tms'"
    and uniq: "versions_unique (snd ` set tms)"
    and win: "\<forall>(now, x) \<in> set tms. t0 \<le> now \<and> now \<le> t1 \<and> msg_lasting t1 x"
      "\<forall>(now, x) \<in> set tms'. t0 \<le> now \<and> now \<le> t1 \<and> msg_lasting t1 x"
    and ttl: "ttl \<le> 0 \<or> t1 < t0 + ttl" "ttl' \<le> 0 \<or> t1 < t0 + ttl'"
  shows "observe (applyAll tms (NewMemory mx ttl)) = observe (applyAll tms' (NewMemory mx' ttl'))"
proof -
  have best: "holds_best t1 (snd ` set xs) (applyAll xs (NewMemory n d))"
    if "n \<le> 0" "\<forall>(now, x) \<in> set xs. t0 \<le> now \<and> now \<le> t1 \<and> msg_lasting t1 x" "d \<le> 0 \<or> t1 < t0 + d"
    for xs n d
  proof -
    have "maxBytes (NewMemory n d) \<le> 0" "lasting_tombs t0 t1 (NewMemory n d)" "holds_best t1 {} (NewMemory n d)"
      using that by (simp_all add: NewMemory_def lasting_tombs_def holds_best_def view_def)
    then show ?thesis using applyAll_best [of "NewMemory n d" t1 "{}" t0 xs] that(2) by simp
  qed
  show ?thesis
    using observe_best [OF best [OF unb(1) win(1) ttl(1)] _ uniq]
      best [OF unb(2) win(2) ttl(2)] same by simp
qed

theorem replicas_converge_witness:
  "let a = Put [107] \<lparr>Value = [1], Version = 1, ExpireAt = 0, Flags = 0\<rparr>;
       b = Put [107] \<lparr>Value = [2], Version = 3, ExpireAt = 0, Flags = 0\<rparr>;
       d = Del [107] 2
   in observe (applyAll [(5, a), (6, d), (7, b)] (NewMemory 0 100)) =
      observe (applyAll [(5, b), (5, a), (8, d), (9, a)] (NewMemory 0 50))"
  unfolding Let_def
  by (rule replicas_converge [of _ _ _ _ 0 20]) (auto simp: versions_unique_def go_len_def)

text \<open>Two puts of one key and one version do not converge: each replica keeps the first.\<close>

lemma equal_versions_diverge:
  "(let a = Put [107] \<lparr>Value = [1], Version = 1, ExpireAt = 0, Flags = 0\<rparr>;
        b = Put [107] \<lparr>Value = [2], Version = 1, ExpireAt = 0, Flags = 0\<rparr>
    in observe (applyAll [(5, a), (6, b)] (NewMemory 0 0)) [107] = Some (1, 0, [1]) \<and>
       observe (applyAll [(5, b), (6, a)] (NewMemory 0 0)) [107] = Some (1, 0, [2]))"
  by code_simp

section \<open>Tombstones hold until they expire\<close>

text \<open>Traffic on a store, replicated writes and reads of any key.\<close>

datatype traffic = TPut bytes entry | TNeg bytes entry | TDel bytes u64 | TGet bytes | TPeek bytes

fun applyTraffic :: "time \<Rightarrow> traffic \<Rightarrow> memory \<Rightarrow> memory" where
  "applyTraffic now (TPut k e) m = snd (AcceptIfNewer now k e m)"
| "applyTraffic now (TNeg k e) m = snd (AcceptNegative now k e m)"
| "applyTraffic now (TDel k v) m = snd (DeleteIfVersion now k v m)"
| "applyTraffic now (TGet k) m = snd (Get now k m)"
| "applyTraffic now (TPeek k) m = snd (Peek now k m)"

text \<open>Traffic that does not carry a newer write for the deleted key.\<close>

fun stale_for :: "bytes \<Rightarrow> u64 \<Rightarrow> traffic \<Rightarrow> bool" where
  "stale_for k v (TPut j e) \<longleftrightarrow> go_len (Value e) \<and> (j = k \<longrightarrow> Version e \<le> v)"
| "stale_for k v (TNeg j e) \<longleftrightarrow> go_len (Value e) \<and> plain e \<and> (j = k \<longrightarrow> Version e \<le> v)"
| "stale_for k v (TDel j w) \<longleftrightarrow> True"
| "stale_for k v (TGet j) \<longleftrightarrow> True"
| "stale_for k v (TPeek j) \<longleftrightarrow> True"

definition tomb_holds :: "bytes \<Rightarrow> u64 \<Rightarrow> time \<Rightarrow> memory \<Rightarrow> bool" where
  "tomb_holds k v t1 m \<longleftrightarrow>
     mem_wf m \<and> (\<exists>t. view m k = Some t \<and> IsTombstone t \<and> v \<le> Version t \<and>
       (ExpireAt t = 0 \<or> t1 < ExpireAt t))"

lemma tomb_pinned: "IsTombstone t \<Longrightarrow> ExpireAt t = 0 \<or> t1 < ExpireAt t \<Longrightarrow> now \<le> t1 \<Longrightarrow> lru_pinned t now"
  using not_expired [of t t1 now] by (simp add: lru_pinned_def)

lemma tomb_holds_stored:
  assumes th: "tomb_holds k v t1 m" and now: "now \<le> t1" and st: "stored now j e m m'" and j: "j \<noteq> k"
  shows "tomb_holds k v t1 m'"
proof -
  obtain t where t: "view m k = Some t" "IsTombstone t" "v \<le> Version t" "ExpireAt t = 0 \<or> t1 < ExpireAt t"
    using th by (auto simp: tomb_holds_def)
  have "view m' k = Some t"
    using stored_other_pinned [OF st j [symmetric] t(1) tomb_pinned [OF t(2,4) now]] .
  then show ?thesis using t stored_wf [OF st] by (auto simp: tomb_holds_def)
qed

lemma tomb_holds_view: "tomb_holds k v t1 m \<Longrightarrow> mem_wf m' \<Longrightarrow> view m' k = view m k \<Longrightarrow> tomb_holds k v t1 m'"
  by (simp add: tomb_holds_def)

lemma tomb_holds_put:
  assumes th: "tomb_holds k v t1 m" and now: "now \<le> t1" and st: "stored now j e m m'"
    and new: "\<And>e0. view m j = Some e0 \<Longrightarrow> Expired e0 now \<or> Version e0 < Version e"
    and stale: "j = k \<Longrightarrow> Version e \<le> v"
  shows "tomb_holds k v t1 m'"
proof (rule tomb_holds_stored [OF th now st], rule notI)
  assume j: "j = k"
  obtain t where t: "view m k = Some t" "v \<le> Version t" "ExpireAt t = 0 \<or> t1 < ExpireAt t"
    using th by (auto simp: tomb_holds_def)
  have "Version t < Version e" using new [of t] t(1) not_expired [OF t(3) now] j by simp
  with stale [OF j] t(2) show False by simp
qed

lemma tomb_holds_del:
  assumes th: "tomb_holds k v t1 m" and now: "t0 \<le> now" "now \<le> t1" and ttl: "lasting_tombs t0 t1 m"
    and st: "stored now j (tombstone w (tombstoneExpireAt now m)) m m'"
    and new: "\<And>e0. view m j = Some e0 \<Longrightarrow> Expired e0 now \<or> Version e0 \<le> w"
  shows "tomb_holds k v t1 m'"
proof (cases "j = k")
  case True
  let ?t = "tombstone w (tombstoneExpireAt now m)"
  obtain t where t: "view m k = Some t" "v \<le> Version t" "ExpireAt t = 0 \<or> t1 < ExpireAt t"
    using th by (auto simp: tomb_holds_def)
  have last: "ExpireAt ?t = 0 \<or> t1 < ExpireAt ?t"
    using ttl now by (auto simp: tombstoneExpireAt_def lasting_tombs_def)
  have "view m' k = Some ?t" using stored_self [OF st tomb_pinned [OF _ last now(2)]] True by simp
  moreover have "v \<le> w" using new [of t] t(1,2) not_expired [OF t(3) now(2)] True by simp
  ultimately show ?thesis using last stored_wf [OF st] by (simp add: tomb_holds_def)
next
  case False
  then show ?thesis by (rule tomb_holds_stored [OF th now(2) st])
qed

lemma tomb_holds_traffic:
  assumes th: "tomb_holds k v t1 m" and x: "stale_for k v x" and t: "t0 \<le> now" "now \<le> t1"
    and ttl: "lasting_tombs t0 t1 m"
  shows "tomb_holds k v t1 (applyTraffic now x m) \<and> tombstoneTTL (applyTraffic now x m) = tombstoneTTL m"
proof -
  obtain tb where tb: "view m k = Some tb" "ExpireAt tb = 0 \<or> t1 < ExpireAt tb"
    and wf: "mem_wf m" using th by (auto simp: tomb_holds_def)
  have alive: "\<not> Expired tb now" by (rule not_expired [OF tb(2) t(2)])
  note keep = tomb_holds_view [OF th, of "applyTraffic now x m"]
  show ?thesis
  proof (cases x)
    case (TPut j e)
    then show ?thesis
      using AcceptIfNewer_spec [OF wf, of e now j] tomb_holds_put [OF th t(2), of j e] x keep
      by (cases "fst (AcceptIfNewer now j e m)") (simp_all add: stored_def)
  next
    case (TNeg j e)
    then show ?thesis
      using AcceptNegative_spec [OF wf, of e now j] tomb_holds_put [OF th t(2), of j e] x keep
      by (cases "fst (AcceptNegative now j e m)") (auto simp: stored_def)
  next
    case (TDel j w)
    then show ?thesis
      using DeleteIfVersion_spec [OF wf, of now j w] tomb_holds_del [OF th t ttl, of j w] keep
      by (cases "fst (DeleteIfVersion now j w m)") (simp_all add: stored_def)
  next
    case (TGet j)
    have "view (snd (Get now j m)) k = view m k"
      using Get_spec(3) [OF wf, of now j] tb(1) alive by (auto split: option.splits if_splits)
    then show ?thesis using TGet keep Get_spec(2) [OF wf] read_config [OF wf] by simp
  next
    case (TPeek j)
    have "view (snd (Peek now j m)) k = view m k"
      using Peek_spec(3) [OF wf, of now j] tb(1) alive by (auto split: option.splits if_splits)
    then show ?thesis using TPeek keep Peek_spec(2) [OF wf] read_config [OF wf] by simp
  qed
qed

lemma tomb_holds_run:
  assumes "tomb_holds k v t1 m" "lasting_tombs t0 t1 m"
    and "\<forall>(now, x) \<in> set txs. t0 \<le> now \<and> now \<le> t1 \<and> stale_for k v x"
  shows "tomb_holds k v t1 (fold (\<lambda>(now, x). applyTraffic now x) txs m)"
  using assms
proof (induction txs arbitrary: m)
  case (Cons tx txs)
  obtain now x where tx: "tx = (now, x)" by (cases tx)
  have "tomb_holds k v t1 (applyTraffic now x m) \<and> lasting_tombs t0 t1 (applyTraffic now x m)"
    using tomb_holds_traffic [OF Cons.prems(1), of x t0 now] Cons.prems tx
    by (auto simp: lasting_tombs_def)
  then show ?case using Cons tx by auto
qed simp

text \<open>C14. A delete is not undone by late traffic: once a delete of a key is accepted, no
  sequence of puts, negative entries, deletes and reads (of this and of other keys,
  with any evictions they cause in a bounded store) makes the key readable again while
  the tombstone lives, unless a write newer than the delete arrives.\<close>

theorem delete_not_resurrected:
  assumes wf: "mem_wf m" and del: "fst (DeleteIfVersion t0 k v m)"
    and ttl: "tombstoneTTL m \<le> 0 \<or> t1 < t0 + tombstoneTTL m" and t: "t0 \<le> t1"
    and txs: "\<forall>(now, x) \<in> set txs. t0 \<le> now \<and> now \<le> t1 \<and> stale_for k v x"
  shows "fst (Get t1 k (fold (\<lambda>(now, x). applyTraffic now x) txs (snd (DeleteIfVersion t0 k v m)))) = None"
proof -
  let ?t = "tombstone v (tombstoneExpireAt t0 m)" and ?m = "snd (DeleteIfVersion t0 k v m)"
  have st: "stored t0 k ?t m ?m" using DeleteIfVersion_spec [OF wf, of t0 k v] del by simp
  have last: "ExpireAt ?t = 0 \<or> t1 < ExpireAt ?t"
    using ttl t by (auto simp: tombstoneExpireAt_def)
  have "tomb_holds k v t1 ?m"
    using stored_self [OF st tomb_pinned [OF _ last t]] stored_wf [OF st] last by (simp add: tomb_holds_def)
  moreover have "lasting_tombs t0 t1 ?m" using st ttl by (simp add: stored_def lasting_tombs_def)
  ultimately have "tomb_holds k v t1 (fold (\<lambda>(now, x). applyTraffic now x) txs ?m)"
    using tomb_holds_run txs by blast
  then obtain t' where "mem_wf (fold (\<lambda>(now, x). applyTraffic now x) txs ?m)"
    "view (fold (\<lambda>(now, x). applyTraffic now x) txs ?m) k = Some t'" "IsTombstone t'"
    by (auto simp: tomb_holds_def)
  then show ?thesis using Get_spec(1) by simp
qed

theorem delete_not_resurrected_witness:
  "let m = snd (DeleteIfVersion 5 [107] 3 (NewMemory 70 100));
       e = \<lparr>Value = [1], Version = 2, ExpireAt = 0, Flags = 0\<rparr>
   in fst (Get 20 [107] (fold (\<lambda>(now, x). applyTraffic now x)
        [(6, TPut [108] e), (7, TPut [107] e), (8, TNeg [107] e), (9, TGet [107])] m)) = None"
  unfolding Let_def
  by (rule delete_not_resurrected)
    (auto simp: go_len_def plain_def flag_simps, simp_all add: DeleteIfVersion_def NewMemory_def Let_def)

end
