(* ===== verification/Containers.thy ===== *)
theory Containers
  imports MemoryFacts
begin

text \<open>
  The contract shared by the containers the store keeps decoded (set, sorted set,
  geo index, list, hash). \<open>cached_container\<close> fixes the peek, mutate, insert and
  install functions of one container type, assumes the control flow the five files
  have in common, and derives what they do to the view of the store. Each
  container's theory interprets it on its own definitions.
\<close>

section \<open>Abstract content of a key\<close>

definition live :: "(bytes \<Rightarrow> 'e + 'a) \<Rightarrow> u64 \<Rightarrow> time \<Rightarrow> memory \<Rightarrow> bytes \<Rightarrow> 'a option" where
  "live dec flag now m k =
     (case view m k of
        None \<Rightarrow> None
      | Some e \<Rightarrow>
          if Expired e now \<or> IsTombstone e \<or> Flags e AND flag = 0 then None
          else (case dec (Value e) of Inl err \<Rightarrow> None | Inr x \<Rightarrow> Some x))"

text \<open>The view after a key found expired has been dropped.\<close>

definition expire_key :: "time \<Rightarrow> bytes \<Rightarrow> (bytes \<rightharpoonup> entry) \<Rightarrow> (bytes \<rightharpoonup> entry)" where
  "expire_key now k V =
     (case V k of None \<Rightarrow> V | Some e \<Rightarrow> if Expired e now then V(k := None) else V)"

text \<open>A mutation is let through when the key is free, expired, or shadowed by an older
  tombstone, or when it holds a readable container of the right kind.\<close>

definition admits :: "(bytes \<Rightarrow> 'e + 'a) \<Rightarrow> u64 \<Rightarrow> time \<Rightarrow> u64 \<Rightarrow> memory \<Rightarrow> bytes \<Rightarrow> bool" where
  "admits dec flag now v m k =
     (case view m k of
        None \<Rightarrow> True
      | Some e \<Rightarrow>
          if Expired e now then True
          else if IsTombstone e then Version e < v
          else live dec flag now m k \<noteq> None)"

text \<open>A snapshot is let through when nothing live has its version or a newer one.\<close>

definition newer :: "time \<Rightarrow> u64 \<Rightarrow> memory \<Rightarrow> bytes \<Rightarrow> bool" where
  "newer now v m k =
     (case view m k of None \<Rightarrow> True | Some e \<Rightarrow> Expired e now \<or> Version e < v)"

lemma stored_removeElement: "stored now k e (removeElement k m) m' \<longleftrightarrow> stored now k e m m'"
  by (simp add: stored_def view_removeElement)

lemma has_view: "has k m \<longleftrightarrow> view m k \<noteq> None"
  by (simp add: has_def view_def split: option.splits)

lemma has_stored: "stored now k e m m' \<Longrightarrow> \<not> Expired e now \<Longrightarrow> lru_pinned e now \<Longrightarrow> has k m'"
  by (simp add: has_view stored_self)

section \<open>The contract\<close>

locale cached_container = cache_slot enc dec wire ok flag cacheOf dirtyOf setSlot flush
  for enc :: "'a \<Rightarrow> bytes" and dec :: "bytes \<Rightarrow> codec_err + 'a" and wire ok flag cacheOf dirtyOf
    setSlot flush +
  fixes empty :: 'a
    and app :: "'f \<Rightarrow> 'a \<Rightarrow> codec_err + 'a"
    and liveV tombV :: "u64 \<Rightarrow> u64 \<Rightarrow> u64" and freshV :: "u64 \<Rightarrow> u64"
    and skips :: "u64 \<Rightarrow> entry \<Rightarrow> bool"
    and insert :: "time \<Rightarrow> bytes \<Rightarrow> entry \<Rightarrow> 'a \<Rightarrow> bool \<Rightarrow> memory \<Rightarrow> bool \<times> memory"
    and peek :: "time \<Rightarrow> bytes \<Rightarrow> memory \<Rightarrow> 'a option \<times> memory"
    and mutate :: "time \<Rightarrow> bytes \<Rightarrow> u64 \<Rightarrow> time \<Rightarrow> 'f \<Rightarrow> memory \<Rightarrow> bool \<times> memory"
    and install :: "time \<Rightarrow> bytes \<Rightarrow> bytes \<Rightarrow> u64 \<Rightarrow> time \<Rightarrow> memory \<Rightarrow> bool \<times> memory"
  assumes ok_empty: "ok empty"
    and insert_eq: "insert now k ent x d m =
      (let c = (if d then int (length k) + 64 + wire x else entryCost k ent);
           it = setSlot (Some x) d (mkItem k ent c);
           m' = evictLocked now (pushFront k it m)
       in (has k m', m'))"
    and peek_eq: "peek now k m =
      (case items m k of
         None \<Rightarrow> (None, m)
       | Some it \<Rightarrow>
           if Expired (entry it) now then (None, removeElement k m)
           else if IsTombstone (entry it) \<or> \<not> Flags (entry it) AND flag \<noteq> 0 then (None, m)
           else
             (case cacheOf it of
                Some x \<Rightarrow> (Some x, m)
              | None \<Rightarrow>
                  (case dec (Value (entry it)) of
                     Inl err \<Rightarrow> (None, m)
                   | Inr x \<Rightarrow> (Some x, putItem k (setSlot (Some x) (dirtyOf it) it) m))))"
    and mutate_eq: "mutate now k v ex f m =
      (let create = (\<lambda>v' m. case app f empty of
             Inl err \<Rightarrow> (False, m)
           | Inr y \<Rightarrow> insert now k \<lparr>Value = enc y, Version = v', ExpireAt = ex, Flags = flag\<rparr> y False m)
       in case items m k of
            None \<Rightarrow> create (freshV v) m
          | Some it \<Rightarrow>
              if \<not> Expired (entry it) now then
                if IsTombstone (entry it) then
                  if v \<le> Version (entry it) then (False, skipStale m)
                  else create (tombV v (Version (entry it))) (removeElement k m)
                else if Flags (entry it) AND flag \<noteq> 0 then
                  (case (case cacheOf it of None \<Rightarrow> dec (Value (entry it)) | Some x \<Rightarrow> Inr x) of
                     Inl err \<Rightarrow> (False, m)
                   | Inr x \<Rightarrow>
                       (case app f x of
                          Inl err \<Rightarrow> (False, m)
                        | Inr y \<Rightarrow>
                            let e = entry it;
                                e' = e\<lparr>Version := liveV v (Version e),
                                       ExpireAt := (if ex \<noteq> 0 then ex else ExpireAt e), Flags := flag\<rparr>;
                                it' = setSlot (Some y) True
                                        (it\<lparr>entry := e', cost := int (length k) + 64 + wire y\<rparr>);
                                m' = evictLocked now (moveToFront k (replaceItem k it' m))
                            in (has k m', m')))
                else (False, m)
              else create (freshV v) (removeElement k m))"
    and install_eq: "install now k blob v ex m =
      (let go = (\<lambda>m. case dec blob of
             Inl err \<Rightarrow> (False, m)
           | Inr x \<Rightarrow> insert now k \<lparr>Value = blob, Version = v, ExpireAt = ex, Flags = flag\<rparr> x False m)
       in case items m k of
            None \<Rightarrow> go m
          | Some it \<Rightarrow>
              if \<not> Expired (entry it) now \<and> v \<le> Version (entry it)
              then (False, if IsTombstone (entry it) \<or> skips v (entry it) then skipStale m else m)
              else go (removeElement k m))"
begin

abbreviation snap :: "bytes \<Rightarrow> u64 \<Rightarrow> time \<Rightarrow> entry" where
  "snap blob v ex \<equiv> \<lparr>Value = blob, Version = v, ExpireAt = ex, Flags = flag\<rparr>"

lemma snap_pinned: "\<not> Expired (snap b v ex) now \<Longrightarrow> lru_pinned (snap b v ex) now"
  by (rule flag_pinned) simp_all

lemma insert_spec:
  assumes "mem_wf m" "items m k = None" "dec blob = Inr x" "ok x"
  shows "stored now k (snap blob v ex) m (snd (insert now k (snap blob v ex) x False m)) \<and>
         (fst (insert now k (snap blob v ex) x False m) \<longleftrightarrow>
            has k (snd (insert now k (snap blob v ex) x False m)))"
proof -
  let ?e = "snap blob v ex"
  let ?it = "setSlot (Some x) False (mkItem k ?e (entryCost k ?e))"
  have mat: "mat ?it = ?e"
    by (simp add: mat_def slot_materialise dirty_value_def)
  have "caches_coh ?it"
    using assms by (intro slot_intro) (simp_all add: cache_coh_def)
  then have "item_wf ?it" by (simp add: item_wf_def mat)
  then have "stored now k ?e m (evictLocked now (pushFront k ?it m))"
    using stored_push [OF assms(1,2), of ?it now] by (simp add: mat)
  then show ?thesis by (simp add: insert_eq Let_def)
qed

lemma cached_value:
  assumes wf: "item_wf it" and on: "Flags (entry it) AND flag \<noteq> 0"
  shows "(case cacheOf it of None \<Rightarrow> dec (Value (entry it)) | Some x \<Rightarrow> Inr x) = dec (materialise it)"
proof -
  have coh: "caches_coh it" using wf by (simp add: item_wf_def)
  note c = slot_coh [OF coh]
  show ?thesis
  proof (cases "dirtyOf it")
    case True
    then have "Flags (entry it) = flag" by (rule dirty_flag [OF wf on])
    with True c on show ?thesis
      by (auto simp: slot_materialise dirty_value_def cache_coh_def round_trip split: option.splits)
  next
    case False
    with c on show ?thesis
      by (auto simp: slot_value [OF coh on] cache_coh_def split: option.splits)
  qed
qed

lemma cached_ok:
  assumes wf: "item_wf it" and on: "Flags (entry it) AND flag \<noteq> 0" and x: "dec (materialise it) = Inr x"
  shows "ok x"
  using x cached_value [OF wf on] slot_coh [of it] wf on
  by (auto simp: cache_coh_def item_wf_def split: option.splits)

lemma live_item:
  assumes "mem_wf m" "items m k = Some it"
  shows "live dec flag now m k =
    (if Expired (entry it) now \<or> IsTombstone (entry it) \<or> Flags (entry it) AND flag = 0 then None
     else (case (case cacheOf it of None \<Rightarrow> dec (Value (entry it)) | Some x \<Rightarrow> Inr x) of
             Inl err \<Rightarrow> None | Inr x \<Rightarrow> Some x))"
  using assms cached_value [OF mem_wfD(2) [OF assms]]
  by (simp add: live_def view_def)

lemma live_ok: "mem_wf m \<Longrightarrow> live dec flag now m k = Some x \<Longrightarrow> ok x"
  by (auto simp: live_def view_def split: option.splits if_splits sum.splits
      intro: cached_ok dest: mem_wfD(2))

text \<open>Peeking returns the content and only fills a cache or drops an expired key.\<close>

lemma peek_spec:
  assumes wf: "mem_wf m"
  shows "fst (peek now k m) = live dec flag now m k"
    and "mem_wf (snd (peek now k m))"
    and "view (snd (peek now k m)) = expire_key now k (view m)"
proof -
  have load: "mem_wf (putItem k (setSlot (Some x) (dirtyOf it) it) m) \<and>
      view (putItem k (setSlot (Some x) (dirtyOf it) it) m) = view m"
    if it: "items m k = Some it" and c: "cacheOf it = None" and on: "Flags (entry it) AND flag \<noteq> 0"
      and x: "dec (Value (entry it)) = Inr x" for it x
  proof -
    note wfit = mem_wfD [OF wf it]
    have coh: "caches_coh it" using wfit by (simp add: item_wf_def)
    have clean: "\<not> dirtyOf it" and okx: "ok x"
      using slot_coh [OF coh] c on x by (auto simp: cache_coh_def)
    let ?it = "setSlot (Some x) False it"
    have mat: "mat ?it = mat it" using clean by (simp add: mat_def slot_materialise_clean)
    have "caches_coh ?it"
      using slot_load [OF coh, of "Some x" False] okx x by (simp add: cache_coh_def)
    then have "item_wf ?it" using wfit mat by (simp add: item_wf_def)
    then have "same_view m (clampBytes (replaceItem k ?it m))"
      using wfit wf it mat by (intro same_view_replaceItem) auto
    moreover have "clampBytes (replaceItem k ?it m) = putItem k ?it m"
      using it mbytes_nonneg [OF wf]
      by (simp add: replaceItem_def addBytes_def putItem_def clampBytes_def)
    ultimately show ?thesis using clean by (simp add: same_view_def)
  qed
  show "fst (peek now k m) = live dec flag now m k"
    using live_item [OF wf, of k]
    by (auto simp: peek_eq live_def [of _ _ _ _ k] view_def split: option.splits sum.splits)
  show "mem_wf (snd (peek now k m))"
    using wf load by (auto simp: peek_eq mem_wf_removeElement split: option.splits sum.splits)
  show "view (snd (peek now k m)) = expire_key now k (view m)"
    using load
    by (auto simp: peek_eq expire_key_def view_removeElement split: option.splits sum.splits)
      (auto simp: view_def)
qed

text \<open>The entry a mutation leaves behind, and the value it starts from.\<close>

definition base :: "time \<Rightarrow> memory \<Rightarrow> bytes \<Rightarrow> 'a" where
  "base now m k = (case live dec flag now m k of None \<Rightarrow> empty | Some x \<Rightarrow> x)"

definition result :: "time \<Rightarrow> u64 \<Rightarrow> time \<Rightarrow> 'a \<Rightarrow> memory \<Rightarrow> bytes \<Rightarrow> entry" where
  "result now v ex y m k =
     (case view m k of
        None \<Rightarrow> snap (enc y) (freshV v) ex
      | Some e \<Rightarrow>
          if Expired e now then snap (enc y) (freshV v) ex
          else if IsTombstone e then snap (enc y) (tombV v (Version e)) ex
          else snap (enc y) (liveV v (Version e)) (if ex \<noteq> 0 then ex else ExpireAt e))"

lemma create_spec:
  assumes "mem_wf m" "ok y"
  shows "stored now k (snap (enc y) v ex) m (snd (insert now k (snap (enc y) v ex) y False (removeElement k m))) \<and>
         (fst (insert now k (snap (enc y) v ex) y False (removeElement k m)) \<longleftrightarrow>
            has k (snd (insert now k (snap (enc y) v ex) y False (removeElement k m))))"
  using insert_spec [OF mem_wf_removeElement [OF assms(1)], of k k "enc y" y now v ex] assms
  by (simp add: items_removeElement round_trip stored_removeElement)

lemma removeElement_absent: "items m k = None \<Longrightarrow> removeElement k m = m"
  by (simp add: removeElement_def)

lemma update_spec:
  assumes wf: "mem_wf m" and it: "items m k = Some it" and y: "ok y"
  shows "stored now k (snap (enc y) v ex) m
    (evictLocked now (moveToFront k (replaceItem k (setSlot (Some y) True
       (it\<lparr>entry := (entry it)\<lparr>Version := v, ExpireAt := ex, Flags := flag\<rparr>,
           cost := int (length k) + 64 + wire y\<rparr>)) m)))"
proof -
  let ?it = "setSlot (Some y) True
       (it\<lparr>entry := (entry it)\<lparr>Version := v, ExpireAt := ex, Flags := flag\<rparr>,
           cost := int (length k) + 64 + wire y\<rparr>)"
  have mat: "mat ?it = snap (enc y) v ex"
    by (simp add: mat_def slot_materialise dirty_value_def)
  have "caches_coh ?it"
    using y by (intro slot_intro) (simp_all add: cache_coh_def)
  moreover have "cost ?it = entryCost (key ?it) (mat ?it)"
    unfolding mat using mem_wfD [OF wf it] by (simp add: entryCost_def Cost_def wire_size)
  ultimately have "item_wf ?it" by (simp add: item_wf_def)
  then show ?thesis
    using stored_replace [OF wf it, of ?it now] mem_wfD [OF wf it] by (simp add: mat)
qed

lemma mutate_stored:
  assumes wf: "mem_wf m" and adm: "admits dec flag now v m k"
    and f: "app f (base now m k) = Inr y" and y: "ok y"
  shows "stored now k (result now v ex y m k) m (snd (mutate now k v ex f m)) \<and>
         (fst (mutate now k v ex f m) \<longleftrightarrow> has k (snd (mutate now k v ex f m)))"
proof (cases "items m k")
  case None
  then have "base now m k = empty" by (simp add: base_def live_def view_def)
  then show ?thesis
    using None f create_spec [OF wf y, of now k "freshV v" ex]
    by (simp add: mutate_eq result_def view_def removeElement_absent)
next
  case it: (Some it)
  consider (expired) "Expired (entry it) now" | (tomb) "\<not> Expired (entry it) now" "IsTombstone (entry it)"
    | (alive) "\<not> Expired (entry it) now" "\<not> IsTombstone (entry it)" by blast
  then show ?thesis
  proof cases
    case expired
    then have "base now m k = empty" using it by (simp add: base_def live_def view_def)
    then show ?thesis
      using it f expired create_spec [OF wf y, of now k "freshV v" ex]
      by (simp add: mutate_eq result_def view_def)
  next
    case tomb
    then have "base now m k = empty" using it by (simp add: base_def live_def view_def)
    moreover have "\<not> v \<le> Version (entry it)" using adm tomb it by (simp add: admits_def view_def)
    ultimately show ?thesis
      using it f tomb create_spec [OF wf y, of now k "tombV v (Version (entry it))" ex]
      by (simp add: mutate_eq result_def view_def)
  next
    case alive
    then have "live dec flag now m k \<noteq> None" using adm it by (simp add: admits_def view_def)
    then obtain x where x: "(case cacheOf it of None \<Rightarrow> dec (Value (entry it)) | Some x \<Rightarrow> Inr x) = Inr x"
      "live dec flag now m k = Some x" "Flags (entry it) AND flag \<noteq> 0"
      by (auto simp: live_item [OF wf it] split: if_splits sum.splits)
    then have "base now m k = x" by (simp add: base_def)
    then show ?thesis
      using it f alive x update_spec [OF wf it y, of now "liveV v (Version (entry it))"
          "if ex \<noteq> 0 then ex else ExpireAt (entry it)"]
      by (cases "ex = 0") (simp_all add: mutate_eq result_def view_def Let_def)
  qed
qed

lemma mutate_refused:
  assumes "mem_wf m" "\<not> admits dec flag now v m k"
  shows "\<not> fst (mutate now k v ex f m) \<and> mem_wf (snd (mutate now k v ex f m)) \<and>
         view (snd (mutate now k v ex f m)) = view m"
proof (cases "items m k")
  case None
  then show ?thesis using assms by (simp add: admits_def view_def)
next
  case it: (Some it)
  have alive: "\<not> Expired (entry it) now"
    using assms it by (simp add: admits_def view_def split: if_splits)
  show ?thesis
  proof (cases "IsTombstone (entry it)")
    case True
    then have "v \<le> Version (entry it)" using assms it alive by (simp add: admits_def view_def)
    then show ?thesis using assms(1) it alive True by (simp add: mutate_eq mem_wf_counters)
  next
    case False
    then have "live dec flag now m k = None" using assms it alive by (simp add: admits_def view_def)
    then have "Flags (entry it) AND flag = 0 \<or>
        (\<exists>err. (case cacheOf it of None \<Rightarrow> dec (Value (entry it)) | Some x \<Rightarrow> Inr x) = Inl err)"
      using alive False by (simp add: live_item [OF assms(1) it] split: if_splits sum.splits)
    then show ?thesis using assms(1) it alive False by (auto simp: mutate_eq)
  qed
qed

text \<open>A mutation whose function fails changes nothing, except that an expired item or an
  older tombstone under the key is already gone.\<close>

lemma mutate_failed:
  assumes wf: "mem_wf m" and adm: "admits dec flag now v m k" and f: "app f (base now m k) = Inl err"
  shows "\<not> fst (mutate now k v ex f m) \<and> mem_wf (snd (mutate now k v ex f m)) \<and>
         view (snd (mutate now k v ex f m)) =
           (if live dec flag now m k = None then (view m)(k := None) else view m)"
proof (cases "items m k")
  case None
  then show ?thesis
    using wf f by (simp add: mutate_eq base_def live_def view_def) (simp add: fun_upd_idem view_def)
next
  case it: (Some it)
  show ?thesis
  proof (cases "Expired (entry it) now \<or> IsTombstone (entry it)")
    case True
    then have "base now m k = empty" "live dec flag now m k = None"
      using it by (auto simp: base_def live_def view_def)
    then show ?thesis
      using True it f adm mem_wf_removeElement [OF wf]
      by (cases "Expired (entry it) now")
        (simp_all add: mutate_eq view_removeElement admits_def Let_def view_def [of m k] not_le [symmetric])
  next
    case False
    then have "live dec flag now m k \<noteq> None" using adm it by (simp add: admits_def view_def)
    then obtain x where "(case cacheOf it of None \<Rightarrow> dec (Value (entry it)) | Some x \<Rightarrow> Inr x) = Inr x"
      "live dec flag now m k = Some x" "Flags (entry it) AND flag \<noteq> 0"
      by (auto simp: live_item [OF wf it] split: if_splits sum.splits)
    then show ?thesis using False it f wf by (simp add: mutate_eq base_def Let_def)
  qed
qed

lemma mutate_wf:
  assumes wf: "mem_wf m" and f: "\<And>x y. ok x \<Longrightarrow> app f x = Inr y \<Longrightarrow> ok y"
  shows "mem_wf (snd (mutate now k v ex f m))"
proof (cases "admits dec flag now v m k")
  case True
  have "ok (base now m k)"
    using live_ok [OF wf] ok_empty by (auto simp: base_def split: option.splits)
  with f have y: "app f (base now m k) = Inr y \<Longrightarrow> ok y" for y by simp
  show ?thesis
  proof (cases "app f (base now m k)")
    case (Inl err)
    then show ?thesis using mutate_failed [OF wf True Inl] by simp
  next
    case (Inr b)
    then show ?thesis using mutate_stored [OF wf True Inr y [OF Inr]] by (blast intro: stored_wf)
  qed
qed (simp add: mutate_refused [OF wf])

lemma result_simps: "Value (result now v ex y m k) = enc y" "Flags (result now v ex y m k) = flag"
  by (simp_all add: result_def split: option.splits)

lemma result_unexpired:
  assumes "ex = 0 \<or> now < ex"
  shows "\<not> Expired (result now v ex y m k) now"
  using assms by (auto simp: result_def Expired_def split: option.splits if_splits)

text \<open>An admitted mutation succeeds and leaves the mutated value, whatever is evicted
  to make room.\<close>

lemma mutate_live:
  assumes wf: "mem_wf m" and adm: "admits dec flag now v m k"
    and f: "app f (base now m k) = Inr y" and y: "ok y" and ex: "ex = 0 \<or> now < ex"
  shows "fst (mutate now k v ex f m) \<and> live dec flag now (snd (mutate now k v ex f m)) k = Some y"
proof -
  let ?e = "result now v ex y m k" and ?m = "snd (mutate now k v ex f m)"
  have st: "stored now k ?e m ?m" "fst (mutate now k v ex f m) \<longleftrightarrow> has k ?m"
    using mutate_stored [OF wf adm f y] by auto
  have fresh: "\<not> Expired ?e now" by (rule result_unexpired [OF ex])
  then have "lru_pinned ?e now" by (intro flag_pinned) (simp_all add: result_simps)
  then have "view ?m k = Some ?e" by (rule stored_self [OF st(1)])
  then show ?thesis
    using st(2) fresh y
    by (simp add: has_view live_def result_simps round_trip flag_bit Is_defs)
qed

lemma mutate_applies:
  assumes wf: "mem_wf m" and adm: "admits dec flag now v m k" and ex: "ex = 0 \<or> now < ex"
    and f: "app f (case live dec flag now m k of None \<Rightarrow> empty | Some x \<Rightarrow> x) = Inr y"
    and okf: "\<And>x y. ok x \<Longrightarrow> app f x = Inr y \<Longrightarrow> ok y"
  shows "fst (mutate now k v ex f m)"
    and "live dec flag now (snd (mutate now k v ex f m)) k = Some y"
    and "mem_wf (snd (mutate now k v ex f m))"
    and "j \<noteq> k \<Longrightarrow> view m j = Some e \<Longrightarrow> lru_pinned e now \<Longrightarrow>
         view (snd (mutate now k v ex f m)) j = Some e"
proof -
  have f': "app f (base now m k) = Inr y" using f by (simp add: base_def)
  have "ok (base now m k)"
    using live_ok [OF wf] ok_empty by (auto simp: base_def split: option.splits)
  then have y: "ok y" using okf f' by blast
  show "fst (mutate now k v ex f m)" "live dec flag now (snd (mutate now k v ex f m)) k = Some y"
    using mutate_live [OF wf adm f' y ex] by auto
  have st: "stored now k (result now v ex y m k) m (snd (mutate now k v ex f m))"
    using mutate_stored [OF wf adm f' y] by simp
  then show "mem_wf (snd (mutate now k v ex f m))" by (rule stored_wf)
  show "j \<noteq> k \<Longrightarrow> view m j = Some e \<Longrightarrow> lru_pinned e now \<Longrightarrow>
         view (snd (mutate now k v ex f m)) j = Some e"
    by (rule stored_other_pinned [OF st])
qed

section \<open>Snapshots\<close>

lemma install_blocked:
  assumes "mem_wf m" "\<not> newer now v m k"
  shows "\<not> fst (install now k blob v ex m) \<and> mem_wf (snd (install now k blob v ex m)) \<and>
         view (snd (install now k blob v ex m)) = view m"
  using assms
  by (auto simp: install_eq newer_def view_def mem_wf_counters Let_def split: option.splits if_splits)

lemma install_stored:
  assumes wf: "mem_wf m" and new: "newer now v m k" and x: "dec blob = Inr x" "go_len blob"
  shows "stored now k (snap blob v ex) m (snd (install now k blob v ex m)) \<and>
         (fst (install now k blob v ex m) \<longleftrightarrow> has k (snd (install now k blob v ex m)))"
proof -
  have "install now k blob v ex m = insert now k (snap blob v ex) x False (removeElement k m)"
    using new x by (auto simp: install_eq newer_def view_def removeElement_def Let_def split: option.splits)
  moreover have "items (removeElement k m) k = None" by (simp add: items_removeElement)
  ultimately show ?thesis
    using insert_spec [OF mem_wf_removeElement [OF wf], of k k blob x now v ex] dec_ok [OF x(2,1)] x
    by (simp add: stored_removeElement)
qed

text \<open>The existing item is removed before the snapshot is decoded.\<close>

lemma install_malformed:
  assumes wf: "mem_wf m" and new: "newer now v m k" and x: "dec blob = Inl err"
  shows "\<not> fst (install now k blob v ex m) \<and> mem_wf (snd (install now k blob v ex m)) \<and>
         view (snd (install now k blob v ex m)) = (view m)(k := None)"
  using new x mem_wf_removeElement [OF wf, of k] wf
  by (auto simp: install_eq newer_def view_removeElement Let_def split: option.splits)
    (auto simp: view_def)

lemma install_wf: "mem_wf m \<Longrightarrow> go_len blob \<Longrightarrow> mem_wf (snd (install now k blob v ex m))"
  by (cases "newer now v m k"; cases "dec blob")
    (auto simp: install_blocked install_malformed intro: stored_wf install_stored [THEN conjunct1])

lemma install_live:
  assumes wf: "mem_wf m" and new: "newer now v m k" and x: "dec blob = Inr x" "go_len blob"
    and ex: "ex = 0 \<or> now < ex"
  shows "fst (install now k blob v ex m) \<and> live dec flag now (snd (install now k blob v ex m)) k = Some x"
proof -
  let ?e = "snap blob v ex" and ?m = "snd (install now k blob v ex m)"
  have st: "stored now k ?e m ?m" "fst (install now k blob v ex m) \<longleftrightarrow> has k ?m"
    using install_stored [OF wf new x] by auto
  have fresh: "\<not> Expired ?e now" using ex by (auto simp: Expired_def)
  then have "view ?m k = Some ?e" by (intro stored_self [OF st(1)] snap_pinned)
  then show ?thesis
    using st(2) fresh x by (simp add: has_view live_def flag_bit Is_defs)
qed

end

text \<open>Containers whose elements can be removed: removal never creates a container.\<close>

locale removable_container = cached_container enc dec wire ok flag cacheOf dirtyOf setSlot flush
    empty app liveV tombV freshV skips insert peek mutate install
  for enc :: "'a \<Rightarrow> bytes" and dec :: "bytes \<Rightarrow> codec_err + 'a" and wire ok flag cacheOf dirtyOf
    setSlot flush empty and app :: "'f \<Rightarrow> 'a \<Rightarrow> codec_err + 'a" and liveV tombV freshV skips
    insert peek mutate install +
  fixes remove :: "time \<Rightarrow> bytes \<Rightarrow> bytes \<Rightarrow> u64 \<Rightarrow> time \<Rightarrow> memory \<Rightarrow> bool \<times> memory"
    and rmf :: "bytes \<Rightarrow> 'f"
  assumes remove_eq: "remove now k x v ex m =
      (case items m k of
         None \<Rightarrow> (True, m)
       | Some it \<Rightarrow>
           if Expired (entry it) now then (True, removeElement k m)
           else if IsTombstone (entry it) then
             if v \<le> Version (entry it) then (False, skipStale m) else (True, m)
           else if \<not> Flags (entry it) AND flag \<noteq> 0 then (False, m)
           else mutate now k v ex (rmf x) m)"
    and rmf_ok: "ok s \<Longrightarrow> app (rmf x) s = Inr y \<Longrightarrow> ok y"
begin

lemma remove_wf: "mem_wf m \<Longrightarrow> mem_wf (snd (remove now k x v ex m))"
  by (auto simp: remove_eq mem_wf_removeElement mem_wf_counters split: option.splits
      intro: mutate_wf rmf_ok)

lemma remove_live:
  assumes wf: "mem_wf m" and s: "live dec flag now m k = Some s" and y: "app (rmf x) s = Inr y"
    and ex: "ex = 0 \<or> now < ex"
  shows "fst (remove now k x v ex m) \<and> live dec flag now (snd (remove now k x v ex m)) k = Some y"
proof -
  have "admits dec flag now v m k" "base now m k = s"
    using s by (auto simp: admits_def base_def live_def split: option.splits if_splits)
  moreover have "ok y" using rmf_ok [OF live_ok [OF wf s] y] .
  moreover have "remove now k x v ex m = mutate now k v ex (rmf x) m"
    using s by (auto simp: remove_eq live_def view_def split: option.splits if_splits)
  ultimately show ?thesis using mutate_live [OF wf, of now v k "rmf x" y ex] y ex by simp
qed

lemma remove_absent:
  assumes "mem_wf m" "live dec flag now m k = None"
  shows "view (snd (remove now k x v ex m)) = expire_key now k (view m)"
proof (cases "items m k")
  case None
  then show ?thesis by (simp add: remove_eq expire_key_def view_def)
next
  case it: (Some it)
  have "\<not> admits dec flag now v m k" if "\<not> Expired (entry it) now" "\<not> IsTombstone (entry it)"
    using assms it that by (simp add: admits_def view_def)
  then show ?thesis
    using it mutate_refused [OF assms(1), of now v k ex "rmf x"]
    by (auto simp: remove_eq expire_key_def view_removeElement) (simp_all add: view_def)
qed

end

end
