(* ===== verification/StoreSet.thy ===== *)
theory StoreSet
  imports Containers
begin

text \<open>Named sets: \<open>pkg/store/set.go\<close>.\<close>

definition insertSetLocked :: "time \<Rightarrow> bytes \<Rightarrow> entry \<Rightarrow> gset \<Rightarrow> bool \<Rightarrow> memory \<Rightarrow> bool \<times> memory" where
  "insertSetLocked now k ent cache dirty m =
     (let c = (if dirty then int (length k) + 64 + set_ApproxWireBytes cache else entryCost k ent);
          it = (mkItem k ent c)\<lparr>setCache := Some cache, setDirty := dirty\<rparr>;
          m' = evictLocked now (pushFront k it m)
      in (has k m', m'))"

definition setPeekLocked :: "time \<Rightarrow> bytes \<Rightarrow> memory \<Rightarrow> gset option \<times> memory" where
  "setPeekLocked now k m =
     (case items m k of
        None \<Rightarrow> (None, m)
      | Some it \<Rightarrow>
          if Expired (entry it) now then (None, removeElement k m)
          else if IsTombstone (entry it) \<or> \<not> IsSet (entry it) then (None, m)
          else
            (case setCache it of
               Some s \<Rightarrow> (Some s, m)
             | None \<Rightarrow>
                 (case set_DecodeSet (Value (entry it)) of
                    Inl err \<Rightarrow> (None, m)
                  | Inr s \<Rightarrow> (Some s, putItem k (it\<lparr>setCache := Some s\<rparr>) m))))"

definition setMutateLocked ::
    "time \<Rightarrow> bytes \<Rightarrow> u64 \<Rightarrow> time \<Rightarrow> (gset \<Rightarrow> gset) \<Rightarrow> memory \<Rightarrow> bool \<times> memory" where
  "setMutateLocked now k version expireAt mut m =
     (let create = (\<lambda>m. let s = mut set_New in
            insertSetLocked now k
              \<lparr>Value = set_Encode s, Version = version, ExpireAt = expireAt, Flags = FlagSet\<rparr> s False m)
      in case items m k of
           None \<Rightarrow> create m
         | Some it \<Rightarrow>
             if \<not> Expired (entry it) now then
               if IsTombstone (entry it) then
                 if version \<le> Version (entry it) then (False, skipStale m)
                 else create (removeElement k m)
               else if IsSet (entry it) then
                 (case (case setCache it of None \<Rightarrow> set_DecodeSet (Value (entry it)) | Some s \<Rightarrow> Inr s) of
                    Inl err \<Rightarrow> (False, m)
                  | Inr s0 \<Rightarrow>
                      let s = mut s0;
                          e = entry it;
                          e' = e\<lparr>Version := version,
                                 ExpireAt := (if expireAt \<noteq> 0 then expireAt else ExpireAt e),
                                 Flags := FlagSet\<rparr>;
                          it' = it\<lparr>entry := e', cost := int (length k) + 64 + set_ApproxWireBytes s,
                                   setCache := Some s, setDirty := True\<rparr>;
                          m' = evictLocked now (moveToFront k (replaceItem k it' m))
                      in (has k m', m'))
               else (False, m)
             else create (removeElement k m))"

definition SetAdd :: "time \<Rightarrow> bytes \<Rightarrow> bytes \<Rightarrow> u64 \<Rightarrow> time \<Rightarrow> memory \<Rightarrow> bool \<times> memory" where
  "SetAdd now k item version expireAt m = setMutateLocked now k version expireAt (set_Add item) m"

definition SetRemove :: "time \<Rightarrow> bytes \<Rightarrow> bytes \<Rightarrow> u64 \<Rightarrow> time \<Rightarrow> memory \<Rightarrow> bool \<times> memory" where
  "SetRemove now k item version expireAt m =
     (case items m k of
        None \<Rightarrow> (True, m)
      | Some it \<Rightarrow>
          if Expired (entry it) now then (True, removeElement k m)
          else if IsTombstone (entry it) then
            if version \<le> Version (entry it) then (False, skipStale m) else (True, m)
          else if \<not> IsSet (entry it) then (False, m)
          else setMutateLocked now k version expireAt (set_Remove item) m)"

definition SetContains :: "time \<Rightarrow> bytes \<Rightarrow> bytes \<Rightarrow> memory \<Rightarrow> bool \<times> memory" where
  "SetContains now k item m =
     (case setPeekLocked now k m of
        (None, m') \<Rightarrow> (False, m')
      | (Some s, m') \<Rightarrow> (set_Contains s item, m'))"

definition HasSet :: "time \<Rightarrow> bytes \<Rightarrow> memory \<Rightarrow> bool \<times> memory" where
  "HasSet now k m = (case setPeekLocked now k m of (r, m') \<Rightarrow> (r \<noteq> None, m'))"

definition SetCard :: "time \<Rightarrow> bytes \<Rightarrow> memory \<Rightarrow> nat \<times> memory" where
  "SetCard now k m =
     (case setPeekLocked now k m of (None, m') \<Rightarrow> (0, m') | (Some s, m') \<Rightarrow> (set_Len s, m'))"

definition SetMembers :: "time \<Rightarrow> bytes \<Rightarrow> memory \<Rightarrow> bytes list \<times> memory" where
  "SetMembers now k m =
     (case setPeekLocked now k m of (None, m') \<Rightarrow> ([], m') | (Some s, m') \<Rightarrow> (set_Members s, m'))"

definition SetInstall :: "time \<Rightarrow> bytes \<Rightarrow> bytes \<Rightarrow> u64 \<Rightarrow> time \<Rightarrow> memory \<Rightarrow> bool \<times> memory" where
  "SetInstall now k blob version expireAt m =
     (let go = (\<lambda>m. case set_DecodeSet blob of
            Inl err \<Rightarrow> (False, m)
          | Inr s \<Rightarrow> insertSetLocked now k
              \<lparr>Value = blob, Version = version, ExpireAt = expireAt, Flags = FlagSet\<rparr> s False m)
      in case items m k of
           None \<Rightarrow> go m
         | Some it \<Rightarrow>
             if \<not> Expired (entry it) now then
               if IsTombstone (entry it) then
                 if version \<le> Version (entry it) then (False, skipStale m) else go (removeElement k m)
               else if IsSet (entry it) then
                 if version < Version (entry it) then (False, skipStale m)
                 else if version = Version (entry it) then (False, m)
                 else go (removeElement k m)
               else if \<not> IsTombstone (entry it) then
                 if version \<le> Version (entry it) then (False, m) else go (removeElement k m)
               else go (removeElement k m)
             else go (removeElement k m))"

section \<open>The contract holds\<close>

interpretation st: cached_container set_Encode set_DecodeSet set_ApproxWireBytes set_ok FlagSet
  setCache setDirty setSetSlot flushSetValueLocked set_New "\<lambda>f s. Inr (f s)"
  "\<lambda>v cur. v" "\<lambda>v cur. v" "\<lambda>v. v" "\<lambda>v e. IsSet e \<and> v < Version e"
  insertSetLocked setPeekLocked setMutateLocked SetInstall
proof (unfold_locales, goal_cases)
  case 1
  show ?case by (rule set_ok_ops)
next
  case 2
  show ?case by (simp add: insertSetLocked_def setSetSlot_def)
next
  case 3
  show ?case
    by (auto simp: setPeekLocked_def setSetSlot_def Is_defs split: option.splits sum.splits
        intro!: arg_cong [where f = "\<lambda>it. putItem k it m" for k m] lru_item.equality)
next
  case 4
  show ?case unfolding setMutateLocked_def setSetSlot_def Is_defs Let_def sum.case ..
next
  case (5 now k blob v ex m)
  show ?case
    by (cases "items m k") (simp_all add: SetInstall_def Let_def le_less)
qed

interpretation str: removable_container set_Encode set_DecodeSet set_ApproxWireBytes set_ok FlagSet
  setCache setDirty setSetSlot flushSetValueLocked set_New "\<lambda>f s. Inr (f s)"
  "\<lambda>v cur. v" "\<lambda>v cur. v" "\<lambda>v. v" "\<lambda>v e. IsSet e \<and> v < Version e"
  insertSetLocked setPeekLocked setMutateLocked SetInstall
  SetRemove set_Remove
  by unfold_locales (unfold SetRemove_def Is_defs, auto intro: set_ok_ops)

section \<open>Functional behaviour\<close>

abbreviation set_at :: "time \<Rightarrow> memory \<Rightarrow> bytes \<Rightarrow> gset option" where
  "set_at \<equiv> live set_DecodeSet FlagSet"

lemma SetContains_live:
  "mem_wf m \<Longrightarrow> fst (SetContains now k y m) \<longleftrightarrow> (\<exists>s. set_at now m k = Some s \<and> set_Contains s y)"
  using st.peek_spec(1) [of m now k]
  by (cases "setPeekLocked now k m") (auto simp: SetContains_def split: option.splits)

lemma SetMembers_live:
  "mem_wf m \<Longrightarrow> fst (SetMembers now k m) =
     (case set_at now m k of None \<Rightarrow> [] | Some s \<Rightarrow> set_Members s)"
  using st.peek_spec(1) [of m now k]
  by (cases "setPeekLocked now k m") (auto simp: SetMembers_def split: option.splits)

lemma SetAdd_applies:
  assumes "mem_wf m" "admits set_DecodeSet FlagSet now v m k" "go_len x" "ex = 0 \<or> now < ex"
  shows "fst (SetAdd now k x v ex m)" "mem_wf (snd (SetAdd now k x v ex m))"
    "set_at now (snd (SetAdd now k x v ex m)) k =
       Some (set_Add x (case set_at now m k of None \<Rightarrow> set_New | Some s \<Rightarrow> s))"
proof -
  have okf: "set_ok y" if "set_ok s" "(Inr (set_Add x s) :: codec_err + gset) = Inr y" for s y
    using that assms(3) set_ok_ops(2) by auto
  note applies = st.mutate_applies [where f = "set_Add x", OF assms(1,2,4) refl okf]
  show "fst (SetAdd now k x v ex m)" "mem_wf (snd (SetAdd now k x v ex m))"
    "set_at now (snd (SetAdd now k x v ex m)) k =
       Some (set_Add x (case set_at now m k of None \<Rightarrow> set_New | Some s \<Rightarrow> s))"
    unfolding SetAdd_def by (simp_all add: applies)
qed

text \<open>C15. After an admitted add the set holds exactly the old members and the new one, as
  a membership query on the resulting store answers, even if the store evicted other
  entries to make room.\<close>

theorem SetAdd_then_SetContains:
  assumes "mem_wf m" "admits set_DecodeSet FlagSet now v m k" "go_len x" "ex = 0 \<or> now < ex"
  shows "fst (SetAdd now k x v ex m) \<and>
    (\<forall>y. fst (SetContains now k y (snd (SetAdd now k x v ex m))) \<longleftrightarrow>
           y = x \<or> fst (SetContains now k y m))"
  using SetAdd_applies [OF assms]
  by (auto simp: SetContains_live assms(1) set_Contains_Add split: option.splits)
    (simp add: set_New_def set_Contains_def)

theorem SetAdd_then_SetContains_witness:
  "fst (SetAdd 5 [107] [1] 1 0 (NewMemory 100 0)) \<and>
   (\<forall>y. fst (SetContains 5 [107] y (snd (SetAdd 5 [107] [1] 1 0 (NewMemory 100 0)))) \<longleftrightarrow>
          y = [1] \<or> fst (SetContains 5 [107] y (NewMemory 100 0)))"
  by (rule SetAdd_then_SetContains)
    (simp_all add: admits_def go_len_def)

text \<open>A removal takes exactly the named member out of a live set and reports success;
  where there is no live set it never creates one.\<close>

theorem SetRemove_then_SetContains:
  assumes "mem_wf m" "ex = 0 \<or> now < ex"
  shows "fst (SetContains now k y (snd (SetRemove now k x v ex m))) \<longleftrightarrow>
           y \<noteq> x \<and> fst (SetContains now k y m)"
proof (cases "set_at now m k")
  case None
  have "set_at now (snd (SetRemove now k x v ex m)) k = None"
    using str.remove_absent [OF assms(1) None] None
    by (auto simp: live_def expire_key_def split: option.splits if_splits)
  then show ?thesis by (simp add: SetContains_live assms(1) str.remove_wf None)
next
  case (Some s)
  then have "set_at now (snd (SetRemove now k x v ex m)) k = Some (set_Remove x s)"
    using str.remove_live [OF assms(1) Some refl assms(2)] by simp
  then show ?thesis
    by (simp add: SetContains_live assms(1) str.remove_wf Some set_Contains_Remove) blast
qed

theorem SetRemove_then_SetContains_witness:
  "fst (SetContains 5 [107] [2] (snd (SetRemove 5 [107] [1] 2 0 (NewMemory 100 0)))) \<longleftrightarrow>
     [2] \<noteq> ([1] :: bytes) \<and> fst (SetContains 5 [107] [2] (NewMemory 100 0))"
  by (rule SetRemove_then_SetContains) simp_all

text \<open>C16. A snapshot that wins on version but does not decode is refused only after the
  existing item has been removed: the key is lost.\<close>

theorem SetInstall_malformed_loses_key:
  assumes "mem_wf m" "newer now v m k" "set_DecodeSet blob = Inl err"
  shows "\<not> fst (SetInstall now k blob v ex m) \<and> view (snd (SetInstall now k blob v ex m)) = (view m)(k := None)"
  using st.install_malformed [OF assms] by simp

theorem SetInstall_malformed_loses_key_witness:
  "let m = snd (SetAdd 5 [107] [1] 1 0 (NewMemory 0 0)) in
   view m [107] \<noteq> None \<and> \<not> fst (SetInstall 5 [107] [9] 2 0 m) \<and>
   view (snd (SetInstall 5 [107] [9] 2 0 m)) = (view m)([107] := None)"
proof -
  let ?m = "snd (SetAdd 5 [107] [1] 1 0 (NewMemory 0 0))"
  have m: "mem_wf ?m" "set_at 5 ?m [107] \<noteq> None"
    using SetAdd_applies [of "NewMemory 0 0" 5 1 "[107]" "[1]" 0] by (simp_all add: admits_def go_len_def)
  have v: "view ?m [107] = Some \<lparr>Value = [1, 1], Version = 1, ExpireAt = 0, Flags = FlagSet\<rparr>"
    by code_simp
  have "set_DecodeSet [9] = Inl Truncated" by code_simp
  then show ?thesis
    using SetInstall_malformed_loses_key [OF m(1), of 5 2 "[107]" "[9]" Truncated 0] v
    by (simp add: newer_def)
qed

end
