(* ===== verification/StoreZSet.thy ===== *)
theory StoreZSet
  imports Containers
begin

text \<open>Named sorted sets: \<open>pkg/store/zset.go\<close>.\<close>

definition insertZSetLocked :: "time \<Rightarrow> bytes \<Rightarrow> entry \<Rightarrow> gzset \<Rightarrow> bool \<Rightarrow> memory \<Rightarrow> bool \<times> memory" where
  "insertZSetLocked now k ent cache dirty m =
     (let c = (if dirty then int (length k) + 64 + zset_ApproxWireBytes cache else entryCost k ent);
          it = (mkItem k ent c)\<lparr>zCache := Some cache, zDirty := dirty\<rparr>;
          m' = evictLocked now (pushFront k it m)
      in (has k m', m'))"

definition zPeekLocked :: "time \<Rightarrow> bytes \<Rightarrow> memory \<Rightarrow> gzset option \<times> memory" where
  "zPeekLocked now k m =
     (case items m k of
        None \<Rightarrow> (None, m)
      | Some it \<Rightarrow>
          if Expired (entry it) now then (None, removeElement k m)
          else if IsTombstone (entry it) \<or> \<not> IsZSet (entry it) then (None, m)
          else
            (case zCache it of
               Some z \<Rightarrow> (Some z, m)
             | None \<Rightarrow>
                 (case zset_Decode (Value (entry it)) of
                    Inl err \<Rightarrow> (None, m)
                  | Inr z \<Rightarrow> (Some z, putItem k (it\<lparr>zCache := Some z\<rparr>) m))))"

definition zMutateLocked ::
    "time \<Rightarrow> bytes \<Rightarrow> u64 \<Rightarrow> time \<Rightarrow> (gzset \<Rightarrow> codec_err + gzset) \<Rightarrow> memory \<Rightarrow> bool \<times> memory" where
  "zMutateLocked now k version expireAt mut m =
     (let create = (\<lambda>m. case mut zset_New of
            Inl err \<Rightarrow> (False, m)
          | Inr z \<Rightarrow> insertZSetLocked now k
              \<lparr>Value = zset_Encode z, Version = version, ExpireAt = expireAt, Flags = FlagZSet\<rparr> z False m)
      in case items m k of
           None \<Rightarrow> create m
         | Some it \<Rightarrow>
             if \<not> Expired (entry it) now then
               if IsTombstone (entry it) then
                 if version \<le> Version (entry it) then (False, skipStale m)
                 else create (removeElement k m)
               else if IsZSet (entry it) then
                 (case (case zCache it of None \<Rightarrow> zset_Decode (Value (entry it)) | Some z \<Rightarrow> Inr z) of
                    Inl err \<Rightarrow> (False, m)
                  | Inr z0 \<Rightarrow>
                      (case mut z0 of
                         Inl err \<Rightarrow> (False, m)
                       | Inr z \<Rightarrow>
                           let e = entry it;
                               e' = e\<lparr>Version := version,
                                      ExpireAt := (if expireAt \<noteq> 0 then expireAt else ExpireAt e),
                                      Flags := FlagZSet\<rparr>;
                               it' = it\<lparr>entry := e', cost := int (length k) + 64 + zset_ApproxWireBytes z,
                                        zCache := Some z, zDirty := True\<rparr>;
                               m' = evictLocked now (moveToFront k (replaceItem k it' m))
                           in (has k m', m')))
               else (False, m)
             else create (removeElement k m))"

definition ZAdd :: "time \<Rightarrow> bytes \<Rightarrow> bytes \<Rightarrow> f64 \<Rightarrow> u64 \<Rightarrow> time \<Rightarrow> memory \<Rightarrow> bool \<times> memory" where
  "ZAdd now k member score version expireAt m =
     zMutateLocked now k version expireAt (zset_Add member score) m"

definition ZRem :: "time \<Rightarrow> bytes \<Rightarrow> bytes \<Rightarrow> u64 \<Rightarrow> time \<Rightarrow> memory \<Rightarrow> bool \<times> memory" where
  "ZRem now k member version expireAt m =
     (case items m k of
        None \<Rightarrow> (True, m)
      | Some it \<Rightarrow>
          if Expired (entry it) now then (True, removeElement k m)
          else if IsTombstone (entry it) then
            if version \<le> Version (entry it) then (False, skipStale m) else (True, m)
          else if \<not> IsZSet (entry it) then (False, m)
          else zMutateLocked now k version expireAt (\<lambda>z. Inr (zset_Rem member z)) m)"

definition ZScore :: "time \<Rightarrow> bytes \<Rightarrow> bytes \<Rightarrow> memory \<Rightarrow> f64 option \<times> memory" where
  "ZScore now k member m =
     (case zPeekLocked now k m of (None, m') \<Rightarrow> (None, m') | (Some z, m') \<Rightarrow> (zset_Score z member, m'))"

definition ZCard :: "time \<Rightarrow> bytes \<Rightarrow> memory \<Rightarrow> nat \<times> memory" where
  "ZCard now k m =
     (case zPeekLocked now k m of (None, m') \<Rightarrow> (0, m') | (Some z, m') \<Rightarrow> (zset_Card z, m'))"

definition HasZSet :: "time \<Rightarrow> bytes \<Rightarrow> memory \<Rightarrow> bool \<times> memory" where
  "HasZSet now k m = (case zPeekLocked now k m of (r, m') \<Rightarrow> (r \<noteq> None, m'))"

definition ZRange :: "time \<Rightarrow> bytes \<Rightarrow> int \<Rightarrow> int \<Rightarrow> memory \<Rightarrow> zmember list \<times> memory" where
  "ZRange now k start stop m =
     (case zPeekLocked now k m of (None, m') \<Rightarrow> ([], m') | (Some z, m') \<Rightarrow> (zset_Range z start stop, m'))"

definition ZRangeByScore :: "time \<Rightarrow> bytes \<Rightarrow> f64 \<Rightarrow> f64 \<Rightarrow> memory \<Rightarrow> zmember list \<times> memory" where
  "ZRangeByScore now k mn mx m =
     (case zPeekLocked now k m of (None, m') \<Rightarrow> ([], m') | (Some z, m') \<Rightarrow> (zset_RangeByScore z mn mx, m'))"

definition ZInstall :: "time \<Rightarrow> bytes \<Rightarrow> bytes \<Rightarrow> u64 \<Rightarrow> time \<Rightarrow> memory \<Rightarrow> bool \<times> memory" where
  "ZInstall now k blob version expireAt m =
     (let go = (\<lambda>m. case zset_Decode blob of
            Inl err \<Rightarrow> (False, m)
          | Inr z \<Rightarrow> insertZSetLocked now k
              \<lparr>Value = blob, Version = version, ExpireAt = expireAt, Flags = FlagZSet\<rparr> z False m)
      in case items m k of
           None \<Rightarrow> go m
         | Some it \<Rightarrow>
             if \<not> Expired (entry it) now then
               if IsTombstone (entry it) then
                 if version \<le> Version (entry it) then (False, skipStale m) else go (removeElement k m)
               else if IsZSet (entry it) then
                 if version \<le> Version (entry it) then (False, skipStale m) else go (removeElement k m)
               else if version \<le> Version (entry it) then (False, m)
               else go (removeElement k m)
             else go (removeElement k m))"

section \<open>The contract holds\<close>

interpretation zt: cached_container zset_Encode zset_Decode zset_ApproxWireBytes zset_ok FlagZSet
  zCache zDirty setZSlot flushZSetValueLocked zset_New "\<lambda>f. f"
  "\<lambda>v cur. v" "\<lambda>v cur. v" "\<lambda>v. v" "\<lambda>v e. IsZSet e"
  insertZSetLocked zPeekLocked zMutateLocked ZInstall
proof (unfold_locales, goal_cases)
  case 1
  show ?case by (rule zset_ok_ops)
next
  case 2
  show ?case by (simp add: insertZSetLocked_def setZSlot_def)
next
  case 3
  show ?case
    by (auto simp: zPeekLocked_def setZSlot_def Is_defs split: option.splits sum.splits
        intro!: arg_cong [where f = "\<lambda>it. putItem k it m" for k m] lru_item.equality)
next
  case 4
  show ?case unfolding zMutateLocked_def setZSlot_def Is_defs Let_def sum.case ..
next
  case (5 now k blob v ex m)
  show ?case
    by (cases "items m k") (simp_all add: ZInstall_def Let_def)
qed

interpretation ztr: removable_container zset_Encode zset_Decode zset_ApproxWireBytes zset_ok FlagZSet
  zCache zDirty setZSlot flushZSetValueLocked zset_New "\<lambda>f. f"
  "\<lambda>v cur. v" "\<lambda>v cur. v" "\<lambda>v. v" "\<lambda>v e. IsZSet e"
  insertZSetLocked zPeekLocked zMutateLocked ZInstall
  ZRem "\<lambda>x z. Inr (zset_Rem x z)"
  by unfold_locales (unfold ZRem_def Is_defs, auto intro: zset_ok_ops)

section \<open>Functional behaviour\<close>

abbreviation zset_at :: "time \<Rightarrow> memory \<Rightarrow> bytes \<Rightarrow> gzset option" where
  "zset_at \<equiv> live zset_Decode FlagZSet"

lemma ZRangeByScore_live:
  "mem_wf m \<Longrightarrow> fst (ZRangeByScore now k mn mx m) =
     (case zset_at now m k of None \<Rightarrow> [] | Some z \<Rightarrow> zset_RangeByScore z mn mx)"
  using zt.peek_spec(1) [of m now k]
  by (cases "zPeekLocked now k m") (auto simp: ZRangeByScore_def split: option.splits)

lemma ZAdd_applies:
  assumes "mem_wf m" "admits zset_Decode FlagZSet now v m k" "go_len x" "\<not> f64_is_nan s" "ex = 0 \<or> now < ex"
  shows "fst (ZAdd now k x s v ex m)" "mem_wf (snd (ZAdd now k x s v ex m))"
    "zset_at now (snd (ZAdd now k x s v ex m)) k =
       Some (fmupd x s (case zset_at now m k of None \<Rightarrow> zset_New | Some z \<Rightarrow> z))"
proof -
  have f: "zset_Add x s z = Inr (fmupd x s z)" for z using assms(4) by (simp add: zset_Add_def)
  have okf: "zset_ok y" if "zset_ok z" "zset_Add x s z = Inr y" for z y
    using that assms(3) zset_ok_ops(2) by blast
  note applies = zt.mutate_applies [where f = "zset_Add x s", OF assms(1,2,5) f okf]
  show "fst (ZAdd now k x s v ex m)" "mem_wf (snd (ZAdd now k x s v ex m))"
    "zset_at now (snd (ZAdd now k x s v ex m)) k =
       Some (fmupd x s (case zset_at now m k of None \<Rightarrow> zset_New | Some z \<Rightarrow> z))"
    unfolding ZAdd_def by (simp_all add: applies)
qed

text \<open>C18. After an admitted add, a score range query lists exactly the members whose
  score lies in the window, the new member with its new score among them, in
  strictly ascending order of score and member.\<close>

theorem ZAdd_then_ZRangeByScore:
  assumes "mem_wf m" "admits zset_Decode FlagZSet now v m k" "go_len x" "\<not> f64_is_nan s" "ex = 0 \<or> now < ex"
    and "z = fmupd x s (case zset_at now m k of None \<Rightarrow> zset_New | Some z \<Rightarrow> z)"
    and "out = fst (ZRangeByScore now k mn mx (snd (ZAdd now k x s v ex m)))"
  shows "set out = {(y, t). fmlookup z y = Some t \<and> \<not> f64_lt t mn \<and> \<not> f64_lt mx t} \<and>
         sorted_wrt zset_less out"
proof -
  have z: "zset_at now (snd (ZAdd now k x s v ex m)) k = Some z" "mem_wf (snd (ZAdd now k x s v ex m))"
    using ZAdd_applies [OF assms(1-5)] assms(6) by simp_all
  then have ok: "zset_ok z" using zt.live_ok by blast
  have "out = filter (\<lambda>m. \<not> f64_lt (snd m) mn \<and> \<not> f64_lt mx (snd m)) (zset_ordered z)"
    using z assms(7)
    by (simp add: ZRangeByScore_live zset_RangeByScore_def zset_score_loop_filter sorted_zset_ordered [OF ok])
  then show ?thesis
    using sorted_zset_ordered [OF ok] by (auto simp: sorted_wrt_filter)
qed

theorem ZAdd_then_ZRangeByScore_witness:
  "let z = fmupd [1] 0x4000000000000000 (case zset_at 5 (NewMemory 100 0) [107] of None \<Rightarrow> zset_New | Some z \<Rightarrow> z);
       out = fst (ZRangeByScore 5 [107] 0 0x4010000000000000
               (snd (ZAdd 5 [107] [1] 0x4000000000000000 1 0 (NewMemory 100 0))))
   in set out = {(y, t). fmlookup z y = Some t \<and> \<not> f64_lt t 0 \<and> \<not> f64_lt 0x4010000000000000 t} \<and>
      sorted_wrt zset_less out"
  unfolding Let_def
  by (rule ZAdd_then_ZRangeByScore [OF _ _ _ _ _ refl refl])
    (simp_all add: admits_def go_len_def, code_simp)

end
