(* ===== verification/StoreGeo.thy ===== *)
theory StoreGeo
  imports Containers
begin

text \<open>Named geo indexes: \<open>pkg/store/geo.go\<close>. The great-circle distance is a parameter.\<close>

definition insertGeoLocked :: "time \<Rightarrow> bytes \<Rightarrow> entry \<Rightarrow> ggeo \<Rightarrow> bool \<Rightarrow> memory \<Rightarrow> bool \<times> memory" where
  "insertGeoLocked now k ent cache dirty m =
     (let c = (if dirty then int (length k) + 64 + geo_ApproxWireBytes cache else entryCost k ent);
          it = (mkItem k ent c)\<lparr>gCache := Some cache, gDirty := dirty\<rparr>;
          m' = evictLocked now (pushFront k it m)
      in (has k m', m'))"

definition gPeekLocked :: "time \<Rightarrow> bytes \<Rightarrow> memory \<Rightarrow> ggeo option \<times> memory" where
  "gPeekLocked now k m =
     (case items m k of
        None \<Rightarrow> (None, m)
      | Some it \<Rightarrow>
          if Expired (entry it) now then (None, removeElement k m)
          else if IsTombstone (entry it) \<or> \<not> IsGeo (entry it) then (None, m)
          else
            (case gCache it of
               Some g \<Rightarrow> (Some g, m)
             | None \<Rightarrow>
                 (case geo_Decode (Value (entry it)) of
                    Inl err \<Rightarrow> (None, m)
                  | Inr g \<Rightarrow> (Some g, putItem k (it\<lparr>gCache := Some g\<rparr>) m))))"

definition gMutateLocked ::
    "time \<Rightarrow> bytes \<Rightarrow> u64 \<Rightarrow> time \<Rightarrow> (ggeo \<Rightarrow> codec_err + ggeo) \<Rightarrow> memory \<Rightarrow> bool \<times> memory" where
  "gMutateLocked now k version expireAt mut m =
     (let create = (\<lambda>m. case mut geo_New of
            Inl err \<Rightarrow> (False, m)
          | Inr g \<Rightarrow> insertGeoLocked now k
              \<lparr>Value = geo_Encode g, Version = version, ExpireAt = expireAt, Flags = FlagGeo\<rparr> g False m)
      in case items m k of
           None \<Rightarrow> create m
         | Some it \<Rightarrow>
             if \<not> Expired (entry it) now then
               if IsTombstone (entry it) then
                 if version \<le> Version (entry it) then (False, skipStale m)
                 else create (removeElement k m)
               else if IsGeo (entry it) then
                 (case (case gCache it of None \<Rightarrow> geo_Decode (Value (entry it)) | Some g \<Rightarrow> Inr g) of
                    Inl err \<Rightarrow> (False, m)
                  | Inr g0 \<Rightarrow>
                      (case mut g0 of
                         Inl err \<Rightarrow> (False, m)
                       | Inr g \<Rightarrow>
                           let e = entry it;
                               e' = e\<lparr>Version := version,
                                      ExpireAt := (if expireAt \<noteq> 0 then expireAt else ExpireAt e),
                                      Flags := FlagGeo\<rparr>;
                               it' = it\<lparr>entry := e', cost := int (length k) + 64 + geo_ApproxWireBytes g,
                                        gCache := Some g, gDirty := True\<rparr>;
                               m' = evictLocked now (moveToFront k (replaceItem k it' m))
                           in (has k m', m')))
               else (False, m)
             else create (removeElement k m))"

definition GeoAdd :: "time \<Rightarrow> bytes \<Rightarrow> bytes \<Rightarrow> f64 \<Rightarrow> f64 \<Rightarrow> u64 \<Rightarrow> time \<Rightarrow> memory \<Rightarrow> bool \<times> memory" where
  "GeoAdd now k member lon lat version expireAt m =
     gMutateLocked now k version expireAt (geo_Add member lon lat) m"

definition GeoRem :: "time \<Rightarrow> bytes \<Rightarrow> bytes \<Rightarrow> u64 \<Rightarrow> time \<Rightarrow> memory \<Rightarrow> bool \<times> memory" where
  "GeoRem now k member version expireAt m =
     (case items m k of
        None \<Rightarrow> (True, m)
      | Some it \<Rightarrow>
          if Expired (entry it) now then (True, removeElement k m)
          else if IsTombstone (entry it) then
            if version \<le> Version (entry it) then (False, skipStale m) else (True, m)
          else if \<not> IsGeo (entry it) then (False, m)
          else gMutateLocked now k version expireAt (\<lambda>g. Inr (geo_Rem member g)) m)"

definition GeoPos :: "time \<Rightarrow> bytes \<Rightarrow> bytes \<Rightarrow> memory \<Rightarrow> geo_point option \<times> memory" where
  "GeoPos now k member m =
     (case gPeekLocked now k m of (None, m') \<Rightarrow> (None, m') | (Some g, m') \<Rightarrow> (geo_Pos g member, m'))"

definition GeoCard :: "time \<Rightarrow> bytes \<Rightarrow> memory \<Rightarrow> nat \<times> memory" where
  "GeoCard now k m =
     (case gPeekLocked now k m of (None, m') \<Rightarrow> (0, m') | (Some g, m') \<Rightarrow> (geo_Card g, m'))"

definition HasGeo :: "time \<Rightarrow> bytes \<Rightarrow> memory \<Rightarrow> bool \<times> memory" where
  "HasGeo now k m = (case gPeekLocked now k m of (r, m') \<Rightarrow> (r \<noteq> None, m'))"

definition GeoDist :: "fpu \<Rightarrow> time \<Rightarrow> bytes \<Rightarrow> bytes \<Rightarrow> bytes \<Rightarrow> memory \<Rightarrow> f64 option \<times> memory" where
  "GeoDist fp now k a b m =
     (case gPeekLocked now k m of (None, m') \<Rightarrow> (None, m') | (Some g, m') \<Rightarrow> (geo_Dist fp g a b, m'))"

definition GeoRadius :: "fpu \<Rightarrow> time \<Rightarrow> bytes \<Rightarrow> f64 \<Rightarrow> f64 \<Rightarrow> f64 \<Rightarrow> int \<Rightarrow> memory \<Rightarrow> geo_member list \<times> memory" where
  "GeoRadius fp now k lon lat radiusM limit m =
     (case gPeekLocked now k m of (None, m') \<Rightarrow> ([], m') | (Some g, m') \<Rightarrow> (geo_Radius fp g lon lat radiusM limit, m'))"

definition GeoInstall :: "time \<Rightarrow> bytes \<Rightarrow> bytes \<Rightarrow> u64 \<Rightarrow> time \<Rightarrow> memory \<Rightarrow> bool \<times> memory" where
  "GeoInstall now k blob version expireAt m =
     (let go = (\<lambda>m. case geo_Decode blob of
            Inl err \<Rightarrow> (False, m)
          | Inr g \<Rightarrow> insertGeoLocked now k
              \<lparr>Value = blob, Version = version, ExpireAt = expireAt, Flags = FlagGeo\<rparr> g False m)
      in case items m k of
           None \<Rightarrow> go m
         | Some it \<Rightarrow>
             if \<not> Expired (entry it) now then
               if IsTombstone (entry it) then
                 if version \<le> Version (entry it) then (False, skipStale m) else go (removeElement k m)
               else if IsGeo (entry it) then
                 if version \<le> Version (entry it) then (False, skipStale m) else go (removeElement k m)
               else if version \<le> Version (entry it) then (False, m)
               else go (removeElement k m)
             else go (removeElement k m))"

section \<open>The contract holds\<close>

interpretation gt: cached_container geo_Encode geo_Decode geo_ApproxWireBytes geo_ok FlagGeo
  gCache gDirty setGSlot flushGeoValueLocked geo_New "\<lambda>f. f"
  "\<lambda>v cur. v" "\<lambda>v cur. v" "\<lambda>v. v" "\<lambda>v e. IsGeo e"
  insertGeoLocked gPeekLocked gMutateLocked GeoInstall
proof (unfold_locales, goal_cases)
  case 1
  show ?case by (rule geo_ok_ops)
next
  case 2
  show ?case by (simp add: insertGeoLocked_def setGSlot_def)
next
  case 3
  show ?case
    by (auto simp: gPeekLocked_def setGSlot_def Is_defs split: option.splits sum.splits
        intro!: arg_cong [where f = "\<lambda>it. putItem k it m" for k m] lru_item.equality)
next
  case 4
  show ?case unfolding gMutateLocked_def setGSlot_def Is_defs Let_def sum.case ..
next
  case (5 now k blob v ex m)
  show ?case
    by (cases "items m k") (simp_all add: GeoInstall_def Let_def)
qed

interpretation gtr: removable_container geo_Encode geo_Decode geo_ApproxWireBytes geo_ok FlagGeo
  gCache gDirty setGSlot flushGeoValueLocked geo_New "\<lambda>f. f"
  "\<lambda>v cur. v" "\<lambda>v cur. v" "\<lambda>v. v" "\<lambda>v e. IsGeo e"
  insertGeoLocked gPeekLocked gMutateLocked GeoInstall
  GeoRem "\<lambda>x g. Inr (geo_Rem x g)"
  by unfold_locales (unfold GeoRem_def Is_defs, auto intro: geo_ok_ops)

section \<open>Functional behaviour\<close>

abbreviation geo_at :: "time \<Rightarrow> memory \<Rightarrow> bytes \<Rightarrow> ggeo option" where
  "geo_at \<equiv> live geo_Decode FlagGeo"

lemma GeoPos_live:
  "mem_wf m \<Longrightarrow> fst (GeoPos now k x m) =
     (case geo_at now m k of None \<Rightarrow> None | Some g \<Rightarrow> geo_Pos g x)"
  using gt.peek_spec(1) [of m now k]
  by (cases "gPeekLocked now k m") (auto simp: GeoPos_def split: option.splits)

lemma GeoAdd_applies:
  assumes "mem_wf m" "admits geo_Decode FlagGeo now v m k" "go_len x" "geo_ValidCoord lon lat" "ex = 0 \<or> now < ex"
  shows "fst (GeoAdd now k x lon lat v ex m)" "mem_wf (snd (GeoAdd now k x lon lat v ex m))"
    "geo_at now (snd (GeoAdd now k x lon lat v ex m)) k =
       Some (fmupd x (lon, lat) (case geo_at now m k of None \<Rightarrow> geo_New | Some g \<Rightarrow> g))"
proof -
  have f: "geo_Add x lon lat g = Inr (fmupd x (lon, lat) g)" for g using assms(4) by (simp add: geo_Add_def)
  have okf: "geo_ok y" if "geo_ok g" "geo_Add x lon lat g = Inr y" for g y
    using that assms(3) geo_ok_ops(2) by blast
  note applies = gt.mutate_applies [where f = "geo_Add x lon lat", OF assms(1,2,5) f okf]
  show "fst (GeoAdd now k x lon lat v ex m)" "mem_wf (snd (GeoAdd now k x lon lat v ex m))"
    "geo_at now (snd (GeoAdd now k x lon lat v ex m)) k =
       Some (fmupd x (lon, lat) (case geo_at now m k of None \<Rightarrow> geo_New | Some g \<Rightarrow> g))"
    unfolding GeoAdd_def by (simp_all add: applies)
qed

lemma GeoAdd_then_GeoPos:
  assumes "mem_wf m" "admits geo_Decode FlagGeo now v m k" "go_len x" "geo_ValidCoord lon lat" "ex = 0 \<or> now < ex"
  shows "fst (GeoPos now k y (snd (GeoAdd now k x lon lat v ex m))) =
    (if y = x then Some (lon, lat) else fst (GeoPos now k y m))"
  using GeoAdd_applies [OF assms]
  by (auto simp: GeoPos_live assms(1) geo_Pos_def geo_New_def split: option.splits)

end
