(* ===== verification/StoreHash.thy ===== *)
theory StoreHash
  imports Containers
begin

text \<open>Named hashes: \<open>pkg/store/hash.go\<close>.\<close>

definition insertHashLocked :: "time \<Rightarrow> bytes \<Rightarrow> entry \<Rightarrow> ghash \<Rightarrow> bool \<Rightarrow> memory \<Rightarrow> bool \<times> memory" where
  "insertHashLocked now k ent cache dirty m =
     (let c = (if dirty then int (length k) + 64 + hash_ApproxWireBytes cache else entryCost k ent);
          it = (mkItem k ent c)\<lparr>hCache := Some cache, hDirty := dirty\<rparr>;
          m' = evictLocked now (pushFront k it m)
      in (has k m', m'))"

definition hPeekLocked :: "time \<Rightarrow> bytes \<Rightarrow> memory \<Rightarrow> ghash option \<times> memory" where
  "hPeekLocked now k m =
     (case items m k of
        None \<Rightarrow> (None, m)
      | Some it \<Rightarrow>
          if Expired (entry it) now then (None, removeElement k m)
          else if IsTombstone (entry it) \<or> \<not> IsHash (entry it) then (None, m)
          else
            (case hCache it of
               Some h \<Rightarrow> (Some h, m)
             | None \<Rightarrow>
                 (case hash_Decode (Value (entry it)) of
                    Inl err \<Rightarrow> (None, m)
                  | Inr h \<Rightarrow> (Some h, putItem k (it\<lparr>hCache := Some h\<rparr>) m))))"

definition hMutateLocked ::
    "time \<Rightarrow> bytes \<Rightarrow> u64 \<Rightarrow> time \<Rightarrow> (ghash \<Rightarrow> ghash) \<Rightarrow> memory \<Rightarrow> bool \<times> memory" where
  "hMutateLocked now k version expireAt mut m =
     (let create = (\<lambda>m. let h = mut hash_New in
            insertHashLocked now k
              \<lparr>Value = hash_Encode h, Version = version, ExpireAt = expireAt, Flags = FlagHash\<rparr> h False m)
      in case items m k of
           None \<Rightarrow> create m
         | Some it \<Rightarrow>
             if \<not> Expired (entry it) now then
               if IsTombstone (entry it) then
                 if version \<le> Version (entry it) then (False, skipStale m)
                 else create (removeElement k m)
               else if IsHash (entry it) then
                 (case (case hCache it of None \<Rightarrow> hash_Decode (Value (entry it)) | Some h \<Rightarrow> Inr h) of
                    Inl err \<Rightarrow> (False, m)
                  | Inr h0 \<Rightarrow>
                      let h = mut h0;
                          e = entry it;
                          e' = e\<lparr>Version := version,
                                 ExpireAt := (if expireAt \<noteq> 0 then expireAt else ExpireAt e),
                                 Flags := FlagHash\<rparr>;
                          it' = it\<lparr>entry := e', cost := int (length k) + 64 + hash_ApproxWireBytes h,
                                   hCache := Some h, hDirty := True\<rparr>;
                          m' = evictLocked now (moveToFront k (replaceItem k it' m))
                      in (has k m', m'))
               else (False, m)
             else create (removeElement k m))"

definition HSet :: "time \<Rightarrow> bytes \<Rightarrow> bytes \<Rightarrow> bytes \<Rightarrow> u64 \<Rightarrow> time \<Rightarrow> memory \<Rightarrow> bool \<times> memory" where
  "HSet now k field value version expireAt m =
     hMutateLocked now k version expireAt (hash_Set field value) m"

definition HDel :: "time \<Rightarrow> bytes \<Rightarrow> bytes \<Rightarrow> u64 \<Rightarrow> time \<Rightarrow> memory \<Rightarrow> bool \<times> memory" where
  "HDel now k field version expireAt m =
     (case items m k of
        None \<Rightarrow> (True, m)
      | Some it \<Rightarrow>
          if Expired (entry it) now then (True, removeElement k m)
          else if IsTombstone (entry it) then
            if version \<le> Version (entry it) then (False, skipStale m) else (True, m)
          else if \<not> IsHash (entry it) then (False, m)
          else hMutateLocked now k version expireAt (hash_Del field) m)"

definition HGet :: "time \<Rightarrow> bytes \<Rightarrow> bytes \<Rightarrow> memory \<Rightarrow> bytes option \<times> memory" where
  "HGet now k field m =
     (case hPeekLocked now k m of (None, m') \<Rightarrow> (None, m') | (Some h, m') \<Rightarrow> (hash_Get h field, m'))"

definition HExists :: "time \<Rightarrow> bytes \<Rightarrow> bytes \<Rightarrow> memory \<Rightarrow> bool \<times> memory" where
  "HExists now k field m =
     (case hPeekLocked now k m of (None, m') \<Rightarrow> (False, m') | (Some h, m') \<Rightarrow> (hash_Exists h field, m'))"

definition HLen :: "time \<Rightarrow> bytes \<Rightarrow> memory \<Rightarrow> nat \<times> memory" where
  "HLen now k m =
     (case hPeekLocked now k m of (None, m') \<Rightarrow> (0, m') | (Some h, m') \<Rightarrow> (hash_Len h, m'))"

definition HasHash :: "time \<Rightarrow> bytes \<Rightarrow> memory \<Rightarrow> bool \<times> memory" where
  "HasHash now k m = (case hPeekLocked now k m of (r, m') \<Rightarrow> (r \<noteq> None, m'))"

definition HGetAll :: "time \<Rightarrow> bytes \<Rightarrow> memory \<Rightarrow> (bytes \<times> bytes) list \<times> memory" where
  "HGetAll now k m =
     (case hPeekLocked now k m of (None, m') \<Rightarrow> ([], m') | (Some h, m') \<Rightarrow> (hash_All h, m'))"

definition HInstall :: "time \<Rightarrow> bytes \<Rightarrow> bytes \<Rightarrow> u64 \<Rightarrow> time \<Rightarrow> memory \<Rightarrow> bool \<times> memory" where
  "HInstall now k blob version expireAt m =
     (let go = (\<lambda>m. case hash_Decode blob of
            Inl err \<Rightarrow> (False, m)
          | Inr h \<Rightarrow> insertHashLocked now k
              \<lparr>Value = blob, Version = version, ExpireAt = expireAt, Flags = FlagHash\<rparr> h False m)
      in case items m k of
           None \<Rightarrow> go m
         | Some it \<Rightarrow>
             if \<not> Expired (entry it) now then
               if IsTombstone (entry it) then
                 if version \<le> Version (entry it) then (False, skipStale m) else go (removeElement k m)
               else if IsHash (entry it) then
                 if version \<le> Version (entry it) then (False, skipStale m) else go (removeElement k m)
               else if version \<le> Version (entry it) then (False, m)
               else go (removeElement k m)
             else go (removeElement k m))"

section \<open>The contract holds\<close>

interpretation ht: cached_container hash_Encode hash_Decode hash_ApproxWireBytes hash_ok FlagHash
  hCache hDirty setHSlot flushHashValueLocked hash_New "\<lambda>f h. Inr (f h)"
  "\<lambda>v cur. v" "\<lambda>v cur. v" "\<lambda>v. v" "\<lambda>v e. IsHash e"
  insertHashLocked hPeekLocked hMutateLocked HInstall
proof (unfold_locales, goal_cases)
  case 1
  show ?case by (rule hash_ok_ops)
next
  case 2
  show ?case by (simp add: insertHashLocked_def setHSlot_def)
next
  case 3
  show ?case
    by (auto simp: hPeekLocked_def setHSlot_def Is_defs split: option.splits sum.splits
        intro!: arg_cong [where f = "\<lambda>it. putItem k it m" for k m] lru_item.equality)
next
  case 4
  show ?case unfolding hMutateLocked_def setHSlot_def Is_defs Let_def sum.case ..
next
  case (5 now k blob v ex m)
  show ?case
    by (cases "items m k") (simp_all add: HInstall_def Let_def)
qed

interpretation htr: removable_container hash_Encode hash_Decode hash_ApproxWireBytes hash_ok FlagHash
  hCache hDirty setHSlot flushHashValueLocked hash_New "\<lambda>f h. Inr (f h)"
  "\<lambda>v cur. v" "\<lambda>v cur. v" "\<lambda>v. v" "\<lambda>v e. IsHash e"
  insertHashLocked hPeekLocked hMutateLocked HInstall
  HDel "hash_Del"
  by unfold_locales (unfold HDel_def Is_defs, auto intro: hash_ok_ops)

section \<open>Functional behaviour\<close>

abbreviation hash_at :: "time \<Rightarrow> memory \<Rightarrow> bytes \<Rightarrow> ghash option" where
  "hash_at \<equiv> live hash_Decode FlagHash"

lemma HGet_live:
  "mem_wf m \<Longrightarrow> fst (HGet now k f m) =
     (case hash_at now m k of None \<Rightarrow> None | Some h \<Rightarrow> hash_Get h f)"
  using ht.peek_spec(1) [of m now k]
  by (cases "hPeekLocked now k m") (auto simp: HGet_def split: option.splits)

lemma HSet_applies:
  assumes "mem_wf m" "admits hash_Decode FlagHash now v m k" "go_len f" "go_len x" "ex = 0 \<or> now < ex"
  shows "fst (HSet now k f x v ex m)" "mem_wf (snd (HSet now k f x v ex m))"
    "hash_at now (snd (HSet now k f x v ex m)) k =
       Some (hash_Set f x (case hash_at now m k of None \<Rightarrow> hash_New | Some h \<Rightarrow> h))"
proof -
  have okf: "hash_ok y" if "hash_ok h" "(Inr (hash_Set f x h) :: codec_err + ghash) = Inr y" for h y
    using that assms(3,4) hash_ok_ops(2) by auto
  note applies = ht.mutate_applies [where f = "hash_Set f x", OF assms(1,2,5) refl okf]
  show "fst (HSet now k f x v ex m)" "mem_wf (snd (HSet now k f x v ex m))"
    "hash_at now (snd (HSet now k f x v ex m)) k =
       Some (hash_Set f x (case hash_at now m k of None \<Rightarrow> hash_New | Some h \<Rightarrow> h))"
    unfolding HSet_def by (simp_all add: applies)
qed

text \<open>C17. After an admitted field write a read returns the new value for that field and
  the old one for every other field.\<close>

theorem HSet_then_HGet:
  assumes "mem_wf m" "admits hash_Decode FlagHash now v m k" "go_len f" "go_len x" "ex = 0 \<or> now < ex"
  shows "fst (HGet now k g (snd (HSet now k f x v ex m))) = (if g = f then Some x else fst (HGet now k g m))"
  using HSet_applies [OF assms]
  by (auto simp: HGet_live assms(1) hash_Get_def hash_Set_def hash_New_def split: option.splits)

theorem HSet_then_HGet_witness:
  "fst (HGet 5 [107] [1] (snd (HSet 5 [107] [1] [2] 1 0 (NewMemory 100 0)))) =
     (if [1] = ([1] :: bytes) then Some [2] else fst (HGet 5 [107] [1] (NewMemory 100 0)))"
  by (rule HSet_then_HGet) (simp_all add: admits_def go_len_def)

lemma HDel_then_HGet:
  assumes "mem_wf m" "ex = 0 \<or> now < ex"
  shows "fst (HGet now k g (snd (HDel now k f v ex m))) = (if g = f then None else fst (HGet now k g m))"
proof (cases "hash_at now m k")
  case None
  have "hash_at now (snd (HDel now k f v ex m)) k = None"
    using htr.remove_absent [OF assms(1) None] None
    by (auto simp: live_def expire_key_def split: option.splits if_splits)
  then show ?thesis by (simp add: HGet_live assms(1) htr.remove_wf None)
next
  case (Some h)
  then have "hash_at now (snd (HDel now k f v ex m)) k = Some (hash_Del f h)"
    using htr.remove_live [OF assms(1) Some refl assms(2)] by simp
  then show ?thesis
    by (simp add: HGet_live assms(1) htr.remove_wf Some hash_Get_def hash_Del_def)
qed

end
