(* ===== verification/StoreList.thy ===== *)
theory StoreList
  imports Containers
begin

text \<open>Named lists: \<open>pkg/store/list.go\<close>. Unlike the other containers a list numbers its own
  versions: each mutation stores the previous version plus one (a 64-bit sum).\<close>

definition insertListLocked :: "time \<Rightarrow> bytes \<Rightarrow> entry \<Rightarrow> glist \<Rightarrow> bool \<Rightarrow> memory \<Rightarrow> bool \<times> memory" where
  "insertListLocked now k ent cache dirty m =
     (let c = (if dirty then int (length k) + 64 + list_ApproxWireBytes cache else entryCost k ent);
          it = (mkItem k ent c)\<lparr>lCache := Some cache, lDirty := dirty\<rparr>;
          m' = evictLocked now (pushFront k it m)
      in (has k m', m'))"

definition lPeekLocked :: "time \<Rightarrow> bytes \<Rightarrow> memory \<Rightarrow> glist option \<times> memory" where
  "lPeekLocked now k m =
     (case items m k of
        None \<Rightarrow> (None, m)
      | Some it \<Rightarrow>
          if Expired (entry it) now then (None, removeElement k m)
          else if IsTombstone (entry it) \<or> \<not> IsList (entry it) then (None, m)
          else
            (case lCache it of
               Some l \<Rightarrow> (Some l, m)
             | None \<Rightarrow>
                 (case list_Decode (Value (entry it)) of
                    Inl err \<Rightarrow> (None, m)
                  | Inr l \<Rightarrow> (Some l, putItem k (it\<lparr>lCache := Some l\<rparr>) m))))"

definition lMutateLocked ::
    "time \<Rightarrow> bytes \<Rightarrow> u64 \<Rightarrow> time \<Rightarrow> (glist \<Rightarrow> glist) \<Rightarrow> memory \<Rightarrow> bool \<times> memory" where
  "lMutateLocked now k version expireAt mut m =
     (let create = (\<lambda>stored m. let l = mut list_New in
            insertListLocked now k
              \<lparr>Value = list_Encode l, Version = stored, ExpireAt = expireAt, Flags = FlagList\<rparr> l False m)
      in case items m k of
           None \<Rightarrow> create 1 m
         | Some it \<Rightarrow>
             if \<not> Expired (entry it) now then
               if IsTombstone (entry it) then
                 if version \<le> Version (entry it) then (False, skipStale m)
                 else create (Version (entry it) + 1) (removeElement k m)
               else if IsList (entry it) then
                 (case (case lCache it of None \<Rightarrow> list_Decode (Value (entry it)) | Some l \<Rightarrow> Inr l) of
                    Inl err \<Rightarrow> (False, m)
                  | Inr l0 \<Rightarrow>
                      let l = mut l0;
                          e = entry it;
                          e' = e\<lparr>Version := Version e + 1,
                                 ExpireAt := (if expireAt \<noteq> 0 then expireAt else ExpireAt e),
                                 Flags := FlagList\<rparr>;
                          it' = it\<lparr>entry := e', cost := int (length k) + 64 + list_ApproxWireBytes l,
                                   lCache := Some l, lDirty := True\<rparr>;
                          m' = evictLocked now (moveToFront k (replaceItem k it' m))
                      in (has k m', m'))
               else (False, m)
             else create 1 (removeElement k m))"

definition LPush :: "time \<Rightarrow> bytes \<Rightarrow> bytes \<Rightarrow> u64 \<Rightarrow> time \<Rightarrow> memory \<Rightarrow> bool \<times> memory" where
  "LPush now k item version expireAt m = lMutateLocked now k version expireAt (list_LPush item) m"

definition RPush :: "time \<Rightarrow> bytes \<Rightarrow> bytes \<Rightarrow> u64 \<Rightarrow> time \<Rightarrow> memory \<Rightarrow> bool \<times> memory" where
  "RPush now k item version expireAt m = lMutateLocked now k version expireAt (list_RPush item) m"

text \<open>The result of a pop: the item popped, if any, and whether the request was applied.\<close>

definition lPopLocked ::
    "time \<Rightarrow> bytes \<Rightarrow> u64 \<Rightarrow> time \<Rightarrow> bool \<Rightarrow> memory \<Rightarrow> (bytes option \<times> bool) \<times> memory" where
  "lPopLocked now k version expireAt left m =
     (case items m k of
        None \<Rightarrow> ((None, True), m)
      | Some it \<Rightarrow>
          if Expired (entry it) now then ((None, True), removeElement k m)
          else if IsTombstone (entry it) then
            if version \<le> Version (entry it) then ((None, False), skipStale m) else ((None, True), m)
          else if \<not> IsList (entry it) then ((None, False), m)
          else
            (case (case lCache it of None \<Rightarrow> list_Decode (Value (entry it)) | Some l \<Rightarrow> Inr l) of
               Inl err \<Rightarrow> ((None, False), m)
             | Inr l0 \<Rightarrow>
                 (case (if left then list_LPop l0 else list_RPop l0) of
                    None \<Rightarrow> ((None, True), m)
                  | Some (item, l) \<Rightarrow>
                      let e = entry it;
                          e' = e\<lparr>Version := Version e + 1,
                                 ExpireAt := (if expireAt \<noteq> 0 then expireAt else ExpireAt e),
                                 Flags := FlagList\<rparr>;
                          it' = it\<lparr>entry := e', cost := int (length k) + 64 + list_ApproxWireBytes l,
                                   lCache := Some l, lDirty := True\<rparr>
                      in ((Some item, True), evictLocked now (moveToFront k (replaceItem k it' m))))))"

definition LPop :: "time \<Rightarrow> bytes \<Rightarrow> u64 \<Rightarrow> time \<Rightarrow> memory \<Rightarrow> (bytes option \<times> bool) \<times> memory" where
  "LPop now k version expireAt m = lPopLocked now k version expireAt True m"

definition RPop :: "time \<Rightarrow> bytes \<Rightarrow> u64 \<Rightarrow> time \<Rightarrow> memory \<Rightarrow> (bytes option \<times> bool) \<times> memory" where
  "RPop now k version expireAt m = lPopLocked now k version expireAt False m"

definition LLen :: "time \<Rightarrow> bytes \<Rightarrow> memory \<Rightarrow> int \<times> memory" where
  "LLen now k m =
     (case lPeekLocked now k m of (None, m') \<Rightarrow> (0, m') | (Some l, m') \<Rightarrow> (list_Len l, m'))"

definition HasList :: "time \<Rightarrow> bytes \<Rightarrow> memory \<Rightarrow> bool \<times> memory" where
  "HasList now k m = (case lPeekLocked now k m of (r, m') \<Rightarrow> (r \<noteq> None, m'))"

definition LIndex :: "time \<Rightarrow> bytes \<Rightarrow> int \<Rightarrow> memory \<Rightarrow> bytes option \<times> memory" where
  "LIndex now k idx m =
     (case lPeekLocked now k m of (None, m') \<Rightarrow> (None, m') | (Some l, m') \<Rightarrow> (list_Index l idx, m'))"

definition LRange :: "time \<Rightarrow> bytes \<Rightarrow> int \<Rightarrow> int \<Rightarrow> memory \<Rightarrow> bytes list \<times> memory" where
  "LRange now k start stop m =
     (case lPeekLocked now k m of (None, m') \<Rightarrow> ([], m') | (Some l, m') \<Rightarrow> (list_Range l start stop, m'))"

definition LInstall :: "time \<Rightarrow> bytes \<Rightarrow> bytes \<Rightarrow> u64 \<Rightarrow> time \<Rightarrow> memory \<Rightarrow> bool \<times> memory" where
  "LInstall now k blob version expireAt m =
     (let go = (\<lambda>m. case list_Decode blob of
            Inl err \<Rightarrow> (False, m)
          | Inr l \<Rightarrow> insertListLocked now k
              \<lparr>Value = blob, Version = version, ExpireAt = expireAt, Flags = FlagList\<rparr> l False m)
      in case items m k of
           None \<Rightarrow> go m
         | Some it \<Rightarrow>
             if \<not> Expired (entry it) now then
               if IsTombstone (entry it) then
                 if version \<le> Version (entry it) then (False, skipStale m) else go (removeElement k m)
               else if IsList (entry it) then
                 if version \<le> Version (entry it) then (False, skipStale m) else go (removeElement k m)
               else if version \<le> Version (entry it) then (False, m)
               else go (removeElement k m)
             else go (removeElement k m))"

section \<open>The contract holds\<close>

interpretation li: cached_container list_Encode list_Decode list_ApproxWireBytes list_ok FlagList
  lCache lDirty setLSlot flushListValueLocked list_New "\<lambda>f l. Inr (f l)"
  "\<lambda>v cur. cur + 1" "\<lambda>v cur. cur + 1" "\<lambda>v. 1" "\<lambda>v e. IsList e"
  insertListLocked lPeekLocked lMutateLocked LInstall
proof (unfold_locales, goal_cases)
  case 1
  show ?case by (rule list_ok_ops)
next
  case 2
  show ?case by (simp add: insertListLocked_def setLSlot_def)
next
  case 3
  show ?case
    by (auto simp: lPeekLocked_def setLSlot_def Is_defs split: option.splits sum.splits
        intro!: arg_cong [where f = "\<lambda>it. putItem k it m" for k m] lru_item.equality)
next
  case 4
  show ?case unfolding lMutateLocked_def setLSlot_def Is_defs Let_def sum.case ..
next
  case (5 now k blob v ex m)
  show ?case
    by (cases "items m k") (simp_all add: LInstall_def Let_def)
qed

section \<open>Functional behaviour\<close>

abbreviation list_at :: "time \<Rightarrow> memory \<Rightarrow> bytes \<Rightarrow> glist option" where
  "list_at \<equiv> live list_Decode FlagList"

lemma push_applies:
  assumes "mem_wf m" "admits list_Decode FlagList now v m k" "ex = 0 \<or> now < ex"
    and okf: "\<And>l. list_ok l \<Longrightarrow> list_ok (f l)"
  shows "fst (lMutateLocked now k v ex f m)" "mem_wf (snd (lMutateLocked now k v ex f m))"
    "list_at now (snd (lMutateLocked now k v ex f m)) k =
       Some (f (case list_at now m k of None \<Rightarrow> list_New | Some l \<Rightarrow> l))"
proof -
  have okf': "list_ok y" if "list_ok l" "(Inr (f l) :: codec_err + glist) = Inr y" for l y
    using that okf by auto
  note applies = li.mutate_applies [where f = f, OF assms(1-3) refl okf']
  show "fst (lMutateLocked now k v ex f m)" "mem_wf (snd (lMutateLocked now k v ex f m))"
    "list_at now (snd (lMutateLocked now k v ex f m)) k =
       Some (f (case list_at now m k of None \<Rightarrow> list_New | Some l \<Rightarrow> l))"
    by (simp_all add: applies)
qed

lemma lPopLocked_pops:
  assumes wf: "mem_wf m" and l: "list_at now m k = Some l"
    and p: "(if left then list_LPop l else list_RPop l) = Some (x, l')" and ex: "ex = 0 \<or> now < ex"
  shows "fst (lPopLocked now k v ex left m) = (Some x, True)" (is ?popped)
    and "list_at now (snd (lPopLocked now k v ex left m)) k = Some l'" (is ?rest)
    and "mem_wf (snd (lPopLocked now k v ex left m))" (is ?wf)
proof -
  from l obtain it where it: "items m k = Some it"
    by (auto simp: live_def view_def split: option.splits)
  have live: "\<not> Expired (entry it) now" "\<not> IsTombstone (entry it)" "IsList (entry it)"
    "(case lCache it of None \<Rightarrow> list_Decode (Value (entry it)) | Some l \<Rightarrow> Inr l) = Inr l"
    using l by (auto simp: li.live_item [OF wf it] Is_defs split: if_splits sum.splits)
  have ok: "list_ok l'"
    using p list_ok_ops(4,5) [OF li.live_ok [OF wf l]] by (auto split: if_splits)
  let ?ex = "if ex \<noteq> 0 then ex else ExpireAt (entry it)"
  let ?m = "evictLocked now (moveToFront k (replaceItem k (setLSlot (Some l') True
      (it\<lparr>entry := (entry it)\<lparr>Version := Version (entry it) + 1, ExpireAt := ?ex, Flags := FlagList\<rparr>,
          cost := int (length k) + 64 + list_ApproxWireBytes l'\<rparr>)) m))"
  let ?e = "\<lparr>Value = list_Encode l', Version = Version (entry it) + 1, ExpireAt = ?ex, Flags = FlagList\<rparr>"
  have eq: "lPopLocked now k v ex left m = ((Some x, True), ?m)"
    using it live p by (simp add: lPopLocked_def setLSlot_def Let_def)
  have st: "stored now k ?e m ?m" by (rule li.update_spec [OF wf it ok])
  have fresh: "\<not> Expired ?e now" using live(1) ex by (auto simp: Expired_def split: if_splits)
  have "view ?m k = Some ?e" by (rule stored_self [OF st ls.flag_pinned [OF _ fresh]]) simp
  then show ?rest
    using fresh ok by (simp add: eq live_def lc.round_trip Is_defs flag_words)
  show ?popped by (simp add: eq)
  show ?wf using stored_wf [OF st] by (simp add: eq)
qed

text \<open>C19. An item pushed at one end of a list and popped from the same end comes back,
  and the list is as it was; pushed at one end of an empty key and popped from the
  other end it comes back as well.\<close>

theorem push_then_pop:
  assumes "mem_wf m" "admits list_Decode FlagList now v m k" "go_len x" "ex = 0 \<or> now < ex"
    and "l = (case list_at now m k of None \<Rightarrow> list_New | Some l \<Rightarrow> l)"
    and "m1 = snd (LPush now k x v ex m)" "m2 = snd (RPush now k x v ex m)"
  shows "fst (LPop now k v' ex m1) = (Some x, True) \<and> list_at now (snd (LPop now k v' ex m1)) k = Some l \<and>
         fst (RPop now k v' ex m2) = (Some x, True) \<and> list_at now (snd (RPop now k v' ex m2)) k = Some l \<and>
         fst (RPop now k v' ex m1) = (Some (last (x # l)), True) \<and>
         fst (LPop now k v' ex m2) = (Some (hd (l @ [x])), True)"
proof -
  have m1: "mem_wf m1" "list_at now m1 k = Some (x # l)"
    using push_applies [OF assms(1,2,4), of "list_LPush x"] list_ok_ops(2) assms(3,5,6)
    by (simp_all add: LPush_def list_LPush_def)
  have m2: "mem_wf m2" "list_at now m2 k = Some (l @ [x])"
    using push_applies [OF assms(1,2,4), of "list_RPush x"] list_ok_ops(3) assms(3,5,7)
    by (simp_all add: RPush_def list_RPush_def)
  note pops = list_LPop_def list_RPop_def LPop_def RPop_def
  show ?thesis
    using lPopLocked_pops [OF m1 _ assms(4), where left = True and x = x and l' = l and v = v']
      lPopLocked_pops [OF m2 _ assms(4), where left = False and x = x and l' = l and v = v']
      lPopLocked_pops(1) [OF m1 _ assms(4), where left = False and v = v']
      lPopLocked_pops(1) [OF m2 _ assms(4), where left = True and v = v' and x = "hd (l @ [x])"
          and l' = "tl (l @ [x])"]
    by (auto simp: pops split: list.splits)
qed

theorem push_then_pop_witness:
  "let m1 = snd (LPush 5 [107] [1] 1 0 (NewMemory 100 0)); m2 = snd (RPush 5 [107] [1] 1 0 (NewMemory 100 0));
       l = (case list_at 5 (NewMemory 100 0) [107] of None \<Rightarrow> list_New | Some l \<Rightarrow> l)
   in fst (LPop 5 [107] 2 0 m1) = (Some [1], True) \<and> list_at 5 (snd (LPop 5 [107] 2 0 m1)) [107] = Some l \<and>
      fst (RPop 5 [107] 2 0 m2) = (Some [1], True) \<and> list_at 5 (snd (RPop 5 [107] 2 0 m2)) [107] = Some l \<and>
      fst (RPop 5 [107] 2 0 m1) = (Some (last ([1] # l)), True) \<and>
      fst (LPop 5 [107] 2 0 m2) = (Some (hd (l @ [[1]])), True)"
  unfolding Let_def
  by (rule push_then_pop [OF _ _ _ _ refl refl refl]) (simp_all add: admits_def go_len_def)

end
