(* ===== verification/BlobStores.thy ===== *)
theory BlobStores
  imports Containers
begin

text \<open>
  The contract shared by the containers the store keeps in encoded form only (counter,
  bitmap, HyperLogLog, top-k, count-min sketch, stream). Their entries carry no flag of
  a cached container, so an item may be overwritten in place. \<open>blob_store\<close> covers
  the insertion and the versioned snapshot of one such type.
\<close>

section \<open>Commit and insert\<close>

text \<open>The in-place commit of these files: new entry, new cost, clamped byte count, front
  of the recency list, eviction.\<close>

definition commitEntry :: "time \<Rightarrow> bytes \<Rightarrow> lru_item \<Rightarrow> entry \<Rightarrow> memory \<Rightarrow> memory" where
  "commitEntry now k it e m =
     evictLocked now (moveToFront k (clampBytes
       (replaceItem k (it\<lparr>entry := e, cost := entryCost k e\<rparr>) m)))"

lemma commitEntry_stored:
  assumes "mem_wf m" "items m k = Some it" "plain e"
  shows "stored now k e m (commitEntry now k it e m)"
proof -
  let ?it = "it\<lparr>entry := e, cost := entryCost k e\<rparr>"
  have it: "key ?it = k" "item_wf ?it"
    using mem_wfD(1) [OF assms(1,2)] assms(3) by (auto intro: item_wf_in_place)
  then have "clampBytes (replaceItem k ?it m) = replaceItem k ?it m"
    using mem_wf_replaceItem [OF assms(1,2) it] by (simp add: clampBytes_id mbytes_nonneg)
  then show ?thesis
    using stored_replace [OF assms(1,2) it, of now] assms(3) by (simp add: commitEntry_def)
qed

lemma insert_plain_stored:
  assumes "mem_wf m" "items m k = None" "plain e"
  shows "stored now k e m (evictLocked now (pushFront k (mkItem k e (entryCost k e)) m))"
  using stored_push [OF assms(1,2) _ item_wf_plain, of "mkItem k e (entryCost k e)" now] assms(3) by simp

text \<open>The entry under a key that is neither expired nor a tombstone and carries a flag.\<close>

definition live_entry :: "u64 \<Rightarrow> time \<Rightarrow> memory \<Rightarrow> bytes \<Rightarrow> entry option" where
  "live_entry flag now m k =
     (case view m k of
        None \<Rightarrow> None
      | Some e \<Rightarrow> if Expired e now \<or> IsTombstone e \<or> Flags e AND flag = 0 then None else Some e)"

text \<open>An entry that carries a flag of this kind is stored as it is read.\<close>

lemma mat_blob:
  assumes "mem_wf m" "items m k = Some it" "Flags (entry it) AND flag \<noteq> 0" "\<forall>f \<in> cached_flags. f AND flag = 0"
  shows "mat it = entry it"
proof -
  have "Flags (entry it) \<notin> cached_flags" using assms(3,4) by blast
  then show ?thesis by (rule mat_entry [OF mem_wfD(2) [OF assms(1,2)]])
qed

lemma live_entry_item:
  assumes "mem_wf m" "items m k = Some it" "\<forall>f \<in> cached_flags. f AND flag = 0"
  shows "live_entry flag now m k =
    (if Expired (entry it) now \<or> IsTombstone (entry it) \<or> Flags (entry it) AND flag = 0 then None
     else Some (entry it))"
  using assms mat_blob [OF assms(1,2) _ assms(3)] by (simp add: live_entry_def view_def)

lemma live_entry_stored:
  assumes "stored now k e m m'" "lru_pinned e now" "Flags e = flag" "flag AND FlagTombstone = 0" "flag \<noteq> 0"
  shows "live_entry flag now m' k = Some e"
proof -
  have "\<not> Expired e now" using assms(2) by (simp add: lru_pinned_def)
  moreover have "\<not> IsTombstone e" "Flags e AND flag \<noteq> 0" using assms(3-5) by (simp_all add: IsTombstone_def)
  ultimately show ?thesis using stored_self [OF assms(1,2)] by (simp add: live_entry_def)
qed

lemma live_entry_has: "live_entry flag now m k = Some e \<Longrightarrow> has k m"
  by (auto simp: has_view live_entry_def split: option.splits)

section \<open>The contract\<close>

text \<open>The entries whose newer version a snapshot counts as a stale skip: mostly tombstones and
  entries of the same kind.\<close>

abbreviation same_kind :: "u64 \<Rightarrow> entry \<Rightarrow> bool" where
  "same_kind flag e \<equiv> IsTombstone e \<or> Flags e AND flag \<noteq> 0"

locale blob_store =
  fixes flag :: u64 and valid :: "bytes \<Rightarrow> bool"
    and insert :: "time \<Rightarrow> bytes \<Rightarrow> entry \<Rightarrow> memory \<Rightarrow> bool \<times> memory"
    and install :: "time \<Rightarrow> bytes \<Rightarrow> bytes \<Rightarrow> u64 \<Rightarrow> time \<Rightarrow> memory \<Rightarrow> bool \<times> memory"
    and skips :: "entry \<Rightarrow> bool"
  assumes flag_plain: "Flags e = flag \<Longrightarrow> plain e"
    and flag_live: "flag AND FlagTombstone = 0" "flag \<noteq> 0"
    and flag_pinned: "Flags e = flag \<Longrightarrow> \<not> Expired e now \<Longrightarrow> lru_pinned e now"
    and insert_eq: "insert now k e m =
      (let m' = evictLocked now (pushFront k (mkItem k e (entryCost k e)) m) in (has k m', m'))"
    and install_eq: "install now k blob v ex m =
      (let e = \<lparr>Value = blob, Version = v, ExpireAt = ex, Flags = flag\<rparr> in
       if \<not> valid blob then (False, m)
       else case items m k of
              None \<Rightarrow> insert now k e m
            | Some it \<Rightarrow>
                if \<not> Expired (entry it) now \<and> v \<le> Version (entry it)
                then (False, if skips (entry it) then skipStale m else m)
                else insert now k e (removeElement k m))"
begin

lemma insert_stored:
  assumes "mem_wf m" "items m k = None" "Flags e = flag"
  shows "stored now k e m (snd (insert now k e m))"
    and "fst (insert now k e m) \<longleftrightarrow> has k (snd (insert now k e m))"
  using insert_plain_stored [OF assms(1,2) flag_plain [OF assms(3)]] by (simp_all add: insert_eq Let_def)

lemma insert_fresh:
  assumes "mem_wf m" "items m k = None" "Flags e = flag" "\<not> Expired e now"
  shows "fst (insert now k e m)" "view (snd (insert now k e m)) k = Some e"
  using insert_stored [OF assms(1-3), of now] stored_self [OF _ flag_pinned [OF assms(3,4)]]
  by (simp_all add: has_view)

lemma insert_over:
  assumes "mem_wf m" "Flags e = flag"
  shows "stored now k e m (snd (insert now k e (removeElement k m)))"
    and "fst (insert now k e (removeElement k m)) \<longleftrightarrow> has k (snd (insert now k e (removeElement k m)))"
  using insert_stored [OF mem_wf_removeElement [OF assms(1)] _ assms(2), of k k now]
  by (simp_all add: items_removeElement stored_removeElement)

lemma install_invalid: "\<not> valid blob \<Longrightarrow> install now k blob v ex m = (False, m)"
  by (simp add: install_eq Let_def)

lemma install_blocked:
  assumes "mem_wf m" "\<not> newer now v m k"
  shows "\<not> fst (install now k blob v ex m) \<and> mem_wf (snd (install now k blob v ex m)) \<and>
         view (snd (install now k blob v ex m)) = view m"
  using assms
  by (auto simp: install_eq newer_def view_def mem_wf_counters Let_def split: option.splits if_splits)

lemma install_stored:
  assumes wf: "mem_wf m" and new: "newer now v m k" and ok: "valid blob"
  shows "stored now k \<lparr>Value = blob, Version = v, ExpireAt = ex, Flags = flag\<rparr> m
           (snd (install now k blob v ex m))"
    and "fst (install now k blob v ex m) \<longleftrightarrow> has k (snd (install now k blob v ex m))"
proof -
  let ?e = "\<lparr>Value = blob, Version = v, ExpireAt = ex, Flags = flag\<rparr>"
  have "install now k blob v ex m = insert now k ?e (removeElement k m)"
    using new ok by (auto simp: install_eq newer_def view_def removeElement_def Let_def split: option.splits)
  then show "stored now k ?e m (snd (install now k blob v ex m))"
    and "fst (install now k blob v ex m) \<longleftrightarrow> has k (snd (install now k blob v ex m))"
    using insert_over [OF wf, of ?e] by simp_all
qed

lemma install_live:
  assumes wf: "mem_wf m" and new: "newer now v m k" and ok: "valid blob" and ex: "ex = 0 \<or> now < ex"
  shows "fst (install now k blob v ex m) \<and>
    live_entry flag now (snd (install now k blob v ex m)) k =
      Some \<lparr>Value = blob, Version = v, ExpireAt = ex, Flags = flag\<rparr>"
proof -
  let ?e = "\<lparr>Value = blob, Version = v, ExpireAt = ex, Flags = flag\<rparr>"
  have fresh: "\<not> Expired ?e now" using ex by (auto simp: Expired_def)
  have "view (snd (install now k blob v ex m)) k = Some ?e"
    by (rule stored_self [OF install_stored(1) [OF wf new ok] flag_pinned [OF _ fresh]]) simp
  then show ?thesis
    using install_stored(2) [OF wf new ok] fresh flag_live
    by (simp add: has_view live_entry_def Is_defs)
qed

lemma install_wf: "mem_wf m \<Longrightarrow> mem_wf (snd (install now k blob v ex m))"
  by (cases "newer now v m k"; cases "valid blob")
    (auto simp: install_blocked install_invalid intro: stored_wf install_stored(1))

end

end
