(* ===== verification/StoreCounter.thy ===== *)
theory StoreCounter
  imports BlobStores
begin

text \<open>
  Counters: \<open>pkg/counter/counter.go\<close> and \<open>pkg/store/counter.go\<close>. An \<open>int64\<close> is
  an integer in range; a sum is reduced to 64 bits as the machine does.
\<close>

section \<open>Codec\<close>

definition counter_Encode :: "int \<Rightarrow> bytes" where
  "counter_Encode v = PutUint64LE (word_of_int v)"

definition counter_Decode :: "bytes \<Rightarrow> codec_err + int" where
  "counter_Decode b = (if length b \<noteq> 8 then Inl BadValue else Inr (sint (Uint64LE b)))"

text \<open>\<open>Inl\<close> is \<open>ErrOverflow\<close>.\<close>

definition counter_Add :: "int \<Rightarrow> int \<Rightarrow> codec_err + int" where
  "counter_Add cur delta =
     (if 0 < delta \<and> wrap64 ((2 ^ 63 - 1) - delta) < cur then Inl BadValue
      else if delta < 0 \<and> cur < wrap64 (- (2 ^ 63) - delta) then Inl BadValue
      else Inr (wrap64 (cur + delta)))"

lemma counter_Decode_Encode: "int64 v \<Longrightarrow> counter_Decode (counter_Encode v) = Inr v"
  using wrap64_id [of v] by (simp add: counter_Decode_def counter_Encode_def wrap64_def codec_simps)

lemma length_counter_Encode [simp]: "length (counter_Encode v) = 8"
  by (simp add: counter_Encode_def)

lemma counter_Add_exact:
  assumes "int64 cur" "int64 delta"
  shows "counter_Add cur delta = (if int64 (cur + delta) then Inr (cur + delta) else Inl BadValue)"
proof -
  have "0 < delta \<Longrightarrow> wrap64 ((2 ^ 63 - 1) - delta) = (2 ^ 63 - 1) - delta"
    "delta < 0 \<Longrightarrow> wrap64 (- (2 ^ 63) - delta) = - (2 ^ 63) - delta"
    using assms by (auto intro!: wrap64_id simp: int64_def)
  then show ?thesis
    using assms wrap64_id [of "cur + delta"] by (auto simp: counter_Add_def int64_def)
qed

section \<open>Store operations\<close>

definition insertCounterLocked :: "time \<Rightarrow> bytes \<Rightarrow> entry \<Rightarrow> memory \<Rightarrow> bool \<times> memory" where
  "insertCounterLocked now k ent m =
     (let m' = evictLocked now (pushFront k (mkItem k ent (entryCost k ent)) m) in (has k m', m'))"

text \<open>Results are \<open>(value, applied, overflow)\<close>.\<close>

definition cInsertLocked :: "time \<Rightarrow> bytes \<Rightarrow> int \<Rightarrow> u64 \<Rightarrow> time \<Rightarrow> memory \<Rightarrow> (int \<times> bool \<times> bool) \<times> memory" where
  "cInsertLocked now k val version expireAt m =
     (case insertCounterLocked now k
         \<lparr>Value = counter_Encode val, Version = version, ExpireAt = expireAt, Flags = FlagCounter\<rparr> m of
        (ok, m') \<Rightarrow> (if \<not> ok then (0, False, False) else (val, True, False), m'))"

definition CIncr :: "time \<Rightarrow> bytes \<Rightarrow> int \<Rightarrow> u64 \<Rightarrow> time \<Rightarrow> memory \<Rightarrow> (int \<times> bool \<times> bool) \<times> memory" where
  "CIncr now k delta version expireAt m =
     (case items m k of
        None \<Rightarrow> cInsertLocked now k delta 1 expireAt m
      | Some it \<Rightarrow>
          if \<not> Expired (entry it) now then
            if IsTombstone (entry it) then
              if version \<le> Version (entry it) then ((0, False, False), skipStale m)
              else cInsertLocked now k delta (Version (entry it) + 1) expireAt (removeElement k m)
            else if \<not> IsCounter (entry it) then ((0, False, False), m)
            else
              (case counter_Decode (Value (entry it)) of
                 Inl err \<Rightarrow> ((0, False, False), m)
               | Inr cur \<Rightarrow>
                   (case counter_Add cur delta of
                      Inl err \<Rightarrow> ((cur, False, True), m)
                    | Inr nxt \<Rightarrow>
                        let e = entry it;
                            e' = \<lparr>Value = counter_Encode nxt, Version = Version e + 1,
                                  ExpireAt = (if expireAt \<noteq> 0 then expireAt else ExpireAt e),
                                  Flags = FlagCounter\<rparr>;
                            it' = it\<lparr>entry := e', cost := entryCost k e'\<rparr>
                        in ((nxt, True, False), evictLocked now (moveToFront k (replaceItem k it' m)))))
          else cInsertLocked now k delta 1 expireAt (removeElement k m))"

definition CGet :: "time \<Rightarrow> bytes \<Rightarrow> memory \<Rightarrow> int option \<times> memory" where
  "CGet now k m =
     (case items m k of
        None \<Rightarrow> (None, m)
      | Some it \<Rightarrow>
          if Expired (entry it) now then (None, removeElement k m)
          else if IsTombstone (entry it) \<or> \<not> IsCounter (entry it) then (None, m)
          else (case counter_Decode (Value (entry it)) of Inl err \<Rightarrow> (None, m) | Inr v \<Rightarrow> (Some v, m)))"

definition HasCounter :: "time \<Rightarrow> bytes \<Rightarrow> memory \<Rightarrow> bool \<times> memory" where
  "HasCounter now k m =
     (case items m k of
        None \<Rightarrow> (False, m)
      | Some it \<Rightarrow>
          if Expired (entry it) now then (False, removeElement k m)
          else if IsTombstone (entry it) \<or> \<not> IsCounter (entry it) then (False, m)
          else (case counter_Decode (Value (entry it)) of Inl err \<Rightarrow> (False, m) | Inr v \<Rightarrow> (True, m)))"

definition CInstall :: "time \<Rightarrow> bytes \<Rightarrow> bytes \<Rightarrow> u64 \<Rightarrow> time \<Rightarrow> memory \<Rightarrow> bool \<times> memory" where
  "CInstall now k blob version expireAt m =
     (case counter_Decode blob of
        Inl err \<Rightarrow> (False, m)
      | Inr v \<Rightarrow>
          let ent = \<lparr>Value = blob, Version = version, ExpireAt = expireAt, Flags = FlagCounter\<rparr> in
          case items m k of
            None \<Rightarrow> insertCounterLocked now k ent m
          | Some it \<Rightarrow>
              if \<not> Expired (entry it) now then
                if IsTombstone (entry it) then
                  if version \<le> Version (entry it) then (False, skipStale m)
                  else insertCounterLocked now k ent (removeElement k m)
                else if IsCounter (entry it) then
                  if version \<le> Version (entry it) then (False, skipStale m)
                  else insertCounterLocked now k ent (removeElement k m)
                else if version \<le> Version (entry it) then (False, m)
                else insertCounterLocked now k ent (removeElement k m)
              else insertCounterLocked now k ent (removeElement k m))"

interpretation ct: blob_store FlagCounter "\<lambda>b. length b = 8" insertCounterLocked CInstall
    "same_kind FlagCounter"
proof (unfold_locales, goal_cases)
  case (5 now k e m)
  show ?case by (simp add: insertCounterLocked_def)
next
  case (6 now k blob v ex m)
  show ?case
    by (cases "items m k") (simp_all add: CInstall_def counter_Decode_def Let_def Is_defs)
qed (simp_all add: plain_def lru_pinned_def flag_simps)

section \<open>Functional behaviour\<close>

text \<open>The value a counter key holds, if it holds one.\<close>

definition counter_at :: "time \<Rightarrow> memory \<Rightarrow> bytes \<Rightarrow> int option" where
  "counter_at now m k =
     (case live_entry FlagCounter now m k of
        None \<Rightarrow> None
      | Some e \<Rightarrow> (case counter_Decode (Value e) of Inl err \<Rightarrow> None | Inr v \<Rightarrow> Some v))"

lemma counter_flags: "\<forall>f \<in> cached_flags. f AND FlagCounter = 0"
  by (simp add: cached_flags_def Flag_defs)

lemma counter_Decode_range: "counter_Decode b = Inr v \<Longrightarrow> int64 v"
  using sint_range_size [of "Uint64LE b"]
  by (auto simp: counter_Decode_def int64_def word_size split: if_splits)

lemma CGet_at:
  assumes "mem_wf m"
  shows "fst (CGet now k m) = counter_at now m k"
proof (cases "items m k")
  case None
  then show ?thesis by (simp add: CGet_def counter_at_def live_entry_def view_def)
next
  case (Some it)
  then show ?thesis
    using live_entry_item [OF assms Some counter_flags, of now]
    by (auto simp: CGet_def counter_at_def Is_defs split: sum.splits)
qed

lemma counter_at_stored:
  assumes "stored now k e m m'" "\<not> Expired e now" "Flags e = FlagCounter" "Value e = counter_Encode v" "int64 v"
  shows "counter_at now m' k = Some v"
  using live_entry_stored [OF assms(1) ct.flag_pinned [OF assms(3,2)] assms(3) ct.flag_live] assms(4,5)
  by (simp add: counter_at_def counter_Decode_Encode)

lemma cInsertLocked_wf:
  "mem_wf m \<Longrightarrow> mem_wf (snd (cInsertLocked now k d v ex (removeElement k m)))"
  using stored_wf [OF ct.insert_over(1) [of m "\<lparr>Value = counter_Encode d, Version = v, ExpireAt = ex, Flags = FlagCounter\<rparr>" now k]]
  by (simp add: cInsertLocked_def split_beta)

lemma CIncr_wf:
  assumes "mem_wf m"
  shows "mem_wf (snd (CIncr now k d v ex m))"
proof (cases "items m k")
  case None
  then have "removeElement k m = m" by (simp add: removeElement_def)
  then show ?thesis using None cInsertLocked_wf [OF assms, of now k d 1 ex] by (simp add: CIncr_def)
next
  case (Some it)
  have "mem_wf (evictLocked now (moveToFront k (replaceItem k (it\<lparr>entry := e, cost := entryCost k e\<rparr>) m)))"
    if "Flags e = FlagCounter" for e
    using stored_wf [OF stored_replace [OF assms Some, of "it\<lparr>entry := e, cost := entryCost k e\<rparr>" now]]
      mem_wfD(1) [OF assms Some] item_wf_in_place [of e it k] ct.flag_plain [OF that] by simp
  then show ?thesis
    using Some assms
    by (auto simp: CIncr_def Let_def mem_wf_counters cInsertLocked_wf split: sum.splits)
qed

text \<open>C20. Incrementing a live counter is exact: the new value is returned, stored and read
  back if it fits 64 bits; otherwise the call reports an overflow with the old value and
  leaves the store as it was.\<close>

theorem CIncr_exact:
  assumes wf: "mem_wf m" and cur: "counter_at now m k = Some c" and d: "int64 d" and ex: "ex = 0 \<or> now < ex"
  shows "if int64 (c + d)
         then fst (CIncr now k d v ex m) = (c + d, True, False) \<and>
              fst (CGet now k (snd (CIncr now k d v ex m))) = Some (c + d)
         else CIncr now k d v ex m = ((c, False, True), m)"
proof -
  obtain it where it: "items m k = Some it"
    using cur by (auto simp: counter_at_def live_entry_def view_def split: option.splits)
  note le = live_entry_item [OF wf it counter_flags, of now]
  have live: "\<not> Expired (entry it) now" "\<not> IsTombstone (entry it)" "IsCounter (entry it)"
    "counter_Decode (Value (entry it)) = Inr c"
    using cur le by (auto simp: counter_at_def Is_defs split: option.splits if_splits sum.splits)
  note add = counter_Add_exact [OF counter_Decode_range [OF live(4)] d]
  show ?thesis
  proof (cases "int64 (c + d)")
    case False
    then show ?thesis using it live add by (simp add: CIncr_def)
  next
    case True
    let ?e = "\<lparr>Value = counter_Encode (c + d), Version = Version (entry it) + 1,
        ExpireAt = (if ex \<noteq> 0 then ex else ExpireAt (entry it)), Flags = FlagCounter\<rparr>"
    have fresh: "\<not> Expired ?e now" using live(1) ex by (auto simp: Expired_def split: if_splits)
    have eq: "CIncr now k d v ex m = ((c + d, True, False), evictLocked now (moveToFront k
        (replaceItem k (it\<lparr>entry := ?e, cost := entryCost k ?e\<rparr>) m)))"
      using it live add True by (simp add: CIncr_def Let_def)
    have "stored now k ?e m (snd (CIncr now k d v ex m))"
      using stored_replace [OF wf it, of "it\<lparr>entry := ?e, cost := entryCost k ?e\<rparr>" now]
        mem_wfD(1) [OF wf it] item_wf_in_place [of ?e it k] ct.flag_plain [of ?e] by (simp add: eq)
    then show ?thesis
      using True eq counter_at_stored [OF _ fresh _ _ True] stored_wf CGet_at by auto
  qed
qed

text \<open>A counter that does not exist starts at zero.\<close>

lemma CIncr_creates:
  assumes wf: "mem_wf m" and none: "view m k = None" and d: "int64 d" and ex: "ex = 0 \<or> now < ex"
  shows "fst (CIncr now k d v ex m) = (d, True, False) \<and>
         fst (CGet now k (snd (CIncr now k d v ex m))) = Some d"
proof -
  let ?e = "\<lparr>Value = counter_Encode d, Version = 1, ExpireAt = ex, Flags = FlagCounter\<rparr>"
  have none': "items m k = None" using none by (simp add: view_def)
  have fresh: "\<not> Expired ?e now" using ex by (auto simp: Expired_def)
  note ins = ct.insert_stored [OF wf none', of ?e now]
  have "fst (insertCounterLocked now k ?e m)"
    using ct.insert_fresh [OF wf none' _ fresh] by simp
  then show ?thesis
    using none' ins counter_at_stored [OF ins(1) fresh _ _ d] stored_wf [OF ins(1)]
    by (simp add: CIncr_def cInsertLocked_def CGet_at split_beta)
qed

theorem CIncr_exact_witness:
  "let m = snd (CIncr 5 [107] 40 1 0 (NewMemory 0 0)) in
   if int64 (40 + 2)
   then fst (CIncr 5 [107] 2 2 0 m) = (40 + 2, True, False) \<and>
        fst (CGet 5 [107] (snd (CIncr 5 [107] 2 2 0 m))) = Some (40 + 2)
   else CIncr 5 [107] 2 2 0 m = ((40, False, True), m)"
proof -
  let ?m = "snd (CIncr 5 [107] 40 1 0 (NewMemory 0 0))"
  have m: "mem_wf ?m" by (rule CIncr_wf) simp
  have "fst (CGet 5 [107] ?m) = Some 40"
    using CIncr_creates [of "NewMemory 0 0" "[107]" 40 0 5 1] by (simp add: int64_def)
  then show ?thesis
    using CIncr_exact [OF m, of 5 "[107]" 40 2 0 2] by (simp add: CGet_at [OF m] int64_def)
qed

end
