(* ===== verification/BitmapCodec.thy ===== *)
theory BitmapCodec
  imports Prelude
begin

text \<open>
  Packed bit strings: \<open>pkg/bitmapx/bitmapx.go\<close>. Offsets are 64-bit words, byte
  indexes natural numbers, window bounds Go \<open>int\<close>s. Bit 0 of the string is the most
  significant bit of byte 0.
\<close>

section \<open>Operations\<close>

definition MaxInt :: nat where "MaxInt = 2 ^ 63 - 1"

definition EncodedLen :: "u64 \<Rightarrow> nat option" where
  "EncodedLen offset =
     (let need = offset div 8 + 1 in if MaxInt < unat need then None else Some (unat need))"

definition bitMask :: "u64 \<Rightarrow> nat \<times> byte" where
  "bitMask offset = (unat (offset div 8), push_bit (7 - unat (offset mod 8)) 1)"

definition bitmap_Get :: "bytes \<Rightarrow> u64 \<Rightarrow> bool" where
  "bitmap_Get buf offset =
     (case EncodedLen offset of
        None \<Rightarrow> False
      | Some need \<Rightarrow>
          let i = need - 1 in
          if length buf \<le> i then False else buf ! i AND snd (bitMask offset) \<noteq> 0)"

definition bitmap_Set :: "bytes \<Rightarrow> u64 \<Rightarrow> bool \<Rightarrow> bytes" where
  "bitmap_Set buf offset b =
     (case EncodedLen offset of
        None \<Rightarrow> buf
      | Some need \<Rightarrow>
          let buf1 = (if length buf < need then buf @ replicate (need - length buf) 0 else buf);
              i = fst (bitMask offset); mask = snd (bitMask offset)
          in if b then buf1[i := buf1 ! i OR mask] else buf1[i := buf1 ! i AND NOT mask])"

text \<open>\<open>None\<close> is an empty window.\<close>

definition NormalizeByteRange :: "int \<Rightarrow> int \<Rightarrow> int \<Rightarrow> (int \<times> int) option" where
  "NormalizeByteRange n start stop =
     (if n = 0 then None
      else
        let start1 = (if start < 0 then n + start else start);
            stop1 = (if stop < 0 then n + stop else stop);
            start2 = (if start1 < 0 then 0 else start1);
            stop2 = (if n \<le> stop1 then n - 1 else stop1)
        in if stop2 < start2 \<or> n \<le> start2 then None else Some (start2, stop2))"

definition OnesCount8 :: "byte \<Rightarrow> nat" where
  "OnesCount8 b = length (filter (bit b) [0..<8])"

definition bitmap_Count :: "bytes \<Rightarrow> int \<Rightarrow> int \<Rightarrow> nat" where
  "bitmap_Count buf start stop =
     (case NormalizeByteRange (int (length buf)) start stop of
        None \<Rightarrow> 0
      | Some (lo, hi) \<Rightarrow> sum_list (map (\<lambda>i. OnesCount8 (buf ! nat i)) [lo..hi]))"

text \<open>The nested loops of \<open>Pos\<close>: the byte positions from \<open>i\<close> to \<open>hi\<close>, the bits of each byte
  from the most significant.\<close>

definition bitmap_pos_byte :: "byte \<Rightarrow> bool \<Rightarrow> nat option" where
  "bitmap_pos_byte b want = find (\<lambda>s. (b AND push_bit (7 - s) 1 \<noteq> 0) = want) [0..<8]"

fun bitmap_pos_loop :: "bytes \<Rightarrow> bool \<Rightarrow> nat list \<Rightarrow> nat option" where
  "bitmap_pos_loop buf want [] = None"
| "bitmap_pos_loop buf want (i # is) =
     (case bitmap_pos_byte (buf ! i) want of
        Some s \<Rightarrow> Some (i * 8 + s)
      | None \<Rightarrow> bitmap_pos_loop buf want is)"

definition bitmap_Pos :: "bytes \<Rightarrow> bool \<Rightarrow> int \<Rightarrow> int \<Rightarrow> nat option" where
  "bitmap_Pos buf want start stop =
     (case NormalizeByteRange (int (length buf)) start stop of
        None \<Rightarrow> None
      | Some (lo, hi) \<Rightarrow> bitmap_pos_loop buf want (map nat [lo..hi]))"

definition bitmap_EncodeSet :: "u64 \<Rightarrow> bool \<Rightarrow> bytes" where
  "bitmap_EncodeSet offset b = PutUvarint offset @ [if b then 1 else 0]"

definition bitmap_DecodeSet :: "bytes \<Rightarrow> codec_err + u64 \<times> bool" where
  "bitmap_DecodeSet b =
     (case Uvarint b of (v, w) \<Rightarrow>
        if w \<le> 0 then Inl BadUvarint
        else let rest = drop (nat w) b in
          if length rest \<noteq> 1 then Inl BadValue
          else if rest ! 0 = 0 then Inr (v, False)
          else if rest ! 0 = 1 then Inr (v, True)
          else Inl BadValue)"

section \<open>Bits as a function of the offset\<close>

text \<open>The bit a packed string holds at an offset; past the end it is zero.\<close>

definition nth_bit :: "bytes \<Rightarrow> nat \<Rightarrow> bool" where
  "nth_bit buf n \<longleftrightarrow> n div 8 < length buf \<and> bit (buf ! (n div 8)) (7 - n mod 8)"

lemma and_mask: "(w AND push_bit n 1 \<noteq> 0) = bit (w :: byte) n"
  by (simp add: bit_iff_and_push_bit_not_eq_0)

lemma bitMask_unat: "bitMask off = (unat off div 8, push_bit (7 - unat off mod 8) 1)"
  by (simp add: bitMask_def unat_div unat_mod)

lemma EncodedLen_some: "EncodedLen off = Some (unat off div 8 + 1)"
proof -
  have "unat off < 2 ^ 64" using unsigned_less [of off] by simp
  then have le: "unat off div 8 + 1 < 2 ^ 62" by simp
  then have "unat (off div 8 + 1) = unat off div 8 + 1"
    by (simp add: unat_word_ariths unat_div)
  then show ?thesis using le by (simp add: EncodedLen_def MaxInt_def)
qed

lemma bitmap_Get_nth: "bitmap_Get buf off = nth_bit buf (unat off)"
  using and_mask [of "buf ! (unat off div 8)" "7 - unat off mod 8"]
  by (auto simp: bitmap_Get_def EncodedLen_some bitMask_unat nth_bit_def not_le Let_def)

lemma length_bitmap_Set: "length (bitmap_Set buf off b) = max (length buf) (unat off div 8 + 1)"
  by (simp add: bitmap_Set_def EncodedLen_some Let_def)

lemma same_position:
  "n div 8 = k div 8 \<Longrightarrow> 7 - n mod 8 = 7 - k mod 8 \<Longrightarrow> n = (k :: nat)"
proof -
  assume d: "n div 8 = k div 8" and m: "7 - n mod 8 = 7 - k mod 8"
  have "n mod 8 < 8" "k mod 8 < 8" by simp_all
  with m have "n mod 8 = k mod 8" by linarith
  with d show "n = k" by (metis div_mod_decomp)
qed

lemma nth_bit_Set: "nth_bit (bitmap_Set buf off b) n = (if n = unat off then b else nth_bit buf n)"
proof -
  let ?i = "unat off div 8" and ?s = "7 - unat off mod 8"
  let ?buf = "buf @ replicate (Suc ?i - length buf) 0"
  have ext: "bitmap_Set buf off b = ?buf[?i := if b then ?buf ! ?i OR push_bit ?s 1 else ?buf ! ?i AND NOT (push_bit ?s 1)]"
    by (auto simp: bitmap_Set_def EncodedLen_some bitMask_unat Let_def)
  have zero: "nth_bit ?buf k = nth_bit buf k" for k
    by (auto simp: nth_bit_def nth_append)
  have upd: "nth_bit (?buf[?i := w]) n = (if n div 8 = ?i then bit w (7 - n mod 8) else nth_bit ?buf n)" for w
    by (auto simp: nth_bit_def nth_list_update)
  have old: "n div 8 = ?i \<Longrightarrow> bit (?buf ! ?i) (7 - n mod 8) = nth_bit buf n"
    using zero [of n] by (auto simp: nth_bit_def)
  have mask: "bit (push_bit ?s 1 :: byte) (7 - n mod 8) \<longleftrightarrow> 7 - n mod 8 = ?s"
    by (auto simp: bit_simps)
  have "bit (if b then ?buf ! ?i OR push_bit ?s 1 else ?buf ! ?i AND NOT (push_bit ?s 1)) (7 - n mod 8) =
      (if n = unat off then b else nth_bit buf n)" if "n div 8 = ?i"
  proof (cases "7 - n mod 8 = ?s")
    case True
    then have "n = unat off" using same_position that by blast
    then show ?thesis using True mask by (simp add: bit_simps)
  next
    case False
    then show ?thesis using mask old [OF that] by (auto simp: bit_simps)
  qed
  then show ?thesis by (auto simp: ext upd zero)
qed

text \<open>C21. Writing a bit and reading any offset gives the written bit at that offset and the
  old bit everywhere else, also where the string had to grow.\<close>

theorem bitmap_Get_Set:
  "bitmap_Get (bitmap_Set buf off b) off' = (if off' = off then b else bitmap_Get buf off')"
  by (simp add: bitmap_Get_nth nth_bit_Set word_unat_eq_iff)

lemma bitmap_DecodeSet_EncodeSet: "bitmap_DecodeSet (bitmap_EncodeSet off b) = Inr (off, b)"
  by (simp add: bitmap_DecodeSet_def bitmap_EncodeSet_def codec_simps)

section \<open>Counting and searching\<close>

lemma OnesCount8_card: "OnesCount8 w = card {s. s < 8 \<and> bit w (7 - s)}"
proof -
  have "OnesCount8 w = card {s. s < 8 \<and> bit w s}"
    by (simp add: OnesCount8_def distinct_length_filter Int_def conj_commute)
  also have "\<dots> = card ((\<lambda>s. 7 - s) ` {s. s < 8 \<and> bit w (7 - s)})"
  proof (rule arg_cong [where f = card])
    have "s \<in> (-) 7 ` {s. s < 8 \<and> bit w (7 - s)}" if "s < 8" "bit w s" for s
      using that by (intro image_eqI [of _ _ "7 - s"]) auto
    then show "{s. s < 8 \<and> bit w s} = (-) 7 ` {s. s < 8 \<and> bit w (7 - s)}" by auto
  qed
  also have "\<dots> = card {s. s < 8 \<and> bit w (7 - s)}"
    by (rule card_image) (auto simp: inj_on_def)
  finally show ?thesis .
qed

lemma count_bytes:
  assumes "\<forall>i \<in> set is. i < length buf" "distinct is"
  shows "sum_list (map (\<lambda>i. OnesCount8 (buf ! i)) is) = card {n. n div 8 \<in> set is \<and> nth_bit buf n}"
  using assms
proof (induction "is")
  case Nil
  then show ?case by simp
next
  case (Cons i "is")
  have split: "{n. n div 8 \<in> set (i # is) \<and> nth_bit buf n} =
      {n. n div 8 = i \<and> nth_bit buf n} \<union> {n. n div 8 \<in> set is \<and> nth_bit buf n}" by auto
  have one: "{n. n div 8 = i \<and> nth_bit buf n} = (\<lambda>s. i * 8 + s) ` {s. s < 8 \<and> bit (buf ! i) (7 - s)}"
    using Cons.prems by (auto simp: nth_bit_def image_iff) (metis div_mod_decomp mod_less_divisor zero_less_numeral)
  have fin: "finite {n. n div 8 \<in> set is \<and> nth_bit buf n}"
    by (rule finite_subset [of _ "{..< 8 * length buf}"]) (auto simp: nth_bit_def)
  have "card {n. n div 8 = i \<and> nth_bit buf n} = OnesCount8 (buf ! i)"
    unfolding one by (subst card_image) (auto simp: inj_on_def OnesCount8_card)
  moreover have "finite {n. n div 8 = i \<and> nth_bit buf n}" unfolding one by simp
  ultimately show ?case
    using Cons fin unfolding split by (subst card_Un_disjoint) auto
qed

lemma NormalizeByteRange_bounds:
  "NormalizeByteRange (int n) a b = Some (lo, hi) \<Longrightarrow> 0 \<le> lo \<and> lo \<le> hi \<and> hi < int n"
  by (auto simp: NormalizeByteRange_def Let_def split: if_splits)

lemma window_bytes:
  assumes "0 \<le> lo" "hi < int (length buf)"
  shows "\<forall>i \<in> set (map nat [lo..hi]). i < length buf" "distinct (map nat [lo..hi])"
    "i \<in> set (map nat [lo..hi]) \<longleftrightarrow> nat lo \<le> i \<and> int i \<le> hi"
proof -
  show "\<forall>i \<in> set (map nat [lo..hi]). i < length buf" using assms by auto
  show "distinct (map nat [lo..hi])" using assms by (auto simp: distinct_map inj_on_def)
  show "i \<in> set (map nat [lo..hi]) \<longleftrightarrow> nat lo \<le> i \<and> int i \<le> hi"
    using assms by (auto simp: image_iff intro!: bexI [of _ "int i"])
qed

text \<open>C22. The bit count over a byte window is the number of positions in the window whose bit
  is set.\<close>

theorem bitmap_Count_card:
  "bitmap_Count buf start stop =
     (case NormalizeByteRange (int (length buf)) start stop of
        None \<Rightarrow> 0
      | Some (lo, hi) \<Rightarrow> card {n. nat lo \<le> n div 8 \<and> int (n div 8) \<le> hi \<and> nth_bit buf n})"
proof (cases "NormalizeByteRange (int (length buf)) start stop")
  case None
  then show ?thesis by (simp add: bitmap_Count_def)
next
  case (Some w)
  obtain lo hi where w: "w = (lo, hi)" by (cases w)
  then have b: "0 \<le> lo" "hi < int (length buf)" using NormalizeByteRange_bounds Some by auto
  have "sum_list (map (\<lambda>i. OnesCount8 (buf ! nat i)) [lo..hi]) =
        card {n. n div 8 \<in> set (map nat [lo..hi]) \<and> nth_bit buf n}"
    using count_bytes [OF window_bytes(1,2) [OF b]] by (simp add: comp_def)
  then show ?thesis
    using Some w window_bytes(3) [OF b] by (simp add: bitmap_Count_def)
qed

lemma bitmap_pos_byte_spec:
  assumes "i < length buf"
  shows "case bitmap_pos_byte (buf ! i) want of
           None \<Rightarrow> (\<forall>n. n div 8 = i \<longrightarrow> nth_bit buf n \<noteq> want)
         | Some s \<Rightarrow> s < 8 \<and> nth_bit buf (i * 8 + s) = want \<and>
             (\<forall>n. n div 8 = i \<longrightarrow> n < i * 8 + s \<longrightarrow> nth_bit buf n \<noteq> want)"
proof -
  have at: "nth_bit buf n = (buf ! i AND push_bit (7 - n mod 8) 1 \<noteq> 0)" if "n div 8 = i" for n
    using that assms and_mask [of "buf ! i" "7 - n mod 8"] by (simp add: nth_bit_def)
  show ?thesis
  proof (cases "bitmap_pos_byte (buf ! i) want")
    case None
    then have "(buf ! i AND push_bit (7 - s) 1 \<noteq> 0) \<noteq> want" if "s < 8" for s
      using that by (auto simp: bitmap_pos_byte_def find_None_iff)
    then have "nth_bit buf n \<noteq> want" if "n div 8 = i" for n
      using at [OF that] by (metis mod_less_divisor zero_less_numeral)
    then show ?thesis using None by simp
  next
    case (Some s)
    then have s: "s < 8" "(buf ! i AND push_bit (7 - s) 1 \<noteq> 0) = want"
      and before: "\<And>t. t < s \<Longrightarrow> (buf ! i AND push_bit (7 - t) 1 \<noteq> 0) \<noteq> want"
      unfolding bitmap_pos_byte_def find_Some_iff by auto
    have "nth_bit buf (i * 8 + s) = want" using at [of "i * 8 + s"] s by simp
    moreover have "nth_bit buf n \<noteq> want" if n: "n div 8 = i" "n < i * 8 + s" for n
    proof -
      have "n mod 8 < s" using n by (metis add_less_cancel_left div_mod_decomp)
      then show ?thesis using before at [OF n(1)] by metis
    qed
    ultimately show ?thesis using Some s(1) by simp
  qed
qed

text \<open>The search returns the first position of the scanned bytes with the wanted bit.\<close>

lemma bitmap_pos_loop_spec:
  assumes "\<forall>i \<in> set is. i < length buf" "sorted_wrt (<) is"
  shows "case bitmap_pos_loop buf want is of
           None \<Rightarrow> (\<forall>n. n div 8 \<in> set is \<longrightarrow> nth_bit buf n \<noteq> want)
         | Some p \<Rightarrow> p div 8 \<in> set is \<and> nth_bit buf p = want \<and>
             (\<forall>n < p. n div 8 \<in> set is \<longrightarrow> nth_bit buf n \<noteq> want)"
  using assms
proof (induction "is")
  case Nil
  then show ?case by simp
next
  case (Cons i "is")
  note byte = bitmap_pos_byte_spec [of i buf want]
  show ?case
  proof (cases "bitmap_pos_byte (buf ! i) want")
    case None
    then show ?thesis
      using byte Cons by (auto split: option.splits)
  next
    case (Some s)
    then have s: "s < 8" "nth_bit buf (i * 8 + s) = want"
      "\<forall>n. n div 8 = i \<longrightarrow> n < i * 8 + s \<longrightarrow> nth_bit buf n \<noteq> want"
      using byte Cons.prems by auto
    have "\<not> n div 8 \<in> set is" if "n < i * 8 + s" for n
    proof
      assume "n div 8 \<in> set is"
      then have "i < n div 8" using Cons.prems(2) by simp
      then have "(i + 1) * 8 \<le> n" by (metis Suc_eq_plus1 Suc_leI less_eq_div_iff_mult_less_eq zero_less_numeral)
      with that s(1) show False by simp
    qed
    with s Some show ?thesis by auto
  qed
qed

text \<open>C23. The position search over a byte window finds the first position with the wanted
  bit, and reports nothing exactly when the window has no such bit.\<close>

theorem bitmap_Pos_first:
  assumes "NormalizeByteRange (int (length buf)) start stop = Some (lo, hi)"
  shows "case bitmap_Pos buf want start stop of
           None \<Rightarrow> (\<forall>n. nat lo \<le> n div 8 \<and> int (n div 8) \<le> hi \<longrightarrow> nth_bit buf n \<noteq> want)
         | Some p \<Rightarrow> nat lo \<le> p div 8 \<and> int (p div 8) \<le> hi \<and> nth_bit buf p = want \<and>
             (\<forall>n < p. nat lo \<le> n div 8 \<longrightarrow> nth_bit buf n \<noteq> want)"
proof -
  have b: "0 \<le> lo" "hi < int (length buf)" using NormalizeByteRange_bounds assms by auto
  have "sorted_wrt (<) (map nat [lo..hi])"
    unfolding sorted_wrt_map by (rule sorted_wrt_mono_rel [OF _ sorted_wrt_upto]) (use b in auto)
  note spec = bitmap_pos_loop_spec [OF window_bytes(1) [OF b] this, of want, unfolded window_bytes(3) [OF b]]
  show ?thesis
    using spec assms by (auto simp: bitmap_Pos_def split: option.splits)
qed

theorem bitmap_Pos_first_witness:
  "case bitmap_Pos [0, 16] True 0 (-1) of
     None \<Rightarrow> (\<forall>n. nat 0 \<le> n div 8 \<and> int (n div 8) \<le> 1 \<longrightarrow> nth_bit [0, 16] n \<noteq> True)
   | Some p \<Rightarrow> nat 0 \<le> p div 8 \<and> int (p div 8) \<le> 1 \<and> nth_bit [0, 16] p = True \<and>
       (\<forall>n < p. nat 0 \<le> n div 8 \<longrightarrow> nth_bit [0, 16] n \<noteq> True)"
  by (rule bitmap_Pos_first) (simp add: NormalizeByteRange_def)

end
