(* ===== verification/StoreBitmap.thy ===== *)
theory StoreBitmap
  imports BlobStores BitmapCodec
begin

text \<open>Named bitmaps: \<open>pkg/store/bitmap.go\<close>. A stored version counts local writes; the
  incoming version only has to pass the tombstone. \<open>maxValue\<close> is a Go \<open>int\<close>; zero or
  less means no limit. Results are \<open>(applied, tooLarge)\<close>.\<close>

section \<open>Operations\<close>

definition insertBitmapLocked :: "time \<Rightarrow> bytes \<Rightarrow> entry \<Rightarrow> memory \<Rightarrow> bool \<times> memory" where
  "insertBitmapLocked now k ent m =
     (let m' = evictLocked now (pushFront k (mkItem k ent (entryCost k ent)) m) in (has k m', m'))"

definition bCommitLocked ::
    "time \<Rightarrow> bytes \<Rightarrow> lru_item \<Rightarrow> bytes \<Rightarrow> u64 \<Rightarrow> bool \<Rightarrow> u64 \<Rightarrow> time \<Rightarrow> int \<Rightarrow> memory \<Rightarrow> (bool \<times> bool) \<times> memory" where
  "bCommitLocked now k it cur offset b stored_v expireAt maxValue m =
     (let nxt = bitmap_Set cur offset b in
      if 0 < maxValue \<and> maxValue < int (length nxt) then ((False, True), m)
      else
        let e = entry it;
            e' = \<lparr>Value = nxt, Version = stored_v,
                  ExpireAt = (if expireAt \<noteq> 0 then expireAt else ExpireAt e), Flags = FlagBitmap\<rparr>;
            m' = commitEntry now k it e' m
        in ((has k m', False), m'))"

definition bInsertLocked ::
    "time \<Rightarrow> bytes \<Rightarrow> u64 \<Rightarrow> bool \<Rightarrow> u64 \<Rightarrow> time \<Rightarrow> int \<Rightarrow> memory \<Rightarrow> (bool \<times> bool) \<times> memory" where
  "bInsertLocked now k offset b stored_v expireAt maxValue m =
     (let nxt = bitmap_Set [] offset b in
      if 0 < maxValue \<and> maxValue < int (length nxt) then ((False, True), m)
      else case insertBitmapLocked now k
             \<lparr>Value = nxt, Version = stored_v, ExpireAt = expireAt, Flags = FlagBitmap\<rparr> m of
           (ok, m') \<Rightarrow> ((ok, False), m'))"

definition BSet ::
    "time \<Rightarrow> bytes \<Rightarrow> u64 \<Rightarrow> bool \<Rightarrow> u64 \<Rightarrow> time \<Rightarrow> int \<Rightarrow> memory \<Rightarrow> (bool \<times> bool) \<times> memory" where
  "BSet now k offset b version expireAt maxValue m =
     (case EncodedLen offset of
        None \<Rightarrow> ((False, True), m)
      | Some need \<Rightarrow>
          if 0 < maxValue \<and> maxValue < int need then ((False, True), m)
          else
            (case items m k of
               None \<Rightarrow> bInsertLocked now k offset b 1 expireAt maxValue m
             | Some it \<Rightarrow>
                 if \<not> Expired (entry it) now then
                   if IsTombstone (entry it) then
                     if version \<le> Version (entry it) then ((False, False), skipStale m)
                     else bCommitLocked now k it [] offset b (Version (entry it) + 1) expireAt maxValue m
                   else if \<not> IsBitmap (entry it) then ((False, False), m)
                   else bCommitLocked now k it (Value (entry it)) offset b (Version (entry it) + 1)
                          expireAt maxValue m
                 else bInsertLocked now k offset b 1 expireAt maxValue (removeElement k m)))"

definition hasBitmapLocked :: "time \<Rightarrow> bytes \<Rightarrow> memory \<Rightarrow> bool \<times> memory" where
  "hasBitmapLocked now k m =
     (case items m k of
        None \<Rightarrow> (False, m)
      | Some it \<Rightarrow>
          if Expired (entry it) now then (False, removeElement k m)
          else (\<not> IsTombstone (entry it) \<and> IsBitmap (entry it), m))"

definition HasBitmap :: "time \<Rightarrow> bytes \<Rightarrow> memory \<Rightarrow> bool \<times> memory" where
  "HasBitmap now k m = hasBitmapLocked now k m"

definition BGet :: "time \<Rightarrow> bytes \<Rightarrow> u64 \<Rightarrow> memory \<Rightarrow> bool option \<times> memory" where
  "BGet now k offset m =
     (case hasBitmapLocked now k m of
        (False, m') \<Rightarrow> (None, m')
      | (True, m') \<Rightarrow> (map_option (\<lambda>it. bitmap_Get (Value (entry it)) offset) (items m' k), m'))"

definition BCount :: "time \<Rightarrow> bytes \<Rightarrow> int \<Rightarrow> int \<Rightarrow> memory \<Rightarrow> nat option \<times> memory" where
  "BCount now k start stop m =
     (case hasBitmapLocked now k m of
        (False, m') \<Rightarrow> (None, m')
      | (True, m') \<Rightarrow> (map_option (\<lambda>it. bitmap_Count (Value (entry it)) start stop) (items m' k), m'))"

definition BPos :: "time \<Rightarrow> bytes \<Rightarrow> bool \<Rightarrow> int \<Rightarrow> int \<Rightarrow> memory \<Rightarrow> (nat option) option \<times> memory" where
  "BPos now k b start stop m =
     (case hasBitmapLocked now k m of
        (False, m') \<Rightarrow> (None, m')
      | (True, m') \<Rightarrow> (map_option (\<lambda>it. bitmap_Pos (Value (entry it)) b start stop) (items m' k), m'))"

definition BInstall :: "time \<Rightarrow> bytes \<Rightarrow> bytes \<Rightarrow> u64 \<Rightarrow> time \<Rightarrow> memory \<Rightarrow> bool \<times> memory" where
  "BInstall now k blob version expireAt m =
     (let ent = \<lparr>Value = blob, Version = version, ExpireAt = expireAt, Flags = FlagBitmap\<rparr> in
      case items m k of
        None \<Rightarrow> insertBitmapLocked now k ent m
      | Some it \<Rightarrow>
          if \<not> Expired (entry it) now then
            if IsTombstone (entry it) then
              if version \<le> Version (entry it) then (False, skipStale m)
              else insertBitmapLocked now k ent (removeElement k m)
            else if IsBitmap (entry it) then
              if version \<le> Version (entry it) then (False, skipStale m)
              else insertBitmapLocked now k ent (removeElement k m)
            else if version \<le> Version (entry it) then (False, m)
            else insertBitmapLocked now k ent (removeElement k m)
          else insertBitmapLocked now k ent (removeElement k m))"

interpretation bt: blob_store FlagBitmap "\<lambda>b. True" insertBitmapLocked BInstall
    "same_kind FlagBitmap"
proof (unfold_locales, goal_cases)
  case (5 now k e m)
  show ?case by (simp add: insertBitmapLocked_def)
next
  case (6 now k blob v ex m)
  show ?case
    by (cases "items m k") (simp_all add: BInstall_def Let_def Is_defs)
qed (simp_all add: plain_def lru_pinned_def flag_simps)

lemma bitmap_flags: "\<forall>f \<in> cached_flags. f AND FlagBitmap = 0"
  by (simp add: cached_flags_def Flag_defs)

section \<open>Functional behaviour\<close>

lemma BGet_at:
  assumes "mem_wf m"
  shows "fst (BGet now k off m) = map_option (\<lambda>e. bitmap_Get (Value e) off) (live_entry FlagBitmap now m k)"
proof (cases "items m k")
  case None
  then show ?thesis by (simp add: BGet_def hasBitmapLocked_def live_entry_def view_def)
next
  case (Some it)
  then show ?thesis
    using live_entry_item [OF assms Some bitmap_flags, of now]
    by (auto simp: BGet_def hasBitmapLocked_def Is_defs)
qed

lemma bCommitLocked_stored:
  assumes "mem_wf m" "items m k = Some it" "maxValue \<le> 0 \<or> int (length (bitmap_Set cur off b)) \<le> maxValue"
  shows "stored now k \<lparr>Value = bitmap_Set cur off b, Version = sv,
           ExpireAt = (if ex \<noteq> 0 then ex else ExpireAt (entry it)), Flags = FlagBitmap\<rparr> m
           (snd (bCommitLocked now k it cur off b sv ex maxValue m))"
    and "fst (bCommitLocked now k it cur off b sv ex maxValue m) =
           (has k (snd (bCommitLocked now k it cur off b sv ex maxValue m)), False)"
  using assms commitEntry_stored [OF assms(1,2) bt.flag_plain]
  by (auto simp: bCommitLocked_def Let_def)

lemma BSet_wf:
  assumes "mem_wf m"
  shows "mem_wf (snd (BSet now k off b v ex maxValue m))"
proof -
  have ins: "mem_wf (snd (bInsertLocked now k off b sv ex maxValue (removeElement k m)))" for sv
    using stored_wf [OF bt.insert_over(1) [OF assms, of
        "\<lparr>Value = bitmap_Set [] off b, Version = sv, ExpireAt = ex, Flags = FlagBitmap\<rparr>" now k]]
    by (simp add: bInsertLocked_def Let_def split_beta mem_wf_removeElement assms)
  have com: "mem_wf (snd (bCommitLocked now k it cur off b sv ex maxValue m))" if "items m k = Some it" for it cur sv
    using stored_wf [OF bCommitLocked_stored(1) [OF assms that]] assms
    by (cases "maxValue \<le> 0 \<or> int (length (bitmap_Set cur off b)) \<le> maxValue")
      (auto simp: bCommitLocked_def Let_def)
  have "items m k = None \<Longrightarrow> removeElement k m = m" by (simp add: removeElement_def)
  then show ?thesis
    using assms ins [of 1] com
    by (cases "items m k") (simp_all add: BSet_def EncodedLen_some mem_wf_counters)
qed

text \<open>Writing a bit of a live bitmap that fits the value limit succeeds, and afterwards
  reads return the written bit at that offset and the old bits at all others.\<close>

theorem BSet_then_BGet:
  assumes wf: "mem_wf m" and e: "live_entry FlagBitmap now m k = Some e" and ex: "ex = 0 \<or> now < ex"
    and fits: "maxValue \<le> 0 \<or> int (max (length (Value e)) (unat off div 8 + 1)) \<le> maxValue"
  shows "fst (BSet now k off b v ex maxValue m) = (True, False) \<and>
         fst (BGet now k off' (snd (BSet now k off b v ex maxValue m))) =
           (if off' = off then Some b else fst (BGet now k off' m))"
proof -
  obtain it where it: "items m k = Some it"
    using e by (auto simp: live_entry_def view_def split: option.splits)
  have live: "\<not> Expired (entry it) now" "\<not> IsTombstone (entry it)" "IsBitmap (entry it)" "entry it = e"
    using e live_entry_item [OF wf it bitmap_flags, of now] by (auto simp: Is_defs split: if_splits)
  let ?e = "\<lparr>Value = bitmap_Set (Value e) off b, Version = Version e + 1,
      ExpireAt = (if ex \<noteq> 0 then ex else ExpireAt e), Flags = FlagBitmap\<rparr>"
  have eq: "BSet now k off b v ex maxValue m =
      bCommitLocked now k it (Value e) off b (Version e + 1) ex maxValue m"
    using it live fits by (auto simp: BSet_def EncodedLen_some)
  have st: "stored now k ?e m (snd (BSet now k off b v ex maxValue m))"
    using bCommitLocked_stored(1) [OF wf it, of maxValue "Value e" off b now "Version e + 1" ex] fits live(4)
    unfolding eq by (cases "ex = 0") (simp_all add: length_bitmap_Set)
  have fresh: "\<not> Expired ?e now" using live ex by (auto simp: Expired_def split: if_splits)
  have le: "live_entry FlagBitmap now (snd (BSet now k off b v ex maxValue m)) k = Some ?e"
    using live_entry_stored [OF st bt.flag_pinned [OF _ fresh] _ bt.flag_live] by simp
  then have "has k (snd (BSet now k off b v ex maxValue m))"
    by (rule live_entry_has)
  then show ?thesis
    using bCommitLocked_stored(2) [OF wf it, of maxValue "Value e" off b now "Version e + 1" ex] fits le e
    by (simp add: eq length_bitmap_Set BGet_at stored_wf [OF st, unfolded eq] wf bitmap_Get_Set)
qed

text \<open>A write the value limit refuses reports \<open>tooLarge\<close> and changes nothing.\<close>

theorem BSet_too_large:
  assumes "0 < maxValue" "maxValue < int (unat off div 8 + 1)"
  shows "BSet now k off b v ex maxValue m = ((False, True), m)"
  using assms by (simp add: BSet_def EncodedLen_some)

theorem BSet_too_large_witness: "BSet 5 [107] 80 True 1 0 4 (NewMemory 0 0) = ((False, True), NewMemory 0 0)"
  by (rule BSet_too_large) simp_all

lemma BSet_creates:
  assumes wf: "mem_wf m" and none: "view m k = None" and ex: "ex = 0 \<or> now < ex" and mv: "maxValue \<le> 0"
  shows "live_entry FlagBitmap now (snd (BSet now k off b v ex maxValue m)) k =
      Some \<lparr>Value = bitmap_Set [] off b, Version = 1, ExpireAt = ex, Flags = FlagBitmap\<rparr>"
    and "mem_wf (snd (BSet now k off b v ex maxValue m))"
proof -
  let ?e = "\<lparr>Value = bitmap_Set [] off b, Version = 1, ExpireAt = ex, Flags = FlagBitmap\<rparr>"
  have none': "items m k = None" using none by (simp add: view_def)
  have fresh: "\<not> Expired ?e now" using ex by (auto simp: Expired_def)
  have eq: "snd (BSet now k off b v ex maxValue m) = snd (insertBitmapLocked now k ?e m)"
    using none' mv by (simp add: BSet_def EncodedLen_some bInsertLocked_def split_beta Let_def)
  note st = bt.insert_stored(1) [OF wf none', of ?e now]
  show "live_entry FlagBitmap now (snd (BSet now k off b v ex maxValue m)) k = Some ?e"
    using live_entry_stored [OF st bt.flag_pinned [OF _ fresh] _ bt.flag_live] by (simp add: eq)
  show "mem_wf (snd (BSet now k off b v ex maxValue m))" using stored_wf [OF st] by (simp add: eq)
qed

text \<open>C24. A bitmap created over an older tombstone without an expiry of its own inherits the
  tombstone's expiry: it vanishes when the tombstone would have.\<close>

theorem BSet_over_tombstone_expires:
  assumes wf: "mem_wf m" and t: "view m k = Some t" "IsTombstone t" "\<not> Expired t now" "ExpireAt t \<noteq> 0"
    and v: "Version t < v" and later: "ExpireAt t \<le> later"
  shows "fst (BSet now k off b v 0 0 m) = (True, False) \<and>
         fst (BGet now k off (snd (BSet now k off b v 0 0 m))) = Some b \<and>
         fst (BGet later k off (snd (BSet now k off b v 0 0 m))) = None"
proof -
  obtain it where it: "items m k = Some it" "mat it = t"
    using t(1) by (auto simp: view_def)
  have live: "\<not> Expired (entry it) now" "IsTombstone (entry it)" "\<not> v \<le> Version (entry it)"
    "ExpireAt (entry it) = ExpireAt t" using it(2) t v by auto
  let ?e = "\<lparr>Value = bitmap_Set [] off b, Version = Version (entry it) + 1,
      ExpireAt = ExpireAt t, Flags = FlagBitmap\<rparr>"
  let ?m = "snd (BSet now k off b v 0 0 m)"
  have eq: "BSet now k off b v 0 0 m = bCommitLocked now k it [] off b (Version (entry it) + 1) 0 0 m"
    using it live by (simp add: BSet_def EncodedLen_some)
  have st: "stored now k ?e m ?m"
    using bCommitLocked_stored(1) [OF wf it(1), of 0 "[]" off b now "Version (entry it) + 1" 0]
    by (simp add: eq live(4))
  have fresh: "\<not> Expired ?e now" using t(3) by (simp add: Expired_def split: if_splits)
  have view: "view ?m k = Some ?e" by (rule stored_self [OF st bt.flag_pinned [OF _ fresh]]) simp
  then have le: "live_entry FlagBitmap now ?m k = Some ?e" "live_entry FlagBitmap later ?m k = None"
    using fresh later t(4) bt.flag_live by (simp_all add: live_entry_def Is_defs Expired_def)
  have "fst (BSet now k off b v 0 0 m) = (has k ?m, False)"
    using bCommitLocked_stored(2) [OF wf it(1), of 0 "[]" off b now "Version (entry it) + 1" 0] by (simp add: eq)
  then show ?thesis
    using le view by (simp add: BGet_at stored_wf [OF st] has_view bitmap_Get_Set)
qed

theorem BSet_over_tombstone_expires_witness:
  "let m = snd (DeleteIfVersion 5 [107] 1 (NewMemory 0 10)) in
   fst (BSet 6 [107] 3 True 2 0 0 m) = (True, False) \<and>
   fst (BGet 6 [107] 3 (snd (BSet 6 [107] 3 True 2 0 0 m))) = Some True \<and>
   fst (BGet 15 [107] 3 (snd (BSet 6 [107] 3 True 2 0 0 m))) = None"
proof -
  let ?m = "snd (DeleteIfVersion 5 [107] 1 (NewMemory 0 10))"
  have st: "stored 5 [107] (tombstone 1 15) (NewMemory 0 10) ?m"
    using DeleteIfVersion_spec [of "NewMemory 0 10" 5 "[107]" 1]
    by (simp add: tombstoneExpireAt_def split: if_splits) (simp_all add: NewMemory_def)
  have v: "view ?m [107] = Some (tombstone 1 15)"
    using stored_self [OF st] by (simp add: lru_pinned_def Expired_def)
  show ?thesis unfolding Let_def
    by (rule BSet_over_tombstone_expires [OF stored_wf [OF st] v]) (simp_all add: Expired_def)
qed

end
