(* ===== verification/StoreBloom.thy ===== *)
theory StoreBloom
  imports BlobStores
begin

text \<open>
  Bloom filters: \<open>pkg/bloom/bloom.go\<close> and \<open>pkg/store/bloom.go\<close>. Sizes are Go
  \<open>int\<close>s; hashes and bit indexes are 64-bit words. A filter that cannot be opened
  is \<open>None\<close>.
\<close>

section \<open>The filter\<close>

record bloom =
  bits :: bytes
  mbits :: int
  khash :: int

definition bloom_need :: "int \<Rightarrow> nat" where
  "bloom_need mBits = nat ((mBits + 7) div 8)"

definition bloom_New :: "int \<Rightarrow> int \<Rightarrow> bloom" where
  "bloom_New mBits k =
     (let mb = (if mBits < 8 then 8 else mBits); kk = (if k < 1 then 1 else k)
      in \<lparr>bits = replicate (bloom_need mb) 0, mbits = mb, khash = kk\<rparr>)"

definition bloom_Open :: "int \<Rightarrow> int \<Rightarrow> bytes \<Rightarrow> bloom option" where
  "bloom_Open mBits k bs =
     (if mBits < 8 \<or> k < 1 then None
      else if length bs \<noteq> bloom_need mBits then None
      else Some \<lparr>bits = bs, mbits = mBits, khash = k\<rparr>)"

definition hash2 :: "bytes \<Rightarrow> u64 \<times> u64" where
  "hash2 item =
     (let h1 = fnv1a item; h2 = fnv1 item in (h1, if h2 AND 1 = 0 then h2 + 1 else h2))"

text \<open>The index of the \<open>i\<close>-th probe.\<close>

definition bloom_index :: "int \<Rightarrow> bytes \<Rightarrow> nat \<Rightarrow> u64" where
  "bloom_index mBits item i =
     (fst (hash2 item) + of_nat i * snd (hash2 item)) mod of_int mBits"

definition bloom_setbit :: "u64 \<Rightarrow> bytes \<Rightarrow> bytes" where
  "bloom_setbit idx bs =
     bs[unat (idx div 8) := bs ! unat (idx div 8) OR push_bit (unat (idx mod 8)) 1]"

definition bloom_Add :: "bytes \<Rightarrow> bloom \<Rightarrow> bloom" where
  "bloom_Add item f =
     f\<lparr>bits := fold (\<lambda>i. bloom_setbit (bloom_index (mbits f) item i)) [0..<nat (khash f)] (bits f)\<rparr>"

definition bloom_Test :: "bloom \<Rightarrow> bytes \<Rightarrow> bool" where
  "bloom_Test f item =
     (if bits f = [] then False
      else list_all (\<lambda>i. let idx = bloom_index (mbits f) item i
                         in bits f ! unat (idx div 8) AND push_bit (unat (idx mod 8)) 1 \<noteq> 0)
             [0..<nat (khash f)])"

definition bloom_Merge :: "bloom \<Rightarrow> bloom \<Rightarrow> bloom option" where
  "bloom_Merge f other =
     (if mbits f \<noteq> mbits other \<or> khash f \<noteq> khash other \<or> length (bits f) \<noteq> length (bits other) then None
      else Some (f\<lparr>bits := map2 (OR) (bits f) (bits other)\<rparr>))"

definition bloom_Indexes :: "int \<Rightarrow> int \<Rightarrow> bytes \<Rightarrow> int list" where
  "bloom_Indexes mBits k item =
     (let mb = (if mBits < 8 then 8 else mBits); kk = (if k < 1 then 1 else k)
      in map (\<lambda>i. sint (bloom_index mb item i)) [0..<nat kk])"

section \<open>No false negatives\<close>

definition bloom_ok :: "bloom \<Rightarrow> bool" where
  "bloom_ok f \<longleftrightarrow> 8 \<le> mbits f \<and> mbits f < 2 ^ 63 \<and> 1 \<le> khash f \<and> length (bits f) = bloom_need (mbits f)"

definition bloom_bit :: "bytes \<Rightarrow> nat \<Rightarrow> bool" where
  "bloom_bit bs n \<longleftrightarrow> bit (bs ! (n div 8)) (n mod 8)"

lemma index_in_range:
  assumes "8 \<le> mb" "mb < 2 ^ 63" "length bs = bloom_need mb"
  shows "unat (bloom_index mb item i) div 8 < length bs"
proof -
  let ?m = "of_int mb :: u64"
  have m: "unat ?m = nat mb"
    using assms by (simp add: unsigned_of_int take_bit_int_eq_self)
  then have "?m \<noteq> 0" using assms by (metis nat_0_iff not_numeral_le_zero unsigned_0 order_trans)
  then have "unat (bloom_index mb item i) < nat mb"
    unfolding bloom_index_def using m by (metis unat_mod unat_gt_0 mod_less_divisor)
  moreover have "nat ((mb + 7) div 8) = (nat mb + 7) div 8"
    using assms by (simp add: nat_div_distrib nat_add_distrib)
  ultimately show ?thesis using assms unfolding bloom_need_def by linarith
qed

lemma setbit_bit:
  assumes "unat idx div 8 < length bs"
  shows "bloom_bit (bloom_setbit idx bs) n \<longleftrightarrow> n = unat idx \<or> bloom_bit bs n"
proof (cases "n div 8 = unat idx div 8")
  case True
  then have "n = unat idx \<longleftrightarrow> n mod 8 = unat idx mod 8" by (metis div_mod_decomp)
  with True assms show ?thesis
    by (auto simp: bloom_bit_def bloom_setbit_def unat_div unat_mod bit_simps)
next
  case False
  then show ?thesis using assms by (auto simp: bloom_bit_def bloom_setbit_def unat_div unat_mod)
qed

lemma length_setbit [simp]: "length (bloom_setbit idx bs) = length bs"
  by (simp add: bloom_setbit_def)

lemma length_fold_setbit [simp]: "length (fold (\<lambda>i. bloom_setbit (g i)) is bs) = length bs"
  by (induction "is" arbitrary: bs) simp_all

lemma fold_setbit:
  assumes "\<And>i. i \<in> set is \<Longrightarrow> unat (g i) div 8 < length bs"
  shows "bloom_bit (fold (\<lambda>i. bloom_setbit (g i)) is bs) n \<longleftrightarrow> (\<exists>i \<in> set is. n = unat (g i)) \<or> bloom_bit bs n"
  using assms by (induction "is" arbitrary: bs) (auto simp: setbit_bit)

lemma bloom_Test_iff:
  assumes "bloom_ok f"
  shows "bloom_Test f item \<longleftrightarrow> (\<forall>i < nat (khash f). bloom_bit (bits f) (unat (bloom_index (mbits f) item i)))"
proof -
  have "bits f \<noteq> []"
    using assms index_in_range [of "mbits f" "bits f" item 0] by (auto simp: bloom_ok_def)
  then show ?thesis
    by (auto simp: bloom_Test_def list_all_iff Let_def bloom_bit_def unat_div unat_mod
        bit_iff_and_push_bit_not_eq_0)
qed

lemma bloom_Add_bits:
  assumes "bloom_ok f"
  shows "bloom_bit (bits (bloom_Add x f)) n \<longleftrightarrow>
    (\<exists>i < nat (khash f). n = unat (bloom_index (mbits f) x i)) \<or> bloom_bit (bits f) n"
  using assms index_in_range [of "mbits f" "bits f"]
  by (auto simp: bloom_Add_def fold_setbit bloom_ok_def)

lemma bloom_ok_Add [simp]: "bloom_ok f \<Longrightarrow> bloom_ok (bloom_Add x f)"
  by (simp add: bloom_ok_def bloom_Add_def)

lemma bloom_Add_sel [simp]: "mbits (bloom_Add x f) = mbits f" "khash (bloom_Add x f) = khash f"
  by (simp_all add: bloom_Add_def)

text \<open>A filter has no false negatives: an item that was added tests positive, and adding
  other items never turns a positive answer negative.\<close>

theorem bloom_no_false_negative:
  assumes "bloom_ok f"
  shows "bloom_Test (bloom_Add x f) x \<and> (bloom_Test f y \<longrightarrow> bloom_Test (bloom_Add x f) y)"
  using assms by (auto simp: bloom_Test_iff bloom_Add_bits)

lemma bloom_Merge_bits:
  assumes "bloom_ok f" "bloom_Merge f g = Some h"
  shows "n div 8 < length (bits f) \<Longrightarrow> bloom_bit (bits h) n \<longleftrightarrow> bloom_bit (bits f) n \<or> bloom_bit (bits g) n"
    and "bloom_ok h" "mbits h = mbits f" "khash h = khash f"
  using assms by (auto simp: bloom_Merge_def bloom_ok_def bloom_bit_def bit_simps split: if_splits)

lemma bloom_Merge_keeps:
  assumes f: "bloom_ok f" and h: "bloom_Merge f g = Some h"
    and t: "bloom_Test f y \<or> bloom_Test g y"
  shows "bloom_Test h y"
proof -
  have g: "bloom_ok g" "mbits g = mbits f" "khash g = khash f"
    using f h by (auto simp: bloom_Merge_def bloom_ok_def split: if_splits)
  have "unat (bloom_index (mbits f) y i) div 8 < length (bits f)" for i
    using f index_in_range [of "mbits f" "bits f"] by (simp add: bloom_ok_def)
  with t show ?thesis
    using bloom_Merge_bits [OF f h] f g by (auto simp: bloom_Test_iff)
qed

section \<open>Store operations\<close>

text \<open>On a live filter the bits change in place: neither the version nor the expiry nor the
  cost changes, and nothing is evicted.\<close>

definition bloomMutateLocked ::
    "time \<Rightarrow> bytes \<Rightarrow> int \<Rightarrow> int \<Rightarrow> u64 \<Rightarrow> time \<Rightarrow> (bloom \<Rightarrow> bloom) \<Rightarrow> memory \<Rightarrow> bool \<times> memory" where
  "bloomMutateLocked now ky mBits k version expireAt mut m =
     (let create = (\<lambda>m. case bloom_Open mBits k (replicate (bloom_need mBits) 0) of
            None \<Rightarrow> (False, m)
          | Some f \<Rightarrow>
              let ent = \<lparr>Value = bits (mut f), Version = version, ExpireAt = expireAt, Flags = FlagBloom\<rparr>;
                  m' = evictLocked now (pushFront ky (mkItem ky ent (entryCost ky ent)) m)
              in (has ky m', m'))
      in case items m ky of
           None \<Rightarrow> create m
         | Some it \<Rightarrow>
             if \<not> Expired (entry it) now then
               if IsTombstone (entry it) then
                 if version \<le> Version (entry it) then (False, skipStale m)
                 else create (removeElement ky m)
               else if IsBloom (entry it) then
                 (case bloom_Open mBits k (Value (entry it)) of
                    None \<Rightarrow> (False, m)
                  | Some f \<Rightarrow>
                      (True, moveToFront ky
                         (putItem ky (it\<lparr>entry := (entry it)\<lparr>Value := bits (mut f)\<rparr>\<rparr>) m)))
               else (False, m)
             else create (removeElement ky m))"

definition BloomAdd :: "time \<Rightarrow> bytes \<Rightarrow> bytes \<Rightarrow> int \<Rightarrow> int \<Rightarrow> u64 \<Rightarrow> time \<Rightarrow> memory \<Rightarrow> bool \<times> memory" where
  "BloomAdd now ky item mBits k version expireAt m =
     bloomMutateLocked now ky mBits k version expireAt (bloom_Add item) m"

definition BloomTest :: "time \<Rightarrow> bytes \<Rightarrow> bytes \<Rightarrow> int \<Rightarrow> int \<Rightarrow> memory \<Rightarrow> bool \<times> memory" where
  "BloomTest now ky item mBits k m =
     (case items m ky of
        None \<Rightarrow> (False, m)
      | Some it \<Rightarrow>
          if Expired (entry it) now then (False, removeElement ky m)
          else if IsTombstone (entry it) \<or> \<not> IsBloom (entry it) then (False, m)
          else (case bloom_Open mBits k (Value (entry it)) of
                  None \<Rightarrow> (False, m)
                | Some f \<Rightarrow> (bloom_Test f item, m)))"

definition BloomMerge :: "time \<Rightarrow> bytes \<Rightarrow> bytes \<Rightarrow> int \<Rightarrow> int \<Rightarrow> u64 \<Rightarrow> time \<Rightarrow> memory \<Rightarrow> bool \<times> memory" where
  "BloomMerge now ky bs mBits k version expireAt m =
     (case bloom_Open mBits k bs of
        None \<Rightarrow> (False, m)
      | Some remote \<Rightarrow>
          bloomMutateLocked now ky mBits k version expireAt
            (\<lambda>f. case bloom_Merge f remote of None \<Rightarrow> f | Some f' \<Rightarrow> f') m)"

section \<open>Functional behaviour\<close>

lemma bloom_flags: "\<forall>f \<in> cached_flags. f AND FlagBloom = 0"
  by (simp add: cached_flags_def Flag_defs)

text \<open>The filter a key holds, opened with the given shape.\<close>

definition bloom_at :: "int \<Rightarrow> int \<Rightarrow> time \<Rightarrow> memory \<Rightarrow> bytes \<Rightarrow> bloom option" where
  "bloom_at mBits k now m ky =
     (case live_entry FlagBloom now m ky of None \<Rightarrow> None | Some e \<Rightarrow> bloom_Open mBits k (Value e))"

lemma BloomTest_at:
  assumes "mem_wf m"
  shows "fst (BloomTest now ky x mBits k m) \<longleftrightarrow> (\<exists>f. bloom_at mBits k now m ky = Some f \<and> bloom_Test f x)"
proof (cases "items m ky")
  case None
  then show ?thesis by (simp add: BloomTest_def bloom_at_def live_entry_def view_def)
next
  case (Some it)
  then show ?thesis
    using live_entry_item [OF assms Some bloom_flags, of now]
    by (auto simp: BloomTest_def bloom_at_def Is_defs split: option.splits)
qed

lemma bloom_Open_ok: "bloom_Open mBits k bs = Some f \<Longrightarrow> mBits < 2 ^ 63 \<Longrightarrow> bloom_ok f"
  by (auto simp: bloom_Open_def bloom_ok_def split: if_splits)

lemma bloom_Open_sel:
  "bloom_Open mBits k bs = Some f \<Longrightarrow> mbits f = mBits \<and> khash f = k \<and> bits f = bs"
  by (auto simp: bloom_Open_def split: if_splits)

text \<open>A mutation that keeps the shape of a filter.\<close>

definition keeps_shape :: "(bloom \<Rightarrow> bloom) \<Rightarrow> bool" where
  "keeps_shape g \<longleftrightarrow>
     (\<forall>f. mbits (g f) = mbits f \<and> khash (g f) = khash f \<and> length (bits (g f)) = length (bits f) \<and>
        bloom.more (g f) = bloom.more f)"

lemma keeps_shape_Open:
  assumes "keeps_shape g" "bloom_Open mBits k bs = Some f"
  shows "bloom_Open mBits k (bits (g f)) = Some (g f)"
proof -
  have "bloom_Open mBits k (bits (g f)) = Some \<lparr>bits = bits (g f), mbits = mBits, khash = k\<rparr>"
    using assms by (auto simp: bloom_Open_def keeps_shape_def split: if_splits)
  also have "\<dots> = Some (g f)"
    using assms bloom_Open_sel [OF assms(2)] by (simp add: keeps_shape_def bloom.equality)
  finally show ?thesis .
qed

lemma keeps_shape_Add: "keeps_shape (bloom_Add x)"
  by (simp add: keeps_shape_def bloom_Add_def)

lemma keeps_shape_Merge: "keeps_shape (\<lambda>f. case bloom_Merge f r of None \<Rightarrow> f | Some f' \<Rightarrow> f')"
  by (auto simp: keeps_shape_def bloom_Merge_def split: option.splits)

text \<open>A successful mutation applies to the filter the key held, or to an empty one.\<close>

lemma putItem_same_cost:
  "items m k = Some it \<Longrightarrow> cost it' = cost it \<Longrightarrow> putItem k it' m = replaceItem k it' m"
  by (simp add: replaceItem_def addBytes_def putItem_def)

lemma bloom_in_place:
  assumes wf: "mem_wf m" and it: "items m k = Some it" and p: "plain (entry it)"
    and l: "length v = length (Value (entry it))"
  defines "e \<equiv> (entry it)\<lparr>Value := v\<rparr>"
  shows "mem_wf (moveToFront k (putItem k (it\<lparr>entry := e\<rparr>) m))"
    and "view (moveToFront k (putItem k (it\<lparr>entry := e\<rparr>) m)) = (view m)(k \<mapsto> e)"
proof -
  let ?it = "it\<lparr>entry := e\<rparr>"
  have k: "key it = k" "cost it = entryCost k (entry it)"
    using mem_wfD [OF wf it] mat_plain [OF p] by (simp_all add: item_wf_def)
  have pe: "plain (entry ?it)" using p by (simp add: e_def plain_def Is_defs)
  have wf': "item_wf ?it"
    using k l by (intro item_wf_plain [OF pe]) (simp add: e_def entryCost_def Cost_def)
  have eq: "putItem k ?it m = replaceItem k ?it m" using it by (simp add: putItem_same_cost)
  have "mem_wf (replaceItem k ?it m)" using wf' k by (intro mem_wf_replaceItem [OF wf it]) simp_all
  then show "mem_wf (moveToFront k (putItem k ?it m))"
    unfolding eq by (rule mem_wf_moveToFront) (simp add: items_replaceItem [OF it])
  show "view (moveToFront k (putItem k ?it m)) = (view m)(k \<mapsto> e)"
    unfolding eq using it mat_plain [OF pe] by (simp add: view_replaceItem)
qed

text \<open>A successful mutation applies to the filter the key held, or to an empty one. An entry
  that carries the filter flag carries no container flag (\<open>plain\<close>).\<close>

definition bloom_create ::
    "time \<Rightarrow> bytes \<Rightarrow> int \<Rightarrow> int \<Rightarrow> u64 \<Rightarrow> time \<Rightarrow> (bloom \<Rightarrow> bloom) \<Rightarrow> memory \<Rightarrow> bool \<times> memory" where
  "bloom_create now ky mBits k v ex g m =
     (case bloom_Open mBits k (replicate (bloom_need mBits) 0) of
        None \<Rightarrow> (False, m)
      | Some f \<Rightarrow>
          let ent = \<lparr>Value = bits (g f), Version = v, ExpireAt = ex, Flags = FlagBloom\<rparr>;
              m' = evictLocked now (pushFront ky (mkItem ky ent (entryCost ky ent)) m)
          in (has ky m', m'))"

lemma bloomMutate_cases:
  "bloomMutateLocked now ky mBits k v ex g m =
     (case items m ky of
        None \<Rightarrow> bloom_create now ky mBits k v ex g m
      | Some it \<Rightarrow>
          if Expired (entry it) now then bloom_create now ky mBits k v ex g (removeElement ky m)
          else if IsTombstone (entry it) then
            if v \<le> Version (entry it) then (False, skipStale m)
            else bloom_create now ky mBits k v ex g (removeElement ky m)
          else if IsBloom (entry it) then
            (case bloom_Open mBits k (Value (entry it)) of
               None \<Rightarrow> (False, m)
             | Some f \<Rightarrow>
                 (True, moveToFront ky
                    (putItem ky (it\<lparr>entry := (entry it)\<lparr>Value := bits (g f)\<rparr>\<rparr>) m)))
          else (False, m))"
  by (simp add: bloomMutateLocked_def bloom_create_def Let_def split: option.splits)

lemma bloom_create_at:
  assumes wf: "mem_wf m" and none: "items m ky = None" and g: "keeps_shape g"
    and ok: "fst (bloom_create now ky mBits k v ex g m)" and ex: "ex = 0 \<or> now < ex"
  obtains f where "bloom_Open mBits k (replicate (bloom_need mBits) 0) = Some f"
    "bloom_at mBits k now (snd (bloom_create now ky mBits k v ex g m)) ky = Some (g f)"
    "mem_wf (snd (bloom_create now ky mBits k v ex g m))"
proof -
  obtain f where f: "bloom_Open mBits k (replicate (bloom_need mBits) 0) = Some f"
    using ok by (auto simp: bloom_create_def split: option.splits)
  let ?e = "\<lparr>Value = bits (g f), Version = v, ExpireAt = ex, Flags = FlagBloom\<rparr>"
  let ?m = "evictLocked now (pushFront ky (mkItem ky ?e (entryCost ky ?e)) m)"
  have "plain ?e" by (simp add: plain_def flag_simps)
  note st = insert_plain_stored [OF wf none this, of now]
  have "lru_pinned ?e now" using ex by (auto simp: lru_pinned_def flag_simps Expired_def)
  from live_entry_stored [OF st this, of FlagBloom]
  have "live_entry FlagBloom now ?m ky = Some ?e" by (simp add: Flag_defs)
  then have "bloom_at mBits k now ?m ky = Some (g f)"
    by (simp add: bloom_at_def keeps_shape_Open [OF g f])
  then show ?thesis
    using that [OF f] stored_wf [OF st] by (simp add: bloom_create_def f Let_def)
qed

lemma bloomMutate_at:
  assumes wf: "mem_wf m" and g: "keeps_shape g" and ok: "fst (bloomMutateLocked now ky mBits k v ex g m)"
    and ex: "ex = 0 \<or> now < ex"
    and plain: "\<And>e. live_entry FlagBloom now m ky = Some e \<Longrightarrow> plain e"
  obtains f where "bloom_at mBits k now m ky = Some f \<or>
      bloom_at mBits k now m ky = None \<and> bloom_Open mBits k (replicate (bloom_need mBits) 0) = Some f"
    "bloom_at mBits k now (snd (bloomMutateLocked now ky mBits k v ex g m)) ky = Some (g f)"
    "mem_wf (snd (bloomMutateLocked now ky mBits k v ex g m))"
proof (cases "items m ky")
  case None
  then have eq: "bloomMutateLocked now ky mBits k v ex g m = bloom_create now ky mBits k v ex g m"
    by (simp add: bloomMutate_cases)
  have "bloom_at mBits k now m ky = None"
    using None by (simp add: bloom_at_def live_entry_def view_def)
  with bloom_create_at [OF wf None g ok [unfolded eq] ex] that show thesis unfolding eq by metis
next
  case (Some it)
  note le = live_entry_item [OF wf Some bloom_flags, of now]
  show thesis
  proof (cases "Expired (entry it) now \<or> IsTombstone (entry it)")
    case True
    then have eq: "bloomMutateLocked now ky mBits k v ex g m =
        bloom_create now ky mBits k v ex g (removeElement ky m)"
      using ok Some by (auto simp: bloomMutate_cases split: if_splits)
    have "bloom_at mBits k now m ky = None" using True by (auto simp: bloom_at_def le)
    with bloom_create_at [OF mem_wf_removeElement [OF wf] _ g ok [unfolded eq] ex] that show thesis
      unfolding eq by (metis items_removeElement fun_upd_same)
  next
    case False
    with ok Some obtain f where f: "IsBloom (entry it)" "bloom_Open mBits k (Value (entry it)) = Some f"
      by (auto simp: bloomMutate_cases split: if_splits option.splits)
    let ?e = "(entry it)\<lparr>Value := bits (g f)\<rparr>"
    let ?m = "moveToFront ky (putItem ky (it\<lparr>entry := ?e\<rparr>) m)"
    have eq: "bloomMutateLocked now ky mBits k v ex g m = (True, ?m)"
      using False Some f by (simp add: bloomMutate_cases)
    have live: "live_entry FlagBloom now m ky = Some (entry it)"
      using False f by (simp add: le Is_defs)
    have "length (bits (g f)) = length (Value (entry it))"
      using g bloom_Open_sel [OF f(2)] by (simp add: keeps_shape_def)
    note ip = bloom_in_place [OF wf Some plain [OF live] this]
    have "live_entry FlagBloom now ?m ky = Some ?e"
      using False f ip(2) by (simp add: live_entry_def Is_defs Expired_def split: if_splits)
    then have "bloom_at mBits k now ?m ky = Some (g f)"
      by (simp add: bloom_at_def keeps_shape_Open [OF g f(2)])
    moreover have "bloom_at mBits k now m ky = Some f" by (simp add: bloom_at_def live f)
    ultimately show thesis using that [of f] ip(1) by (simp add: eq)
  qed
qed

text \<open>C25. At the level of the store: once BloomAdd has answered true for an item, BloomTest
  answers true for it, and for every item it answered true for before.\<close>

theorem BloomAdd_no_false_negative:
  assumes wf: "mem_wf m" and mb: "mBits < 2 ^ 63" and ex: "ex = 0 \<or> now < ex"
    and plain: "\<And>e. live_entry FlagBloom now m ky = Some e \<Longrightarrow> plain e"
    and ok: "BloomAdd now ky x mBits k v ex m = (True, m')"
  shows "fst (BloomTest now ky x mBits k m') \<and>
    (fst (BloomTest now ky y mBits k m) \<longrightarrow> fst (BloomTest now ky y mBits k m'))"
proof -
  note mut = BloomAdd_def [of now ky x mBits k v ex m]
  obtain f where f: "bloom_at mBits k now m ky = Some f \<or>
      bloom_at mBits k now m ky = None \<and> bloom_Open mBits k (replicate (bloom_need mBits) 0) = Some f"
    "bloom_at mBits k now m' ky = Some (bloom_Add x f)" "mem_wf m'"
    using bloomMutate_at [OF wf keeps_shape_Add, of now ky mBits k v ex x] ok ex plain
    unfolding mut by (metis fst_conv snd_conv)
  have "bloom_ok f"
    using f(1) bloom_Open_ok [OF _ mb] by (auto simp: bloom_at_def split: option.splits)
  then show ?thesis
    using f bloom_Test_iff bloom_Add_bits by (auto simp: BloomTest_at wf)
qed

theorem BloomAdd_no_false_negative_witness:
  "fst (BloomTest 0 [1] [7] 64 3 (snd (BloomAdd 0 [1] [7] 64 3 5 0 (NewMemory 0 0))))"
proof -
  have "BloomAdd 0 [1] [7] 64 3 5 0 (NewMemory 0 0) = (True, snd (BloomAdd 0 [1] [7] 64 3 5 0 (NewMemory 0 0)))"
    by (simp add: prod_eq_iff BloomAdd_def bloomMutateLocked_def NewMemory_def Let_def bloom_Open_def
        bloom_need_def evictLocked_def pushFront_def has_def)
  then show ?thesis
    using BloomAdd_no_false_negative [of "NewMemory 0 0" 64 0 0 "[1]" "[7]" 3 5]
    by (simp add: live_entry_def)
qed

text \<open>BloomMerge adds every positive answer of the received filter to those the key had.\<close>

theorem BloomMerge_positive:
  assumes wf: "mem_wf m" and mb: "mBits < 2 ^ 63" and ex: "ex = 0 \<or> now < ex"
    and plain: "\<And>e. live_entry FlagBloom now m ky = Some e \<Longrightarrow> plain e"
    and ok: "BloomMerge now ky bs mBits k v ex m = (True, m')"
    and pos: "fst (BloomTest now ky y mBits k m) \<or> (\<exists>r. bloom_Open mBits k bs = Some r \<and> bloom_Test r y)"
  shows "fst (BloomTest now ky y mBits k m')"
proof -
  obtain r where r: "bloom_Open mBits k bs = Some r"
    using ok by (auto simp: BloomMerge_def split: option.splits)
  let ?g = "\<lambda>f. case bloom_Merge f r of None \<Rightarrow> f | Some f' \<Rightarrow> f'"
  have mut: "bloomMutateLocked now ky mBits k v ex ?g m = (True, m')" using ok r by (simp add: BloomMerge_def)
  obtain f where f: "bloom_at mBits k now m ky = Some f \<or>
      bloom_at mBits k now m ky = None \<and> bloom_Open mBits k (replicate (bloom_need mBits) 0) = Some f"
    "bloom_at mBits k now m' ky = Some (?g f)" "mem_wf m'"
    by (rule bloomMutate_at [OF wf keeps_shape_Merge, of now ky mBits k v ex r])
      (simp_all add: mut ex plain)
  obtain bs' where bs': "bloom_Open mBits k bs' = Some f"
    using f(1) by (auto simp: bloom_at_def split: option.splits)
  note okf = bloom_Open_ok [OF bs' mb]
  have "bloom_Merge f r \<noteq> None"
    using bloom_Open_ok [OF r mb] okf bloom_Open_sel [OF r] bloom_Open_sel [OF bs']
    by (simp add: bloom_Merge_def bloom_ok_def)
  then obtain h where h: "bloom_Merge f r = Some h" by blast
  have "bloom_Test f y \<or> bloom_Test r y" using pos f(1) r by (auto simp: BloomTest_at wf)
  then have "bloom_Test h y" by (rule bloom_Merge_keeps [OF okf h])
  then show ?thesis using f h by (simp add: BloomTest_at)
qed

end
