(* ===== verification/LocalBlobs.thy ===== *)
theory LocalBlobs
  imports BlobStores
begin

text \<open>
  The contract shared by \<open>HLLAdd\<close>, \<open>CMSIncr\<close>, \<open>TopKAdd\<close> and \<open>BSet\<close>
  (\<open>pkg/store\<close>): a local write rewrites the value under a key and counts the stored
  version up by one; the incoming version only has to pass a tombstone. What differs is
  the flag, the checks made before the key is looked at (\<open>pre\<close>) and the function from
  the old value, if any, to the new one (\<open>app\<close>). Results are \<open>(applied, tooLarge)\<close>.
\<close>

locale local_blob =
  fixes flag :: u64
    and pre :: "'a \<Rightarrow> (bool \<times> bool) option"
    and app :: "bytes option \<Rightarrow> 'a \<Rightarrow> bool + bytes"
    and add :: "time \<Rightarrow> bytes \<Rightarrow> 'a \<Rightarrow> u64 \<Rightarrow> time \<Rightarrow> memory \<Rightarrow> (bool \<times> bool) \<times> memory"
  assumes flag_plain: "Flags e = flag \<Longrightarrow> plain e"
    and flag_live: "flag AND FlagTombstone = 0" "flag \<noteq> 0"
    and flag_uncached: "\<forall>f \<in> cached_flags. f AND flag = 0"
    and flag_pinned: "Flags e = flag \<Longrightarrow> \<not> Expired e now \<Longrightarrow> lru_pinned e now"
    and pre_refuses: "pre a = Some r \<Longrightarrow> \<not> fst r"
    and add_eq: "add now k a v ex m =
      (case pre a of
         Some r \<Rightarrow> (r, m)
       | None \<Rightarrow>
           let ins = (\<lambda>m. case app None a of
                 Inl too \<Rightarrow> ((False, too), m)
               | Inr b \<Rightarrow>
                   let e = \<lparr>Value = b, Version = 1, ExpireAt = ex, Flags = flag\<rparr>;
                       m' = evictLocked now (pushFront k (mkItem k e (entryCost k e)) m)
                   in ((has k m', False), m'));
               put = (\<lambda>it cur. case app cur a of
                 Inl too \<Rightarrow> ((False, too), m)
               | Inr b \<Rightarrow>
                   let e = \<lparr>Value = b, Version = Version (entry it) + 1,
                            ExpireAt = (if ex \<noteq> 0 then ex else ExpireAt (entry it)), Flags = flag\<rparr>;
                       m' = commitEntry now k it e m
                   in ((has k m', False), m'))
           in case items m k of
                None \<Rightarrow> ins m
              | Some it \<Rightarrow>
                  if Expired (entry it) now then ins (removeElement k m)
                  else if IsTombstone (entry it) then
                    if v \<le> Version (entry it) then ((False, False), skipStale m) else put it None
                  else if Flags (entry it) AND flag = 0 then ((False, False), m)
                  else put it (Some (Value (entry it))))"
begin

text \<open>What a write starts from, and whether the key lets it through.\<close>

definition base :: "time \<Rightarrow> memory \<Rightarrow> bytes \<Rightarrow> bytes option" where
  "base now m k = map_option Value (live_entry flag now m k)"

definition writable :: "time \<Rightarrow> u64 \<Rightarrow> memory \<Rightarrow> bytes \<Rightarrow> bool" where
  "writable now v m k \<longleftrightarrow>
     (case view m k of
        None \<Rightarrow> True
      | Some e \<Rightarrow> Expired e now \<or> (if IsTombstone e then Version e < v else Flags e AND flag \<noteq> 0))"

definition result :: "time \<Rightarrow> bytes \<Rightarrow> time \<Rightarrow> memory \<Rightarrow> bytes \<Rightarrow> entry" where
  "result now b ex m k =
     (case view m k of
        None \<Rightarrow> \<lparr>Value = b, Version = 1, ExpireAt = ex, Flags = flag\<rparr>
      | Some e \<Rightarrow>
          if Expired e now then \<lparr>Value = b, Version = 1, ExpireAt = ex, Flags = flag\<rparr>
          else \<lparr>Value = b, Version = Version e + 1, ExpireAt = (if ex \<noteq> 0 then ex else ExpireAt e),
                Flags = flag\<rparr>)"

lemma result_simps [simp]: "Value (result now b ex m k) = b" "Flags (result now b ex m k) = flag"
  by (simp_all add: result_def split: option.splits)

lemma result_unexpired: "ex = 0 \<or> now < ex \<Longrightarrow> \<not> Expired (result now b ex m k) now"
  by (auto simp: result_def Expired_def split: option.splits if_splits)

lemma base_item:
  assumes "mem_wf m" "items m k = Some it"
  shows "base now m k =
    (if Expired (entry it) now \<or> IsTombstone (entry it) \<or> Flags (entry it) AND flag = 0 then None
     else Some (Value (entry it)))"
  using live_entry_item [OF assms flag_uncached, of now] by (simp add: base_def)

lemma base_none: "view m k = None \<Longrightarrow> base now m k = None"
  by (simp add: base_def live_entry_def)

lemma live_writable: "live_entry flag now m k = Some e \<Longrightarrow> writable now v m k"
  by (auto simp: live_entry_def writable_def split: option.splits if_splits)

lemma add_pre: "pre a = Some r \<Longrightarrow> add now k a v ex m = (r, m)"
  by (simp add: add_eq)

lemma add_stored:
  assumes wf: "mem_wf m" and p: "pre a = None" and w: "writable now v m k"
    and b: "app (base now m k) a = Inr b"
  shows "stored now k (result now b ex m k) m (snd (add now k a v ex m))"
    and "fst (add now k a v ex m) = (has k (snd (add now k a v ex m)), False)"
proof -
  let ?e1 = "\<lparr>Value = b, Version = 1, ExpireAt = ex, Flags = flag\<rparr>"
  have "stored now k (result now b ex m k) m (snd (add now k a v ex m)) \<and>
        fst (add now k a v ex m) = (has k (snd (add now k a v ex m)), False)"
  proof (cases "items m k")
    case None
    then have "view m k = None" by (simp add: view_def)
    then have "app None a = Inr b" "result now b ex m k = ?e1" using b by (simp_all add: base_none result_def)
    then show ?thesis using insert_plain_stored [OF wf None flag_plain [of ?e1]] None p
      by (simp add: add_eq Let_def)
  next
    case (Some it)
    have v: "view m k = Some (mat it)" using Some by (simp add: view_def)
    show ?thesis
    proof (cases "Expired (entry it) now")
      case True
      have bn: "app None a = Inr b" using b True by (simp add: base_item [OF wf Some])
      have "stored now k ?e1 m (evictLocked now (pushFront k (mkItem k ?e1 (entryCost k ?e1)) (removeElement k m)))"
        using insert_plain_stored [OF mem_wf_removeElement [OF wf] _ flag_plain [of ?e1], of k k]
        by (simp add: items_removeElement stored_removeElement)
      then show ?thesis using Some True p bn v by (simp add: add_eq result_def Let_def)
    next
      case False
      let ?e = "\<lparr>Value = b, Version = Version (entry it) + 1,
          ExpireAt = (if ex \<noteq> 0 then ex else ExpireAt (entry it)), Flags = flag\<rparr>"
      have r: "result now b ex m k = ?e" using v False by (simp add: result_def)
      have "add now k a v ex m = ((has k (commitEntry now k it ?e m), False), commitEntry now k it ?e m)"
        using w v False Some p b unfolding base_item [OF wf Some]
        by (cases "IsTombstone (entry it)") (simp_all add: add_eq writable_def Let_def not_le [symmetric])
      then show ?thesis using commitEntry_stored [OF wf Some flag_plain [of ?e]] by (simp add: r)
    qed
  qed
  then show "stored now k (result now b ex m k) m (snd (add now k a v ex m))"
    and "fst (add now k a v ex m) = (has k (snd (add now k a v ex m)), False)" by simp_all
qed

lemma add_applies:
  assumes wf: "mem_wf m" and p: "pre a = None" and w: "writable now v m k"
    and b: "app (base now m k) a = Inr b" and ex: "ex = 0 \<or> now < ex"
  shows "fst (add now k a v ex m) = (True, False)"
    and "view (snd (add now k a v ex m)) k = Some (result now b ex m k)"
    and "live_entry flag now (snd (add now k a v ex m)) k = Some (result now b ex m k)"
proof -
  note st = add_stored [OF wf p w b, of ex]
  have pin: "lru_pinned (result now b ex m k) now"
    using flag_pinned [OF _ result_unexpired [OF ex]] by simp
  show v: "view (snd (add now k a v ex m)) k = Some (result now b ex m k)"
    by (rule stored_self [OF st(1) pin])
  show "fst (add now k a v ex m) = (True, False)" using st(2) v by (simp add: has_view)
  show "live_entry flag now (snd (add now k a v ex m)) k = Some (result now b ex m k)"
    by (rule live_entry_stored [OF st(1) pin _ flag_live]) simp
qed

text \<open>A refused write leaves the view alone, but for an expired entry it may drop.\<close>

lemma add_fails:
  assumes wf: "mem_wf m" and p: "pre a = None"
    and no: "\<not> writable now v m k \<or> app (base now m k) a = Inl too"
  shows "\<not> fst (fst (add now k a v ex m)) \<and> mem_wf (snd (add now k a v ex m)) \<and>
    (view (snd (add now k a v ex m)) = view m \<or>
     view (snd (add now k a v ex m)) = expire_key now k (view m))"
proof (cases "items m k")
  case None
  then have "view m k = None" by (simp add: view_def)
  then have "app None a = Inl too" using no by (simp add: base_none writable_def)
  then show ?thesis using None p wf by (simp add: add_eq)
next
  case (Some it)
  have v: "view m k = Some (mat it)" using Some by (simp add: view_def)
  show ?thesis
  proof (cases "Expired (entry it) now")
    case True
    have "app None a = Inl too" using no True v by (simp add: base_item [OF wf Some] writable_def)
    then show ?thesis
      using Some True p v mem_wf_removeElement [OF wf]
      by (simp add: add_eq view_removeElement expire_key_def)
  next
    case False
    then show ?thesis
      using no Some p v wf unfolding base_item [OF wf Some]
      by (auto simp: add_eq writable_def mem_wf_counters split: sum.splits)
  qed
qed

lemma add_wf:
  assumes "mem_wf m"
  shows "mem_wf (snd (add now k a v ex m))"
proof (cases "pre a")
  case None
  show ?thesis
  proof (cases "app (base now m k) a")
    case (Inl too)
    then show ?thesis using add_fails [OF assms None] by blast
  next
    case (Inr b)
    then show ?thesis
      using add_fails [OF assms None] stored_wf [OF add_stored(1) [OF assms None _ Inr]] by blast
  qed
qed (simp add: add_pre assms)

section \<open>Runs\<close>

text \<open>The abstract machine of one key: its value, if it has one. A run writes without an
  expiry, so the entry never goes away.\<close>

definition astep :: "'a \<Rightarrow> bytes option \<Rightarrow> bytes option" where
  "astep a s =
     (case pre a of
        Some r \<Rightarrow> s
      | None \<Rightarrow> (case app s a of Inl too \<Rightarrow> s | Inr b \<Rightarrow> Some b))"

definition tracks :: "bytes \<Rightarrow> bytes option \<Rightarrow> memory \<Rightarrow> bool" where
  "tracks k s m \<longleftrightarrow>
     mem_wf m \<and>
     (case s of
        None \<Rightarrow> view m k = None
      | Some b \<Rightarrow> \<exists>e. view m k = Some e \<and> Value e = b \<and> Flags e = flag \<and> ExpireAt e = 0)"

lemma tracks_New [simp]: "tracks k None (NewMemory mx ttl)"
  by (simp add: tracks_def)

lemma tracks_base:
  assumes "tracks k s m"
  shows "base now m k = s" "writable now v m k" "mem_wf m"
  using assms flag_live
  by (auto simp: tracks_def base_def live_entry_def writable_def Expired_def IsTombstone_def split: option.splits)

lemma tracks_live:
  assumes "tracks k s m"
  shows "map_option Value (live_entry flag now m k) = s"
  using tracks_base(1) [OF assms] by (simp add: base_def)

lemma tracks_add:
  assumes t: "tracks k s m"
  shows "tracks k (astep a s) (snd (add now k a v 0 m))"
    and "fst (fst (add now k a v 0 m)) \<longleftrightarrow> pre a = None \<and> (\<exists>b. app s a = Inr b)"
proof -
  note b = tracks_base [OF t]
  have "tracks k (astep a s) (snd (add now k a v 0 m)) \<and>
      (fst (fst (add now k a v 0 m)) \<longleftrightarrow> pre a = None \<and> (\<exists>b. app s a = Inr b))"
  proof (cases "pre a")
    case None
    show ?thesis
    proof (cases "app s a")
      case (Inl too)
      have "expire_key now k (view m) = view m"
        using t by (auto simp: tracks_def expire_key_def Expired_def split: option.splits)
      then have "view (snd (add now k a v 0 m)) = view m" "mem_wf (snd (add now k a v 0 m))"
        "\<not> fst (fst (add now k a v 0 m))"
        using add_fails [OF b(3) None, of now v k too 0] Inl b by auto
      then show ?thesis using t None Inl by (cases s) (simp_all add: tracks_def astep_def)
    next
      case (Inr x)
      then have "app (base now m k) a = Inr x" using b by simp
      note ap = add_applies [OF b(3) None b(2) this] add_wf [OF b(3)]
      have "ExpireAt (result now x 0 m k) = 0"
        using t by (auto simp: tracks_def result_def split: option.splits)
      then show ?thesis using None Inr ap(1,2,4) by (simp add: tracks_def astep_def)
    qed
  qed (use t in \<open>simp add: add_pre astep_def pre_refuses\<close>)
  then show "tracks k (astep a s) (snd (add now k a v 0 m))"
    and "fst (fst (add now k a v 0 m)) \<longleftrightarrow> pre a = None \<and> (\<exists>b. app s a = Inr b)" by simp_all
qed

lemma tracks_run:
  assumes "tracks k s m"
  shows "tracks k (fold astep (map (fst \<circ> snd) as) s)
           (fold (\<lambda>(now, a, v) m. snd (add now k a v 0 m)) as m)"
  using assms
proof (induction as arbitrary: s m)
  case (Cons x as)
  obtain now a v where x: "x = (now, a, v)" by (cases x)
  show ?case using Cons.IH [OF tracks_add(1) [OF Cons.prems, of a now v]] by (simp add: x)
qed simp

end

end
