(* ===== verification/StoreHLL.thy ===== *)
theory StoreHLL
  imports LocalBlobs
begin

text \<open>
  HyperLogLog sketches: \<open>pkg/hllx/hllx.go\<close> and \<open>pkg/store/hll.go\<close>. A sketch is 16384
  registers of six bits, packed without padding. The estimate of
  \<open>Count\<close> is written over the machine's arithmetic, the parameter \<open>fp\<close>; everything else
  is modelled down to the bits.
\<close>

section \<open>Registers\<close>

definition Precision :: nat where "Precision = 14"
definition Registers :: nat where "Registers = 2 ^ Precision"
definition RegBits :: nat where "RegBits = 6"
definition DenseSize :: nat where "DenseSize = Registers * RegBits div 8"

lemma hll_sizes [simp]: "Registers = 16384" "DenseSize = 12288"
  by (simp_all add: Registers_def DenseSize_def RegBits_def Precision_def)

definition hll_New :: bytes where
  "hll_New = replicate DenseSize 0"

definition mix64 :: "u64 \<Rightarrow> u64" where
  "mix64 x0 =
     (let x1 = x0 XOR drop_bit 30 x0; x2 = x1 * 0xbf58476d1ce4e5b9;
          x3 = x2 XOR drop_bit 27 x2; x4 = x3 * 0x94d049bb133111eb
      in x4 XOR drop_bit 31 x4)"

definition Hash64 :: "bytes \<Rightarrow> u64" where
  "Hash64 item = fold (\<lambda>c h. (h XOR ucast c) * prime64) item offset64"

definition GetReg :: "bytes \<Rightarrow> int \<Rightarrow> 8 word" where
  "GetReg regs i =
     (if i < 0 \<or> int Registers \<le> i \<or> length regs \<noteq> DenseSize then 0
      else
        let off = nat i * RegBits div 8; fb = nat i * RegBits mod 8;
            b0 = ucast (regs ! off) :: 16 word;
            b1 = (if off + 1 < length regs then ucast (regs ! (off + 1)) else 0) :: 16 word
        in ucast ((drop_bit fb b0 OR push_bit (8 - fb) b1) AND 0x3f))"

definition SetReg :: "bytes \<Rightarrow> int \<Rightarrow> 8 word \<Rightarrow> bytes" where
  "SetReg regs i v0 =
     (if i < 0 \<or> int Registers \<le> i \<or> length regs \<noteq> DenseSize then regs
      else
        let v = v0 AND 0x3f; off = nat i * RegBits div 8; fb = nat i * RegBits mod 8; fb8 = 8 - fb;
            r1 = regs[off := (regs ! off AND NOT (push_bit fb 0x3f)) OR push_bit fb v]
        in if off + 1 < length r1
           then r1[off + 1 := (r1 ! (off + 1) AND NOT (drop_bit fb8 0x3f)) OR drop_bit fb8 v]
           else r1)"

text \<open>\<open>bits.LeadingZeros64\<close>.\<close>

definition LeadingZeros64 :: "u64 \<Rightarrow> nat" where
  "LeadingZeros64 w = length (takeWhile (\<lambda>i. \<not> bit w (63 - i)) [0..<64])"

text \<open>The register an item falls into and the rank it writes.\<close>

definition hll_idx :: "bytes \<Rightarrow> int" where
  "hll_idx item = uint (drop_bit (64 - Precision) (mix64 (Hash64 item)))"

definition hll_rho :: "bytes \<Rightarrow> nat" where
  "hll_rho item =
     (let w = push_bit Precision (mix64 (Hash64 item));
          rho = (if w = 0 then (64 - Precision) + 1 else LeadingZeros64 w + 1)
      in if 63 < rho then 63 else rho)"

definition hll_Add :: "bytes \<Rightarrow> bytes \<Rightarrow> bytes" where
  "hll_Add regs item =
     (if length regs \<noteq> DenseSize \<or> item = [] then regs
      else if GetReg regs (hll_idx item) < of_nat (hll_rho item)
      then SetReg regs (hll_idx item) (of_nat (hll_rho item)) else regs)"

definition hll_merge :: "bytes \<Rightarrow> bytes \<Rightarrow> codec_err + bytes" where
  "hll_merge dst src =
     (if length dst \<noteq> DenseSize \<or> length src \<noteq> DenseSize then Inl BadValue
      else Inr (fold (\<lambda>i d. let b = GetReg src (int i)
                            in if GetReg d (int i) < b then SetReg d (int i) b else d) [0..<Registers] dst))"

text \<open>The constants: \<open>m\<close> is 16384, \<open>alpha\<close> is \<open>0.7213 / (1 + 1.079 / m)\<close> folded exactly, the
  threshold is \<open>2.5 * m\<close>.\<close>

definition hll_Count :: "fpu \<Rightarrow> bytes \<Rightarrow> u64" where
  "hll_Count fp regs =
     (if length regs \<noteq> DenseSize then 0
      else
        let rs = map (\<lambda>i. GetReg regs (int i)) [0..<Registers];
            sum = fold (\<lambda>r s. fp_add fp s (fp_ldexp fp (fp_const fp 1 1) (- uint r))) rs 0;
            zeros = length (filter (\<lambda>r. r = 0) rs);
            fm = fp_const fp 16384 1;
            alpha = fp_const fp (7213 * 16384 * 1000) (10000 * (16384 * 1000 + 1079));
            e = fp_div fp (fp_mul fp (fp_mul fp alpha fm) fm) sum;
            e' = (if f64_le e (fp_const fp 40960 1) \<and> 0 < zeros
                  then fp_mul fp fm (fp_log fp (fp_div fp fm (fp_nat fp zeros))) else e)
        in fp_u64 fp (fp_floor fp (fp_add fp e' (fp_const fp 5 10))))"

section \<open>Register laws\<close>

text \<open>Bit \<open>n\<close> of a packed blob, least significant bit of the first byte first.\<close>

definition lebit :: "bytes \<Rightarrow> nat \<Rightarrow> bool" where
  "lebit bs n \<longleftrightarrow> bit (bs ! (n div 8)) (n mod 8)"

lemma byte_split:
  fixes a t :: nat
  assumes "t < 8"
  shows "a mod 8 + t < 8 \<Longrightarrow> (a + t) div 8 = a div 8 \<and> (a + t) mod 8 = a mod 8 + t"
    and "8 \<le> a mod 8 + t \<Longrightarrow> (a + t) div 8 = a div 8 + 1 \<and> (a + t) mod 8 = a mod 8 + t - 8"
proof -
  have d: "(a + t) div 8 = a div 8 + (a mod 8 + t) div 8" "(a + t) mod 8 = (a mod 8 + t) mod 8"
    using assms by (simp_all add: div_add1_eq [of a t 8] mod_add_left_eq)
  show "a mod 8 + t < 8 \<Longrightarrow> (a + t) div 8 = a div 8 \<and> (a + t) mod 8 = a mod 8 + t"
    by (simp add: d)
  have "x div 8 = 1 \<and> x mod 8 = x - 8" if "8 \<le> x" "x < 16" for x :: nat
    using that by (simp add: le_div_geq le_mod_geq)
  then show "8 \<le> a mod 8 + t \<Longrightarrow> (a + t) div 8 = a div 8 + 1 \<and> (a + t) mod 8 = a mod 8 + t - 8"
    using assms by (simp add: d)
qed

lemma byte_range:
  assumes "i < 16384"
  shows "i * RegBits div 8 < 12288"
    and "t < 6 \<Longrightarrow> 8 \<le> i * RegBits mod 8 + t \<Longrightarrow> i * RegBits div 8 + 1 < 12288"
proof -
  have a: "i * RegBits \<le> 98298" "8 * (i * RegBits div 8) + i * RegBits mod 8 = i * RegBits"
    using assms by (simp add: RegBits_def) (rule mult_div_mod_eq)
  then show "i * RegBits div 8 < 12288"
    "t < 6 \<Longrightarrow> 8 \<le> i * RegBits mod 8 + t \<Longrightarrow> i * RegBits div 8 + 1 < 12288" by linarith+
qed

lemma low6 [simp]: "bit (63 :: int) t \<longleftrightarrow> t < 6"
proof -
  have "(63 :: int) = mask 6" by (simp add: mask_eq_exp_minus_1)
  then show ?thesis by (simp only: bit_mask_iff) simp
qed

lemma window_bit:
  fixes a b :: "8 word"
  assumes "fb < 8"
  shows "bit (ucast ((drop_bit fb (ucast a :: 16 word) OR push_bit (8 - fb) (ucast b)) AND 0x3f) :: 8 word) t \<longleftrightarrow>
    t < 6 \<and> (if fb + t < 8 then bit a (fb + t) else bit b (fb + t - 8))"
proof (cases "t < 6")
  case True
  have "bit a n \<Longrightarrow> n < 8" for n using bit_imp_le_length [of a n] by simp
  moreover have "t - (8 - fb) = fb + t - 8" if "8 \<le> fb + t" using assms that by simp
  ultimately show ?thesis
    using True assms by (cases "fb + t < 8") (auto simp: bit_simps)
next
  case False
  then show ?thesis by (simp add: bit_simps)
qed

lemma lebit_split:
  assumes "t < 6"
  shows "lebit regs (i * RegBits + t) \<longleftrightarrow>
    (if i * RegBits mod 8 + t < 8 then bit (regs ! (i * RegBits div 8)) (i * RegBits mod 8 + t)
     else bit (regs ! (i * RegBits div 8 + 1)) (i * RegBits mod 8 + t - 8))"
  using byte_split [of t "i * RegBits"] assms unfolding lebit_def
  by (cases "i * RegBits mod 8 + t < 8") simp_all

lemma GetReg_bit:
  assumes "i < Registers" "length regs = DenseSize"
  shows "bit (GetReg regs (int i)) t \<longleftrightarrow> t < 6 \<and> lebit regs (i * RegBits + t)"
proof (cases "t < 6")
  case True
  let ?off = "i * RegBits div 8" and ?fb = "i * RegBits mod 8"
  let ?b = "if ?off + 1 < length regs then regs ! (?off + 1) else 0"
  have "GetReg regs (int i) =
      ucast ((drop_bit ?fb (ucast (regs ! ?off) :: 16 word) OR push_bit (8 - ?fb) (ucast ?b)) AND 0x3f)"
    using assms by (simp add: GetReg_def Let_def)
  moreover have "8 \<le> ?fb + t \<Longrightarrow> ?b = regs ! (?off + 1)"
    using byte_range(2) [of i t] assms True by simp
  ultimately show ?thesis
    using True unfolding lebit_split [OF True] by (simp only: window_bit [of ?fb]) simp
next
  case False
  then show ?thesis using assms by (simp add: GetReg_def Let_def bit_simps)
qed

lemma length_SetReg [simp]: "length (SetReg regs i v) = length regs"
  by (simp add: SetReg_def Let_def)

lemma merge_bit:
  fixes a v :: "8 word"
  assumes "s < 8"
  shows "fb < 8 \<Longrightarrow> bit ((a AND NOT (push_bit fb 0x3f)) OR push_bit fb (v AND 0x3f)) s \<longleftrightarrow>
      (if fb \<le> s \<and> s < fb + 6 then bit v (s - fb) else bit a s)"
    and "fb < 8 \<Longrightarrow> bit ((a AND NOT (drop_bit (8 - fb) 0x3f)) OR drop_bit (8 - fb) (v AND 0x3f)) s \<longleftrightarrow>
      (if 8 - fb + s < 6 then bit v (8 - fb + s) else bit a s)"
  using assms by (auto simp: bit_simps)

lemma window_cases:
  fixes p s q f :: nat
  assumes "s < 8" "f < 8"
  shows "8 * q + f \<le> 8 * p + s \<and> 8 * p + s < 8 * q + f + 6 \<longleftrightarrow>
    (p = q \<and> f \<le> s \<and> s < f + 6) \<or> (p = q + 1 \<and> 8 - f + s < 6)"
proof -
  consider "p = q" | "p = q + 1" | "p < q" | "q + 1 < p" by linarith
  then show ?thesis using assms by cases auto
qed

lemma SetReg_lebit:
  assumes i: "i < Registers" and l: "length regs = DenseSize" and n: "n < 8 * DenseSize"
  shows "lebit (SetReg regs (int i) v) n \<longleftrightarrow>
    (if i * RegBits \<le> n \<and> n < i * RegBits + 6 then bit v (n - i * RegBits) else lebit regs n)"
proof -
  let ?a = "i * RegBits"
  let ?off = "?a div 8" and ?fb = "?a mod 8"
  let ?p = "n div 8" and ?s = "n mod 8"
  have off: "?off < 12288" using byte_range(1) i by simp
  have p: "?p < 12288" "?s < 8" "8 * ?p + ?s = n" 
    using n by (simp_all add: less_mult_imp_div_less)
  have a: "8 * ?off + ?fb = ?a" "?fb < 8" by simp_all
  define b where "b = SetReg regs (int i) v ! ?p"
  consider "?p = ?off" | "?p = ?off + 1" | "?p \<noteq> ?off" "?p \<noteq> ?off + 1" by blast
  then have "bit b ?s \<longleftrightarrow>
      (if ?p = ?off then (if ?fb \<le> ?s \<and> ?s < ?fb + 6 then bit v (?s - ?fb) else bit (regs ! ?p) ?s)
       else if ?p = ?off + 1 then (if 8 - ?fb + ?s < 6 then bit v (8 - ?fb + ?s) else bit (regs ! ?p) ?s)
       else bit (regs ! ?p) ?s)"
  proof cases
    case 1
    have "b = (regs ! ?off AND NOT (push_bit ?fb 0x3f)) OR push_bit ?fb (v AND 0x3f)"
      using i l off 1 by (simp add: b_def SetReg_def Let_def nth_list_update)
    then show ?thesis using 1 merge_bit(1) [OF p(2) a(2)] by simp
  next
    case 2
    have "b = (regs ! ?p AND NOT (drop_bit (8 - ?fb) 0x3f)) OR drop_bit (8 - ?fb) (v AND 0x3f)"
      using i l p(1) 2 by (simp add: b_def SetReg_def Let_def nth_list_update)
    then show ?thesis using 2 merge_bit(2) [OF p(2) a(2)] by simp
  next
    case 3
    then show ?thesis using i l by (simp add: b_def SetReg_def Let_def nth_list_update)
  qed
  moreover have "?a \<le> n \<and> n < ?a + 6 \<longleftrightarrow>
      (?p = ?off \<and> ?fb \<le> ?s \<and> ?s < ?fb + 6) \<or> (?p = ?off + 1 \<and> 8 - ?fb + ?s < 6)"
    using window_cases [OF p(2) a(2), of ?off ?p] unfolding p(3) a(1) .
  moreover have "?p = ?off \<Longrightarrow> ?s - ?fb = n - ?a" "?p = ?off + 1 \<Longrightarrow> 8 - ?fb + ?s = n - ?a"
    using p a by linarith+
  ultimately show ?thesis unfolding lebit_def b_def [symmetric] by auto
qed

lemma SetReg_get:
  assumes "i < Registers" "j < Registers" "length regs = DenseSize"
  shows "GetReg (SetReg regs (int i) v) (int j) = (if j = i then v AND 0x3f else GetReg regs (int j))"
proof (rule bit_word_eqI)
  fix t
  assume "t < LENGTH(8)"
  show "bit (GetReg (SetReg regs (int i) v) (int j)) t \<longleftrightarrow>
      bit (if j = i then v AND 0x3f else GetReg regs (int j)) t"
  proof (cases "t < 6")
    case True
    have n: "j * RegBits + t < 8 * DenseSize"
      using assms(2) True by (simp add: RegBits_def)
    have "i * RegBits \<le> j * RegBits + t \<and> j * RegBits + t < i * RegBits + 6 \<longleftrightarrow> j = i"
      using True by (auto simp: RegBits_def)
    then show ?thesis
      using assms True by (auto simp: GetReg_bit SetReg_lebit [OF assms(1,3) n] bit_simps)
  next
    case False
    then show ?thesis using assms by (simp add: GetReg_bit bit_simps)
  qed
qed

lemma regs_eqI:
  assumes l: "length r = DenseSize" "length s = DenseSize"
    and eq: "\<And>i. i < Registers \<Longrightarrow> GetReg r (int i) = GetReg s (int i)"
  shows "r = s"
proof (rule nth_equalityI)
  show "length r = length s" using l by simp
  fix p
  assume "p < length r"
  then have p: "p < 12288" using l by simp
  show "r ! p = s ! p"
  proof (rule bit_word_eqI)
    fix t :: nat
    assume t: "t < LENGTH(8)"
    let ?n = "8 * p + t"
    have i: "?n div 6 < Registers" "?n mod 6 < 6" "?n div 6 * RegBits + ?n mod 6 = ?n"
      using p t by (simp_all add: RegBits_def less_mult_imp_div_less)
    have "lebit r ?n = lebit s ?n"
      using GetReg_bit [OF i(1) l(1), of "?n mod 6"] GetReg_bit [OF i(1) l(2), of "?n mod 6"] eq [OF i(1)] i
      by simp
    then show "bit (r ! p) t = bit (s ! p) t" using t by (simp add: lebit_def)
  qed
qed

section \<open>A sketch is a function of the set of items\<close>

lemma mod_idx: "0 \<le> hll_idx x" "hll_idx x < int Registers"
proof -
  have "uint (drop_bit 50 (mix64 (Hash64 x))) = uint (mix64 (Hash64 x)) div 2 ^ 50"
    by (simp add: uint_div_distrib drop_bit_eq_div)
  moreover have "uint (mix64 (Hash64 x)) < 2 ^ 64" using uint_lt2p [of "mix64 (Hash64 x)"] by simp
  ultimately show "hll_idx x < int Registers"
    unfolding hll_idx_def Precision_def by simp
qed (simp add: hll_idx_def)

lemma hll_rho_le: "hll_rho x \<le> 63"
  by (simp add: hll_rho_def Let_def)

lemma rho_word: "(of_nat (hll_rho x) :: 8 word) AND 0x3f = of_nat (hll_rho x)"
proof -
  have "of_nat (hll_rho x) AND (mask 6 :: 8 word) = of_nat (take_bit 6 (hll_rho x))"
    by (simp flip: take_bit_eq_mask add: take_bit_of_nat)
  then show ?thesis using hll_rho_le [of x] by (simp add: mask_eq_exp_minus_1 take_bit_nat_eq_self)
qed

text \<open>Every operation is a pointwise maximum on the registers.\<close>

lemma hll_Add_get:
  assumes "length regs = DenseSize" "x \<noteq> []" "j < Registers"
  shows "GetReg (hll_Add regs x) (int j) =
    (if int j = hll_idx x then max (GetReg regs (int j)) (of_nat (hll_rho x)) else GetReg regs (int j))"
proof -
  obtain i where i: "hll_idx x = int i" "i < Registers"
    using mod_idx [of x] by (metis nonneg_int_cases of_nat_less_iff)
  show ?thesis
    using assms SetReg_get [OF i(2) assms(3,1)] rho_word [of x]
    by (auto simp: hll_Add_def i(1) max_def)
qed

lemma length_hll_Add [simp]: "length (hll_Add regs x) = length regs"
  by (simp add: hll_Add_def)

lemma length_hll_New [simp]: "length hll_New = DenseSize"
  by (simp add: hll_New_def)

lemma hll_Add_empty [simp]: "hll_Add regs [] = regs"
  by (simp add: hll_Add_def)

lemma Max_insert_max:
  fixes u v :: "'a :: linorder"
  assumes "finite S"
  shows "Max (insert (max u v) S) = Max (insert u (insert v S))"
  using assms by (cases "S = {}") (simp_all add: max.assoc)

lemma length_fold_hll [simp]: "length (fold (\<lambda>x r. hll_Add r x) xs regs) = length regs"
  by (induction xs arbitrary: regs) simp_all

text \<open>The rank every register reaches: the largest of the items that fall into it.\<close>

lemma fold_hll_get:
  assumes "length regs = DenseSize" "j < Registers"
  shows "GetReg (fold (\<lambda>x r. hll_Add r x) xs regs) (int j) =
    Max (insert (GetReg regs (int j)) {of_nat (hll_rho x) | x. x \<in> set xs \<and> x \<noteq> [] \<and> hll_idx x = int j})"
  using assms
proof (induction xs arbitrary: regs)
  case (Cons a xs)
  let ?S = "\<lambda>xs. {of_nat (hll_rho x) :: 8 word | x. x \<in> set xs \<and> x \<noteq> [] \<and> hll_idx x = int j}"
  have fin: "finite (?S xs)" by simp
  have S: "?S (a # xs) = (if a \<noteq> [] \<and> hll_idx a = int j then insert (of_nat (hll_rho a)) (?S xs) else ?S xs)"
    by auto
  have M: "Max (insert (max u v) (?S xs)) = Max (insert u (insert v (?S xs)))" for u v
    by (rule Max_insert_max [OF fin])
  show ?case
    using Cons.IH [of "hll_Add regs a"] Cons.prems unfolding S
    by (cases "a = []") (auto simp: hll_Add_get M)
qed simp

text \<open>The sketch forgets order and repetition.\<close>

lemma hll_fold_cong:
  assumes "length regs = DenseSize" "set xs = set ys"
  shows "fold (\<lambda>x r. hll_Add r x) xs regs = fold (\<lambda>x r. hll_Add r x) ys regs"
  using assms by (intro regs_eqI) (simp_all add: fold_hll_get)

lemma hll_merge_fold:
  assumes "length src = DenseSize" "length dst = DenseSize" "n \<le> Registers" "j < Registers"
  defines "step \<equiv> \<lambda>i d. let b = GetReg src (int i)
                            in if GetReg d (int i) < b then SetReg d (int i) b else d"
  shows "length (fold step [0..<n] dst) = DenseSize \<and>
    GetReg (fold step [0..<n] dst) (int j) =
      (if j < n then max (GetReg dst (int j)) (GetReg src (int j)) else GetReg dst (int j))"
  using assms(3)
proof (induction n)
  case (Suc n)
  let ?d = "fold step [0..<n] dst"
  have IH: "length ?d = DenseSize"
    "GetReg ?d (int j) = (if j < n then max (GetReg dst (int j)) (GetReg src (int j)) else GetReg dst (int j))"
    using Suc by simp_all
  have "bit (GetReg src (int n)) t \<Longrightarrow> t < 6" for t
    using Suc.prems assms(1) by (simp add: GetReg_bit)
  then have "GetReg src (int n) AND 0x3f = GetReg src (int n)"
    by (intro bit_word_eqI) (auto simp: bit_simps)
  then show ?case
    using IH Suc.prems SetReg_get [of n j ?d "GetReg src (int n)"] assms(4)
    by (auto simp: step_def Let_def max_def)
qed (simp add: assms(2))

text \<open>Merging two sketches gives the sketch of the union of their items.\<close>

theorem hll_merge_union:
  "hll_merge (fold (\<lambda>x r. hll_Add r x) xs hll_New) (fold (\<lambda>x r. hll_Add r x) ys hll_New) =
     Inr (fold (\<lambda>x r. hll_Add r x) (xs @ ys) hll_New)"
proof -
  let ?f = "\<lambda>zs. fold (\<lambda>x r. hll_Add r x) zs"
  let ?S = "\<lambda>xs j. {of_nat (hll_rho x) :: 8 word | x. x \<in> set xs \<and> x \<noteq> [] \<and> hll_idx x = int j}"
  have zero: "GetReg hll_New (int j) = 0" for j
    using byte_range(1) [of j] by (simp add: GetReg_def Let_def hll_New_def)
  have "fold (\<lambda>i d. let b = GetReg (?f ys hll_New) (int i)
              in if GetReg d (int i) < b then SetReg d (int i) b else d) [0..<Registers] (?f xs hll_New) =
      ?f (xs @ ys) hll_New" (is "?l = _")
  proof (rule regs_eqI)
    fix j
    assume j: "j < Registers"
    have fin: "finite (?S zs j)" for zs by simp
    have un: "?S (xs @ ys) j = ?S xs j \<union> ?S ys j" by auto
    have "GetReg ?l (int j) = max (Max (insert 0 (?S xs j))) (Max (insert 0 (?S ys j)))"
      using hll_merge_fold [of "?f ys hll_New" "?f xs hll_New" Registers j] j
      by (simp add: fold_hll_get zero)
    also have "\<dots> = Max (insert 0 (?S xs j) \<union> insert 0 (?S ys j))"
      using fin by (intro Max_Un [symmetric]) auto
    also have "insert 0 (?S xs j) \<union> insert 0 (?S ys j) = insert 0 (?S (xs @ ys) j)"
      unfolding un by blast
    finally show "GetReg ?l (int j) = GetReg (?f (xs @ ys) hll_New) (int j)"
      using j fold_hll_get [of hll_New j "xs @ ys"] by (simp only: zero length_hll_New)
  next
    show "length ?l = DenseSize"
      using hll_merge_fold [of "?f ys hll_New" "?f xs hll_New" Registers 0] by simp
  qed simp
  then show ?thesis unfolding hll_merge_def by simp
qed

section \<open>Store operations\<close>

text \<open>Results of an addition are \<open>(applied, tooLarge)\<close>.\<close>

definition insertHLLLocked :: "time \<Rightarrow> bytes \<Rightarrow> entry \<Rightarrow> memory \<Rightarrow> bool \<times> memory" where
  "insertHLLLocked now k ent m =
     (let m' = evictLocked now (pushFront k (mkItem k ent (entryCost k ent)) m) in (has k m', m'))"

definition hllCommitLocked ::
    "time \<Rightarrow> bytes \<Rightarrow> lru_item \<Rightarrow> bytes \<Rightarrow> bytes \<Rightarrow> u64 \<Rightarrow> time \<Rightarrow> memory \<Rightarrow> (bool \<times> bool) \<times> memory" where
  "hllCommitLocked now k it cur item stored_v expireAt m =
     (let work = (if length cur = DenseSize then hll_Add cur item else hll_Add hll_New item);
          e' = \<lparr>Value = work, Version = stored_v,
                ExpireAt = (if expireAt \<noteq> 0 then expireAt else ExpireAt (entry it)), Flags = FlagHLL\<rparr>;
          m' = commitEntry now k it e' m
      in ((has k m', False), m'))"

definition hllInsertLocked :: "time \<Rightarrow> bytes \<Rightarrow> bytes \<Rightarrow> u64 \<Rightarrow> time \<Rightarrow> memory \<Rightarrow> (bool \<times> bool) \<times> memory" where
  "hllInsertLocked now k item stored_v expireAt m =
     (case insertHLLLocked now k
         \<lparr>Value = hll_Add hll_New item, Version = stored_v, ExpireAt = expireAt, Flags = FlagHLL\<rparr> m of
        (ok, m') \<Rightarrow> ((ok, False), m'))"

definition HLLAdd ::
    "time \<Rightarrow> bytes \<Rightarrow> bytes \<Rightarrow> u64 \<Rightarrow> time \<Rightarrow> int \<Rightarrow> memory \<Rightarrow> (bool \<times> bool) \<times> memory" where
  "HLLAdd now k item version expireAt maxValue m =
     (if 0 < maxValue \<and> maxValue < int DenseSize then ((False, True), m)
      else
        case items m k of
          None \<Rightarrow> hllInsertLocked now k item 1 expireAt m
        | Some it \<Rightarrow>
            if \<not> Expired (entry it) now then
              if IsTombstone (entry it) then
                if version \<le> Version (entry it) then ((False, False), skipStale m)
                else hllCommitLocked now k it [] item (Version (entry it) + 1) expireAt m
              else if \<not> IsHLL (entry it) then ((False, False), m)
              else hllCommitLocked now k it (Value (entry it)) item (Version (entry it) + 1) expireAt m
            else hllInsertLocked now k item 1 expireAt (removeElement k m))"

definition hasHLLLocked :: "time \<Rightarrow> bytes \<Rightarrow> memory \<Rightarrow> bool \<times> memory" where
  "hasHLLLocked now k m =
     (case items m k of
        None \<Rightarrow> (False, m)
      | Some it \<Rightarrow>
          if Expired (entry it) now then (False, removeElement k m)
          else (\<not> IsTombstone (entry it) \<and> IsHLL (entry it), m))"

definition HasHLL :: "time \<Rightarrow> bytes \<Rightarrow> memory \<Rightarrow> bool \<times> memory" where
  "HasHLL now k m = hasHLLLocked now k m"

definition HLLCount :: "fpu \<Rightarrow> time \<Rightarrow> bytes \<Rightarrow> memory \<Rightarrow> u64 option \<times> memory" where
  "HLLCount fp now k m =
     (case hasHLLLocked now k m of
        (False, m') \<Rightarrow> (None, m')
      | (True, m') \<Rightarrow> (map_option (\<lambda>it. hll_Count fp (Value (entry it))) (items m' k), m'))"

definition HLLInstall :: "time \<Rightarrow> bytes \<Rightarrow> bytes \<Rightarrow> u64 \<Rightarrow> time \<Rightarrow> memory \<Rightarrow> bool \<times> memory" where
  "HLLInstall now k blob version expireAt m =
     (if length blob \<noteq> DenseSize then (False, m) else
      let ent = \<lparr>Value = blob, Version = version, ExpireAt = expireAt, Flags = FlagHLL\<rparr> in
      case items m k of
        None \<Rightarrow> insertHLLLocked now k ent m
      | Some it \<Rightarrow>
          if \<not> Expired (entry it) now then
            if IsTombstone (entry it) then
              if version \<le> Version (entry it) then (False, skipStale m)
              else insertHLLLocked now k ent (removeElement k m)
            else if IsHLL (entry it) then
              if version \<le> Version (entry it) then (False, skipStale m)
              else insertHLLLocked now k ent (removeElement k m)
            else if version \<le> Version (entry it) then (False, m)
            else insertHLLLocked now k ent (removeElement k m)
          else insertHLLLocked now k ent (removeElement k m))"

interpretation hl: blob_store FlagHLL "\<lambda>b. length b = DenseSize" insertHLLLocked HLLInstall
    "same_kind FlagHLL"
proof (unfold_locales, goal_cases)
  case (5 now k e m)
  show ?case by (simp add: insertHLLLocked_def)
next
  case (6 now k blob v ex m)
  show ?case
    by (cases "items m k") (simp_all add: HLLInstall_def Let_def Is_defs)
qed (simp_all add: plain_def lru_pinned_def flag_simps)

lemma hll_flags: "\<forall>f \<in> cached_flags. f AND FlagHLL = 0"
  by (simp add: cached_flags_def Flag_defs)

section \<open>Functional behaviour\<close>

lemma HLLCount_at:
  assumes "mem_wf m"
  shows "fst (HLLCount fp now k m) = map_option (\<lambda>e. hll_Count fp (Value e)) (live_entry FlagHLL now m k)"
proof (cases "items m k")
  case None
  then show ?thesis by (simp add: HLLCount_def hasHLLLocked_def live_entry_def view_def)
next
  case (Some it)
  then show ?thesis
    using live_entry_item [OF assms Some hll_flags, of now]
    by (auto simp: HLLCount_def hasHLLLocked_def Is_defs)
qed

text \<open>The checks of HLLAdd and its effect on a value, for the contract of local writes. The
  argument is the item and the value limit.\<close>

definition hll_pre :: "bytes \<times> int \<Rightarrow> (bool \<times> bool) option" where
  "hll_pre a = (if 0 < snd a \<and> snd a < int DenseSize then Some (False, True) else None)"

definition hll_app :: "bytes option \<Rightarrow> bytes \<times> int \<Rightarrow> bool + bytes" where
  "hll_app s a =
     Inr (hll_Add (case s of None \<Rightarrow> hll_New | Some b \<Rightarrow> if length b = DenseSize then b else hll_New) (fst a))"

interpretation hla: local_blob FlagHLL hll_pre hll_app
    "\<lambda>now k a v ex m. HLLAdd now k (fst a) v ex (snd a) m"
proof (unfold_locales, goal_cases)
  case (5 e now)
  then show ?case by (rule hl.flag_pinned)
next
  case (7 now k a v ex m)
  show ?case
    by (cases "items m k")
      (simp_all add: HLLAdd_def hllInsertLocked_def hllCommitLocked_def insertHLLLocked_def hll_pre_def
        hll_app_def Let_def Is_defs)
qed (auto simp: plain_def flag_simps hll_pre_def cached_flags_def Flag_defs split: if_splits)

lemma hll_astep:
  assumes "\<forall>a \<in> set as. hll_pre a = None" "as \<noteq> []"
  shows "fold hla.astep as None = Some (fold (\<lambda>x r. hll_Add r x) (map fst as) hll_New)"
proof -
  have "fold hla.astep bs (Some r) = Some (fold (\<lambda>x r. hll_Add r x) (map fst bs) r)"
    if "length r = DenseSize" "\<forall>a \<in> set bs. hll_pre a = None" for bs r
    using that by (induction bs arbitrary: r) (simp_all add: hla.astep_def hll_app_def)
  then show ?thesis using assms by (cases as) (simp_all add: hla.astep_def hll_app_def)
qed

text \<open>C29. What HLLCount answers depends only on the set of items added: two stores of any
  byte limits that receive the same items, in their own orders, at their own times, with
  any repetitions and versions, answer the same estimate, the one of the sketch of
  those items.\<close>

theorem HLLCount_of_items:
  fixes as bs :: "(time \<times> (bytes \<times> int) \<times> u64) list"
  defines "run \<equiv> \<lambda>cs m k. fold (\<lambda>(now, a, v) m. snd (HLLAdd now k (fst a) v 0 (snd a) m)) cs m"
  assumes mv: "\<forall>(t, a, v) \<in> set as \<union> set bs. snd a \<le> 0 \<or> 12288 \<le> snd a"
    and ne: "as \<noteq> []" and same: "(\<lambda>(t, a, v). fst a) ` set as = (\<lambda>(t, a, v). fst a) ` set bs"
  shows "fst (HLLCount fp now k (run as (NewMemory mx ttl) k)) =
           Some (hll_Count fp (fold (\<lambda>x r. hll_Add r x) (map (\<lambda>(t, a, v). fst a) as) hll_New)) \<and>
         fst (HLLCount fp now' k (run bs (NewMemory mx' ttl') k)) =
           fst (HLLCount fp now k (run as (NewMemory mx ttl) k))"
proof -
  have cnt: "fst (HLLCount fp t k (run cs (NewMemory n d) k)) =
      Some (hll_Count fp (fold (\<lambda>x r. hll_Add r x) (map (\<lambda>(t, a, v). fst a) cs) hll_New))"
    if "\<forall>(t, a, v) \<in> set cs. snd a \<le> 0 \<or> 12288 \<le> snd a" "cs \<noteq> []" for t cs n d
  proof -
    have "fold hla.astep (map (fst \<circ> snd) cs) None =
        Some (fold (\<lambda>x r. hll_Add r x) (map (\<lambda>(t, a, v). fst a) cs) hll_New)"
    proof -
      have "\<forall>a \<in> set (map (fst \<circ> snd) cs). hll_pre a = None"
        using that(1) by (auto simp: hll_pre_def)
      from hll_astep [OF this] that(2) show ?thesis by (simp add: comp_def case_prod_unfold)
    qed
    moreover have tr: "hla.tracks k (fold hla.astep (map (fst \<circ> snd) cs) None) (run cs (NewMemory n d) k)"
      unfolding run_def by (rule hla.tracks_run) simp
    ultimately show ?thesis
      using hla.tracks_live [OF tr, of t] hla.tracks_base(3) [OF tr] by (auto simp: HLLCount_at)
  qed
  have eq: "fold (\<lambda>x r. hll_Add r x) (map (\<lambda>(t, a, v). fst a) as) hll_New =
      fold (\<lambda>x r. hll_Add r x) (map (\<lambda>(t, a, v). fst a) bs) hll_New"
    using same by (intro hll_fold_cong) simp_all
  have "bs \<noteq> []" using ne same by auto
  then show ?thesis using cnt [of as] cnt [of bs] mv ne eq by simp
qed

theorem HLLCount_of_items_witness:
  "fst (HLLCount zero_fpu 9 [1] (snd (HLLAdd 1 [1] [6] 1 0 0 (snd (HLLAdd 0 [1] [5] 1 0 0 (NewMemory 10 0)))))) =
     Some 0"
  using HLLCount_of_items [of "[(0, ([5], 0), 1), (1, ([6], 0), 1)]" "[(0, ([6], 0), 1), (1, ([5], 0), 1)]"
      zero_fpu 9 "[1]" 10 0]
  by (auto simp: hll_Count_def zero_fpu_def insert_commute)

text \<open>HLLAdd decides its answer before it changes anything: below the size of a sketch the
  value limit refuses every addition without a change, and otherwise an addition to a key
  that is absent, expired, a sketch or an older tombstone always applies.\<close>

theorem HLLAdd_total:
  assumes wf: "mem_wf m" and ex: "ex = 0 \<or> now < ex"
    and ok: "view m k = None \<or> (\<exists>e. view m k = Some e \<and>
      (Expired e now \<or> (if IsTombstone e then Version e < v else IsHLL e)))"
  shows "if 0 < mv \<and> mv < 12288 then HLLAdd now k x v ex mv m = ((False, True), m)
         else fst (HLLAdd now k x v ex mv m) = (True, False) \<and>
              mem_wf (snd (HLLAdd now k x v ex mv m))"
proof -
  have "hla.writable now v m k" using ok by (auto simp: hla.writable_def IsHLL_def)
  then show ?thesis
    using hla.add_applies(1) [OF wf, of "(x, mv)" now v k _ ex] hla.add_wf [OF wf, of now k "(x, mv)" v ex] ex
    by (auto simp: hll_pre_def hll_app_def HLLAdd_def)
qed

theorem HLLAdd_total_witness: "fst (HLLAdd 0 [1] [5] 1 0 12288 (NewMemory 10 0)) = (True, False)"
  using HLLAdd_total [of "NewMemory 10 0" 0 0 "[1]" 1 12288 "[5]"] by simp

end
