(* ===== verification/StoreCMS.thy ===== *)
theory StoreCMS
  imports LocalBlobs
begin

text \<open>
  Count-min sketches: \<open>pkg/cmsx/cmsx.go\<close> and \<open>pkg/store/cms.go\<close>. A sketch is four
  rows of 2048 little-endian 64-bit cells.
\<close>

section \<open>The sketch\<close>

definition Depth :: nat where "Depth = 4"
definition Width :: nat where "Width = 2048"
definition CellBytes :: nat where "CellBytes = 8"
definition CMSSize :: nat where "CMSSize = Depth * Width * CellBytes"

lemma cms_sizes [simp]: "Depth = 4" "Width = 2048" "CellBytes = 8" "CMSSize = 65536"
  by (simp_all add: Depth_def Width_def CellBytes_def CMSSize_def)

datatype cms_err = ErrSize | ErrEmpty | ErrOverflow | ErrInbox

definition cms_New :: bytes where
  "cms_New = replicate CMSSize 0"

definition cms_mix64 :: "u64 \<Rightarrow> u64" where
  "cms_mix64 x0 =
     (let x1 = x0 XOR drop_bit 30 x0; x2 = x1 * 0xbf58476d1ce4e5b9;
          x3 = x2 XOR drop_bit 27 x2; x4 = x3 * 0x94d049bb133111eb
      in x4 XOR drop_bit 31 x4)"

definition cms_Hash64 :: "bytes \<Rightarrow> u64" where
  "cms_Hash64 item = fold (\<lambda>c h. (h XOR ucast c) * prime64) item offset64"

definition cms_delta :: "u64 \<Rightarrow> u64" where
  "cms_delta n = (if n = 0 then 1 else n)"

text \<open>The column of an item in row \<open>i\<close>.\<close>

definition columns :: "bytes \<Rightarrow> nat \<Rightarrow> u64" where
  "columns item i =
     (let x = cms_mix64 (cms_Hash64 item); h1 = drop_bit 32 x; h2 = (x AND 0xffffffff) OR 1
      in (h1 + of_nat i * h2) AND (of_nat Width - 1))"

definition cellOff :: "nat \<Rightarrow> u64 \<Rightarrow> nat" where
  "cellOff row col = unat ((of_nat row * of_nat Width + col) * of_nat CellBytes)"

text \<open>Reading and writing eight bytes in place.\<close>

definition get64 :: "bytes \<Rightarrow> nat \<Rightarrow> u64" where
  "get64 b off = Uint64LE (drop off b)"

definition put64 :: "nat \<Rightarrow> u64 \<Rightarrow> bytes \<Rightarrow> bytes" where
  "put64 off v b = take off b @ PutUint64LE v @ drop (off + 8) b"

definition cms_Incr :: "bytes \<Rightarrow> bytes \<Rightarrow> u64 \<Rightarrow> cms_err + bytes" where
  "cms_Incr sketch item n =
     (if length sketch \<noteq> CMSSize then Inl ErrSize
      else if item = [] then Inl ErrEmpty
      else
        let d = cms_delta n; off = (\<lambda>i. cellOff i (columns item i)) in
        if list_ex (\<lambda>i. - 1 - d < get64 sketch (off i)) [0..<Depth] then Inl ErrOverflow
        else Inr (fold (\<lambda>i s. put64 (off i) (get64 s (off i) + d) s) [0..<Depth] sketch))"

definition cms_Query :: "bytes \<Rightarrow> bytes \<Rightarrow> u64" where
  "cms_Query sketch item =
     (if length sketch \<noteq> CMSSize \<or> item = [] then 0
      else fold (\<lambda>i mn. let v = get64 sketch (cellOff i (columns item i)) in if v < mn then v else mn)
             [0..<Depth] (- 1))"

definition EncodeInbox :: "u64 \<Rightarrow> bytes \<Rightarrow> cms_err + bytes" where
  "EncodeInbox n item =
     (if item = [] then Inl ErrEmpty else Inr (PutUvarint (cms_delta n) @ item))"

definition DecodeInbox :: "bytes \<Rightarrow> cms_err + u64 \<times> bytes" where
  "DecodeInbox b =
     (case Uvarint b of (n, k) \<Rightarrow>
        if k \<le> 0 then Inl ErrInbox
        else let item = drop (nat k) b in if item = [] then Inl ErrEmpty else Inr (n, item))"

section \<open>Cells\<close>

definition cms_idx :: "bytes \<Rightarrow> nat \<Rightarrow> nat" where
  "cms_idx item i = i * 2048 + unat (columns item i)"

definition cell :: "bytes \<Rightarrow> nat \<Rightarrow> u64" where
  "cell s j = get64 s (8 * j)"

lemma columns_less: "unat (columns item i) < 2048"
proof -
  have "columns item i = take_bit 11 (columns item i)"
    by (simp add: columns_def Let_def take_bit_eq_mask mask_eq_exp_minus_1 and.assoc)
  then have "unat (columns item i) = take_bit 11 (unat (columns item i))"
    by (metis unsigned_take_bit_eq)
  then show ?thesis using take_bit_nat_less_exp [of 11 "unat (columns item i)"] by simp
qed

lemma cellOff_idx:
  assumes "i < 4"
  shows "cellOff i (columns item i) = 8 * cms_idx item i"
proof -
  have "of_nat i * of_nat Width + columns item i = (of_nat (cms_idx item i) :: u64)"
    by (simp add: cms_idx_def)
  then have "cellOff i (columns item i) = unat (of_nat (cms_idx item i * 8) :: u64)"
    by (simp add: cellOff_def)
  moreover have "unat (of_nat n :: u64) = n" if "n < 2 ^ 64" for n
    using that by (simp add: unsigned_of_nat take_bit_nat_eq_self)
  moreover have "cms_idx item i * 8 < 2 ^ 64"
    using assms columns_less [of item i] by (simp add: cms_idx_def)
  ultimately show ?thesis by (simp only: mult.commute)
qed

lemma cms_idx_less: "i < 4 \<Longrightarrow> cms_idx item i < 8192"
  using columns_less [of item i] by (simp add: cms_idx_def)

lemma cms_idx_inj: "cms_idx item i = cms_idx item j \<Longrightarrow> i = j"
  using columns_less [of item i] columns_less [of item j] by (simp add: cms_idx_def)

lemma Uint64LE_take: "Uint64LE (take 8 b) = Uint64LE b"
  by (simp add: Uint64LE_def)

lemma length_put64 [simp]: "off + 8 \<le> length b \<Longrightarrow> length (put64 off v b) = length b"
  by (simp add: put64_def)

lemma cell_put64:
  assumes "length s = 65536" "j < 8192" "n < 8192"
  shows "cell (put64 (8 * n) v s) j = (if j = n then v else cell s j)"
proof -
  consider "j = n" | "j < n" | "n < j" by linarith
  then show ?thesis
  proof cases
    case 1
    then show ?thesis using assms by (simp add: cell_def get64_def put64_def codec_simps)
  next
    case 2
    then have "8 \<le> 8 * n - 8 * j" by simp
    with 2 have "take 8 (drop (8 * j) (put64 (8 * n) v s)) = take 8 (drop (8 * j) s)"
      using assms by (simp add: put64_def drop_take min_def)
    then show ?thesis using 2 unfolding cell_def get64_def by (metis Uint64LE_take less_irrefl)
  next
    case 3
    then have "drop (8 * j) (put64 (8 * n) v s) = drop (8 * j) s"
      using assms by (simp add: put64_def)
    then show ?thesis using 3 by (simp add: cell_def get64_def)
  qed
qed

lemma incr_fold:
  fixes x :: bytes
  assumes "length s = 65536" "n \<le> 4"
  defines "off \<equiv> \<lambda>i. cellOff i (columns x i)"
  shows "length (fold (\<lambda>i s. put64 (off i) (get64 s (off i) + d) s) [0..<n] s) = 65536 \<and>
    (\<forall>j < 8192. cell (fold (\<lambda>i s. put64 (off i) (get64 s (off i) + d) s) [0..<n] s) j =
       (if \<exists>i < n. j = cms_idx x i then cell s j + d else cell s j))"
  using assms(2)
proof (induction n)
  case (Suc n)
  let ?f = "fold (\<lambda>i s. put64 (off i) (get64 s (off i) + d) s) [0..<n] s"
  have len: "length ?f = 65536"
    and cells: "\<And>j. j < 8192 \<Longrightarrow> cell ?f j = (if \<exists>i < n. j = cms_idx x i then cell s j + d else cell s j)"
    using Suc by auto
  have n: "off n = 8 * cms_idx x n" "cms_idx x n < 8192"
    using Suc.prems cellOff_idx [of n x] cms_idx_less [of n x] by (simp_all add: off_def)
  have new: "\<not> (\<exists>i < n. cms_idx x n = cms_idx x i)" using cms_idx_inj by blast
  have "cell (put64 (off n) (get64 ?f (off n) + d) ?f) j =
      (if \<exists>i < Suc n. j = cms_idx x i then cell s j + d else cell s j)" if "j < 8192" for j
  proof (cases "j = cms_idx x n")
    case True
    have "get64 ?f (off n) = cell s (cms_idx x n)" using cells [OF n(2)] new by (simp add: n cell_def)
    moreover have "\<exists>i < Suc n. j = cms_idx x i" using True by blast
    ultimately show ?thesis using True cell_put64 [OF len that n(2)] by (simp only: n if_True simp_thms)
  next
    case False
    then have "(\<exists>i < Suc n. j = cms_idx x i) \<longleftrightarrow> (\<exists>i < n. j = cms_idx x i)" by (auto simp: less_Suc_eq)
    then show ?thesis using cells [OF that] False by (simp add: n cell_put64 [OF len that n(2)])
  qed
  then show ?case using len n by simp
qed (simp add: assms(1))

lemma cms_Incr_cells:
  assumes "cms_Incr s x n = Inr s'"
  shows "length s = 65536" "length s' = 65536" "x \<noteq> []"
    and "j < 8192 \<Longrightarrow> cell s' j = (if \<exists>i < 4. j = cms_idx x i then cell s j + cms_delta n else cell s j)"
    and "i < 4 \<Longrightarrow> unat (cell s (cms_idx x i) + cms_delta n) = unat (cell s (cms_idx x i)) + unat (cms_delta n)"
proof -
  show l: "length s = 65536" "x \<noteq> []"
    using assms by (auto simp: cms_Incr_def split: if_splits)
  have s': "s' = fold (\<lambda>i s. put64 (cellOff i (columns x i)) (get64 s (cellOff i (columns x i)) + cms_delta n) s) [0..<4] s"
    and no: "\<And>i. i < 4 \<Longrightarrow> \<not> - 1 - cms_delta n < get64 s (cellOff i (columns x i))"
    using assms by (auto simp: cms_Incr_def Let_def list_ex_iff split: if_splits)
  show "length s' = 65536" using incr_fold [OF l(1), of 4 x "cms_delta n"] by (simp only: s')
  show "j < 8192 \<Longrightarrow> cell s' j = (if \<exists>i < 4. j = cms_idx x i then cell s j + cms_delta n else cell s j)"
    using incr_fold [OF l(1), of 4 x "cms_delta n"] by (simp only: s')
  assume i: "i < 4"
  have "cell s (cms_idx x i) \<le> - 1 - cms_delta n"
    using no [OF i] by (simp add: cellOff_idx [OF i] cell_def not_less)
  then have "unat (cell s (cms_idx x i)) \<le> unat (- 1 - cms_delta n)" by (simp add: word_le_nat_alt)
  also have "\<dots> = unat (- 1 :: u64) - unat (cms_delta n)" by (rule unat_sub) simp
  also have "unat (- 1 :: u64) = 2 ^ 64 - 1" by (simp add: unsigned_minus_1_eq_mask mask_eq_exp_minus_1)
  finally have "unat (cell s (cms_idx x i)) + unat (cms_delta n) < 2 ^ LENGTH(64)"
    using unsigned_less [of "cms_delta n", where 'a = nat] by simp
  then show "unat (cell s (cms_idx x i) + cms_delta n) = unat (cell s (cms_idx x i)) + unat (cms_delta n)"
    by (rule unat_add_lem [THEN iffD1])
qed

lemma fold_min:
  fixes g :: "nat \<Rightarrow> u64"
  shows "q \<le> fold (\<lambda>i mn. let v = g i in if v < mn then v else mn) is a \<longleftrightarrow> (\<forall>i \<in> set is. q \<le> g i) \<and> q \<le> a"
  by (induction "is" arbitrary: a) (auto simp: Let_def not_less)

lemma cms_Query_ge:
  assumes "length s = 65536" "x \<noteq> []"
  shows "q \<le> cms_Query s x \<longleftrightarrow> (\<forall>i < 4. q \<le> cell s (cms_idx x i))"
proof -
  have "(\<forall>i \<in> {0..<4}. q \<le> get64 s (cellOff i (columns x i))) \<longleftrightarrow> (\<forall>i < 4. q \<le> cell s (cms_idx x i))"
    by (auto simp: cellOff_idx cell_def)
  then show ?thesis using assms by (simp add: cms_Query_def fold_min)
qed

lemma fold_min_mem:
  fixes g :: "nat \<Rightarrow> u64"
  shows "fold (\<lambda>i mn. let v = g i in if v < mn then v else mn) is a \<in> insert a (g ` set is)"
proof (induction "is" arbitrary: a)
  case (Cons i "is")
  show ?case using Cons [of a] Cons [of "g i"] by (cases "g i < a") (auto simp: Let_def)
qed simp

lemma cms_Query_attained:
  assumes "length s = 65536" "x \<noteq> []"
  obtains i where "i < 4" "cms_Query s x = cell s (cms_idx x i)"
proof -
  let ?q = "cms_Query s x"
  have "?q \<in> insert (- 1) ((\<lambda>i. get64 s (cellOff i (columns x i))) ` set [0..<4])"
    using assms fold_min_mem [of "\<lambda>i. get64 s (cellOff i (columns x i))" "[0..<4]" "- 1"]
    by (simp only: cms_Query_def cms_sizes) simp
  then consider "?q = - 1" | i where "i < 4" "?q = get64 s (cellOff i (columns x i))" by auto
  then show thesis
  proof cases
    case 1
    moreover have "?q \<le> cell s (cms_idx x 0)" using cms_Query_ge [OF assms, of ?q] by simp
    ultimately show thesis using that [of 0] by (metis word_n1_ge order_antisym zero_less_numeral)
  next
    case 2
    then show thesis using that by (simp add: cellOff_idx cell_def)
  qed
qed

section \<open>Estimates\<close>

lemma get64_New: "get64 cms_New off = 0"
proof -
  have "foldr (\<lambda>x acc. ucast (x :: byte) OR push_bit 8 acc) (replicate n 0) (0 :: u64) = 0" for n
    by (induction n) simp_all
  then show ?thesis by (simp add: get64_def cms_New_def Uint64LE_def del: cms_sizes)
qed

lemma cms_New_ok:
  assumes "x \<noteq> []"
  shows "cms_Query cms_New x = 0" "\<exists>s. cms_Incr cms_New x n = Inr s"
proof -
  have l: "length cms_New = 65536" by (simp add: cms_New_def)
  obtain i where "cms_Query cms_New x = cell cms_New (cms_idx x i)"
    by (rule cms_Query_attained [OF l assms])
  then show "cms_Query cms_New x = 0" by (simp add: cell_def get64_New)
  show "\<exists>s. cms_Incr cms_New x n = Inr s"
    using assms l by (simp add: cms_Incr_def get64_New Let_def list_ex_iff)
qed

text \<open>A successful increment raises the estimate of its item by exactly the increment, and
  any other estimate by at most that, without wrap-around.\<close>

lemma cms_Incr_Query:
  assumes inc: "cms_Incr s x n = Inr s'" and y: "y \<noteq> []"
  shows "unat (cms_Query s' x) = unat (cms_Query s x) + unat (cms_delta n) \<and>
    unat (cms_Query s y) \<le> unat (cms_Query s' y) \<and>
    unat (cms_Query s' y) \<le> unat (cms_Query s y) + unat (cms_delta n)"
proof -
  note c = cms_Incr_cells [OF inc]
  have own: "unat (cell s' (cms_idx x i)) = unat (cell s (cms_idx x i)) + unat (cms_delta n)" if "i < 4" for i
    using c(4) [OF cms_idx_less [OF that]] c(5) [OF that] that by (metis (full_types))
  have any: "unat (cell s j) \<le> unat (cell s' j) \<and> unat (cell s' j) \<le> unat (cell s j) + unat (cms_delta n)"
    if "j < 8192" for j
    using c(4) [OF that] c(5) by (cases "\<exists>i < 4. j = cms_idx x i") auto
  have low: "unat (cms_Query r z) \<le> unat (cell r (cms_idx z i))" if "length r = 65536" "z \<noteq> []" "i < 4" for r z i
    using cms_Query_ge [OF that(1,2), of "cms_Query r z"] that(3) by (simp add: word_le_nat_alt)
  obtain i where i: "i < 4" "cms_Query s x = cell s (cms_idx x i)" by (rule cms_Query_attained [OF c(1,3)])
  obtain i' where i': "i' < 4" "cms_Query s' x = cell s' (cms_idx x i')" by (rule cms_Query_attained [OF c(2,3)])
  obtain j where j: "j < 4" "cms_Query s y = cell s (cms_idx y j)" by (rule cms_Query_attained [OF c(1) y])
  obtain j' where j': "j' < 4" "cms_Query s' y = cell s' (cms_idx y j')" by (rule cms_Query_attained [OF c(2) y])
  have "unat (cms_Query s' x) = unat (cms_Query s x) + unat (cms_delta n)"
    using own [OF i(1)] own [OF i'(1)] low [OF c(1,3) i'(1)] low [OF c(2,3) i(1)]
    unfolding i(2) i'(2) by linarith
  moreover have "unat (cms_Query s y) \<le> unat (cms_Query s' y)"
    using any [OF cms_idx_less [OF j'(1)]] low [OF c(1) y j'(1)] unfolding j'(2) by (metis order_trans)
  moreover have "unat (cms_Query s' y) \<le> unat (cms_Query s y) + unat (cms_delta n)"
    using any [OF cms_idx_less [OF j(1)]] low [OF c(2) y j(1)] unfolding j(2) by (metis order_trans)
  ultimately show ?thesis by blast
qed

section \<open>Store operations\<close>

definition insertCMSLocked :: "time \<Rightarrow> bytes \<Rightarrow> entry \<Rightarrow> memory \<Rightarrow> bool \<times> memory" where
  "insertCMSLocked now k ent m =
     (let m' = evictLocked now (pushFront k (mkItem k ent (entryCost k ent)) m) in (has k m', m'))"

text \<open>Results of an increment are \<open>(applied, tooLarge)\<close>.\<close>

definition cmsCommitLocked ::
    "time \<Rightarrow> bytes \<Rightarrow> lru_item \<Rightarrow> bytes \<Rightarrow> u64 \<Rightarrow> u64 \<Rightarrow> time \<Rightarrow> memory \<Rightarrow> (bool \<times> bool) \<times> memory" where
  "cmsCommitLocked now k it item n stored_v expireAt m =
     (if length (Value (entry it)) \<noteq> CMSSize then ((False, False), m)
      else case cms_Incr (Value (entry it)) item n of
        Inl err \<Rightarrow> ((False, False), m)
      | Inr blob \<Rightarrow>
          let e' = \<lparr>Value = blob, Version = stored_v,
                    ExpireAt = (if expireAt \<noteq> 0 then expireAt else ExpireAt (entry it)), Flags = FlagCMS\<rparr>;
              m' = commitEntry now k it e' m
          in ((has k m', False), m'))"

definition cmsInsertOverLocked ::
    "time \<Rightarrow> bytes \<Rightarrow> lru_item \<Rightarrow> bytes \<Rightarrow> u64 \<Rightarrow> u64 \<Rightarrow> time \<Rightarrow> memory \<Rightarrow> (bool \<times> bool) \<times> memory" where
  "cmsInsertOverLocked now k it item n stored_v expireAt m =
     (case cms_Incr cms_New item n of
        Inl err \<Rightarrow> ((False, False), m)
      | Inr blob \<Rightarrow>
          let e' = \<lparr>Value = blob, Version = stored_v,
                    ExpireAt = (if expireAt \<noteq> 0 then expireAt else ExpireAt (entry it)), Flags = FlagCMS\<rparr>;
              m' = commitEntry now k it e' m
          in ((has k m', False), m'))"

definition cmsInsertLocked ::
    "time \<Rightarrow> bytes \<Rightarrow> bytes \<Rightarrow> u64 \<Rightarrow> u64 \<Rightarrow> time \<Rightarrow> memory \<Rightarrow> (bool \<times> bool) \<times> memory" where
  "cmsInsertLocked now k item n stored_v expireAt m =
     (case cms_Incr cms_New item n of
        Inl err \<Rightarrow> ((False, False), m)
      | Inr blob \<Rightarrow>
          (case insertCMSLocked now k
              \<lparr>Value = blob, Version = stored_v, ExpireAt = expireAt, Flags = FlagCMS\<rparr> m of
             (ok, m') \<Rightarrow> ((ok, False), m')))"

definition CMSIncr ::
    "time \<Rightarrow> bytes \<Rightarrow> bytes \<Rightarrow> u64 \<Rightarrow> u64 \<Rightarrow> time \<Rightarrow> int \<Rightarrow> memory \<Rightarrow> (bool \<times> bool) \<times> memory" where
  "CMSIncr now k item n version expireAt maxValue m =
     (if item = [] then ((False, False), m)
      else if 0 < maxValue \<and> maxValue < int CMSSize then ((False, True), m)
      else
        case items m k of
          None \<Rightarrow> cmsInsertLocked now k item n 1 expireAt m
        | Some it \<Rightarrow>
            if \<not> Expired (entry it) now then
              if IsTombstone (entry it) then
                if version \<le> Version (entry it) then ((False, False), skipStale m)
                else cmsInsertOverLocked now k it item n (Version (entry it) + 1) expireAt m
              else if \<not> IsCMS (entry it) then ((False, False), m)
              else cmsCommitLocked now k it item n (Version (entry it) + 1) expireAt m
            else cmsInsertLocked now k item n 1 expireAt (removeElement k m))"

definition hasCMSLocked :: "time \<Rightarrow> bytes \<Rightarrow> memory \<Rightarrow> bool \<times> memory" where
  "hasCMSLocked now k m =
     (case items m k of
        None \<Rightarrow> (False, m)
      | Some it \<Rightarrow>
          if Expired (entry it) now then (False, removeElement k m)
          else (\<not> IsTombstone (entry it) \<and> IsCMS (entry it), m))"

definition HasCMS :: "time \<Rightarrow> bytes \<Rightarrow> memory \<Rightarrow> bool \<times> memory" where
  "HasCMS now k m = hasCMSLocked now k m"

definition CMSQuery :: "time \<Rightarrow> bytes \<Rightarrow> bytes \<Rightarrow> memory \<Rightarrow> u64 option \<times> memory" where
  "CMSQuery now k item m =
     (case hasCMSLocked now k m of
        (False, m') \<Rightarrow> (None, m')
      | (True, m') \<Rightarrow> (map_option (\<lambda>it. cms_Query (Value (entry it)) item) (items m' k), m'))"

definition CMSInstall :: "time \<Rightarrow> bytes \<Rightarrow> bytes \<Rightarrow> u64 \<Rightarrow> time \<Rightarrow> memory \<Rightarrow> bool \<times> memory" where
  "CMSInstall now k blob version expireAt m =
     (if length blob \<noteq> CMSSize then (False, m) else
      let ent = \<lparr>Value = blob, Version = version, ExpireAt = expireAt, Flags = FlagCMS\<rparr> in
      case items m k of
        None \<Rightarrow> insertCMSLocked now k ent m
      | Some it \<Rightarrow>
          if \<not> Expired (entry it) now then
            if IsTombstone (entry it) then
              if version \<le> Version (entry it) then (False, skipStale m)
              else insertCMSLocked now k ent (removeElement k m)
            else if IsCMS (entry it) then
              if version \<le> Version (entry it) then (False, skipStale m)
              else insertCMSLocked now k ent (removeElement k m)
            else if version \<le> Version (entry it) then (False, m)
            else insertCMSLocked now k ent (removeElement k m)
          else insertCMSLocked now k ent (removeElement k m))"

interpretation cm: blob_store FlagCMS "\<lambda>b. length b = CMSSize" insertCMSLocked CMSInstall
    "same_kind FlagCMS"
proof (unfold_locales, goal_cases)
  case (5 now k e m)
  show ?case by (simp add: insertCMSLocked_def)
next
  case (6 now k blob v ex m)
  show ?case
    by (cases "items m k") (simp_all add: CMSInstall_def Let_def Is_defs)
qed (simp_all add: plain_def lru_pinned_def flag_simps)

lemma cms_flags: "\<forall>f \<in> cached_flags. f AND FlagCMS = 0"
  by (simp add: cached_flags_def Flag_defs)

lemma CMSQuery_at:
  assumes "mem_wf m"
  shows "fst (CMSQuery now k x m) = map_option (\<lambda>e. cms_Query (Value e) x) (live_entry FlagCMS now m k)"
proof (cases "items m k")
  case None
  then show ?thesis by (simp add: CMSQuery_def hasCMSLocked_def live_entry_def view_def)
next
  case (Some it)
  then show ?thesis
    using live_entry_item [OF assms Some cms_flags, of now]
    by (auto simp: CMSQuery_def hasCMSLocked_def Is_defs)
qed

text \<open>The checks of CMSIncr and its effect on a value; the argument is the item, the increment
  and the value limit.\<close>

definition cms_pre :: "bytes \<times> u64 \<times> int \<Rightarrow> (bool \<times> bool) option" where
  "cms_pre = (\<lambda>(x, n, mv). if x = [] then Some (False, False)
     else if 0 < mv \<and> mv < int CMSSize then Some (False, True) else None)"

definition cms_app :: "bytes option \<Rightarrow> bytes \<times> u64 \<times> int \<Rightarrow> bool + bytes" where
  "cms_app s = (\<lambda>(x, n, mv).
     case cms_Incr (case s of None \<Rightarrow> cms_New | Some b \<Rightarrow> b) x n of Inl err \<Rightarrow> Inl False | Inr b \<Rightarrow> Inr b)"

interpretation cma: local_blob FlagCMS cms_pre cms_app
    "\<lambda>now k (x, n, mv) v ex m. CMSIncr now k x n v ex mv m"
proof (unfold_locales, goal_cases)
  case (5 e now)
  then show ?case by (rule cm.flag_pinned)
next
  case (7 now k a v ex m)
  obtain x n mv where a: "a = (x, n, mv)" by (cases a)
  have sz: "length s \<noteq> CMSSize \<Longrightarrow> cms_Incr s x n = Inl ErrSize" for s by (simp add: cms_Incr_def)
  show ?case
    by (cases "items m k"; cases "cms_Incr cms_New x n")
      (auto simp: a CMSIncr_def cmsInsertLocked_def cmsCommitLocked_def cmsInsertOverLocked_def
        insertCMSLocked_def cms_pre_def cms_app_def Let_def Is_defs sz split: sum.splits simp del: cms_sizes)
qed (auto simp: plain_def flag_simps cms_pre_def cached_flags_def Flag_defs split: if_splits)

section \<open>Counts over a run\<close>

text \<open>A run of increments of one key and what was applied of it.\<close>

fun cms_trace :: "bytes \<Rightarrow> (time \<times> (bytes \<times> u64 \<times> int) \<times> u64) list \<Rightarrow> memory \<Rightarrow> (bytes \<times> nat) list \<times> memory" where
  "cms_trace k [] m = ([], m)"
| "cms_trace k ((now, (x, n, mv), v) # cs) m =
     (case CMSIncr now k x n v 0 mv m of
        ((ok, too), m') \<Rightarrow>
          (case cms_trace k cs m' of
             (tr, m'') \<Rightarrow> (if ok then (x, unat (cms_delta n)) # tr else tr, m'')))"

definition total_of :: "bytes \<Rightarrow> (bytes \<times> nat) list \<Rightarrow> nat" where
  "total_of y tr = sum_list (map snd (filter (\<lambda>p. fst p = y) tr))"

definition total_all :: "(bytes \<times> nat) list \<Rightarrow> nat" where
  "total_all tr = sum_list (map snd tr)"

text \<open>How far a value under the key is from the counts before it.\<close>

definition cms_between :: "bytes option \<Rightarrow> bytes option \<Rightarrow> (bytes \<times> nat) list \<Rightarrow> bool" where
  "cms_between s s' tr \<longleftrightarrow>
     (let q = (\<lambda>s y. unat (case s of None \<Rightarrow> 0 | Some b \<Rightarrow> cms_Query b y)) in
      (\<forall>y. y \<noteq> [] \<longrightarrow> q s y + total_of y tr \<le> q s' y \<and> q s' y \<le> q s y + total_all tr) \<and>
      (s' = None \<longleftrightarrow> s = None \<and> tr = []))"

lemma cms_between_step:
  assumes "cms_app s (x, n, mv) = Inr b" "cms_between (Some b) s' tr"
  shows "cms_between s s' ((x, unat (cms_delta n)) # tr)"
proof -
  let ?b = "case s of None \<Rightarrow> cms_New | Some b \<Rightarrow> b"
  have inc: "cms_Incr ?b x n = Inr b" using assms(1) by (simp add: cms_app_def split: sum.splits)
  have q: "unat (case s of None \<Rightarrow> 0 | Some b \<Rightarrow> cms_Query b y) = unat (cms_Query ?b y)" if "y \<noteq> []" for y
    using cms_New_ok(1) [OF that] by (cases s) simp_all
  have "unat (cms_Query ?b y) + total_of y ((x, unat (cms_delta n)) # tr) \<le> unat (cms_Query b y) + total_of y tr \<and>
      unat (cms_Query b y) \<le> unat (cms_Query ?b y) + unat (cms_delta n)" if "y \<noteq> []" for y
    using cms_Incr_Query [OF inc that] by (cases "y = x") (auto simp: total_of_def)
  then show ?thesis
    using assms(2) q unfolding cms_between_def Let_def total_all_def by fastforce
qed

lemma cms_trace_between:
  assumes "cma.tracks k s m"
  shows "\<exists>s'. cma.tracks k s' (snd (cms_trace k cs m)) \<and> cms_between s s' (fst (cms_trace k cs m))"
  using assms
proof (induction cs arbitrary: s m)
  case Nil
  then show ?case by (auto simp: cms_between_def total_of_def total_all_def)
next
  case (Cons c cs)
  obtain now x n mv v where c: "c = (now, (x, n, mv), v)" by (metis prod_cases3)
  let ?r = "CMSIncr now k x n v 0 mv m"
  obtain s' where s': "cma.tracks k s' (snd (cms_trace k cs (snd ?r)))"
      "cms_between (cma.astep (x, n, mv) s) s' (fst (cms_trace k cs (snd ?r)))"
    using Cons.IH [OF cma.tracks_add(1) [OF Cons.prems, of "(x, n, mv)" now v]] by auto
  have ok: "fst (fst ?r) \<longleftrightarrow> cms_pre (x, n, mv) = None \<and> (\<exists>b. cms_app s (x, n, mv) = Inr b)"
    using cma.tracks_add(2) [OF Cons.prems, of now "(x, n, mv)" v] by simp
  have "cms_between s s' (if fst (fst ?r) then (x, unat (cms_delta n)) # fst (cms_trace k cs (snd ?r))
      else fst (cms_trace k cs (snd ?r)))"
  proof (cases "fst (fst ?r)")
    case True
    then obtain b where "cms_app s (x, n, mv) = Inr b" "cma.astep (x, n, mv) s = Some b"
      using ok by (auto simp: cma.astep_def)
    then show ?thesis using True s'(2) cms_between_step by simp
  next
    case False
    then have "cma.astep (x, n, mv) s = s"
      using ok by (auto simp: cma.astep_def split: option.splits sum.splits)
    then show ?thesis using False s'(2) by simp
  qed
  then show ?case using s'(1) by (auto simp: c split_beta intro!: exI [of _ s'])
qed

text \<open>C28. A count-min sketch never underestimates: after any sequence of increments of a key,
  some of which may be refused, the answer for an item is at least the sum of the
  increments applied to that item and at most the sum of all increments applied; the key
  exists once one was applied.\<close>

theorem CMSQuery_bounds:
  assumes "y \<noteq> []" "cms_trace k cs (NewMemory mx ttl) = (tr, m)"
  shows "case fst (CMSQuery now k y m) of
           None \<Rightarrow> tr = []
         | Some q \<Rightarrow> tr \<noteq> [] \<and> total_of y tr \<le> unat q \<and> unat q \<le> total_all tr"
proof -
  obtain s where s: "cma.tracks k s m" "cms_between None s tr"
    using cms_trace_between [OF cma.tracks_New, of k cs mx ttl] assms(2) by auto
  have "fst (CMSQuery now k y m) = map_option (\<lambda>b. cms_Query b y) s"
    using cma.tracks_live [OF s(1), of now] cma.tracks_base(3) [OF s(1)] by (auto simp: CMSQuery_at option.map_comp comp_def)
  then show ?thesis using s(2) assms(1) by (cases s) (auto simp: cms_between_def)
qed

theorem CMSQuery_bounds_witness:
  "case fst (CMSQuery 2 [1] [7] (snd (cms_trace [1] [(0, ([7], 5, 0), 1)] (NewMemory 0 0)))) of
     None \<Rightarrow> False
   | Some q \<Rightarrow> unat q = 5"
proof -
  let ?c = "[(0, ([7], 5, 0), 1)] :: (time \<times> (bytes \<times> u64 \<times> int) \<times> u64) list"
  have "fst (fst (CMSIncr 0 [1] [7] 5 1 0 0 (NewMemory 0 0)))"
    using cma.tracks_add(2) [of "[1]" None "NewMemory 0 0" 0 "([7], 5, 0)" 1] cms_New_ok(2) [of "[7]" 5]
    by (auto simp: cms_pre_def cms_app_def)
  then have "cms_trace [1] ?c (NewMemory 0 0) = ([([7], 5)], snd (cms_trace [1] ?c (NewMemory 0 0)))"
    by (simp add: cms_delta_def split_beta)
  from CMSQuery_bounds [OF _ this, of "[7]" 2] show ?thesis
    by (simp add: total_of_def total_all_def split: option.splits)
qed

text \<open>An increment that would overflow any cell of its item, one with an empty item and one
  refused by the value limit change nothing.\<close>

theorem CMSIncr_refused:
  assumes wf: "mem_wf m" and live: "live_entry FlagCMS now m k = Some e"
    and no: "x = [] \<or> 0 < mv \<and> mv < 65536 \<or> (\<exists>err. cms_Incr (Value e) x n = Inl err)"
  shows "CMSIncr now k x n v ex mv m = ((False, x \<noteq> [] \<and> 0 < mv \<and> mv < 65536), m)"
proof -
  obtain it where it: "items m k = Some it"
    using live by (auto simp: live_entry_def view_def split: option.splits)
  have e: "\<not> Expired (entry it) now" "\<not> IsTombstone (entry it)" "IsCMS (entry it)" "entry it = e"
    using live live_entry_item [OF wf it cms_flags, of now] by (auto simp: Is_defs split: if_splits)
  consider "x = []" | "x \<noteq> []" "0 < mv \<and> mv < 65536"
    | err where "x \<noteq> []" "\<not> (0 < mv \<and> mv < 65536)" "cms_Incr (Value e) x n = Inl err"
    using no by blast
  then show ?thesis
  proof cases
    case 3
    then show ?thesis using it e by (simp add: CMSIncr_def cmsCommitLocked_def)
  qed (simp_all add: CMSIncr_def)
qed

theorem CMSIncr_refused_witness:
  "let m = snd (CMSInstall 0 [1] cms_New 1 0 (NewMemory 0 0)) in CMSIncr 0 [1] [] 5 1 0 0 m = ((False, False), m)"
proof -
  let ?m = "snd (CMSInstall 0 [1] cms_New 1 0 (NewMemory 0 0))"
  have "live_entry FlagCMS 0 ?m [1] = Some \<lparr>Value = cms_New, Version = 1, ExpireAt = 0, Flags = FlagCMS\<rparr>"
    using cm.install_live [of "NewMemory 0 0" 0 1 "[1]" cms_New 0]
    by (simp add: newer_def cms_New_def)
  then show ?thesis
    using CMSIncr_refused [of ?m 0 "[1]" _ "[]" 0 5 1 0] cm.install_wf [of "NewMemory 0 0"] by (simp add: Let_def)
qed

end
