(* ===== verification/TopKTable.thy ===== *)
theory TopKTable
  imports Prelude
begin

text \<open>
  The Space-Saving table of \<open>pkg/topkx\<close>: \<open>topkx.go\<close>, \<open>add.go\<close>, \<open>list.go\<close> and
  \<open>encode.go\<close>. A nil table is \<open>None\<close>. The second half of the theory proves the
  guarantees of the Space-Saving algorithm about it.
\<close>

section \<open>The table\<close>

datatype topk_err = TopKEmpty | TopKBadK | TopKOverflow | TopKDecode

record topk_row =
  rItem :: bytes
  rCount :: u64

record topk =
  tk :: int
  slots :: "topk_row list"
  idx :: "bytes \<rightharpoonup> nat"

definition topk_New :: "int \<Rightarrow> topk option" where
  "topk_New k = (if k < 1 then None else Some \<lparr>tk = k, slots = [], idx = Map.empty\<rparr>)"

definition Occupied :: "topk option \<Rightarrow> nat" where
  "Occupied t = (case t of None \<Rightarrow> 0 | Some t \<Rightarrow> length (slots t))"

text \<open>The comparison of \<open>minSlot\<close>: lower count first, then smaller item bytes.\<close>

definition slot_below :: "topk \<Rightarrow> nat \<Rightarrow> nat \<Rightarrow> bool" where
  "slot_below t i mn \<longleftrightarrow>
     (let c = rCount (slots t ! i); mc = rCount (slots t ! mn)
      in c < mc \<or> (c = mc \<and> rItem (slots t ! i) < rItem (slots t ! mn)))"

definition minSlot :: "topk \<Rightarrow> nat" where
  "minSlot t = fold (\<lambda>i mn. if slot_below t i mn then i else mn) [1..<length (slots t)] 0"

definition topk_Add :: "topk option \<Rightarrow> bytes \<Rightarrow> topk_err + topk" where
  "topk_Add topt item =
     (case topt of
        None \<Rightarrow> Inl TopKEmpty
      | Some t \<Rightarrow>
          if item = [] then Inl TopKEmpty
          else case idx t item of
            Some i \<Rightarrow>
              if rCount (slots t ! i) = - 1 then Inl TopKOverflow
              else Inr (t\<lparr>slots := (slots t)[i := (slots t ! i)\<lparr>rCount := rCount (slots t ! i) + 1\<rparr>]\<rparr>)
          | None \<Rightarrow>
              if int (length (slots t)) < tk t then
                Inr (t\<lparr>slots := slots t @ [\<lparr>rItem = item, rCount = 1\<rparr>],
                       idx := (idx t)(item \<mapsto> length (slots t))\<rparr>)
              else
                let mn = minSlot t; c = rCount (slots t ! mn) in
                if c = - 1 then Inl TopKOverflow
                else Inr (t\<lparr>slots := (slots t)[mn := \<lparr>rItem = item, rCount = c + 1\<rparr>],
                            idx := ((idx t)(rItem (slots t ! mn) := None))(item \<mapsto> mn)\<rparr>))"

definition row_before :: "topk_row \<Rightarrow> topk_row \<Rightarrow> bool" where
  "row_before a b \<longleftrightarrow> (if rCount a \<noteq> rCount b then rCount b < rCount a else rItem a < rItem b)"

definition topk_List :: "topk option \<Rightarrow> topk_row list" where
  "topk_List topt = (case topt of None \<Rightarrow> [] | Some t \<Rightarrow> sort_by row_before (slots t))"

definition topk_Encode :: "topk option \<Rightarrow> bytes" where
  "topk_Encode t = concat (map (\<lambda>e. PutUvarint (rCount e) @ put_item (rItem e)) (topk_List t))"

function topk_decode_loop :: "topk \<Rightarrow> bytes \<Rightarrow> topk_err + topk" where
  "topk_decode_loop t b =
     (if b = [] then Inr t
      else case Uvarint b of (cnt, n) \<Rightarrow>
        if n \<le> 0 then Inl TopKDecode
        else if cnt = 0 then Inl TopKDecode
        else case take_item (drop (nat n) b) of
          Inl err \<Rightarrow> Inl TopKDecode
        | Inr (item, b') \<Rightarrow>
            if item = [] then Inl TopKDecode
            else if idx t item \<noteq> None then Inl TopKDecode
            else if tk t \<le> int (length (slots t)) then Inl TopKDecode
            else topk_decode_loop
                   (t\<lparr>slots := slots t @ [\<lparr>rItem = item, rCount = cnt\<rparr>],
                      idx := (idx t)(item \<mapsto> length (slots t))\<rparr>) b')"
  by pat_completeness auto
termination
  by (relation "measure (length \<circ> snd)") (auto dest!: take_item_shorter)

declare topk_decode_loop.simps [simp del]

definition topk_Decode :: "bytes \<Rightarrow> int \<Rightarrow> topk_err + topk" where
  "topk_Decode b k = (case topk_New k of None \<Rightarrow> Inl TopKBadK | Some t \<Rightarrow> topk_decode_loop t b)"

definition WorstEncodedSize :: "int \<Rightarrow> int \<Rightarrow> int" where
  "WorstEncodedSize k maxItem =
     (if k < 1 \<or> maxItem < 0 then 0
      else wrap64 (k * (10 + int (uvarintSize (word_of_int maxItem)) + maxItem)))"

section \<open>The invariant\<close>

text \<open>The index maps every item to its slot (so items are distinct); items are not empty,
  counts are positive, and there are at most \<open>k\<close> slots.\<close>

definition idx_of :: "'a list \<Rightarrow> ('a \<rightharpoonup> nat) \<Rightarrow> bool" where
  "idx_of ys f \<longleftrightarrow> (\<forall>x i. f x = Some i \<longleftrightarrow> i < length ys \<and> ys ! i = x)"

definition topk_ok :: "topk \<Rightarrow> bool" where
  "topk_ok t \<longleftrightarrow>
     1 \<le> tk t \<and> int (length (slots t)) \<le> tk t \<and> idx_of (map rItem (slots t)) (idx t) \<and>
     (\<forall>r \<in> set (slots t). rItem r \<noteq> [] \<and> rCount r \<noteq> 0)"

lemma idx_of_distinct:
  assumes "idx_of ys f"
  shows "distinct ys"
  unfolding distinct_conv_nth
proof (intro allI impI)
  fix i j
  assume "i < length ys" "j < length ys" "i \<noteq> j"
  then show "ys ! i \<noteq> ys ! j" using assms unfolding idx_of_def by (metis option.inject)
qed

lemma idx_of_None: "idx_of ys f \<Longrightarrow> f x = None \<longleftrightarrow> x \<notin> set ys"
  unfolding idx_of_def in_set_conv_nth by (metis not_Some_eq)

lemma idx_of_append: "idx_of ys f \<Longrightarrow> x \<notin> set ys \<Longrightarrow> idx_of (ys @ [x]) (f(x \<mapsto> length ys))"
  by (auto simp: idx_of_def nth_append less_Suc_eq)

lemma idx_of_update:
  assumes f: "idx_of ys f" and i: "i < length ys" and x: "x \<notin> set ys"
  shows "idx_of (ys[i := x]) ((f(ys ! i := None))(x \<mapsto> i))"
  unfolding idx_of_def
proof (intro allI)
  fix z j
  have d: "distinct ys" by (rule idx_of_distinct [OF f])
  have "j < length ys \<Longrightarrow> ys ! j \<noteq> x" using x by auto
  moreover have "j < length ys \<Longrightarrow> j \<noteq> i \<Longrightarrow> ys ! j \<noteq> ys ! i" using d i by (simp add: nth_eq_iff_index_eq)
  moreover have "f z = Some j \<longleftrightarrow> j < length ys \<and> ys ! j = z" using f by (simp add: idx_of_def)
  ultimately show "((f(ys ! i := None))(x \<mapsto> i)) z = Some j \<longleftrightarrow>
      j < length (ys[i := x]) \<and> ys[i := x] ! j = z"
    using i by (cases "j = i") auto
qed

definition row_go_len :: "topk \<Rightarrow> bool" where
  "row_go_len t \<longleftrightarrow> (\<forall>r \<in> set (slots t). go_len (rItem r))"

text \<open>The content of a table: a map from items to counts.\<close>

definition topk_map :: "topk \<Rightarrow> (bytes \<rightharpoonup> u64)" where
  "topk_map t = map_of (map (\<lambda>r. (rItem r, rCount r)) (slots t))"

lemma topk_distinct: "topk_ok t \<Longrightarrow> distinct (map rItem (slots t))"
  unfolding topk_ok_def using idx_of_distinct by blast

lemma topk_map_slot:
  assumes "topk_ok t"
  shows "topk_map t x = Some c \<longleftrightarrow> (\<exists>i < length (slots t). rItem (slots t ! i) = x \<and> rCount (slots t ! i) = c)"
proof -
  have "distinct (map fst (map (\<lambda>r. (rItem r, rCount r)) (slots t)))"
    using topk_distinct [OF assms] by (simp add: comp_def)
  then have "topk_map t x = Some c \<longleftrightarrow> (x, c) \<in> set (map (\<lambda>r. (rItem r, rCount r)) (slots t))"
    unfolding topk_map_def by (rule map_of_eq_Some_iff)
  also have "\<dots> \<longleftrightarrow> (\<exists>r \<in> set (slots t). rItem r = x \<and> rCount r = c)" by auto
  finally show ?thesis by (auto simp: Bex_def in_set_conv_nth)
qed

lemma topk_map_dom: "dom (topk_map t) = rItem ` set (slots t)"
  by (simp add: topk_map_def dom_map_of_conv_image_fst image_image)

lemma topk_map_card: "topk_ok t \<Longrightarrow> card (dom (topk_map t)) = length (slots t)"
  using distinct_card [OF topk_distinct] by (simp add: topk_map_dom)

lemma topk_idx_None: "topk_ok t \<Longrightarrow> idx t x = None \<longleftrightarrow> x \<notin> dom (topk_map t)"
  using idx_of_None [of "map rItem (slots t)"] by (simp add: topk_map_dom topk_ok_def)

text \<open>The victim of a full table has the least count.\<close>

lemma fold_argmin:
  fixes f :: "nat \<Rightarrow> 'a :: linorder"
  assumes "\<And>i j. P i j \<Longrightarrow> f i \<le> f j" "\<And>i j. \<not> P i j \<Longrightarrow> f j \<le> f i"
  shows "fold (\<lambda>i mn. if P i mn then i else mn) [1..<Suc n] 0 \<le> n \<and>
    (\<forall>i \<le> n. f (fold (\<lambda>i mn. if P i mn then i else mn) [1..<Suc n] 0) \<le> f i)"
proof (induction n)
  case (Suc n)
  let ?m = "fold (\<lambda>i mn. if P i mn then i else mn) [1..<Suc n] 0"
  have eq: "fold (\<lambda>i mn. if P i mn then i else mn) [1..<Suc (Suc n)] 0 = (if P (Suc n) ?m then Suc n else ?m)"
    by simp
  have "?m \<le> n" "\<And>i. i \<le> n \<Longrightarrow> f ?m \<le> f i" using Suc by auto
  then show ?case
    unfolding eq using assms(1) [of "Suc n" ?m] assms(2) [of "Suc n" ?m]
    by (auto simp: le_Suc_eq intro: order_trans)
qed simp

lemma minSlot_min:
  assumes "slots t \<noteq> []"
  shows "minSlot t < length (slots t) \<and> (\<forall>i < length (slots t). rCount (slots t ! minSlot t) \<le> rCount (slots t ! i))"
proof -
  obtain n where n: "length (slots t) = Suc n" using assms by (cases "length (slots t)") auto
  have "slot_below t i j \<Longrightarrow> rCount (slots t ! i) \<le> rCount (slots t ! j)"
    "\<not> slot_below t i j \<Longrightarrow> rCount (slots t ! j) \<le> rCount (slots t ! i)" for i j
    by (auto simp: slot_below_def Let_def not_less)
  from fold_argmin [of "slot_below t" "\<lambda>i. rCount (slots t ! i)", OF this, of n]
  show ?thesis by (simp add: minSlot_def n less_Suc_eq_le)
qed

section \<open>Space-Saving on maps\<close>

text \<open>One observation, as a relation on the content of a table of capacity \<open>k\<close>.\<close>

inductive ss_step :: "nat \<Rightarrow> bytes \<Rightarrow> (bytes \<rightharpoonup> u64) \<Rightarrow> (bytes \<rightharpoonup> u64) \<Rightarrow> bool" for k x where
  hit: "ss_step k x M (M(x \<mapsto> c + 1))" if "M x = Some c" "c \<noteq> - 1"
| room: "ss_step k x M (M(x \<mapsto> 1))" if "M x = None" "card (dom M) < k"
| replace: "ss_step k x M ((M(y := None))(x \<mapsto> c + 1))"
    if "M x = None" "card (dom M) = k" "M y = Some c" "c \<noteq> - 1" "\<forall>z d. M z = Some d \<longrightarrow> c \<le> d"

lemma unat_plus_1: "(c :: u64) \<noteq> - 1 \<Longrightarrow> unat (c + 1) = Suc (unat c)"
  by (metis add.right_inverse add_diff_cancel_right' diff_0 unatSuc add.commute)

abbreviation smap :: "topk_row list \<Rightarrow> (bytes \<rightharpoonup> u64)" where
  "smap s \<equiv> map_of (map (\<lambda>r. (rItem r, rCount r)) s)"

lemma dom_smap: "dom (smap s) = set (map rItem s)"
  by (simp add: dom_map_of_conv_image_fst image_image)

lemma smap_update:
  assumes "distinct (map rItem s)" "i < length s" "rItem r \<notin> set (map rItem s) \<or> rItem r = rItem (s ! i)"
  shows "smap (s[i := r]) = ((smap s)(rItem (s ! i) := None))(rItem r \<mapsto> rCount r)"
  using assms
proof (induction s arbitrary: i)
  case (Cons a s)
  have "smap s (rItem a) = None" using Cons.prems(1) dom_smap [of s] by (auto simp: domIff)
  then show ?case
  proof (cases i)
    case 0
    then show ?thesis using \<open>smap s (rItem a) = None\<close> by (auto simp: fun_eq_iff)
  next
    case (Suc j)
    have j: "j < length s" "rItem (s ! j) \<in> set (map rItem s)" using Cons.prems(2) Suc by auto
    moreover have "rItem a \<notin> set (map rItem s)" using Cons.prems(1) by simp
    ultimately have "rItem (s ! j) \<noteq> rItem a" "rItem r \<noteq> rItem a"
      using Cons.prems(3) Suc by (metis, metis list.set_intros(1) list.simps(9) nth_Cons_Suc)
    then show ?thesis using Cons.IH [of j] Cons.prems Suc j by (auto simp: fun_upd_twist)
  qed
qed simp

lemma smap_append: "rItem r \<notin> set (map rItem s) \<Longrightarrow> smap (s @ [r]) = (smap s)(rItem r \<mapsto> rCount r)"
  using dom_smap [of s] by (auto simp: fun_eq_iff map_add_def split: option.splits)

lemma topk_Add_map:
  assumes ok: "topk_ok t" and add: "topk_Add (Some t) x = Inr t'"
  shows "topk_ok t' \<and> tk t' = tk t \<and> x \<noteq> [] \<and> set (map rItem (slots t')) \<subseteq> insert x (set (map rItem (slots t))) \<and>
    ss_step (nat (tk t)) x (topk_map t) (topk_map t')"
proof -
  have x: "x \<noteq> []" using add by (auto simp: topk_Add_def split: if_splits)
  let ?s = "slots t"
  have ok': "1 \<le> tk t" "int (length ?s) \<le> tk t" "idx_of (map rItem ?s) (idx t)"
      "\<forall>r \<in> set ?s. rItem r \<noteq> [] \<and> rCount r \<noteq> 0" "distinct (map rItem ?s)"
    using ok topk_distinct [OF ok] by (auto simp: topk_ok_def)
  have nz: "c + 1 \<noteq> 0" if "c \<noteq> - 1" for c :: u64
    using that by (metis add.commute add_eq_0_iff)
  show ?thesis
  proof (cases "idx t x")
    case (Some i)
    then have i: "i < length ?s" "rItem (?s ! i) = x" using ok'(3) by (auto simp: idx_of_def)
    let ?c = "rCount (?s ! i)" and ?r = "(?s ! i)\<lparr>rCount := rCount (?s ! i) + 1\<rparr>"
    have c: "?c \<noteq> - 1" "t' = t\<lparr>slots := ?s[i := ?r]\<rparr>"
      using add Some x by (auto simp: topk_Add_def split: if_splits)
    have items: "map rItem (?s[i := ?r]) = map rItem ?s"
      using i by (simp add: map_update) (metis i(1) length_map list_update_id nth_map)
    have "smap (?s[i := ?r]) = (smap ?s)(x \<mapsto> ?c + 1)"
      using smap_update [OF ok'(5) i(1), of ?r] i by simp
    moreover have "topk_map t x = Some ?c" using topk_map_slot [OF ok, of x] i by blast
    ultimately have "ss_step (nat (tk t)) x (topk_map t) (topk_map t')"
      using ss_step.hit [of "topk_map t" x ?c] c by (simp add: topk_map_def)
    moreover have "\<forall>r \<in> set (?s[i := ?r]). rItem r \<noteq> [] \<and> rCount r \<noteq> 0"
      using ok'(4) nz [OF c(1)] i by (auto dest!: set_update_subset_insert [THEN subsetD])
    ultimately show ?thesis using ok' x c(2) items i by (auto simp: topk_ok_def)
  next
    case None
    then have nx: "x \<notin> set (map rItem ?s)" "topk_map t x = None"
      using idx_of_None [OF ok'(3)] topk_idx_None [OF ok] by auto
    have card: "card (dom (topk_map t)) = length ?s" by (rule topk_map_card [OF ok])
    show ?thesis
    proof (cases "int (length ?s) < tk t")
      case True
      let ?r = "\<lparr>rItem = x, rCount = 1\<rparr>"
      have t': "t' = t\<lparr>slots := ?s @ [?r], idx := (idx t)(x \<mapsto> length ?s)\<rparr>"
        using add None True x by (auto simp: topk_Add_def)
      have "topk_map t' = (topk_map t)(x \<mapsto> 1)"
        using smap_append [of ?r ?s] nx by (simp add: topk_map_def t')
      then show ?thesis
        using ss_step.room [of "topk_map t" x "nat (tk t)"] nx True card x ok' idx_of_append [OF ok'(3) nx(1)]
        by (auto simp: topk_ok_def t')
    next
      case False
      let ?m = "minSlot t"
      let ?c = "rCount (?s ! ?m)" and ?y = "rItem (?s ! ?m)"
      let ?r = "\<lparr>rItem = x, rCount = ?c + 1\<rparr>"
      have ne: "?s \<noteq> []" using False ok'(1) by auto
      note mn = minSlot_min [OF ne]
      have c: "?c \<noteq> - 1"
        and t': "t' = t\<lparr>slots := ?s[?m := ?r], idx := ((idx t)(?y := None))(x \<mapsto> ?m)\<rparr>"
        using add None False x by (auto simp: topk_Add_def Let_def split: if_splits)
      have map': "topk_map t' = ((topk_map t)(?y := None))(x \<mapsto> ?c + 1)"
        using smap_update [OF ok'(5), of ?m ?r] nx mn by (simp add: topk_map_def t')
      have y: "topk_map t ?y = Some ?c" using topk_map_slot [OF ok] mn by blast
      have least: "\<forall>z d. topk_map t z = Some d \<longrightarrow> ?c \<le> d" using mn by (auto simp: topk_map_slot [OF ok])
      have "ss_step (nat (tk t)) x (topk_map t) (topk_map t')"
        using ss_step.replace [OF nx(2) _ y c least, of "nat (tk t)"] False card ok'(2) map' by simp
      moreover have "\<forall>r \<in> set (?s[?m := ?r]). rItem r \<noteq> [] \<and> rCount r \<noteq> 0"
        using ok'(4) nz [OF c] x by (auto dest!: set_update_subset_insert [THEN subsetD])
      moreover have "idx_of (map rItem (?s[?m := ?r])) (idx t')"
        using idx_of_update [OF ok'(3) _ nx(1), of ?m] mn by (simp add: t' map_update)
      moreover have "set (map rItem (?s[?m := ?r])) \<subseteq> insert x (set (map rItem ?s))"
        by (auto dest!: set_update_subset_insert [THEN subsetD])
      ultimately show ?thesis using ok' x t' by (simp add: topk_ok_def)
    qed
  qed
qed

section \<open>The Space-Saving guarantees\<close>

text \<open>What the table knows after observing every item \<open>x\<close> \<open>f x\<close> times: the counts add
  up to the number of observations, no count is too low, no count is too high by more
  than one \<open>k\<close>-th of the observations, and an item that is not in the table was seen at
  most as often as the least count.\<close>

definition ss_inv :: "nat \<Rightarrow> (bytes \<Rightarrow> nat) \<Rightarrow> nat \<Rightarrow> (bytes \<rightharpoonup> u64) \<Rightarrow> bool" where
  "ss_inv k f n M \<longleftrightarrow>
     finite (dom M) \<and> card (dom M) \<le> k \<and> (\<Sum>x \<in> dom M. unat (the (M x))) = n \<and>
     (\<forall>x c. M x = Some c \<longrightarrow> f x \<le> unat c \<and> k * unat c \<le> k * f x + n) \<and>
     (\<forall>x. M x = None \<longrightarrow> (card (dom M) < k \<longrightarrow> f x = 0) \<and> (\<forall>y c. M y = Some c \<longrightarrow> f x \<le> unat c))"

lemma ss_inv_empty: "ss_inv k (\<lambda>x. 0) 0 Map.empty"
  by (simp add: ss_inv_def)

lemma sum_upd:
  assumes "finite (dom M)"
  shows "(\<Sum>z \<in> dom (M(x \<mapsto> c)). unat (the ((M(x \<mapsto> c)) z))) =
    (\<Sum>z \<in> dom M - {x}. unat (the (M z))) + unat (c :: u64)"
proof -
  have "(\<Sum>z \<in> insert x (dom M). unat (the ((M(x \<mapsto> c)) z))) =
      unat c + (\<Sum>z \<in> dom M - {x}. unat (the ((M(x \<mapsto> c)) z)))"
    using assms by (subst sum.insert_remove) simp_all
  also have "(\<Sum>z \<in> dom M - {x}. unat (the ((M(x \<mapsto> c)) z))) = (\<Sum>z \<in> dom M - {x}. unat (the (M z)))"
    by (rule sum.cong) auto
  finally show ?thesis by (simp add: dom_fun_upd)
qed

lemma sum_without:
  assumes "finite (dom M)" "M y = Some (c :: u64)"
  shows "(\<Sum>z \<in> dom M. unat (the (M z))) = (\<Sum>z \<in> dom M - {y}. unat (the (M z))) + unat c"
  using assms by (subst sum.remove [of _ y]) auto

lemma ss_low:
  assumes "ss_inv k f n M" "card (dom M) = k" "\<forall>z d. M z = Some d \<longrightarrow> c \<le> unat d"
  shows "k * c \<le> n"
proof -
  have "card (dom M) * c \<le> (\<Sum>z \<in> dom M. unat (the (M z)))"
    using assms(3) by (intro sum_bounded_below [where K = c, simplified]) auto
  then show ?thesis using assms(1,2) by (simp add: ss_inv_def)
qed

lemma ss_invI:
  assumes "finite (dom M)" "card (dom M) \<le> k" "(\<Sum>x \<in> dom M. unat (the (M x))) = n"
    and "\<And>x c. M x = Some c \<Longrightarrow> f x \<le> unat c \<and> k * unat c \<le> k * f x + n"
    and "\<And>x. M x = None \<Longrightarrow> card (dom M) < k \<Longrightarrow> f x = 0"
    and "\<And>x y c. M x = None \<Longrightarrow> M y = Some c \<Longrightarrow> f x \<le> unat c"
  shows "ss_inv k f n M"
  using assms unfolding ss_inv_def by blast

lemma ss_invD:
  assumes "ss_inv k f n M"
  shows "finite (dom M)" "card (dom M) \<le> k" "(\<Sum>x \<in> dom M. unat (the (M x))) = n"
    and "M x = Some c \<Longrightarrow> f x \<le> unat c" "M x = Some c \<Longrightarrow> k * unat c \<le> k * f x + n"
    and "M x = None \<Longrightarrow> card (dom M) < k \<Longrightarrow> f x = 0"
    and "M x = None \<Longrightarrow> M y = Some c \<Longrightarrow> f x \<le> unat c"
  using assms unfolding ss_inv_def by blast+

lemma ss_inv_hit:
  assumes inv: "ss_inv k f n M" and M: "M x = Some c" "c \<noteq> - 1"
  shows "ss_inv k (f(x := f x + 1)) (n + 1) (M(x \<mapsto> c + 1))"
proof (rule ss_invI)
  have c: "unat (c + 1) = unat c + 1" using unat_plus_1 [OF M(2)] by simp
  have d: "dom (M(x \<mapsto> c + 1)) = dom M" using M by (auto simp: insert_absorb)
  show "finite (dom (M(x \<mapsto> c + 1)))" "card (dom (M(x \<mapsto> c + 1))) \<le> k"
    using ss_invD(1,2) [OF inv] by (simp_all only: d)
  show "(\<Sum>z \<in> dom (M(x \<mapsto> c + 1)). unat (the ((M(x \<mapsto> c + 1)) z))) = n + 1"
    using sum_upd [OF ss_invD(1) [OF inv], of x "c + 1"] sum_without [OF ss_invD(1) [OF inv] M(1)]
      ss_invD(3) [OF inv] c by linarith
  fix z
  show "(f(x := f x + 1)) z \<le> unat e \<and> k * unat e \<le> k * (f(x := f x + 1)) z + (n + 1)"
    if "(M(x \<mapsto> c + 1)) z = Some e" for e
  proof (cases "z = x")
    case True
    then show ?thesis using that ss_invD(4,5) [OF inv M(1)] c by auto
  next
    case False
    then show ?thesis using that ss_invD(4,5) [OF inv, of z e] by simp
  qed
  assume z: "(M(x \<mapsto> c + 1)) z = None"
  then have z': "z \<noteq> x" "M z = None" by (auto split: if_splits)
  show "(f(x := f x + 1)) z = 0" if "card (dom (M(x \<mapsto> c + 1))) < k"
    using that ss_invD(6) [OF inv z'(2)] z' unfolding d by simp
  show "(f(x := f x + 1)) z \<le> unat e" if "(M(x \<mapsto> c + 1)) y = Some e" for y e
  proof (cases "y = x")
    case True
    then show ?thesis using that z' ss_invD(7) [OF inv z'(2) M(1)] c by auto
  next
    case False
    then show ?thesis using that z' ss_invD(7) [OF inv z'(2), of y e] by simp
  qed
qed

lemma ss_inv_room:
  assumes inv: "ss_inv k f n M" and M: "M x = None" "card (dom M) < k"
  shows "ss_inv k (f(x := f x + 1)) (n + 1) (M(x \<mapsto> 1))"
proof (rule ss_invI)
  have x: "x \<notin> dom M" using M by (simp add: domIff)
  show "finite (dom (M(x \<mapsto> 1)))" "card (dom (M(x \<mapsto> 1))) \<le> k"
    using ss_invD(1,2) [OF inv] M x by simp_all
  show "(\<Sum>z \<in> dom (M(x \<mapsto> 1)). unat (the ((M(x \<mapsto> 1)) z))) = n + 1"
    using sum_upd [OF ss_invD(1) [OF inv], of x 1] ss_invD(3) [OF inv] x by simp
  fix z
  show "(f(x := f x + 1)) z \<le> unat e \<and> k * unat e \<le> k * (f(x := f x + 1)) z + (n + 1)"
    if "(M(x \<mapsto> 1)) z = Some e" for e
  proof (cases "z = x")
    case True
    then show ?thesis using that ss_invD(6) [OF inv M] by auto
  next
    case False
    then show ?thesis using that ss_invD(4,5) [OF inv, of z e] by simp
  qed
  assume "(M(x \<mapsto> 1)) z = None"
  then have z: "z \<noteq> x" "f z = 0" using ss_invD(6) [OF inv _ M(2), of z] by (auto split: if_splits)
  then show "(f(x := f x + 1)) z = 0" "(f(x := f x + 1)) z \<le> unat e" for e by simp_all
qed

lemma ss_inv_replace:
  assumes inv: "ss_inv k f n M" and M: "M x = None" "card (dom M) = k" "M y = Some c" "c \<noteq> - 1"
    and least: "\<forall>z d. M z = Some d \<longrightarrow> c \<le> d"
  shows "ss_inv k (f(x := f x + 1)) (n + 1) ((M(y := None))(x \<mapsto> c + 1))"
proof (rule ss_invI)
  let ?M = "(M(y := None))(x \<mapsto> c + 1)"
  note fin = ss_invD(1) [OF inv]
  have c: "unat (c + 1) = unat c + 1" using unat_plus_1 [OF M(4)] by simp
  have xy: "x \<notin> dom M - {y}" "y \<in> dom M" using M by (simp_all add: domIff)
  have dom: "dom ?M = insert x (dom M - {y})" by (simp add: dom_fun_upd)
  have card: "card (dom ?M) = k"
    using card_Suc_Diff1 [OF fin xy(2)] card_insert_disjoint [OF _ xy(1)] fin M(2) unfolding dom by simp
  show "finite (dom ?M)" "card (dom ?M) \<le> k" using fin card unfolding dom by simp_all
  show "(\<Sum>z \<in> dom ?M. unat (the (?M z))) = n + 1"
  proof -
    have "(\<Sum>z \<in> dom ?M. unat (the (?M z))) =
        (\<Sum>z \<in> dom (M(y := None)) - {x}. unat (the ((M(y := None)) z))) + unat (c + 1)"
      by (rule sum_upd) (use fin in simp)
    also have "dom (M(y := None)) - {x} = dom M - {y}" using M(1) by (auto simp: domIff)
    also have "(\<Sum>z \<in> dom M - {y}. unat (the ((M(y := None)) z))) = (\<Sum>z \<in> dom M - {y}. unat (the (M z)))"
      by (rule sum.cong) auto
    finally show ?thesis using sum_without [OF fin M(3)] ss_invD(3) [OF inv] c by linarith
  qed
  have lo: "unat c \<le> unat e" if "M z = Some e" for z e using least that by (simp add: word_le_nat_alt)
  have kc: "k * unat c \<le> n" by (rule ss_low [OF inv M(2)]) (use lo in blast)
  have fx: "f z \<le> unat c" if "M z = None \<or> z = y" for z
    using ss_invD(4) [OF inv M(3)] ss_invD(7) [OF inv _ M(3)] that by blast
  fix z
  show "(f(x := f x + 1)) z \<le> unat e \<and> k * unat e \<le> k * (f(x := f x + 1)) z + (n + 1)" if "?M z = Some e" for e
  proof (cases "z = x")
    case True
    then have "e = c + 1" using that by simp
    moreover have "f x \<le> unat c" using fx M(1) by blast
    ultimately show ?thesis using True kc c by (simp add: distrib_left)
  next
    case False
    then have "M z = Some e" using that by (simp split: if_splits)
    then show ?thesis using False ss_invD(4,5) [OF inv, of z e] by simp
  qed
  assume "?M z = None"
  then have z: "z \<noteq> x" "M z = None \<or> z = y" by (auto split: if_splits)
  show "(f(x := f x + 1)) z = 0" if "card (dom ?M) < k" using that card by simp
  show "(f(x := f x + 1)) z \<le> unat e" if "?M w = Some e" for w e
  proof -
    have "unat c \<le> unat e"
    proof (cases "w = x")
      case True
      then have "e = c + 1" using that by simp
      then show ?thesis using c by simp
    next
      case False
      then have "M w = Some e" using that by (simp split: if_splits)
      then show ?thesis by (rule lo)
    qed
    then show ?thesis using fx [OF z(2)] z(1) by simp
  qed
qed

lemma ss_inv_step:
  assumes "ss_inv k f n M" "ss_step k x M M'"
  shows "ss_inv k (f(x := f x + 1)) (n + 1) M'"
  using assms(2)
proof cases
  case (hit c)
  show ?thesis unfolding hit(1) by (rule ss_inv_hit [OF assms(1) hit(2,3)])
next
  case room
  show ?thesis unfolding room(1) by (rule ss_inv_room [OF assms(1) room(2,3)])
next
  case (replace y c)
  show ?thesis unfolding replace(1) by (rule ss_inv_replace [OF assms(1) replace(2-6)])
qed

text \<open>An item seen more often than one \<open>k\<close>-th of the observations is in the table.\<close>

lemma ss_heavy:
  assumes inv: "ss_inv k f n M" and heavy: "n < k * f x"
  shows "x \<in> dom M"
proof (rule ccontr)
  assume "x \<notin> dom M"
  then have none: "M x = None" by (simp add: domIff)
  show False
  proof (cases "card (dom M) < k")
    case True
    then show False using inv none heavy by (auto simp: ss_inv_def)
  next
    case False
    then have "card (dom M) = k" using inv by (simp add: ss_inv_def)
    moreover have "\<forall>z d. M z = Some d \<longrightarrow> f x \<le> unat d" using inv none by (auto simp: ss_inv_def)
    ultimately have "k * f x \<le> n" by (rule ss_low [OF inv])
    then show False using heavy by simp
  qed
qed

text \<open>The guarantees, read off the rows of a table in any order.\<close>

lemma topk_map_row: "topk_ok t \<Longrightarrow> r \<in> set (slots t) \<Longrightarrow> topk_map t (rItem r) = Some (rCount r)"
  using topk_map_slot [of t "rItem r" "rCount r"] by (auto simp: in_set_conv_nth)

lemma topk_map_sum:
  assumes "topk_ok t"
  shows "(\<Sum>x \<in> dom (topk_map t). unat (the (topk_map t x))) = sum_list (map (unat \<circ> rCount) (slots t))"
proof -
  have "(\<Sum>x \<in> dom (topk_map t). unat (the (topk_map t x))) =
      sum_list (map (\<lambda>x. unat (the (topk_map t x))) (map rItem (slots t)))"
    unfolding topk_map_dom set_map [symmetric]
    by (rule sum.distinct_set_conv_list [OF topk_distinct [OF assms]])
  also have "map (\<lambda>x. unat (the (topk_map t x))) (map rItem (slots t)) = map (unat \<circ> rCount) (slots t)"
    using topk_map_row [OF assms] by simp
  finally show ?thesis .
qed

lemma ss_rows:
  assumes ok: "topk_ok t" and inv: "ss_inv (nat (tk t)) f n (topk_map t)" and rs: "mset rs = mset (slots t)"
  shows "int (length rs) \<le> tk t" "distinct (map rItem rs)" "sum_list (map (unat \<circ> rCount) rs) = n"
    and "r \<in> set rs \<Longrightarrow> f (rItem r) \<le> unat (rCount r)"
    and "r \<in> set rs \<Longrightarrow> nat (tk t) * unat (rCount r) \<le> nat (tk t) * f (rItem r) + n"
    and "n < nat (tk t) * f x \<Longrightarrow> x \<in> rItem ` set rs"
proof -
  have set: "set rs = set (slots t)" using rs by (rule mset_eq_setD)
  have ms: "mset (map g rs) = mset (map g (slots t))" for g :: "topk_row \<Rightarrow> 'b" using rs by simp
  show "int (length rs) \<le> tk t" using ok mset_eq_length [OF rs] by (simp add: topk_ok_def)
  show "distinct (map rItem rs)" using topk_distinct [OF ok] mset_eq_imp_distinct_iff [OF ms] by blast
  have "sum_list (map (unat \<circ> rCount) rs) = sum_list (map (unat \<circ> rCount) (slots t))"
    using ms [of "unat \<circ> rCount"] by (metis sum_mset_sum_list)
  then show "sum_list (map (unat \<circ> rCount) rs) = n"
    using topk_map_sum [OF ok] ss_invD(3) [OF inv] by simp
  show "r \<in> set rs \<Longrightarrow> f (rItem r) \<le> unat (rCount r)"
    "r \<in> set rs \<Longrightarrow> nat (tk t) * unat (rCount r) \<le> nat (tk t) * f (rItem r) + n"
    using topk_map_row [OF ok, of r] ss_invD(4,5) [OF inv] set by blast+
  show "n < nat (tk t) * f x \<Longrightarrow> x \<in> rItem ` set rs"
    using ss_heavy [OF inv, of x] set by (simp add: topk_map_dom)
qed

section \<open>The wire form\<close>

interpretation tkl: total_less row_before UNIV
proof (unfold_locales, goal_cases)
  case (2 a b c)
  then show ?case unfolding row_before_def by (smt (verit) order_less_trans order_less_imp_not_less)
next
  case (3 a b)
  then have "rItem a \<noteq> rItem b \<or> rCount a \<noteq> rCount b" by (auto intro: topk_row.equality)
  then show ?case unfolding row_before_def by (metis linorder_less_linear)
qed (simp add: row_before_def)

abbreviation enc_row :: "topk_row \<Rightarrow> bytes" where
  "enc_row e \<equiv> PutUvarint (rCount e) @ put_item (rItem e)"

lemma uvarintSize_nonzero [simp]: "uvarintSize x \<noteq> 0"
  using uvarintSize_pos [of x] by simp

lemma topk_decode_rows:
  assumes "idx_of (map rItem (slots t)) (idx t)" "distinct (map rItem (slots t @ rs))"
    and "\<forall>r \<in> set rs. rItem r \<noteq> [] \<and> rCount r \<noteq> 0 \<and> go_len (rItem r)"
    and "int (length (slots t @ rs)) \<le> tk t"
  shows "\<exists>t'. topk_decode_loop t (concat (map enc_row rs)) = Inr t' \<and> slots t' = slots t @ rs \<and>
    tk t' = tk t \<and> idx_of (map rItem (slots t')) (idx t')"
  using assms
proof (induction rs arbitrary: t)
  case Nil
  then show ?case by (simp add: topk_decode_loop.simps)
next
  case (Cons r rs)
  let ?t = "t\<lparr>slots := slots t @ [r], idx := (idx t)(rItem r \<mapsto> length (slots t))\<rparr>"
  have r: "rItem r \<notin> set (map rItem (slots t))" "rItem r \<noteq> []" "rCount r \<noteq> 0" "go_len (rItem r)"
    using Cons.prems by auto
  obtain x c where rxc: "r = \<lparr>rItem = x, rCount = c\<rparr>" by (cases r) auto
  have "topk_decode_loop t (concat (map enc_row (r # rs))) = topk_decode_loop ?t (concat (map enc_row rs))"
    using r Cons.prems(4) idx_of_None [OF Cons.prems(1), of "rItem r"]
    unfolding rxc by (subst topk_decode_loop.simps) (simp add: codec_simps)
  moreover
  have "idx_of (map rItem (slots ?t)) (idx ?t)"
    using idx_of_append [OF Cons.prems(1) r(1)] by simp
  from Cons.IH [OF this] Cons.prems have "\<exists>t'. topk_decode_loop ?t (concat (map enc_row rs)) = Inr t' \<and>
      slots t' = slots ?t @ rs \<and> tk t' = tk ?t \<and> idx_of (map rItem (slots t')) (idx t')" by simp
  ultimately show ?case by simp
qed

lemma topk_decode_loop_ok:
  assumes "topk_decode_loop t b = Inr t'" "topk_ok t" "row_go_len t" "go_len b"
  shows "topk_ok t' \<and> row_go_len t' \<and> tk t' = tk t"
  using assms
proof (induction t b rule: topk_decode_loop.induct)
  case (1 t b)
  show ?case
  proof (cases "b = []")
    case True
    then show ?thesis using 1 by (simp add: topk_decode_loop.simps)
  next
    case False
    obtain c n where u: "Uvarint b = (c, n)" by (cases "Uvarint b")
    obtain item b' where ti: "take_item (drop (nat n) b) = Inr (item, b')"
      and g: "\<not> n \<le> 0" "c \<noteq> 0" "item \<noteq> []" "idx t item = None" "\<not> tk t \<le> int (length (slots t))"
      and rec: "topk_decode_loop (t\<lparr>slots := slots t @ [\<lparr>rItem = item, rCount = c\<rparr>],
           idx := (idx t)(item \<mapsto> length (slots t))\<rparr>) b' = Inr t'"
      using 1(2) False u
      by (subst (asm) topk_decode_loop.simps) (auto split: if_splits sum.splits prod.splits)
    let ?t = "t\<lparr>slots := slots t @ [\<lparr>rItem = item, rCount = c\<rparr>], idx := (idx t)(item \<mapsto> length (slots t))\<rparr>"
    have idx: "idx_of (map rItem (slots t)) (idx t)" using 1(3) by (simp add: topk_ok_def)
    have gl: "go_len item" "go_len b'"
      using take_item_go_len [OF ti] 1(5) by (auto simp: go_len_def)
    have "topk_ok ?t"
      using 1(3) g idx_of_append [OF idx, of item] idx_of_None [OF idx, of item] by (auto simp: topk_ok_def)
    moreover have "row_go_len ?t" using 1(4) gl by (simp add: row_go_len_def)
    ultimately show ?thesis using 1(1) [OF False u [symmetric]] g ti rec gl by simp
  qed
qed

lemma topk_Decode_ok:
  "topk_Decode b k = Inr t \<Longrightarrow> go_len b \<Longrightarrow> topk_ok t \<and> row_go_len t \<and> tk t = k"
  using topk_decode_loop_ok [of "\<lparr>tk = k, slots = [], idx = Map.empty\<rparr>" b t]
  by (auto simp: topk_Decode_def topk_New_def topk_ok_def row_go_len_def idx_of_def split: if_splits)

lemma map_of_mset:
  assumes "mset xs = mset ys" "distinct (map fst xs)"
  shows "map_of xs = map_of ys"
  using assms by (metis map_of_inject_set mset_eq_setD mset_map mset_eq_imp_distinct_iff)

lemma topk_Encode_Decode:
  assumes ok: "topk_ok t" and gl: "row_go_len t"
  shows "\<exists>t'. topk_Decode (topk_Encode (Some t)) (tk t) = Inr t' \<and> topk_ok t' \<and> row_go_len t' \<and> tk t' = tk t \<and>
    topk_map t' = topk_map t \<and> slots t' = topk_List (Some t)"
proof -
  let ?rs = "topk_List (Some t)" and ?t0 = "\<lparr>tk = tk t, slots = [], idx = Map.empty\<rparr>"
  have rs: "mset ?rs = mset (slots t)" "set ?rs = set (slots t)" "length ?rs = length (slots t)"
    by (simp_all add: topk_List_def)
  have ms: "mset (map g ?rs) = mset (map g (slots t))" for g :: "topk_row \<Rightarrow> 'b"
    using rs(1) by simp
  have d: "distinct (map rItem ?rs)"
    using topk_distinct [OF ok] mset_eq_imp_distinct_iff [OF ms] by blast
  have "\<exists>t'. topk_decode_loop ?t0 (concat (map enc_row ?rs)) = Inr t' \<and> slots t' = slots ?t0 @ ?rs \<and>
      tk t' = tk ?t0 \<and> idx_of (map rItem (slots t')) (idx t')"
    using ok gl d rs by (intro topk_decode_rows) (auto simp: topk_ok_def row_go_len_def idx_of_def)
  then obtain t' where t': "topk_decode_loop ?t0 (concat (map enc_row ?rs)) = Inr t'" "slots t' = ?rs"
      "tk t' = tk t" "idx_of (map rItem (slots t')) (idx t')" by auto
  have "topk_map t' = topk_map t"
    unfolding topk_map_def t'(2)
    using d by (intro map_of_mset ms) (simp add: comp_def)
  moreover have "topk_ok t'" "row_go_len t'" using ok gl t' rs by (simp_all add: topk_ok_def row_go_len_def)
  moreover have "topk_Decode (topk_Encode (Some t)) (tk t) = Inr t'"
    using ok t'(1) by (simp add: topk_Decode_def topk_New_def topk_Encode_def topk_ok_def)
  ultimately show ?thesis using t' by blast
qed

lemma topk_List_mset:
  assumes "mset (slots t') = mset (slots t)" "topk_ok t"
  shows "topk_List (Some t') = topk_List (Some t)"
proof -
  have "distinct (slots t)" using topk_distinct [OF assms(2)] by (simp add: distinct_map)
  moreover have "distinct (slots t')" using calculation assms(1) mset_eq_imp_distinct_iff by blast
  ultimately show ?thesis
    unfolding topk_List_def option.case
    using tkl.sorted_sort_by [of "slots t'"] assms(1) by (intro tkl.sort_by_unique) simp_all
qed

lemma topk_ok_one:
  "x \<noteq> [] \<Longrightarrow> c \<noteq> 0 \<Longrightarrow> 1 \<le> k \<Longrightarrow> topk_ok \<lparr>tk = k, slots = [\<lparr>rItem = x, rCount = c\<rparr>], idx = [x \<mapsto> 0]\<rparr>"
  using idx_of_append [of "[]" Map.empty x] by (simp add: topk_ok_def idx_of_def [of "[]"])

text \<open>What a table encodes it decodes to a table with the same items and counts, the same
  chart and the same encoding; the slots come back in chart order.\<close>

theorem topk_round_trip:
  assumes ok: "topk_ok t" and gl: "row_go_len t"
  shows "\<exists>t'. topk_Decode (topk_Encode (Some t)) (tk t) = Inr t' \<and> topk_ok t' \<and>
    topk_map t' = topk_map t \<and> slots t' = topk_List (Some t) \<and>
    topk_List (Some t') = topk_List (Some t) \<and> topk_Encode (Some t') = topk_Encode (Some t)"
proof -
  obtain t' where t': "topk_Decode (topk_Encode (Some t)) (tk t) = Inr t'" "topk_ok t'"
      "topk_map t' = topk_map t" "slots t' = topk_List (Some t)"
    using topk_Encode_Decode [OF assms] by blast
  then have "topk_List (Some t') = topk_List (Some t)"
    by (intro topk_List_mset [OF _ ok]) (simp add: topk_List_def)
  then show ?thesis using t' by (auto simp: topk_Encode_def)
qed

section \<open>The size bound\<close>

lemma uvarintSize_le: "unat x < 2 ^ (7 * n) \<Longrightarrow> 0 < n \<Longrightarrow> uvarintSize x \<le> n"
proof (induction n arbitrary: x)
  case (Suc n)
  show ?case
  proof (cases "0x80 \<le> x")
    case True
    then have "128 \<le> unat x" by (simp add: word_le_nat_alt)
    then have n: "0 < n" using Suc.prems(1) by (cases n) auto
    have "unat (drop_bit 7 x) < 2 ^ (7 * n)"
      using Suc.prems(1) by (simp add: unat_drop_bit_eq drop_bit_eq_div unat_div less_mult_imp_div_less power_add mult.commute)
    then show ?thesis using Suc.IH [OF _ n] True by (simp add: uvarintSize.simps [of x])
  qed (simp add: uvarintSize.simps [of x])
qed simp

lemma uvarintSize_10: "uvarintSize x \<le> 10"
  using unsigned_less [of x, where 'a = nat] by (intro uvarintSize_le) simp_all

lemma uvarintSize_mono: "x \<le> y \<Longrightarrow> uvarintSize x \<le> uvarintSize y"
proof (induction x arbitrary: y rule: uvarintSize.induct)
  case (1 x)
  show ?case
  proof (cases "0x80 \<le> x")
    case True
    have "drop_bit 7 x \<le> drop_bit 7 y"
      using 1(2) by (simp add: word_le_nat_alt unat_drop_bit_eq drop_bit_eq_div unat_div div_le_mono)
    then show ?thesis using 1(1) [OF True] True 1(2) by (simp add: uvarintSize.simps [of x] uvarintSize.simps [of y])
  next
    case False
    then show ?thesis by (simp add: uvarintSize.simps [of x] uvarintSize.simps [of y])
  qed
qed

text \<open>The bound the configuration is validated against holds: no table of \<open>k\<close> slots whose
  items have at most \<open>maxItem\<close> bytes encodes to more than \<open>WorstEncodedSize\<close>, as long as
  that product fits a Go int.\<close>

theorem topk_WorstEncodedSize:
  assumes ok: "topk_ok t" and items: "\<forall>r \<in> set (slots t). int (length (rItem r)) \<le> maxItem"
    and fits: "tk t * (20 + maxItem) < 2 ^ 63" and pos: "0 \<le> maxItem"
  shows "int (length (topk_Encode (Some t))) \<le> WorstEncodedSize (tk t) maxItem"
proof -
  let ?w = "10 + int (uvarintSize (word_of_int maxItem)) + maxItem"
  have k: "1 \<le> tk t" "int (length (slots t)) \<le> tk t" using ok by (auto simp: topk_ok_def)
  have w: "?w \<le> 20 + maxItem" "0 \<le> ?w" using uvarintSize_10 [of "word_of_int maxItem"] pos by simp_all
  have "1 * (20 + maxItem) \<le> tk t * (20 + maxItem)" using k pos by (intro mult_right_mono) simp_all
  then have mi: "maxItem < 2 ^ 63" using fits by simp
  have row: "int (length (enc_row r)) \<le> ?w" if "r \<in> set (slots t)" for r
  proof -
    have l: "int (length (rItem r)) \<le> maxItem" using items that by blast
    then have "(of_nat (length (rItem r)) :: u64) \<le> word_of_int maxItem"
      using mi pos by (simp add: word_le_nat_alt unsigned_of_nat unsigned_of_int take_bit_nat_eq_self
          take_bit_int_eq_self le_nat_iff)
    then have "uvarintSize (of_nat (length (rItem r))) \<le> uvarintSize (word_of_int maxItem)" by (rule uvarintSize_mono)
    then show ?thesis using uvarintSize_10 [of "rCount r"] l by (simp add: put_item_def)
  qed
  have "int (length (concat (map enc_row rs))) \<le> int (length rs) * ?w" if "set rs \<subseteq> set (slots t)" for rs
    using that
  proof (induction rs)
    case (Cons r rs)
    then show ?case using row [of r] by (simp add: distrib_right)
  qed simp
  from this [of "topk_List (Some t)"]
  have "int (length (topk_Encode (Some t))) \<le> int (length (slots t)) * ?w"
    by (simp add: topk_Encode_def topk_List_def)
  also have "\<dots> \<le> tk t * ?w" using k w by (intro mult_right_mono) simp_all
  also have "\<dots> = wrap64 (tk t * ?w)"
  proof -
    have "tk t * ?w \<le> tk t * (20 + maxItem)" using k w by (intro mult_left_mono) simp_all
    moreover have "0 \<le> tk t * ?w" using k w by simp
    ultimately show ?thesis using fits by (subst wrap64_id) (auto simp: int64_def)
  qed
  finally show ?thesis using k pos by (simp add: WorstEncodedSize_def)
qed

theorem topk_WorstEncodedSize_witness:
  "int (length (topk_Encode (Some \<lparr>tk = 2, slots = [\<lparr>rItem = [1], rCount = 3\<rparr>], idx = [[1] \<mapsto> 0]\<rparr>))) \<le>
     WorstEncodedSize 2 5"
  using topk_WorstEncodedSize [OF topk_ok_one [of "[1]" 3 2], of 5] by simp

end
