(* ===== verification/StoreTopK.thy ===== *)
theory StoreTopK
  imports LocalBlobs TopKTable
begin

text \<open>Named top-K charts: \<open>pkg/store/topk.go\<close>. The chart size \<open>kk\<close> comes from the keyspace
  with every call. Results of an addition are \<open>(applied, tooLarge)\<close>.\<close>

section \<open>Operations\<close>

definition insertTopKLocked :: "time \<Rightarrow> bytes \<Rightarrow> entry \<Rightarrow> memory \<Rightarrow> bool \<times> memory" where
  "insertTopKLocked now k ent m =
     (let m' = evictLocked now (pushFront k (mkItem k ent (entryCost k ent)) m) in (has k m', m'))"

text \<open>\<open>Inl too\<close> stands for a failure: \<open>too\<close> when the encoding exceeds the value limit.\<close>

definition topkApply :: "bytes option \<Rightarrow> bytes \<Rightarrow> int \<Rightarrow> int \<Rightarrow> bool + bytes" where
  "topkApply cur item kk maxValue =
     (case (case cur of None \<Rightarrow> Inr (topk_New kk)
                      | Some b \<Rightarrow> (case topk_Decode b kk of Inl err \<Rightarrow> Inl err | Inr t \<Rightarrow> Inr (Some t))) of
        Inl err \<Rightarrow> Inl False
      | Inr tab \<Rightarrow>
          (case topk_Add tab item of
             Inl err \<Rightarrow> Inl False
           | Inr t \<Rightarrow>
               let blob = topk_Encode (Some t) in
               if 0 < maxValue \<and> maxValue < int (length blob) then Inl True else Inr blob))"

definition topkReplaceLocked ::
    "time \<Rightarrow> bytes \<Rightarrow> lru_item \<Rightarrow> bytes option \<Rightarrow> bytes \<Rightarrow> u64 \<Rightarrow> time \<Rightarrow> int \<Rightarrow> int \<Rightarrow> memory \<Rightarrow>
     (bool \<times> bool) \<times> memory" where
  "topkReplaceLocked now k it cur item stored_v expireAt kk maxValue m =
     (case topkApply cur item kk maxValue of
        Inl too \<Rightarrow> ((False, too), m)
      | Inr blob \<Rightarrow>
          let e' = \<lparr>Value = blob, Version = stored_v,
                    ExpireAt = (if expireAt \<noteq> 0 then expireAt else ExpireAt (entry it)), Flags = FlagTopK\<rparr>;
              m' = commitEntry now k it e' m
          in ((has k m', False), m'))"

definition topkInsertLocked ::
    "time \<Rightarrow> bytes \<Rightarrow> bytes \<Rightarrow> u64 \<Rightarrow> time \<Rightarrow> int \<Rightarrow> int \<Rightarrow> memory \<Rightarrow> (bool \<times> bool) \<times> memory" where
  "topkInsertLocked now k item stored_v expireAt kk maxValue m =
     (case topkApply None item kk maxValue of
        Inl too \<Rightarrow> ((False, too), m)
      | Inr blob \<Rightarrow>
          (case insertTopKLocked now k
              \<lparr>Value = blob, Version = stored_v, ExpireAt = expireAt, Flags = FlagTopK\<rparr> m of
             (ok, m') \<Rightarrow> ((ok, False), m')))"

definition TopKAdd ::
    "time \<Rightarrow> bytes \<Rightarrow> bytes \<Rightarrow> u64 \<Rightarrow> time \<Rightarrow> int \<Rightarrow> int \<Rightarrow> memory \<Rightarrow> (bool \<times> bool) \<times> memory" where
  "TopKAdd now k item version expireAt kk maxValue m =
     (if kk < 1 then ((False, True), m)
      else if item = [] then ((False, False), m)
      else
        case items m k of
          None \<Rightarrow> topkInsertLocked now k item 1 expireAt kk maxValue m
        | Some it \<Rightarrow>
            if \<not> Expired (entry it) now then
              if IsTombstone (entry it) then
                if version \<le> Version (entry it) then ((False, False), skipStale m)
                else topkReplaceLocked now k it None item (Version (entry it) + 1) expireAt kk maxValue m
              else if \<not> IsTopK (entry it) then ((False, False), m)
              else topkReplaceLocked now k it (Some (Value (entry it))) item (Version (entry it) + 1)
                     expireAt kk maxValue m
            else topkInsertLocked now k item 1 expireAt kk maxValue (removeElement k m))"

definition hasTopKLocked :: "time \<Rightarrow> bytes \<Rightarrow> memory \<Rightarrow> bool \<times> memory" where
  "hasTopKLocked now k m =
     (case items m k of
        None \<Rightarrow> (False, m)
      | Some it \<Rightarrow>
          if Expired (entry it) now then (False, removeElement k m)
          else (\<not> IsTombstone (entry it) \<and> IsTopK (entry it), m))"

definition HasTopK :: "time \<Rightarrow> bytes \<Rightarrow> memory \<Rightarrow> bool \<times> memory" where
  "HasTopK now k m = hasTopKLocked now k m"

definition TopKList :: "time \<Rightarrow> bytes \<Rightarrow> int \<Rightarrow> memory \<Rightarrow> topk_row list option \<times> memory" where
  "TopKList now k kk m =
     (case hasTopKLocked now k m of
        (False, m') \<Rightarrow> (None, m')
      | (True, m') \<Rightarrow>
          (case items m' k of
             None \<Rightarrow> (None, m')
           | Some it \<Rightarrow>
               (case topk_Decode (Value (entry it)) kk of
                  Inl err \<Rightarrow> (None, m')
                | Inr t \<Rightarrow> (Some (topk_List (Some t)), m'))))"

definition TopKInstall :: "time \<Rightarrow> bytes \<Rightarrow> bytes \<Rightarrow> u64 \<Rightarrow> time \<Rightarrow> int \<Rightarrow> memory \<Rightarrow> bool \<times> memory" where
  "TopKInstall now k blob version expireAt kk m =
     (case topk_Decode blob kk of
        Inl err \<Rightarrow> (False, m)
      | Inr t \<Rightarrow>
          let ent = \<lparr>Value = blob, Version = version, ExpireAt = expireAt, Flags = FlagTopK\<rparr> in
          case items m k of
            None \<Rightarrow> insertTopKLocked now k ent m
          | Some it \<Rightarrow>
              if \<not> Expired (entry it) now then
                if IsTombstone (entry it) then
                  if version \<le> Version (entry it) then (False, skipStale m)
                  else insertTopKLocked now k ent (removeElement k m)
                else if IsTopK (entry it) then
                  if version \<le> Version (entry it) then (False, skipStale m)
                  else insertTopKLocked now k ent (removeElement k m)
                else if version \<le> Version (entry it) then (False, m)
                else insertTopKLocked now k ent (removeElement k m)
              else insertTopKLocked now k ent (removeElement k m))"

interpretation tp: blob_store FlagTopK "\<lambda>b. \<not> isl (topk_Decode b kk)" insertTopKLocked
    "\<lambda>now k blob v ex m. TopKInstall now k blob v ex kk m" "same_kind FlagTopK" for kk
proof (unfold_locales, goal_cases)
  case (5 now k e m)
  show ?case by (simp add: insertTopKLocked_def)
next
  case (6 now k blob v ex m)
  show ?case
    by (cases "items m k"; cases "topk_Decode blob kk") (simp_all add: TopKInstall_def Let_def Is_defs)
qed (simp_all add: plain_def lru_pinned_def flag_simps)

lemma topk_flags: "\<forall>f \<in> cached_flags. f AND FlagTopK = 0"
  by (simp add: cached_flags_def Flag_defs)

section \<open>Local writes\<close>

definition topk_pre :: "bytes \<times> int \<times> int \<Rightarrow> (bool \<times> bool) option" where
  "topk_pre = (\<lambda>(x, kk, mv). if kk < 1 then Some (False, True) else if x = [] then Some (False, False) else None)"

definition topk_app :: "bytes option \<Rightarrow> bytes \<times> int \<times> int \<Rightarrow> bool + bytes" where
  "topk_app s = (\<lambda>(x, kk, mv). topkApply s x kk mv)"

interpretation tka: local_blob FlagTopK topk_pre topk_app
    "\<lambda>now k (x, kk, mv) v ex m. TopKAdd now k x v ex kk mv m"
proof (unfold_locales, goal_cases)
  case (5 e now)
  then show ?case by (rule tp.flag_pinned)
next
  case (7 now k a v ex m)
  obtain x kk mv where a: "a = (x, kk, mv)" by (cases a)
  show ?case
    by (cases "items m k")
      (simp_all add: a TopKAdd_def topkInsertLocked_def topkReplaceLocked_def insertTopKLocked_def
        topk_pre_def topk_app_def Let_def Is_defs split: sum.splits)
qed (auto simp: plain_def flag_simps topk_pre_def cached_flags_def Flag_defs split: if_splits)

lemma TopKList_at:
  assumes "mem_wf m"
  shows "fst (TopKList now k kk m) =
    (case live_entry FlagTopK now m k of
       None \<Rightarrow> None
     | Some e \<Rightarrow> (case topk_Decode (Value e) kk of Inl err \<Rightarrow> None | Inr t \<Rightarrow> Some (topk_List (Some t))))"
proof (cases "items m k")
  case None
  then show ?thesis by (simp add: TopKList_def hasTopKLocked_def live_entry_def view_def)
next
  case (Some it)
  then show ?thesis
    using live_entry_item [OF assms Some topk_flags, of now]
    by (auto simp: TopKList_def hasTopKLocked_def Is_defs split: sum.splits)
qed

section \<open>The chart after a run\<close>

text \<open>A run of additions to one key under one chart size, with the items that were applied.\<close>

fun topk_trace :: "bytes \<Rightarrow> int \<Rightarrow> int \<Rightarrow> (time \<times> bytes \<times> u64) list \<Rightarrow> memory \<Rightarrow> bytes list \<times> memory" where
  "topk_trace k kk mv [] m = ([], m)"
| "topk_trace k kk mv ((now, x, v) # cs) m =
     (case TopKAdd now k x v 0 kk mv m of
        ((ok, too), m') \<Rightarrow>
          (case topk_trace k kk mv cs m' of (tr, m'') \<Rightarrow> (if ok then x # tr else tr, m'')))"

text \<open>A value that encodes a table with the Space-Saving guarantees for the observations.\<close>

definition topk_good :: "int \<Rightarrow> (bytes \<Rightarrow> nat) \<Rightarrow> nat \<Rightarrow> bytes option \<Rightarrow> bool" where
  "topk_good kk f n s \<longleftrightarrow>
     (case s of
        None \<Rightarrow> f = (\<lambda>x. 0) \<and> n = 0
      | Some b \<Rightarrow> 0 < n \<and> (\<exists>t. topk_ok t \<and> row_go_len t \<and> tk t = kk \<and> b = topk_Encode (Some t) \<and>
          ss_inv (nat kk) f n (topk_map t)))"

lemma topk_good_step:
  assumes good: "topk_good kk f n s" and app: "topk_app s (x, kk, mv) = Inr b" and gl: "go_len x" and kk: "1 \<le> kk"
  shows "topk_good kk (f(x := f x + 1)) (n + 1) (Some b)"
proof -
  obtain t where t: "topk_ok t" "row_go_len t" "tk t = kk" "ss_inv (nat kk) f n (topk_map t)"
    and add: "\<exists>t'. topk_Add (Some t) x = Inr t' \<and> b = topk_Encode (Some t')"
  proof (cases s)
    case None
    let ?t = "\<lparr>tk = kk, slots = [], idx = Map.empty\<rparr>"
    have "topk_ok ?t" "row_go_len ?t" "ss_inv (nat kk) f n (topk_map ?t)"
      using kk good None ss_inv_empty [of "nat kk"]
      by (simp_all add: topk_ok_def row_go_len_def idx_of_def topk_map_def topk_good_def)
    moreover have "\<exists>t'. topk_Add (Some ?t) x = Inr t' \<and> b = topk_Encode (Some t')"
      using app None kk by (auto simp: topk_app_def topkApply_def topk_New_def Let_def split: sum.splits if_splits)
    ultimately show thesis using that [of ?t] by simp
  next
    case (Some c)
    then obtain u where u: "topk_ok u" "row_go_len u" "tk u = kk" "c = topk_Encode (Some u)"
        "ss_inv (nat kk) f n (topk_map u)"
      using good by (auto simp: topk_good_def)
    obtain t where t: "topk_Decode c kk = Inr t" "topk_ok t" "row_go_len t" "tk t = kk" "topk_map t = topk_map u"
      using topk_Encode_Decode [OF u(1,2)] u(3,4) by auto
    have "\<exists>t'. topk_Add (Some t) x = Inr t' \<and> b = topk_Encode (Some t')"
      using app Some t(1) by (auto simp: topk_app_def topkApply_def Let_def split: sum.splits if_splits)
    then show thesis using that [of t] t u(5) by simp
  qed
  then obtain t' where t': "topk_Add (Some t) x = Inr t'" "b = topk_Encode (Some t')" by blast
  note am = topk_Add_map [OF t(1) t'(1)]
  have "row_go_len t'" using am t(2) gl by (auto simp: row_go_len_def)
  moreover have "ss_inv (nat kk) (f(x := f x + 1)) (n + 1) (topk_map t')"
    using ss_inv_step [OF t(4)] am t(3) by simp
  ultimately show ?thesis using am t(3) t'(2) by (auto simp: topk_good_def)
qed

lemma topk_trace_good:
  assumes "tka.tracks k s m" "topk_good kk f n s" "1 \<le> kk" "\<forall>(t, x, v) \<in> set cs. go_len x"
  shows "\<exists>s'. tka.tracks k s' (snd (topk_trace k kk mv cs m)) \<and>
    topk_good kk (\<lambda>x. f x + count_list (fst (topk_trace k kk mv cs m)) x)
      (n + length (fst (topk_trace k kk mv cs m))) s'"
  using assms
proof (induction cs arbitrary: s f n m)
  case (Cons c cs)
  obtain now x v where c: "c = (now, x, v)" by (cases c)
  let ?r = "TopKAdd now k x v 0 kk mv m"
  have tr: "tka.tracks k (tka.astep (x, kk, mv) s) (snd ?r)"
    using tka.tracks_add(1) [OF Cons.prems(1), of "(x, kk, mv)" now v] by simp
  have ok: "fst (fst ?r) \<longleftrightarrow> topk_pre (x, kk, mv) = None \<and> (\<exists>b. topk_app s (x, kk, mv) = Inr b)"
    using tka.tracks_add(2) [OF Cons.prems(1), of now "(x, kk, mv)" v] by simp
  show ?case
  proof (cases "fst (fst ?r)")
    case True
    then obtain b where b: "topk_app s (x, kk, mv) = Inr b" "tka.astep (x, kk, mv) s = Some b"
      using ok by (auto simp: tka.astep_def)
    have "topk_good kk (f(x := f x + 1)) (n + 1) (tka.astep (x, kk, mv) s)"
      using topk_good_step [OF Cons.prems(2) b(1)] Cons.prems b(2) c by simp
    from Cons.IH [OF tr this Cons.prems(3)] Cons.prems(4) obtain s' where
      "tka.tracks k s' (snd (topk_trace k kk mv cs (snd ?r)))"
      "topk_good kk (\<lambda>y. (f(x := f x + 1)) y + count_list (fst (topk_trace k kk mv cs (snd ?r))) y)
         (n + 1 + length (fst (topk_trace k kk mv cs (snd ?r)))) s'" by auto
    moreover have "(\<lambda>y. (f(x := f x + 1)) y + count_list tr y) = (\<lambda>y. f y + count_list (x # tr) y)" for tr
      by auto
    ultimately show ?thesis using True by (auto simp: c split_beta)
  next
    case False
    then have "tka.astep (x, kk, mv) s = s"
      using ok by (auto simp: tka.astep_def split: option.splits sum.splits)
    then show ?thesis
      using Cons.IH [OF tr, of f n] Cons.prems(2-4) False by (auto simp: c split_beta)
  qed
qed auto

text \<open>C26. The Space-Saving guarantees hold for a stored chart: after any run of additions to a
  key, of which \<open>tr\<close> were applied, the chart has at most \<open>kk\<close> rows with distinct
  items, its counts add up to the number of observations, no count is below the true one or
  above it by more than a \<open>kk\<close>-th of the observations, and every item seen more often
  than that is on the chart.\<close>

theorem TopKList_guarantees:
  assumes run: "topk_trace k kk mv cs (NewMemory mx ttl) = (tr, m)" and kk: "1 \<le> kk"
    and gl: "\<forall>(t, x, v) \<in> set cs. go_len x" and rows: "fst (TopKList now k kk m) = Some rs"
  shows "int (length rs) \<le> kk \<and> distinct (map rItem rs) \<and> sorted_wrt row_before rs \<and>
    sum_list (map (unat \<circ> rCount) rs) = length tr \<and>
    (\<forall>r \<in> set rs. count_list tr (rItem r) \<le> unat (rCount r) \<and>
       nat kk * unat (rCount r) \<le> nat kk * count_list tr (rItem r) + length tr) \<and>
    (\<forall>x. length tr < nat kk * count_list tr x \<longrightarrow> x \<in> rItem ` set rs)"
proof -
  obtain s where s: "tka.tracks k s m" "topk_good kk (count_list tr) (length tr) s"
    using topk_trace_good [OF tka.tracks_New [of k mx ttl] _ kk gl, where f = "\<lambda>x. 0" and n = 0 and mv = mv] run
    by (auto simp: topk_good_def [of kk "\<lambda>x. 0" 0 None])
  have live: "map_option Value (live_entry FlagTopK now m k) = s" "mem_wf m"
    using tka.tracks_live [OF s(1)] tka.tracks_base(3) [OF s(1)] by simp_all
  obtain b t0 where t0: "topk_Decode b kk = Inr t0" "s = Some b" "rs = topk_List (Some t0)"
    using rows live by (auto simp: TopKList_at split: option.splits sum.splits)
  then obtain u where u: "topk_ok u" "row_go_len u" "tk u = kk" "b = topk_Encode (Some u)"
      "ss_inv (nat kk) (count_list tr) (length tr) (topk_map u)"
    using s(2) by (auto simp: topk_good_def)
  obtain t where t: "t0 = t" "topk_ok t" "tk t = kk" "topk_map t = topk_map u"
    using topk_Encode_Decode [OF u(1,2)] u(3,4) t0(1) by auto
  have ms: "mset rs = mset (slots t)" using t0(3) t(1) by (simp add: topk_List_def)
  have d: "distinct (slots t)" using topk_distinct [OF t(2)] by (simp add: distinct_map)
  have "sorted_wrt row_before rs" unfolding t0(3) topk_List_def t(1) option.case
    by (rule tkl.sorted_sort_by [OF _ d]) simp
  moreover have "ss_inv (nat (tk t)) (count_list tr) (length tr) (topk_map t)" using u(5) t by simp
  ultimately show ?thesis using ss_rows [OF t(2) _ ms, of "count_list tr" "length tr"] t(3) by blast
qed

theorem TopKList_guarantees_witness:
  "int (length (the (fst (TopKList 1 [1] 2 (snd (TopKAdd 0 [1] [7] 1 0 2 0 (NewMemory 0 0))))))) \<le> 2 \<and>
   sum_list (map (unat \<circ> rCount) (the (fst (TopKList 1 [1] 2 (snd (TopKAdd 0 [1] [7] 1 0 2 0 (NewMemory 0 0))))))) = 1"
proof -
  let ?r = "TopKAdd 0 [1] [7] 1 0 2 0 (NewMemory 0 0)"
  have app: "topk_app None ([7], 2, 0) = Inr (topk_Encode (Some \<lparr>tk = 2, slots = [\<lparr>rItem = [7], rCount = 1\<rparr>], idx = [[7] \<mapsto> 0]\<rparr>))"
    by (simp add: topk_app_def topkApply_def topk_New_def topk_Add_def)
  have pre: "topk_pre ([7], 2, 0) = None" by (simp add: topk_pre_def)
  have ok: "fst (fst ?r)" "tka.tracks [1] (tka.astep ([7], 2, 0) None) (snd ?r)"
    using tka.tracks_add [where k = "[1]" and s = None and m = "NewMemory 0 0" and a = "([7], 2, 0)" and now = 0 and v = 1]
      app pre
    by auto
  have "tka.astep ([7], 2, 0) None = Some (topk_Encode (Some \<lparr>tk = 2, slots = [\<lparr>rItem = [7], rCount = 1\<rparr>], idx = [[7] \<mapsto> 0]\<rparr>))"
    using app pre by (simp add: tka.astep_def)
  moreover obtain t' where "topk_Decode (topk_Encode (Some \<lparr>tk = 2, slots = [\<lparr>rItem = [7], rCount = 1\<rparr>], idx = [[7] \<mapsto> 0]\<rparr>)) 2 = Inr t'"
    using topk_Encode_Decode [OF topk_ok_one [of "[7]" 1 2]] by (auto simp: row_go_len_def go_len_def)
  ultimately obtain rs where rs: "fst (TopKList 1 [1] 2 (snd ?r)) = Some rs"
    using tka.tracks_live [OF ok(2), of 1] tka.tracks_base(3) [OF ok(2)]
    by (auto simp: TopKList_at split: option.splits)
  have "topk_trace [1] 2 0 [(0, [7], 1)] (NewMemory 0 0) = ([[7]], snd ?r)"
    using ok(1) by (simp add: split_beta)
  from TopKList_guarantees [OF this _ _ rs] show ?thesis by (simp add: rs go_len_def)
qed

end
