(* ===== verification/StreamLog.thy ===== *)
theory StreamLog
  imports Prelude
begin

text \<open>
  The append-only log of \<open>pkg/stream/codec.go\<close>: entry ids, bounds, appending and
  trimming, range queries, and the wire forms. Strings are their bytes; a failed parse is
  \<open>None\<close>. A nil log never reaches these operations in the store and is left out.
\<close>

section \<open>Entry ids\<close>

definition HardCap :: nat where "HardCap = 4096"
definition DefaultMax :: int where "DefaultMax = 512"

record sentry =
  sMs :: u64
  sSeq :: u64
  sPayload :: bytes

record slog =
  LastMs :: u64
  LastSeq :: u64
  Entries :: "sentry list"

definition log_New :: slog where
  "log_New = \<lparr>LastMs = 0, LastSeq = 0, Entries = []\<rparr>"

text \<open>\<open>%d\<close> of \<open>fmt\<close> and \<open>strconv.ParseUint\<close> in base 10.\<close>

fun dec_digits :: "nat \<Rightarrow> bytes" where
  "dec_digits n = (if n < 10 then [of_nat (48 + n)] else dec_digits (n div 10) @ [of_nat (48 + n mod 10)])"

declare dec_digits.simps [simp del]

definition is_digit :: "byte \<Rightarrow> bool" where
  "is_digit c \<longleftrightarrow> 48 \<le> c \<and> c \<le> 57"

definition digits_value :: "bytes \<Rightarrow> nat" where
  "digits_value s = fold (\<lambda>c acc. acc * 10 + (unat c - 48)) s 0"

definition ParseUint :: "bytes \<Rightarrow> u64 option" where
  "ParseUint s =
     (if s = [] \<or> \<not> list_all is_digit s then None
      else if digits_value s < 2 ^ 64 then Some (of_nat (digits_value s)) else None)"

definition IndexByte :: "bytes \<Rightarrow> byte \<Rightarrow> int" where
  "IndexByte s c = (let i = length (takeWhile (\<lambda>x. x \<noteq> c) s) in if i = length s then - 1 else int i)"

definition FormatID :: "u64 \<Rightarrow> u64 \<Rightarrow> bytes" where
  "FormatID ms sq = dec_digits (unat ms) @ [45] @ dec_digits (unat sq)"

definition entry_ID :: "sentry \<Rightarrow> bytes" where
  "entry_ID e = FormatID (sMs e) (sSeq e)"

definition ParseID :: "bytes \<Rightarrow> (u64 \<times> u64) option" where
  "ParseID s =
     (let i = IndexByte s 45 in
      if i \<le> 0 \<or> i = int (length s) - 1 then None
      else case ParseUint (take (nat i) s) of
        None \<Rightarrow> None
      | Some ms \<Rightarrow>
          (case ParseUint (drop (nat i + 1) s) of
             None \<Rightarrow> None
           | Some sq \<Rightarrow> Some (ms, sq)))"

section \<open>Bounds\<close>

record sbound =
  bMs :: u64
  bSeq :: u64
  bExclusive :: bool
  bMin :: bool
  bMax :: bool

definition ParseBound :: "bytes \<Rightarrow> bool \<Rightarrow> sbound option" where
  "ParseBound s isStart =
     (if s = [] \<or> s = [45] then Some \<lparr>bMs = 0, bSeq = 0, bExclusive = False, bMin = True, bMax = False\<rparr>
      else if s = [43] then Some \<lparr>bMs = 0, bSeq = 0, bExclusive = False, bMin = False, bMax = True\<rparr>
      else
        let rest = (\<lambda>s ex.
              if IndexByte s 45 < 0 then
                (case ParseUint s of
                   None \<Rightarrow> None
                 | Some ms \<Rightarrow>
                     Some \<lparr>bMs = ms, bSeq = (if isStart then 0 else - 1), bExclusive = ex, bMin = False, bMax = False\<rparr>)
              else
                (case ParseID s of
                   None \<Rightarrow> None
                 | Some (ms, sq) \<Rightarrow>
                     Some \<lparr>bMs = ms, bSeq = sq, bExclusive = ex, bMin = False, bMax = False\<rparr>))
        in if hd s = 40 then
             if \<not> isStart then None
             else if tl s = [] then None
             else rest (tl s) True
           else rest s False)"

definition cmpID :: "u64 \<Rightarrow> u64 \<Rightarrow> u64 \<Rightarrow> u64 \<Rightarrow> int" where
  "cmpID ms sq oms oseq =
     (if ms < oms then - 1 else if oms < ms then 1 else if sq < oseq then - 1 else if oseq < sq then 1 else 0)"

definition below :: "sbound \<Rightarrow> u64 \<Rightarrow> u64 \<Rightarrow> bool" where
  "below b ms sq \<longleftrightarrow>
     (if bMin b then False
      else if bMax b then True
      else if bExclusive b then cmpID ms sq (bMs b) (bSeq b) \<le> 0
      else cmpID ms sq (bMs b) (bSeq b) < 0)"

definition above :: "sbound \<Rightarrow> u64 \<Rightarrow> u64 \<Rightarrow> bool" where
  "above b ms sq \<longleftrightarrow>
     (if bMax b then False else if bMin b then True else 0 < cmpID ms sq (bMs b) (bSeq b))"

definition ClampCount :: "int \<Rightarrow> int" where
  "ClampCount n = (if n \<le> 0 then 0 else if DefaultMax < n then DefaultMax else n)"

section \<open>The log\<close>

definition Mint :: "slog \<Rightarrow> u64 \<Rightarrow> u64 \<times> u64" where
  "Mint l milli =
     (let t = (if milli < LastMs l then LastMs l else milli)
      in if t = LastMs l then (t, LastSeq l + 1) else (t, 0))"

definition log_Trim :: "slog \<Rightarrow> int \<Rightarrow> slog" where
  "log_Trim l maxLen =
     (if maxLen < 0 then l
      else if maxLen = 0 then l\<lparr>Entries := []\<rparr>
      else if maxLen < int (length (Entries l))
      then l\<lparr>Entries := drop (length (Entries l) - nat maxLen) (Entries l)\<rparr> else l)"

text \<open>\<open>None\<close> is \<open>ErrFull\<close>.\<close>

definition log_Append :: "slog \<Rightarrow> bytes \<Rightarrow> u64 \<Rightarrow> int \<Rightarrow> (bytes \<times> slog) option" where
  "log_Append l payload milli autoTrim =
     (if autoTrim \<le> 0 \<and> HardCap \<le> length (Entries l) then None
      else case Mint l milli of (ms, sq) \<Rightarrow>
        let l1 = \<lparr>LastMs = ms, LastSeq = sq,
                  Entries = Entries l @ [\<lparr>sMs = ms, sSeq = sq, sPayload = payload\<rparr>]\<rparr>;
            l2 = (if 0 < autoTrim then log_Trim l1 autoTrim else l1);
            l3 = (if HardCap < length (Entries l2) then log_Trim l2 (int HardCap) else l2)
        in Some (FormatID ms sq, l3))"

definition log_Del :: "slog \<Rightarrow> u64 \<Rightarrow> u64 \<Rightarrow> slog" where
  "log_Del l ms sq = l\<lparr>Entries := filter (\<lambda>e. \<not> (sMs e = ms \<and> sSeq e = sq)) (Entries l)\<rparr>"

fun range_loop :: "sbound \<Rightarrow> sbound \<Rightarrow> int \<Rightarrow> sentry list \<Rightarrow> sentry list \<Rightarrow> sentry list" where
  "range_loop start stop cnt [] out = out"
| "range_loop start stop cnt (e # es) out =
     (if below start (sMs e) (sSeq e) \<or> above stop (sMs e) (sSeq e) then range_loop start stop cnt es out
      else let out' = out @ [e] in
           if 0 < cnt \<and> cnt \<le> int (length out') then out' else range_loop start stop cnt es out')"

definition log_Range :: "slog \<Rightarrow> sbound \<Rightarrow> sbound \<Rightarrow> int \<Rightarrow> bool \<Rightarrow> sentry list" where
  "log_Range l start stop cnt rv =
     range_loop start stop (ClampCount cnt) (if rv then rev (Entries l) else Entries l) []"

section \<open>Wire forms\<close>

definition enc_sentry :: "sentry \<Rightarrow> bytes" where
  "enc_sentry e = PutUvarint (sMs e) @ PutUvarint (sSeq e) @ put_item (sPayload e)"

definition log_Encode :: "slog \<Rightarrow> bytes" where
  "log_Encode l =
     83 # PutUvarint (LastMs l) @ PutUvarint (LastSeq l) @ PutUvarint (of_nat (length (Entries l))) @
     concat (map enc_sentry (Entries l))"

definition uvarint :: "bytes \<Rightarrow> (u64 \<times> bytes) option" where
  "uvarint p = (case Uvarint p of (v, n) \<Rightarrow> if n \<le> 0 then None else Some (v, drop (nat n) p))"

primrec dec_sentries :: "nat \<Rightarrow> bytes \<Rightarrow> (sentry list \<times> bytes) option" where
  "dec_sentries 0 p = Some ([], p)"
| "dec_sentries (Suc n) p =
     (case uvarint p of
        None \<Rightarrow> None
      | Some (ms, p1) \<Rightarrow>
          (case uvarint p1 of
             None \<Rightarrow> None
           | Some (sq, p2) \<Rightarrow>
               (case take_item p2 of
                  Inl err \<Rightarrow> None
                | Inr (payload, p3) \<Rightarrow>
                    (case dec_sentries n p3 of
                       None \<Rightarrow> None
                     | Some (es, p4) \<Rightarrow> Some (\<lparr>sMs = ms, sSeq = sq, sPayload = payload\<rparr> # es, p4)))))"

definition DecodeSnapshot :: "bytes \<Rightarrow> slog option" where
  "DecodeSnapshot blob =
     (case blob of
        [] \<Rightarrow> None
      | c # p \<Rightarrow>
          if c \<noteq> 83 then None
          else case uvarint p of
            None \<Rightarrow> None
          | Some (ms, p1) \<Rightarrow>
              (case uvarint p1 of
                 None \<Rightarrow> None
               | Some (sq, p2) \<Rightarrow>
                   (case uvarint p2 of
                      None \<Rightarrow> None
                    | Some (n, p3) \<Rightarrow>
                        if of_nat HardCap < n then None
                        else case dec_sentries (unat n) p3 of
                          None \<Rightarrow> None
                        | Some (es, p4) \<Rightarrow>
                            if p4 \<noteq> [] then None
                            else Some \<lparr>LastMs = ms, LastSeq = sq, Entries = es\<rparr>)))"

definition EncodeInboxAdd :: "bytes \<Rightarrow> bytes" where
  "EncodeInboxAdd payload = 65 # put_item payload"

definition inbox_item :: "byte \<Rightarrow> bytes \<Rightarrow> bytes option" where
  "inbox_item c blob =
     (case blob of
        [] \<Rightarrow> None
      | d # p \<Rightarrow> if d \<noteq> c then None else (case take_item p of Inl err \<Rightarrow> None | Inr (x, r) \<Rightarrow> Some x))"

definition DecodeInboxAdd :: "bytes \<Rightarrow> bytes option" where
  "DecodeInboxAdd blob = inbox_item 65 blob"

definition EncodeInboxDel :: "bytes \<Rightarrow> bytes" where
  "EncodeInboxDel i = 68 # put_item i"

definition DecodeInboxDel :: "bytes \<Rightarrow> bytes option" where
  "DecodeInboxDel blob = inbox_item 68 blob"

definition EncodeInboxTrim :: "int \<Rightarrow> bytes" where
  "EncodeInboxTrim maxLen = 84 # PutUvarint (word_of_int maxLen)"

definition DecodeInboxTrim :: "bytes \<Rightarrow> int option" where
  "DecodeInboxTrim blob =
     (case blob of
        [] \<Rightarrow> None
      | d # p \<Rightarrow>
          if d \<noteq> 84 then None
          else case uvarint p of
            None \<Rightarrow> None
          | Some (n, r) \<Rightarrow> if r \<noteq> [] then None else if 2 ^ 63 - 1 < n then None else Some (uint n))"

section \<open>Ids print and parse\<close>

lemma unat_byte: "n < 256 \<Longrightarrow> unat (of_nat n :: byte) = n"
  by (simp add: unsigned_of_nat take_bit_nat_eq_self)

lemma is_digit_iff: "is_digit c \<longleftrightarrow> 48 \<le> unat c \<and> unat c \<le> 57"
  by (simp add: is_digit_def word_le_nat_alt)

lemma dec_digits_parse:
  "dec_digits n \<noteq> [] \<and> list_all is_digit (dec_digits n) \<and> digits_value (dec_digits n) = n"
proof (induction n rule: dec_digits.induct)
  case (1 n)
  have d: "unat (of_nat (48 + j) :: byte) = 48 + j" if "j < 10" for j using that by (intro unat_byte) simp
  show ?case
  proof (cases "n < 10")
    case True
    then show ?thesis using d [OF True] by (simp add: dec_digits.simps [of n] is_digit_iff digits_value_def del: of_nat_add)
  next
    case False
    then have IH: "list_all is_digit (dec_digits (n div 10))" "digits_value (dec_digits (n div 10)) = n div 10"
      using 1 by auto
    have m: "n mod 10 < 10" by simp
    show ?thesis
      using False IH d [OF m]
      by (simp add: dec_digits.simps [of n] is_digit_iff digits_value_def list_all_iff del: of_nat_add)
  qed
qed

lemma ParseUint_dec_digits: "ParseUint (dec_digits (unat x)) = Some x"
  using dec_digits_parse [of "unat x"] unsigned_less [of x, where 'a = nat] by (simp add: ParseUint_def)

lemma dec_digits_no_dash: "c \<in> set (dec_digits n) \<Longrightarrow> c \<noteq> 45"
  using dec_digits_parse [of n] by (auto simp: list_all_iff is_digit_iff)

lemma IndexByte_append: "\<forall>x \<in> set a. x \<noteq> c \<Longrightarrow> IndexByte (a @ c # b) c = int (length a)"
  by (simp add: IndexByte_def Let_def takeWhile_append)

text \<open>A printed id parses back to the same milliseconds and sequence number.\<close>

lemma ParseID_parses: "ParseID (FormatID ms sq) = Some (ms, sq)"
proof -
  let ?a = "dec_digits (unat ms)" and ?b = "dec_digits (unat sq)"
  have "IndexByte (FormatID ms sq) 45 = int (length ?a)"
    using IndexByte_append [of ?a 45 ?b] dec_digits_no_dash by (auto simp: FormatID_def)
  moreover have "?a \<noteq> []" "?b \<noteq> []" using dec_digits_parse by blast+
  ultimately show ?thesis
    by (simp add: ParseID_def ParseUint_dec_digits) (simp add: FormatID_def ParseUint_dec_digits)
qed

section \<open>Order of ids\<close>

definition id_less :: "u64 \<times> u64 \<Rightarrow> u64 \<times> u64 \<Rightarrow> bool" where
  "id_less a b \<longleftrightarrow> fst a < fst b \<or> fst a = fst b \<and> snd a < snd b"

abbreviation sid :: "sentry \<Rightarrow> u64 \<times> u64" where
  "sid e \<equiv> (sMs e, sSeq e)"

abbreviation last_id :: "slog \<Rightarrow> u64 \<times> u64" where
  "last_id l \<equiv> (LastMs l, LastSeq l)"

lemma id_less_irrefl [simp]: "\<not> id_less a a"
  by (simp add: id_less_def)

lemma id_less_trans: "id_less a b \<Longrightarrow> id_less b c \<Longrightarrow> id_less a c"
  by (auto simp: id_less_def)

lemma id_less_total: "id_less a b \<or> a = b \<or> id_less b a"
  by (cases a; cases b) (auto simp: id_less_def)

lemma cmpID_less:
  "cmpID ms sq oms oseq < 0 \<longleftrightarrow> id_less (ms, sq) (oms, oseq)"
  "0 < cmpID ms sq oms oseq \<longleftrightarrow> id_less (oms, oseq) (ms, sq)"
  by (auto simp: cmpID_def id_less_def)

text \<open>The invariant of a log: at most \<open>HardCap\<close> entries, ids strictly increasing, none beyond
  the last id handed out.\<close>

definition log_ok :: "slog \<Rightarrow> bool" where
  "log_ok l \<longleftrightarrow>
     length (Entries l) \<le> HardCap \<and> sorted_wrt id_less (map sid (Entries l)) \<and>
     (\<forall>e \<in> set (Entries l). (sid e = last_id l \<or> id_less (sid e) (last_id l)) \<and> go_len (sPayload e))"

text \<open>The sequence number only wraps after the largest one; until then ids grow.\<close>

definition can_mint :: "slog \<Rightarrow> u64 \<Rightarrow> bool" where
  "can_mint l milli \<longleftrightarrow> LastMs l < milli \<or> LastSeq l \<noteq> - 1"

lemma Mint_greater:
  assumes "can_mint l milli"
  shows "id_less (last_id l) (Mint l milli)"
proof (cases "LastMs l < milli")
  case True
  then show ?thesis by (auto simp: Mint_def Let_def id_less_def)
next
  case False
  then have "LastSeq l < LastSeq l + 1"
    using assms by (simp add: can_mint_def word_less_nat_alt)
      (metis add.commute lessI unatSuc add.right_inverse add_diff_cancel_left' diff_0)
  then show ?thesis using False by (auto simp: Mint_def Let_def id_less_def)
qed

lemma log_ok_New [simp]: "log_ok log_New"
  by (simp add: log_ok_def log_New_def)

lemma log_ok_Trim: "log_ok l \<Longrightarrow> log_ok (log_Trim l n)"
  by (auto simp: log_ok_def log_Trim_def drop_map [symmetric] sorted_wrt_drop dest: in_set_dropD)

lemma log_ok_Del: "log_ok l \<Longrightarrow> log_ok (log_Del l ms sq)"
  by (auto simp: log_ok_def log_Del_def sorted_wrt_filter sorted_wrt_map intro: order_trans [OF length_filter_le])

lemma change_New [simp]: "log_Del log_New ms sq = log_New" "log_Trim log_New n = log_New"
  by (simp_all add: log_Del_def log_Trim_def log_New_def)

lemma last_id_Trim [simp]: "LastMs (log_Trim l n) = LastMs l" "LastSeq (log_Trim l n) = LastSeq l"
  by (simp_all add: log_Trim_def)

lemma last_id_Del [simp]: "LastMs (log_Del l ms sq) = LastMs l" "LastSeq (log_Del l ms sq) = LastSeq l"
  by (simp_all add: log_Del_def)

text \<open>The last \<open>n\<close> elements.\<close>

definition lastn :: "nat \<Rightarrow> 'a list \<Rightarrow> 'a list" where
  "lastn n xs = drop (length xs - n) xs"

lemma lastn_lastn: "lastn a (lastn b xs) = lastn (min a b) xs"
proof -
  have "length xs - b + (length xs - (length xs - b) - a) = length xs - min a b" by simp
  then show ?thesis by (simp add: lastn_def add.commute)
qed

lemma Entries_Trim: "0 \<le> n \<Longrightarrow> Entries (log_Trim l n) = lastn (nat n) (Entries l)"
  by (auto simp: log_Trim_def lastn_def)

lemma log_Append_spec:
  assumes "log_Append l p milli at = Some (i, l')"
  shows "i = FormatID (fst (Mint l milli)) (snd (Mint l milli))" "last_id l' = Mint l milli"
    and "Entries l' = lastn (if 0 < at then min (nat at) HardCap else HardCap)
           (Entries l @ [\<lparr>sMs = fst (Mint l milli), sSeq = snd (Mint l milli), sPayload = p\<rparr>])"
proof -
  obtain ms sq where m: "Mint l milli = (ms, sq)" by (cases "Mint l milli")
  let ?l1 = "\<lparr>LastMs = ms, LastSeq = sq, Entries = Entries l @ [\<lparr>sMs = ms, sSeq = sq, sPayload = p\<rparr>]\<rparr>"
  let ?l2 = "if 0 < at then log_Trim ?l1 at else ?l1"
  have g: "\<not> (at \<le> 0 \<and> HardCap \<le> length (Entries l))" using assms by (auto simp: log_Append_def split: if_splits)
  have l': "l' = (if HardCap < length (Entries ?l2) then log_Trim ?l2 (int HardCap) else ?l2)" "i = FormatID ms sq"
    using assms g m by (auto simp: log_Append_def Let_def)
  show "i = FormatID (fst (Mint l milli)) (snd (Mint l milli))" using l' m by simp
  show "last_id l' = Mint l milli" unfolding l'(1) by (simp add: m)
  have "Entries l' = lastn HardCap (Entries ?l2)"
    unfolding l'(1) by (simp add: Entries_Trim lastn_def)
  then show "Entries l' = lastn (if 0 < at then min (nat at) HardCap else HardCap)
      (Entries l @ [\<lparr>sMs = fst (Mint l milli), sSeq = snd (Mint l milli), sPayload = p\<rparr>])"
    by (simp add: m Entries_Trim lastn_lastn min.commute)
qed

lemma log_ok_lastn:
  assumes "sorted_wrt id_less (map sid es)" "\<forall>e \<in> set es. (sid e = la \<or> id_less (sid e) la) \<and> go_len (sPayload e)"
    and "n \<le> HardCap"
  shows "log_ok \<lparr>LastMs = fst la, LastSeq = snd la, Entries = lastn n es\<rparr>"
  using assms by (auto simp: log_ok_def lastn_def drop_map [symmetric] sorted_wrt_drop dest: in_set_dropD)

lemma log_ok_Append:
  assumes ok: "log_ok l" and app: "log_Append l p milli at = Some (i, l')" and c: "can_mint l milli" and gl: "go_len p"
  shows "log_ok l'"
proof -
  let ?n = "\<lparr>sMs = fst (Mint l milli), sSeq = snd (Mint l milli), sPayload = p\<rparr>"
  note sp = log_Append_spec [OF app]
  have old: "id_less (sid e) (Mint l milli) \<and> go_len (sPayload e)" if "e \<in> set (Entries l)" for e
  proof -
    have "sid e = last_id l \<or> id_less (sid e) (last_id l)" "go_len (sPayload e)"
      using ok that by (auto simp: log_ok_def)
    then show ?thesis
      using Mint_greater [OF c] id_less_trans [of "sid e" "last_id l" "Mint l milli"] by auto
  qed
  have "sorted_wrt id_less (map sid (Entries l))" using ok by (simp add: log_ok_def)
  then have "sorted_wrt id_less (map sid (Entries l @ [?n]))"
    using old by (simp add: sorted_wrt_append)
  then have "log_ok \<lparr>LastMs = fst (Mint l milli), LastSeq = snd (Mint l milli), Entries = Entries l'\<rparr>"
    unfolding sp(3) using old gl by (intro log_ok_lastn) auto
  moreover have "fst (Mint l milli) = LastMs l'" "snd (Mint l milli) = LastSeq l'"
    unfolding sp(2) [symmetric] by simp_all
  ultimately show ?thesis by (simp add: log_ok_def)
qed

section \<open>Round trip and ranges\<close>

lemma uvarint_PutUvarint: "uvarint (PutUvarint v @ r) = Some (v, r)"
proof -
  have "0 < int (uvarintSize v)" using uvarintSize_pos [of v] by simp
  then show ?thesis by (simp add: uvarint_def codec_simps)
qed

lemma dec_sentries_enc:
  "\<forall>e \<in> set es. go_len (sPayload e) \<Longrightarrow> dec_sentries (length es) (concat (map enc_sentry es) @ r) = Some (es, r)"
  by (induction es) (simp_all add: enc_sentry_def uvarint_PutUvarint codec_simps)

lemma DecodeSnapshot_log_Encode:
  assumes "log_ok l"
  shows "DecodeSnapshot (log_Encode l) = Some l"
proof -
  have gl: "\<forall>e \<in> set (Entries l). go_len (sPayload e)" and n: "length (Entries l) \<le> 4096"
    using assms by (auto simp: log_ok_def HardCap_def)
  have u: "unat (of_nat (length (Entries l)) :: u64) = length (Entries l)"
    using n by (simp add: unsigned_of_nat take_bit_nat_eq_self)
  then have "\<not> of_nat HardCap < (of_nat (length (Entries l)) :: u64)"
    using n by (simp add: HardCap_def word_less_nat_alt)
  then show ?thesis
    using dec_sentries_enc [OF gl, of "[]"] u
    by (simp add: DecodeSnapshot_def log_Encode_def uvarint_PutUvarint)
qed

abbreviation in_window :: "sbound \<Rightarrow> sbound \<Rightarrow> sentry \<Rightarrow> bool" where
  "in_window start stop e \<equiv> \<not> below start (sMs e) (sSeq e) \<and> \<not> above stop (sMs e) (sSeq e)"

lemma range_loop_filter:
  "0 < cnt \<longrightarrow> int (length out) < cnt \<Longrightarrow>
   range_loop start stop cnt es out =
     out @ (if 0 < cnt then take (nat cnt - length out) (filter (in_window start stop) es)
            else filter (in_window start stop) es)"
proof (induction es arbitrary: out)
  case (Cons e es)
  show ?case
  proof (cases "in_window start stop e")
    case True
    show ?thesis
    proof (cases "0 < cnt \<and> cnt \<le> int (length (out @ [e]))")
      case stop: True
      then have "nat cnt - length out = 1" using Cons.prems by simp
      then show ?thesis using True stop by simp
    next
      case False
      then have "nat cnt - length out = Suc (nat cnt - length (out @ [e]))" if "0 < cnt" using that by simp
      then show ?thesis using True False Cons.IH [of "out @ [e]"] by auto
    qed
  next
    case False
    then show ?thesis using Cons by auto
  qed
qed simp

text \<open>A range query returns exactly the entries inside the window, oldest first or newest
  first, cut to the count when one is given (at most 512).\<close>

theorem log_Range_window:
  "log_Range l start stop cnt rv =
     (let es = filter (in_window start stop) (if rv then rev (Entries l) else Entries l)
      in if 0 < cnt then take (nat (min cnt 512)) es else es)"
  by (simp add: log_Range_def range_loop_filter ClampCount_def DefaultMax_def Let_def min_def)

text \<open>Without bounds every entry is inside.\<close>

lemma in_window_all: "bMin b \<Longrightarrow> bMax c \<Longrightarrow> in_window b c e"
  by (simp add: below_def above_def)

section \<open>Decoded logs\<close>

lemma dec_sentries_length: "dec_sentries n p = Some (es, r) \<Longrightarrow> length es = n"
  by (induction n arbitrary: p es) (auto split: option.splits sum.splits prod.splits)

end
