(* ===== verification/StoreStream.thy ===== *)
theory StoreStream
  imports LocalBlobs StreamLog
begin

text \<open>
  Named streams: \<open>pkg/store/stream.go\<close>. \<open>now\<close> is the clock of the store, \<open>milli\<close> the
  millisecond clock ids are minted from. XAdd returns \<open>(id, applied, tooLarge, full)\<close>;
  the empty id is \<open>[]\<close>.
\<close>

section \<open>Operations\<close>

text \<open>Appending, encoding and the size check, as the three writers of XAdd share them:
  \<open>Inl (tooLarge, full)\<close> or the id and the new snapshot.\<close>

definition sxAppend :: "slog \<Rightarrow> bytes \<Rightarrow> u64 \<Rightarrow> int \<Rightarrow> int \<Rightarrow> (bool \<times> bool) + (bytes \<times> bytes)" where
  "sxAppend lg payload milli maxValue autoTrim =
     (case log_Append lg payload milli autoTrim of
        None \<Rightarrow> Inl (False, True)
      | Some (i, lg') \<Rightarrow>
          let blob = log_Encode lg' in
          if 0 < maxValue \<and> maxValue < int (length blob) then Inl (True, False) else Inr (i, blob))"

type_synonym xadd_result = "bytes \<times> bool \<times> bool \<times> bool"

definition sxCommitLocked ::
    "time \<Rightarrow> bytes \<Rightarrow> lru_item \<Rightarrow> bytes \<Rightarrow> u64 \<Rightarrow> time \<Rightarrow> int \<Rightarrow> int \<Rightarrow> u64 \<Rightarrow> memory \<Rightarrow> xadd_result \<times> memory" where
  "sxCommitLocked now k it payload stored_v expireAt maxValue autoTrim milli m =
     (case DecodeSnapshot (Value (entry it)) of
        None \<Rightarrow> (([], False, False, False), m)
      | Some lg \<Rightarrow>
          (case sxAppend lg payload milli maxValue autoTrim of
             Inl (too, full) \<Rightarrow> (([], False, too, full), m)
           | Inr (i, blob) \<Rightarrow>
               let e' = \<lparr>Value = blob, Version = stored_v,
                         ExpireAt = (if expireAt \<noteq> 0 then expireAt else ExpireAt (entry it)), Flags = FlagStream\<rparr>;
                   m' = commitEntry now k it e' m
               in ((i, has k m', False, False), m')))"

definition sxCreateLocked ::
    "time \<Rightarrow> bytes \<Rightarrow> lru_item \<Rightarrow> bytes \<Rightarrow> u64 \<Rightarrow> time \<Rightarrow> int \<Rightarrow> int \<Rightarrow> u64 \<Rightarrow> memory \<Rightarrow> xadd_result \<times> memory" where
  "sxCreateLocked now k it payload stored_v expireAt maxValue autoTrim milli m =
     (case sxAppend log_New payload milli maxValue autoTrim of
        Inl (too, full) \<Rightarrow> (([], False, too, full), m)
      | Inr (i, blob) \<Rightarrow>
          let e' = \<lparr>Value = blob, Version = stored_v,
                    ExpireAt = (if expireAt \<noteq> 0 then expireAt else ExpireAt (entry it)), Flags = FlagStream\<rparr>;
              m' = commitEntry now k it e' m
          in ((i, has k m', False, False), m'))"

definition insertStreamLocked :: "time \<Rightarrow> bytes \<Rightarrow> entry \<Rightarrow> memory \<Rightarrow> bool \<times> memory" where
  "insertStreamLocked now k ent m =
     (let m' = evictLocked now (pushFront k (mkItem k ent (entryCost k ent)) m) in (has k m', m'))"

definition sxInsertLocked ::
    "time \<Rightarrow> bytes \<Rightarrow> bytes \<Rightarrow> u64 \<Rightarrow> time \<Rightarrow> int \<Rightarrow> int \<Rightarrow> u64 \<Rightarrow> memory \<Rightarrow> xadd_result \<times> memory" where
  "sxInsertLocked now k payload stored_v expireAt maxValue autoTrim milli m =
     (case sxAppend log_New payload milli maxValue autoTrim of
        Inl (too, full) \<Rightarrow> (([], False, too, full), m)
      | Inr (i, blob) \<Rightarrow>
          (case insertStreamLocked now k
              \<lparr>Value = blob, Version = stored_v, ExpireAt = expireAt, Flags = FlagStream\<rparr> m of
             (ok, m') \<Rightarrow> ((i, ok, False, False), m')))"

definition XAdd ::
    "time \<Rightarrow> u64 \<Rightarrow> bytes \<Rightarrow> bytes \<Rightarrow> u64 \<Rightarrow> time \<Rightarrow> int \<Rightarrow> int \<Rightarrow> memory \<Rightarrow> xadd_result \<times> memory" where
  "XAdd now milli k payload version expireAt maxValue autoTrim m =
     (case items m k of
        None \<Rightarrow> sxInsertLocked now k payload 1 expireAt maxValue autoTrim milli m
      | Some it \<Rightarrow>
          if \<not> Expired (entry it) now then
            if IsTombstone (entry it) then
              if version \<le> Version (entry it) then (([], False, False, False), skipStale m)
              else sxCreateLocked now k it payload (Version (entry it) + 1) expireAt maxValue autoTrim milli m
            else if \<not> IsStream (entry it) then (([], False, False, False), m)
            else sxCommitLocked now k it payload (Version (entry it) + 1) expireAt maxValue autoTrim milli m
          else sxInsertLocked now k payload 1 expireAt maxValue autoTrim milli (removeElement k m))"

definition sxWriteLocked :: "bytes \<Rightarrow> lru_item \<Rightarrow> slog \<Rightarrow> u64 \<Rightarrow> time \<Rightarrow> memory \<Rightarrow> bool \<times> memory" where
  "sxWriteLocked k it lg stored_v expireAt m =
     (let e' = \<lparr>Value = log_Encode lg, Version = stored_v,
                ExpireAt = (if expireAt \<noteq> 0 then expireAt else ExpireAt (entry it)), Flags = FlagStream\<rparr>
      in (True, moveToFront k (clampBytes (replaceItem k (it\<lparr>entry := e', cost := entryCost k e'\<rparr>) m))))"

text \<open>The guards XDel and XTrim share, around a change of the log.\<close>

definition sxChange ::
    "time \<Rightarrow> bytes \<Rightarrow> (slog \<Rightarrow> slog) \<Rightarrow> u64 \<Rightarrow> time \<Rightarrow> memory \<Rightarrow> bool \<times> memory" where
  "sxChange now k f version expireAt m =
     (case items m k of
        None \<Rightarrow> (True, m)
      | Some it \<Rightarrow>
          if Expired (entry it) now then (True, removeElement k m)
          else if IsTombstone (entry it) then
            if version \<le> Version (entry it) then (False, skipStale m) else (True, m)
          else if \<not> IsStream (entry it) then (False, m)
          else case DecodeSnapshot (Value (entry it)) of
            None \<Rightarrow> (False, m)
          | Some lg \<Rightarrow> sxWriteLocked k it (f lg) (Version (entry it) + 1) expireAt m)"

definition XDel :: "time \<Rightarrow> bytes \<Rightarrow> bytes \<Rightarrow> u64 \<Rightarrow> time \<Rightarrow> memory \<Rightarrow> bool \<times> memory" where
  "XDel now k i version expireAt m =
     (case ParseID i of
        None \<Rightarrow> (False, m)
      | Some (ms, sq) \<Rightarrow> sxChange now k (\<lambda>lg. log_Del lg ms sq) version expireAt m)"

definition XTrim :: "time \<Rightarrow> bytes \<Rightarrow> int \<Rightarrow> u64 \<Rightarrow> time \<Rightarrow> memory \<Rightarrow> bool \<times> memory" where
  "XTrim now k maxLen version expireAt m =
     (if maxLen < 0 then (False, m)
      else sxChange now k (\<lambda>lg. log_Trim lg maxLen) version expireAt m)"

definition liveStreamLocked :: "time \<Rightarrow> bytes \<Rightarrow> memory \<Rightarrow> slog option \<times> memory" where
  "liveStreamLocked now k m =
     (case items m k of
        None \<Rightarrow> (None, m)
      | Some it \<Rightarrow>
          if Expired (entry it) now then (None, removeElement k m)
          else if IsTombstone (entry it) \<or> \<not> IsStream (entry it) then (None, m)
          else (DecodeSnapshot (Value (entry it)), m))"

text \<open>\<open>Inl\<close> is a bound that does not parse; \<open>Inr None\<close> is no stream.\<close>

definition XRange ::
    "time \<Rightarrow> bytes \<Rightarrow> bytes \<Rightarrow> bytes \<Rightarrow> int \<Rightarrow> bool \<Rightarrow> memory \<Rightarrow> (codec_err + (bytes \<times> bytes) list option) \<times> memory" where
  "XRange now k start stop cnt rv m =
     (case ParseBound start True of
        None \<Rightarrow> (Inl BadValue, m)
      | Some sb \<Rightarrow>
          (case ParseBound stop False of
             None \<Rightarrow> (Inl BadValue, m)
           | Some eb \<Rightarrow>
               (case liveStreamLocked now k m of
                  (None, m') \<Rightarrow> (Inr None, m')
                | (Some lg, m') \<Rightarrow>
                    (Inr (Some (map (\<lambda>e. (entry_ID e, sPayload e)) (log_Range lg sb eb cnt rv))), m'))))"

definition XLen :: "time \<Rightarrow> bytes \<Rightarrow> memory \<Rightarrow> nat option \<times> memory" where
  "XLen now k m = (case liveStreamLocked now k m of (l, m') \<Rightarrow> (map_option (\<lambda>lg. length (Entries lg)) l, m'))"

definition HasStream :: "time \<Rightarrow> bytes \<Rightarrow> memory \<Rightarrow> bool \<times> memory" where
  "HasStream now k m = (case liveStreamLocked now k m of (l, m') \<Rightarrow> (l \<noteq> None, m'))"

definition SXInstall :: "time \<Rightarrow> bytes \<Rightarrow> bytes \<Rightarrow> u64 \<Rightarrow> time \<Rightarrow> memory \<Rightarrow> bool \<times> memory" where
  "SXInstall now k blob version expireAt m =
     (case DecodeSnapshot blob of
        None \<Rightarrow> (False, m)
      | Some lg \<Rightarrow>
          let ent = \<lparr>Value = blob, Version = version, ExpireAt = expireAt, Flags = FlagStream\<rparr> in
          case items m k of
            None \<Rightarrow> insertStreamLocked now k ent m
          | Some it \<Rightarrow>
              if \<not> Expired (entry it) now then
                if version \<le> Version (entry it) then (False, skipStale m)
                else insertStreamLocked now k ent (removeElement k m)
              else insertStreamLocked now k ent (removeElement k m))"

section \<open>Contracts\<close>

interpretation sx: blob_store FlagStream "\<lambda>b. DecodeSnapshot b \<noteq> None" insertStreamLocked SXInstall "\<lambda>e. True"
proof (unfold_locales, goal_cases)
  case (5 now k e m)
  show ?case by (simp add: insertStreamLocked_def)
next
  case (6 now k blob v ex m)
  show ?case
    by (cases "items m k"; cases "DecodeSnapshot blob") (simp_all add: SXInstall_def Let_def)
qed (simp_all add: plain_def lru_pinned_def flag_simps)

lemma stream_flags: "\<forall>f \<in> cached_flags. f AND FlagStream = 0"
  by (simp add: cached_flags_def Flag_defs)

text \<open>XAdd as a local write; its argument is the payload, the millisecond clock, the value
  limit and the trim length. Both kinds of refusal count as too large.\<close>

definition sx_app :: "bytes option \<Rightarrow> bytes \<times> u64 \<times> int \<times> int \<Rightarrow> bool + bytes" where
  "sx_app s = (\<lambda>(p, milli, mv, at).
     case (case s of None \<Rightarrow> Some log_New | Some b \<Rightarrow> DecodeSnapshot b) of
       None \<Rightarrow> Inl False
     | Some lg \<Rightarrow> (case sxAppend lg p milli mv at of Inl (too, full) \<Rightarrow> Inl (too \<or> full) | Inr (i, b) \<Rightarrow> Inr b))"

definition sx_add :: "time \<Rightarrow> bytes \<Rightarrow> bytes \<times> u64 \<times> int \<times> int \<Rightarrow> u64 \<Rightarrow> time \<Rightarrow> memory \<Rightarrow> (bool \<times> bool) \<times> memory" where
  "sx_add now k = (\<lambda>(p, milli, mv, at) v ex m.
     case XAdd now milli k p v ex mv at m of ((i, ok, too, full), m') \<Rightarrow> ((ok, too \<or> full), m'))"

interpretation sxa: local_blob FlagStream "\<lambda>a. None" sx_app sx_add
proof (unfold_locales, goal_cases)
  case (5 e now)
  then show ?case by (rule sx.flag_pinned)
next
  case (7 now k a v ex m)
  obtain p milli mv at where a: "a = (p, milli, mv, at)" by (metis prod_cases4)
  show ?case
    by (cases "items m k"; cases "sxAppend log_New p milli mv at")
      (auto simp: a sx_add_def XAdd_def sxInsertLocked_def sxCommitLocked_def sxCreateLocked_def
        insertStreamLocked_def sx_app_def Let_def Is_defs split: sum.splits option.splits)
qed (auto simp: plain_def flag_simps cached_flags_def Flag_defs)

section \<open>The log under a key\<close>

text \<open>The key holds the log, or holds nothing while the log is the fresh one.\<close>

definition sx_state :: "bytes \<Rightarrow> slog \<Rightarrow> memory \<Rightarrow> bool" where
  "sx_state k l m \<longleftrightarrow>
     log_ok l \<and> (sxa.tracks k (Some (log_Encode l)) m \<or> l = log_New \<and> sxa.tracks k None m)"

lemma sx_state_New [simp]: "sx_state k log_New (NewMemory mx ttl)"
  by (simp add: sx_state_def)

lemma tracked_item:
  assumes "sxa.tracks k (Some b) m"
  obtains it where "items m k = Some it" "\<not> Expired (entry it) now" "\<not> IsTombstone (entry it)"
    "IsStream (entry it)" "Value (entry it) = b"
proof -
  have wf: "mem_wf m" and b: "sxa.base now m k = Some b"
    using sxa.tracks_base(1,3) [OF assms] by auto
  obtain it where it: "items m k = Some it"
    using assms by (auto simp: sxa.tracks_def view_def)
  show thesis
    using that [OF it] b unfolding sxa.base_item [OF wf it] by (simp add: Is_defs split: if_splits)
qed

lemma tracked_none: "sxa.tracks k None m \<Longrightarrow> items m k = None"
  by (simp add: sxa.tracks_def view_def)

lemma XAdd_id:
  assumes "sx_state k l m"
  shows "fst (fst (XAdd now milli k p v ex mv at m)) =
    (case sxAppend l p milli mv at of Inl r \<Rightarrow> [] | Inr (i, b) \<Rightarrow> i)"
proof (cases "sxa.tracks k (Some (log_Encode l)) m")
  case True
  then obtain it where it: "items m k = Some it" "\<not> Expired (entry it) now" "\<not> IsTombstone (entry it)"
      "IsStream (entry it)" "Value (entry it) = log_Encode l"
    by (rule tracked_item)
  then have "XAdd now milli k p v ex mv at m =
      sxCommitLocked now k it p (Version (entry it) + 1) ex mv at milli m" by (simp add: XAdd_def)
  then show ?thesis
    using DecodeSnapshot_log_Encode [of l] assms it(5)
    by (auto simp: sxCommitLocked_def sx_state_def Let_def split: sum.splits)
next
  case False
  then have "l = log_New" "items m k = None" using assms tracked_none by (auto simp: sx_state_def)
  then show ?thesis by (auto simp: XAdd_def sxInsertLocked_def split: sum.splits prod.splits)
qed

lemma XAdd_state:
  assumes st: "sx_state k l m" and c: "can_mint l milli" and gl: "go_len p"
  shows "case sxAppend l p milli mv at of
      Inl r \<Rightarrow> \<not> fst (snd (fst (XAdd now milli k p v 0 mv at m))) \<and>
               sx_state k l (snd (XAdd now milli k p v 0 mv at m))
    | Inr (i, b) \<Rightarrow> fst (snd (fst (XAdd now milli k p v 0 mv at m))) \<and>
        (\<exists>l'. log_Append l p milli at = Some (i, l') \<and> sx_state k l' (snd (XAdd now milli k p v 0 mv at m)))"
proof -
  let ?r = "XAdd now milli k p v 0 mv at m" and ?a = "(p, milli, mv, at)"
  obtain s where s: "sxa.tracks k s m" "s = Some (log_Encode l) \<or> s = None \<and> l = log_New"
    using st by (auto simp: sx_state_def)
  have ok: "log_ok l" using st by (simp add: sx_state_def)
  have app: "sx_app s ?a = (case sxAppend l p milli mv at of Inl (too, full) \<Rightarrow> Inl (too \<or> full) | Inr (i, b) \<Rightarrow> Inr b)"
    using s(2) DecodeSnapshot_log_Encode [OF ok] by (auto simp: sx_app_def)
  have tr: "sxa.tracks k (sxa.astep ?a s) (snd ?r)"
    "fst (snd (fst ?r)) \<longleftrightarrow> (\<exists>b. sx_app s ?a = Inr b)"
    using sxa.tracks_add [OF s(1), where a = ?a and now = now and v = v] by (auto simp: sx_add_def split_beta)
  show ?thesis
  proof (cases "sxAppend l p milli mv at")
    case (Inl r)
    then have "sxa.astep ?a s = s" using app by (auto simp: sxa.astep_def split: prod.splits)
    then show ?thesis using Inl tr app s(2) ok by (auto simp: sx_state_def split: prod.splits)
  next
    case (Inr ib)
    obtain i b where ib: "ib = (i, b)" by (cases ib)
    obtain l' where l': "log_Append l p milli at = Some (i, l')" "b = log_Encode l'"
      using Inr ib by (auto simp: sxAppend_def Let_def split: option.splits if_splits)
    have "sxa.astep ?a s = Some (log_Encode l')" using app Inr ib l' by (simp add: sxa.astep_def)
    then show ?thesis
      using Inr ib tr app l' log_ok_Append [OF ok l'(1) c gl] by (auto simp: sx_state_def)
  qed
qed

lemma sxWrite_tracks:
  assumes "sxa.tracks k (Some b) m" "items m k = Some it"
  shows "sxa.tracks k (Some (log_Encode l)) (snd (sxWriteLocked k it l sv 0 m))"
proof -
  let ?e = "\<lparr>Value = log_Encode l, Version = sv, ExpireAt = ExpireAt (entry it), Flags = FlagStream\<rparr>"
  let ?it = "it\<lparr>entry := ?e, cost := entryCost k ?e\<rparr>"
  have wf: "mem_wf m" and ex: "ExpireAt (entry it) = 0" using assms by (auto simp: sxa.tracks_def view_def)
  have pl: "plain ?e" by (simp add: plain_def flag_simps)
  have it: "key ?it = k" "item_wf ?it" using mem_wfD(1) [OF wf assms(2)] item_wf_in_place [OF pl, of it k] by simp_all
  note wf' = mem_wf_replaceItem [OF wf assms(2) it]
  have "clampBytes (replaceItem k ?it m) = replaceItem k ?it m" by (simp add: clampBytes_id mbytes_nonneg [OF wf'])
  then have eq: "snd (sxWriteLocked k it l sv 0 m) = moveToFront k (replaceItem k ?it m)"
    by (simp add: sxWriteLocked_def Let_def)
  have "mem_wf (moveToFront k (replaceItem k ?it m))"
    by (rule mem_wf_moveToFront [OF wf']) (simp add: items_replaceItem [OF assms(2)])
  moreover have "view (moveToFront k (replaceItem k ?it m)) k = Some ?e"
    using mat_in_place [OF pl] by (simp add: view_replaceItem [OF assms(2)])
  ultimately show ?thesis unfolding eq using ex by (simp add: sxa.tracks_def)
qed

lemma sxChange_state:
  assumes st: "sx_state k l m" and f: "log_ok (f l)" "f log_New = log_New"
  shows "sx_state k (f l) (snd (sxChange now k f v 0 m))"
proof (cases "sxa.tracks k (Some (log_Encode l)) m")
  case True
  then obtain it where it: "items m k = Some it" "\<not> Expired (entry it) now" "\<not> IsTombstone (entry it)"
      "IsStream (entry it)" "Value (entry it) = log_Encode l"
    by (rule tracked_item)
  then have "sxChange now k f v 0 m = sxWriteLocked k it (f l) (Version (entry it) + 1) 0 m"
    using st DecodeSnapshot_log_Encode [of l] by (simp add: sxChange_def sx_state_def)
  then show ?thesis using sxWrite_tracks [OF True it(1)] f(1) by (simp add: sx_state_def)
next
  case False
  then have l: "l = log_New" "sxa.tracks k None m" using st by (auto simp: sx_state_def)
  then show ?thesis using tracked_none [OF l(2)] f by (simp add: sxChange_def sx_state_def)
qed

lemma XDel_state:
  assumes st: "sx_state k l m"
  shows "\<exists>l'. sx_state k l' (snd (XDel now k i v 0 m)) \<and> last_id l' = last_id l"
proof (cases "ParseID i")
  case (Some j)
  have "sx_state k (log_Del l (fst j) (snd j)) (snd (sxChange now k (\<lambda>lg. log_Del lg (fst j) (snd j)) v 0 m))"
    using st by (intro sxChange_state) (simp_all add: sx_state_def log_ok_Del)
  then show ?thesis using Some by (intro exI [of _ "log_Del l (fst j) (snd j)"]) (simp add: XDel_def split_beta)
qed (use st in \<open>auto simp: XDel_def\<close>)

lemma XTrim_state:
  assumes st: "sx_state k l m"
  shows "\<exists>l'. sx_state k l' (snd (XTrim now k n v 0 m)) \<and> last_id l' = last_id l"
proof (cases "n < 0")
  case False
  have "sx_state k (log_Trim l n) (snd (sxChange now k (\<lambda>lg. log_Trim lg n) v 0 m))"
    using st by (intro sxChange_state) (simp_all add: sx_state_def log_ok_Trim)
  then show ?thesis using False by (intro exI [of _ "log_Trim l n"]) (simp add: XTrim_def)
qed (use st in \<open>auto simp: XTrim_def\<close>)

section \<open>Ids over a run\<close>

text \<open>Operations on one stream, as clients send them, and the ids a run hands out.\<close>

datatype xop =
  OAdd time u64 bytes u64 int int
  | ODel time bytes u64
  | OTrim time int u64

fun xrun :: "bytes \<Rightarrow> xop list \<Rightarrow> memory \<Rightarrow> bytes list \<times> memory" where
  "xrun k [] m = ([], m)"
| "xrun k (OAdd now milli p v mv at # os) m =
     (case XAdd now milli k p v 0 mv at m of
        ((i, ok, too, full), m') \<Rightarrow>
          (case xrun k os m' of (is, m'') \<Rightarrow> (if ok then i # is else is, m'')))"
| "xrun k (ODel now i v # os) m = xrun k os (snd (XDel now k i v 0 m))"
| "xrun k (OTrim now n v # os) m = xrun k os (snd (XTrim now k n v 0 m))"

fun xop_ok :: "xop \<Rightarrow> bool" where
  "xop_ok (OAdd now milli p v mv at) = go_len p"
| "xop_ok _ = True"

lemma xrun_ids:
  assumes "sx_state k l m" "list_all xop_ok os" "unat (LastSeq l) + length os < 2 ^ 64"
  shows "\<exists>ids. map ParseID (fst (xrun k os m)) = map Some ids \<and> sorted_wrt id_less (last_id l # ids)"
  using assms
proof (induction os arbitrary: l m)
  case (Cons a os)
  show ?case
  proof (cases a)
    case (OAdd now milli p v mv at)
    let ?r = "XAdd now milli k p v 0 mv at m"
    have "LastSeq l \<noteq> - 1"
      using Cons.prems(3) by (auto simp: unsigned_minus_1_eq_mask mask_eq_exp_minus_1)
    then have c: "can_mint l milli" by (simp add: can_mint_def)
    have gl: "go_len p" using Cons.prems(2) OAdd by simp
    note xs = XAdd_state [OF Cons.prems(1) c gl, where mv = mv and at = at and now = now and v = v]
    note xi = XAdd_id [OF Cons.prems(1), of now milli p v 0 mv at]
    have run: "fst (xrun k (a # os) m) =
        (if fst (snd (fst ?r)) then fst (fst ?r) # fst (xrun k os (snd ?r)) else fst (xrun k os (snd ?r)))"
      by (simp add: OAdd split_beta)
    show ?thesis
    proof (cases "sxAppend l p milli mv at")
      case (Inl r)
      then show ?thesis
        using xs Cons.IH [of l "snd ?r"] Cons.prems by (simp add: run)
    next
      case (Inr ib)
      obtain i b where ib: "ib = (i, b)" by (cases ib)
      obtain l' where l': "log_Append l p milli at = Some (i, l')" "sx_state k l' (snd ?r)" "fst (snd (fst ?r))"
        using xs Inr ib by auto
      note sp = log_Append_spec [OF l'(1)]
      have lt: "id_less (last_id l) (last_id l')" using Mint_greater [OF c] sp(2) by simp
      have "unat (LastSeq l') \<le> Suc (unat (LastSeq l))"
        using sp(2) \<open>LastSeq l \<noteq> - 1\<close> unat_plus_if' [of "LastSeq l" 1] by (auto simp: Mint_def Let_def split: if_splits)
      then obtain ids where ids: "map ParseID (fst (xrun k os (snd ?r))) = map Some ids"
          "sorted_wrt id_less (last_id l' # ids)"
        using Cons.IH [OF l'(2)] Cons.prems by auto
      have "ParseID i = Some (last_id l')" using sp(1,2) ParseID_parses by simp
      then have "map ParseID (fst (xrun k (a # os) m)) = map Some (last_id l' # ids)"
        using ids(1) l'(3) xi Inr ib by (simp add: run)
      moreover have "sorted_wrt id_less (last_id l # last_id l' # ids)"
        using ids(2) lt id_less_trans by auto
      ultimately show ?thesis by blast
    qed
  next
    case (ODel now i v)
    from XDel_state [OF Cons.prems(1)] obtain l' where
      "sx_state k l' (snd (XDel now k i v 0 m))" "last_id l' = last_id l" by blast
    then show ?thesis using Cons.IH [of l' "snd (XDel now k i v 0 m)"] Cons.prems by (simp add: ODel)
  next
    case (OTrim now n v)
    from XTrim_state [OF Cons.prems(1)] obtain l' where
      "sx_state k l' (snd (XTrim now k n v 0 m))" "last_id l' = last_id l" by blast
    then show ?thesis using Cons.IH [of l' "snd (XTrim now k n v 0 m)"] Cons.prems by (simp add: OTrim)
  qed
qed simp

text \<open>C27. Stream ids only grow: in any run of XAdd, XDel and XTrim calls on a stream, with clocks
  that may stand still or step back, the ids of the applied additions are strictly
  increasing, so deleting or trimming entries never makes an id come back.\<close>

theorem XAdd_ids_increase:
  assumes "list_all xop_ok os" "length os < 2 ^ 64"
  shows "\<exists>ids. map ParseID (fst (xrun k os (NewMemory mx ttl))) = map Some ids \<and> sorted_wrt id_less ids"
  using xrun_ids [OF sx_state_New assms(1), of k mx ttl] assms(2) by (auto simp: log_New_def)

theorem XAdd_ids_increase_witness:
  "\<exists>ids. map ParseID (fst (xrun [1] [OAdd 0 7 [9] 1 0 0, ODel 0 (FormatID 7 0) 1, OAdd 1 6 [8] 1 0 0] (NewMemory 0 0))) =
     map Some ids \<and> sorted_wrt id_less ids"
  by (rule XAdd_ids_increase) (simp_all add: go_len_def)

lemma XRange_all:
  assumes "sx_state k l m" "Entries l \<noteq> [] \<or> sxa.tracks k (Some (log_Encode l)) m"
  shows "fst (XRange now k [45] [43] 0 False m) =
    Inr (Some (map (\<lambda>e. (entry_ID e, sPayload e)) (Entries l)))"
proof -
  have "sxa.tracks k (Some (log_Encode l)) m"
    using assms by (auto simp: sx_state_def log_New_def)
  then obtain it where it: "items m k = Some it" "\<not> Expired (entry it) now" "\<not> IsTombstone (entry it)"
      "IsStream (entry it)" "Value (entry it) = log_Encode l"
    by (rule tracked_item)
  then have "liveStreamLocked now k m = (Some l, m)"
    using DecodeSnapshot_log_Encode assms(1) by (simp add: liveStreamLocked_def sx_state_def)
  then show ?thesis
    by (simp add: XRange_def ParseBound_def log_Range_def range_loop_filter ClampCount_def below_def above_def)
qed



end
