(* ===== verification/VecCodec.thy ===== *)
theory VecCodec
  imports Prelude
begin

text \<open>
  Vector sets: \<open>pkg/vecset/codec.go\<close>. A \<open>float32\<close> is its IEEE 754 bit pattern, as the
  codec writes it. The scores are written over the machine's arithmetic, the parameter \<open>fp\<close>.
\<close>

section \<open>Words of two and four bytes\<close>

definition PutUint16LE :: "16 word \<Rightarrow> bytes" where
  "PutUint16LE v = [ucast v, ucast (drop_bit 8 v)]"

definition Uint16LE :: "bytes \<Rightarrow> 16 word" where
  "Uint16LE b = ucast (b ! 0) OR push_bit 8 (ucast (b ! 1))"

definition PutUint32LE :: "32 word \<Rightarrow> bytes" where
  "PutUint32LE v = [ucast v, ucast (drop_bit 8 v), ucast (drop_bit 16 v), ucast (drop_bit 24 v)]"

definition Uint32LE :: "bytes \<Rightarrow> 32 word" where
  "Uint32LE b = ucast (b ! 0) OR push_bit 8 (ucast (b ! 1)) OR push_bit 16 (ucast (b ! 2)) OR push_bit 24 (ucast (b ! 3))"

lemma Uint16LE_Put: "Uint16LE (PutUint16LE v @ r) = v"
proof (rule bit_word_eqI)
  fix n
  assume "n < LENGTH(16)"
  then show "bit (Uint16LE (PutUint16LE v @ r)) n = bit v n"
    by (cases "n < 8") (auto simp: Uint16LE_def PutUint16LE_def bit_simps)
qed

lemma Uint32LE_Put: "Uint32LE (PutUint32LE v @ r) = v"
proof (rule bit_word_eqI)
  fix n
  assume n: "n < LENGTH(32)"
  consider "n < 8" | "8 \<le> n" "n < 16" | "16 \<le> n" "n < 24" | "24 \<le> n" by linarith
  then show "bit (Uint32LE (PutUint32LE v @ r)) n = bit v n"
    using n by cases (auto simp: Uint32LE_def PutUint32LE_def bit_simps)
qed

lemma length_Put [simp]: "length (PutUint16LE v) = 2" "length (PutUint32LE w) = 4"
  by (simp_all add: PutUint16LE_def PutUint32LE_def)

section \<open>Comparison of float32 values\<close>

definition f32_mag :: "f32 \<Rightarrow> int" where
  "f32_mag w = uint (take_bit 31 w)"

definition f32_is_nan :: "f32 \<Rightarrow> bool" where
  "f32_is_nan w \<longleftrightarrow> 0x7f800000 < f32_mag w"

definition f32_is_inf :: "f32 \<Rightarrow> bool" where
  "f32_is_inf w \<longleftrightarrow> f32_mag w = 0x7f800000"

definition f32_key :: "f32 \<Rightarrow> int" where
  "f32_key w = (if bit w 31 then - f32_mag w else f32_mag w)"

definition f32_lt :: "f32 \<Rightarrow> f32 \<Rightarrow> bool" where
  "f32_lt a b \<longleftrightarrow> \<not> f32_is_nan a \<and> \<not> f32_is_nan b \<and> f32_key a < f32_key b"

definition f32_eq :: "f32 \<Rightarrow> f32 \<Rightarrow> bool" where
  "f32_eq a b \<longleftrightarrow> \<not> f32_is_nan a \<and> \<not> f32_is_nan b \<and> f32_key a = f32_key b"

section \<open>Sets of vectors\<close>

datatype vec_err = VecBadBlob | VecBadMember | VecBadVec | VecFull

definition MinDim :: int where "MinDim = 2"
definition MaxDim :: int where "MaxDim = 256"
definition MaxMembers :: nat where "MaxMembers = 512"
definition MaxMemberLen :: nat where "MaxMemberLen = 255"
definition DefaultK :: int where "DefaultK = 10"
definition MaxK :: int where "MaxK = 50"

lemmas vec_consts = MinDim_def MaxDim_def MaxMembers_def MaxMemberLen_def DefaultK_def MaxK_def

record hit =
  hMember :: bytes
  hScore :: f32

record vset =
  vDim :: int
  vvals :: "(bytes, f32 list) fmap"

definition ClampK :: "int \<Rightarrow> int" where
  "ClampK k = (if k \<le> 0 then DefaultK else if MaxK < k then MaxK else k)"

definition ValidDim :: "int \<Rightarrow> bool" where
  "ValidDim dim \<longleftrightarrow> MinDim \<le> dim \<and> dim \<le> MaxDim"

definition vec_WorstEncodedSize :: "int \<Rightarrow> int \<Rightarrow> int \<Rightarrow> int" where
  "vec_WorstEncodedSize dim cnt idLen =
     (let dim = (if dim < MinDim then MaxDim else dim);
          idLen = (if idLen < 1 then int MaxMemberLen else idLen);
          cnt = (if cnt < 0 then int MaxMembers else cnt)
      in wrap64 (5 + cnt * (1 + idLen + 4 * dim)))"

definition IsZero :: "f32 list \<Rightarrow> bool" where
  "IsZero vec \<longleftrightarrow> list_all (\<lambda>x. f32_eq x 0) vec \<and> vec \<noteq> []"

definition Finite :: "f32 list \<Rightarrow> bool" where
  "Finite vec \<longleftrightarrow> list_all (\<lambda>x. \<not> f32_is_nan x \<and> \<not> f32_is_inf x) vec"

definition NewSet :: "int \<Rightarrow> vset" where
  "NewSet dim = \<lparr>vDim = dim, vvals = fmempty\<rparr>"

definition vec_Card :: "vset \<Rightarrow> nat" where
  "vec_Card s = fcard (fmdom (vvals s))"

definition vec_Emb :: "vset \<Rightarrow> bytes \<Rightarrow> f32 list option" where
  "vec_Emb s member = fmlookup (vvals s) member"

definition vec_Add :: "vset \<Rightarrow> bytes \<Rightarrow> f32 list \<Rightarrow> vec_err + vset" where
  "vec_Add s member vec =
     (if \<not> ValidDim (vDim s) \<or> int (length vec) \<noteq> vDim s \<or> \<not> Finite vec then Inl VecBadVec
      else if length member < 1 \<or> MaxMemberLen < length member then Inl VecBadMember
      else if fmlookup (vvals s) member = None \<and> MaxMembers \<le> fcard (fmdom (vvals s)) then Inl VecFull
      else Inr (s\<lparr>vvals := fmupd member vec (vvals s)\<rparr>))"

definition vec_Rem :: "vset \<Rightarrow> bytes \<Rightarrow> vset" where
  "vec_Rem s member = s\<lparr>vvals := fmdrop member (vvals s)\<rparr>"

definition enc_vec :: "bytes \<times> f32 list \<Rightarrow> bytes" where
  "enc_vec kv = of_nat (length (fst kv)) # fst kv @ concat (map PutUint32LE (snd kv))"

definition vec_Encode :: "vset \<Rightarrow> bytes" where
  "vec_Encode s =
     83 # PutUint16LE (word_of_int (vDim s)) @ PutUint16LE (of_nat (fcard (fmdom (vvals s)))) @
     concat (map enc_vec (sorted_list_of_fmap (vvals s)))"

text \<open>The vector of one record: \<open>n\<close> floats, none of them a NaN or an infinity.\<close>

primrec dec_floats :: "nat \<Rightarrow> bytes \<Rightarrow> (f32 list \<times> bytes) option" where
  "dec_floats 0 p = Some ([], p)"
| "dec_floats (Suc n) p =
     (let x = Uint32LE (take 4 p) in
      if f32_is_nan x \<or> f32_is_inf x then None
      else case dec_floats n (drop 4 p) of None \<Rightarrow> None | Some (xs, r) \<Rightarrow> Some (x # xs, r))"

primrec dec_vecs :: "nat \<Rightarrow> vset \<Rightarrow> bytes \<Rightarrow> (vset \<times> bytes) option" where
  "dec_vecs 0 s p = Some (s, p)"
| "dec_vecs (Suc n) s p =
     (case p of
        [] \<Rightarrow> None
      | c # q \<Rightarrow>
          let idLen = unat c in
          if idLen < 1 \<or> MaxMemberLen < idLen \<or> int (length q) < int idLen + 4 * vDim s then None
          else case dec_floats (nat (vDim s)) (drop idLen q) of
            None \<Rightarrow> None
          | Some (vec, r) \<Rightarrow>
              (case vec_Add s (take idLen q) vec of Inl err \<Rightarrow> None | Inr s' \<Rightarrow> dec_vecs n s' r))"

definition vec_DecodeSnapshot :: "bytes \<Rightarrow> vset option" where
  "vec_DecodeSnapshot blob =
     (if length blob < 5 \<or> hd blob \<noteq> 83 then None
      else
        let dim = uint (Uint16LE (take 2 (drop 1 blob))); cnt = unat (Uint16LE (take 2 (drop 3 blob))) in
        if \<not> ValidDim dim \<or> MaxMembers < cnt then None
        else case dec_vecs cnt (NewSet dim) (drop 5 blob) of
          None \<Rightarrow> None
        | Some (s, r) \<Rightarrow> if r \<noteq> [] then None else Some s)"

definition vec_EncodeInboxAdd :: "bytes \<Rightarrow> f32 list \<Rightarrow> vec_err + bytes" where
  "vec_EncodeInboxAdd member vec =
     (if length member < 1 \<or> MaxMemberLen < length member \<or> \<not> ValidDim (int (length vec)) \<or> \<not> Finite vec
      then Inl VecBadVec
      else Inr (65 # of_nat (length member) # member @ concat (map PutUint32LE vec)))"

definition vec_EncodeInboxRem :: "bytes \<Rightarrow> vec_err + bytes" where
  "vec_EncodeInboxRem member =
     (if length member < 1 \<or> MaxMemberLen < length member then Inl VecBadMember else Inr (82 # member))"

definition vec_DecodeInboxAdd :: "bytes \<Rightarrow> (bytes \<times> f32 list) option" where
  "vec_DecodeInboxAdd blob =
     (if length blob < 2 \<or> blob ! 0 \<noteq> 65 then None
      else
        let idLen = unat (blob ! 1) in
        if idLen < 1 \<or> MaxMemberLen < idLen \<or> length blob \<le> 2 + idLen then None
        else
          let rest = length blob - 2 - idLen; dim = rest div 4 in
          if rest mod 4 \<noteq> 0 \<or> \<not> ValidDim (int dim) then None
          else case dec_floats dim (drop (2 + idLen) blob) of
            None \<Rightarrow> None
          | Some (vec, r) \<Rightarrow> Some (take idLen (drop 2 blob), vec))"

definition vec_DecodeInboxRem :: "bytes \<Rightarrow> bytes option" where
  "vec_DecodeInboxRem blob =
     (if length blob < 2 \<or> hd blob \<noteq> 82 then None
      else if MaxMemberLen < length (tl blob) then None else Some (tl blob))"

section \<open>Similarity\<close>

text \<open>Metrics are Go ints: 1 is the Euclidean distance, 2 the inner product, anything else
  the cosine.\<close>

text \<open>The loops \<open>s += f(x) * g(y)\<close> over the paired components.\<close>

definition fp_dot :: "fpu \<Rightarrow> (f64 \<Rightarrow> f64 \<Rightarrow> f64) \<Rightarrow> f32 list \<Rightarrow> f32 list \<Rightarrow> f64" where
  "fp_dot fp f a b = fold (\<lambda>(x, y) s. fp_add fp s (f (fp_of32 fp x) (fp_of32 fp y))) (zip a b) 0"

definition vec_Score :: "fpu \<Rightarrow> f32 list \<Rightarrow> f32 list \<Rightarrow> int \<Rightarrow> f32" where
  "vec_Score fp a b metric =
     (if a = [] \<or> length a \<noteq> length b then 0
      else if metric = 1 then
        fp_to32 fp (fp_sqrt fp (fp_dot fp (\<lambda>x y. let d = fp_sub fp x y in fp_mul fp d d) a b))
      else if metric = 2 then fp_to32 fp (fp_dot fp (fp_mul fp) a b)
      else
        let dot = fp_dot fp (fp_mul fp) a b; na = fp_dot fp (\<lambda>x y. fp_mul fp x x) a b;
            nb = fp_dot fp (\<lambda>x y. fp_mul fp y y) a b in
        if f64_eq na 0 \<or> f64_eq nb 0 then 0
        else fp_to32 fp (fp_div fp dot (fp_mul fp (fp_sqrt fp na) (fp_sqrt fp nb))))"

definition better :: "f32 \<Rightarrow> f32 \<Rightarrow> int \<Rightarrow> bool" where
  "better a b metric \<longleftrightarrow> (if metric = 1 then f32_lt a b else f32_lt b a)"

definition hit_before :: "int \<Rightarrow> hit \<Rightarrow> hit \<Rightarrow> bool" where
  "hit_before metric x y \<longleftrightarrow>
     (if \<not> f32_eq (hScore x) (hScore y) then better (hScore x) (hScore y) metric
      else hMember x < hMember y)"

definition vec_rows :: "fpu \<Rightarrow> vset \<Rightarrow> f32 list \<Rightarrow> int \<Rightarrow> hit list" where
  "vec_rows fp s query metric =
     map (\<lambda>(m, v). \<lparr>hMember = m, hScore = vec_Score fp query v metric\<rparr>) (sorted_list_of_fmap (vvals s))"

definition vec_Sim ::
    "fpu \<Rightarrow> vset \<Rightarrow> f32 list \<Rightarrow> int \<Rightarrow> int \<Rightarrow> vec_err + hit list" where
  "vec_Sim fp s query k metric =
     (if int (length query) \<noteq> vDim s \<or> \<not> Finite query then Inl VecBadVec
      else
        let rows = sort_by (hit_before metric) (vec_rows fp s query metric); kk = ClampK k
        in Inr (take (nat (min kk (int (length rows)))) rows))"

definition Sim :: "fpu \<Rightarrow> bytes \<Rightarrow> f32 list \<Rightarrow> int \<Rightarrow> int \<Rightarrow> vec_err + hit list" where
  "Sim fp blob query k metric =
     (case vec_DecodeSnapshot blob of None \<Rightarrow> Inl VecBadBlob | Some s \<Rightarrow> vec_Sim fp s query k metric)"

section \<open>The invariant and the round trip\<close>

definition vec_ok :: "vset \<Rightarrow> bool" where
  "vec_ok s \<longleftrightarrow>
     ValidDim (vDim s) \<and> fcard (fmdom (vvals s)) \<le> MaxMembers \<and>
     (\<forall>m v. fmlookup (vvals s) m = Some v \<longrightarrow>
        0 < length m \<and> length m \<le> MaxMemberLen \<and> int (length v) = vDim s \<and> Finite v)"

lemma vec_ok_NewSet: "ValidDim d \<Longrightarrow> vec_ok (NewSet d)"
  by (simp add: vec_ok_def NewSet_def fcard_fempty)

lemma vec_ok_Add:
  assumes "vec_ok s" "vec_Add s m v = Inr s'"
  shows "vec_ok s'" "vDim s' = vDim s" "vvals s' = fmupd m v (vvals s)"
proof -
  show s': "vvals s' = fmupd m v (vvals s)" "vDim s' = vDim s"
    using assms(2) by (auto simp: vec_Add_def split: if_splits)
  have "fcard (finsert m (fmdom (vvals s))) \<le> MaxMembers"
  proof (cases "fmlookup (vvals s) m")
    case None
    then show ?thesis using assms by (auto simp: vec_Add_def vec_ok_def fcard_finsert_if split: if_splits)
  next
    case (Some w)
    then have "m |\<in>| fmdom (vvals s)" by (simp add: fmdomI)
    then show ?thesis using assms by (simp add: vec_ok_def finsert_absorb)
  qed
  then show "vec_ok s'"
    using assms s' by (auto simp: vec_ok_def vec_Add_def Suc_le_eq split: if_splits)
qed

lemma vec_ok_Rem: "vec_ok s \<Longrightarrow> vec_ok (vec_Rem s m)"
proof -
  assume ok: "vec_ok s"
  have "fcard (fmdom (vvals s) |-| {|m|}) \<le> fcard (fmdom (vvals s))" by (intro fcard_mono) auto
  then show ?thesis using ok by (auto simp: vec_ok_def vec_Rem_def)
qed

lemma dec_vecs_ok: "dec_vecs n s p = Some (s', r) \<Longrightarrow> vec_ok s \<Longrightarrow> vec_ok s'"
proof (induction n arbitrary: s p)
  case (Suc n)
  then obtain s1 r1 m v where "vec_Add s m v = Inr s1" "dec_vecs n s1 r1 = Some (s', r)"
    by (auto simp: Let_def split: list.splits if_splits option.splits sum.splits)
  then show ?case using Suc.IH vec_ok_Add(1) [OF Suc.prems(2)] by blast
qed simp

lemma vec_Decode_ok: "vec_DecodeSnapshot b = Some s \<Longrightarrow> vec_ok s"
  using dec_vecs_ok vec_ok_NewSet
  by (fastforce simp: vec_DecodeSnapshot_def Let_def split: if_splits option.splits)

lemma dec_floats_enc:
  "Finite v \<Longrightarrow> dec_floats (length v) (concat (map PutUint32LE v) @ r) = Some (v, r)"
proof (induction v)
  case (Cons x v)
  have "Uint32LE (take 4 (PutUint32LE x @ c)) = x" for c
    using Uint32LE_Put [of x "[]"] by simp
  then show ?case using Cons by (auto simp: Finite_def)
qed simp

lemma dec_vecs_enc:
  assumes "vec_ok s" "distinct (map fst kvs)" "\<forall>x \<in> set kvs. fmlookup (vvals s) (fst x) = None"
    and "\<forall>x \<in> set kvs. 0 < length (fst x) \<and> length (fst x) \<le> 255 \<and> int (length (snd x)) = vDim s \<and> Finite (snd x)"
    and "fcard (fmdom (vvals s)) + length kvs \<le> MaxMembers"
  shows "dec_vecs (length kvs) s (concat (map enc_vec kvs) @ r) =
    Some (s\<lparr>vvals := fold (\<lambda>(m, v). fmupd m v) kvs (vvals s)\<rparr>, r)"
  using assms
proof (induction kvs arbitrary: s)
  case (Cons kv kvs)
  obtain m v where kv: "kv = (m, v)" by (cases kv)
  have mv: "0 < length m" "length m \<le> 255" "int (length v) = vDim s" "Finite v" "fmlookup (vvals s) m = None"
    using Cons.prems kv by auto
  let ?s = "s\<lparr>vvals := fmupd m v (vvals s)\<rparr>"
  have add: "vec_Add s m v = Inr ?s"
    using Cons.prems mv by (auto simp: vec_Add_def vec_ok_def vec_consts)
  have u: "unat (of_nat (length m) :: byte) = length m"
    using mv(2) by (simp add: unsigned_of_nat take_bit_nat_eq_self)
  have l: "length (concat (map PutUint32LE v)) = 4 * length v" by (induction v) simp_all
  have "dec_vecs (length (kv # kvs)) s (concat (map enc_vec (kv # kvs)) @ r) =
      dec_vecs (length kvs) ?s (concat (map enc_vec kvs) @ r)"
    using mv(1,2) u l add dec_floats_enc [OF mv(4), of "concat (map enc_vec kvs) @ r"]
    by (simp add: kv enc_vec_def Let_def vec_consts mv(3) [symmetric])
  moreover have "dec_vecs (length kvs) ?s (concat (map enc_vec kvs) @ r) =
      Some (?s\<lparr>vvals := fold (\<lambda>(m, v). fmupd m v) kvs (vvals ?s)\<rparr>, r)"
  proof (rule Cons.IH)
    show "vec_ok ?s" by (rule vec_ok_Add(1) [OF Cons.prems(1) add])
    have "m \<notin> set (map fst kvs)" using Cons.prems(2) kv by simp
    then have "m \<noteq> fst x" if "x \<in> set kvs" for x using that by auto
    then show "\<forall>x \<in> set kvs. fmlookup (vvals ?s) (fst x) = None" using Cons.prems(3) by simp
    have "m |\<notin>| fmdom (vvals s)" using mv(5) by (rule fmdom_notI)
    then show "fcard (fmdom (vvals ?s)) + length kvs \<le> MaxMembers"
      using Cons.prems(5) by (simp add: fcard_finsert_disjoint)
  qed (use Cons.prems in simp_all)
  ultimately show ?case by (simp add: kv)
qed simp

lemma vec_Decode_Encode:
  assumes ok: "vec_ok s"
  shows "vec_DecodeSnapshot (vec_Encode s) = Some s"
proof -
  let ?kvs = "sorted_list_of_fmap (vvals s)" and ?d = "word_of_int (vDim s) :: 16 word"
    and ?n = "of_nat (fcard (fmdom (vvals s))) :: 16 word"
  have dim: "ValidDim (vDim s)" "fcard (fmdom (vvals s)) \<le> 512"
    using ok by (auto simp: vec_ok_def vec_consts)
  have len: "length ?kvs = fcard (fmdom (vvals s))"
    unfolding sorted_list_of_fmap_def by (simp add: fcard.rep_eq sorted_list_of_fset.rep_eq)
  have u: "uint ?d = vDim s" "unat ?n = length ?kvs"
    using dim len by (simp_all add: ValidDim_def vec_consts unsigned_of_int unsigned_of_nat
        take_bit_int_eq_self take_bit_nat_eq_self)
  have mem: "set ?kvs = {(m, v). fmlookup (vvals s) m = Some v}" "distinct (map fst ?kvs)"
    by (simp_all add: set_sorted_list_of_fmap)
  have "dec_vecs (length ?kvs) (NewSet (vDim s)) (concat (map enc_vec ?kvs) @ []) =
      Some ((NewSet (vDim s))\<lparr>vvals := fold (\<lambda>(m, v). fmupd m v) ?kvs (vvals (NewSet (vDim s)))\<rparr>, [])"
    using ok mem dim len
    by (intro dec_vecs_enc) (auto simp: vec_ok_NewSet vec_ok_def NewSet_def fcard_fempty vec_consts)
  also have "fold (\<lambda>(m, v). fmupd m v) ?kvs (vvals (NewSet (vDim s))) = vvals s"
    using fold_fmupd_pairs [OF mem] by (simp add: NewSet_def)
  finally have dv: "dec_vecs (length ?kvs) (NewSet (vDim s)) (concat (map enc_vec ?kvs)) = Some (s, [])"
    by (simp add: NewSet_def)
  have h: "take 2 (drop 1 (vec_Encode s)) = PutUint16LE ?d" "take 2 (drop 3 (vec_Encode s)) = PutUint16LE ?n"
    "drop 5 (vec_Encode s) = concat (map enc_vec ?kvs)" "hd (vec_Encode s) = 83" "5 \<le> length (vec_Encode s)"
    by (simp_all add: vec_Encode_def numeral_eq_Suc)
  then show ?thesis
    using dim u dv Uint16LE_Put [of ?d "[]"] Uint16LE_Put [of ?n "[]"] len
    by (simp add: vec_DecodeSnapshot_def vec_consts)
qed

text \<open>C31. A vector set survives its snapshot: decoding what it encodes gives the same dimension
  and the same vectors, an empty set included.\<close>

theorem vec_round_trip:
  assumes "vec_ok s"
  shows "vec_DecodeSnapshot (vec_Encode s) = Some s"
  by (rule vec_Decode_Encode [OF assms])

theorem vec_round_trip_witness:
  "vec_DecodeSnapshot (vec_Encode \<lparr>vDim = 2, vvals = fmupd [5] [0, 0x3f800000] fmempty\<rparr>) =
     Some \<lparr>vDim = 2, vvals = fmupd [5] [0, 0x3f800000] fmempty\<rparr>"
  by (rule vec_round_trip)
    (simp add: vec_ok_def ValidDim_def vec_consts Finite_def f32_is_nan_def f32_is_inf_def f32_mag_def
      fcard_finsert_if fcard_fempty)

section \<open>Ranking\<close>

text \<open>The hits a query produces, one per member.\<close>

definition hit_set :: "fpu \<Rightarrow> vset \<Rightarrow> f32 list \<Rightarrow> int \<Rightarrow> hit set" where
  "hit_set fp s query metric =
     {\<lparr>hMember = m, hScore = vec_Score fp query v metric\<rparr> | m v.
        fmlookup (vvals s) m = Some v \<and> \<not> f32_is_nan (vec_Score fp query v metric)}"

interpretation hb: total_less "hit_before metric" "hit_set fp s query metric" for fp s query metric
proof (unfold_locales, goal_cases)
  case (1 a)
  then show ?case by (simp add: hit_before_def hit_set_def f32_eq_def better_def f32_lt_def)
next
  case (2 a b c)
  then show ?case
    by (auto simp: hit_before_def hit_set_def f32_eq_def better_def f32_lt_def split: if_splits)
next
  case (3 a b)
  then have "hMember a \<noteq> hMember b" "\<not> f32_is_nan (hScore a)" "\<not> f32_is_nan (hScore b)"
    by (auto simp: hit_set_def)
  then show ?case
    unfolding hit_before_def f32_eq_def better_def f32_lt_def
    by (cases "f32_key (hScore a) = f32_key (hScore b)") auto
qed

lemma vec_rows_set:
  assumes "\<forall>m v. fmlookup (vvals s) m = Some v \<longrightarrow> \<not> f32_is_nan (vec_Score fp query v metric)"
  shows "set (vec_rows fp s query metric) = hit_set fp s query metric"
    and "distinct (vec_rows fp s query metric)"
proof -
  show "set (vec_rows fp s query metric) = hit_set fp s query metric"
    using assms by (auto simp: vec_rows_def hit_set_def set_sorted_list_of_fmap image_iff)
  have "map hMember (vec_rows fp s query metric) = sorted_list_of_fset (fmdom (vvals s))"
    by (simp add: vec_rows_def case_prod_unfold comp_def flip: map_fst_sorted_list_of_fmap)
  then have "distinct (map hMember (vec_rows fp s query metric))" by simp
  then show "distinct (vec_rows fp s query metric)" by (simp add: distinct_map)
qed

lemma nat_min: "min n (nat (min a (int n))) = min (nat a) n"
  by linarith

text \<open>The order of the documentation: Euclidean distances from low to high, inner products and
  cosines from high to low, ties by member. The scores are compared as numbers.\<close>

definition ranks_before :: "int \<Rightarrow> hit \<Rightarrow> hit \<Rightarrow> bool" where
  "ranks_before metric x y \<longleftrightarrow>
     (let a = f32_key (hScore x); b = f32_key (hScore y) in
      if a = b then hMember x < hMember y else if metric = 1 then a < b else b < a)"

lemma hit_before_ranks:
  "\<not> f32_is_nan (hScore x) \<Longrightarrow> \<not> f32_is_nan (hScore y) \<Longrightarrow> hit_before metric x y = ranks_before metric x y"
  by (auto simp: hit_before_def ranks_before_def better_def f32_lt_def f32_eq_def Let_def)

text \<open>C32. A similarity search returns the nearest members: as many hits as asked for (10 when none is
  asked for, 50 at most) or as there are, each with its own score, in the order of the
  metric: distances from low to high, inner products and cosines from high to low, ties by
  member. Every member that is not returned comes after all that are. No score is a NaN.\<close>

theorem vec_Sim_best:
  assumes sim: "vec_Sim fp s query k metric = Inr hs"
    and num: "\<forall>m v. fmlookup (vvals s) m = Some v \<longrightarrow> \<not> f32_is_nan (vec_Score fp query v metric)"
  shows "sorted_wrt (ranks_before metric) hs \<and> set hs \<subseteq> hit_set fp s query metric \<and>
    length hs = min (nat (ClampK k)) (vec_Card s) \<and>
    (\<forall>x \<in> hit_set fp s query metric - set hs. \<forall>h \<in> set hs. ranks_before metric h x)"
proof -
  let ?rows = "sort_by (hit_before metric) (vec_rows fp s query metric)"
  note rows = vec_rows_set [OF num]
  have set_rows: "set ?rows = hit_set fp s query metric" using rows(1) by simp
  have "sorted_wrt (hit_before metric) ?rows"
    using rows by (intro hb.sorted_sort_by [of _ fp s query metric]) simp_all
  then have sorted: "sorted_wrt (ranks_before metric) ?rows"
  proof (rule sorted_wrt_mono_rel [rotated])
    fix x y
    assume "x \<in> set ?rows" "y \<in> set ?rows" "hit_before metric x y"
    then show "ranks_before metric x y"
      using hit_before_ranks [of x y metric] unfolding set_rows hit_set_def by auto
  qed
  define n where "n = nat (min (ClampK k) (int (length ?rows)))"
  have hs: "hs = take n ?rows"
    using sim by (auto simp: vec_Sim_def Let_def n_def split: if_splits)
  have split: "?rows = hs @ drop n ?rows" by (simp add: hs)
  have "ranks_before metric h x" if "x \<in> hit_set fp s query metric - set hs" "h \<in> set hs" for x h
  proof -
    have "x \<in> set ?rows" using that(1) set_rows by simp
    then have "x \<in> set (drop n ?rows)" using that(1) split by (metis DiffD2 Un_iff set_append)
    then show ?thesis using sorted that(2) split by (metis sorted_wrt_append)
  qed
  moreover have "sorted_wrt (ranks_before metric) hs" unfolding hs by (rule sorted_wrt_take [OF sorted])
  moreover have "set hs \<subseteq> hit_set fp s query metric" using set_rows set_take_subset [of n ?rows] hs by simp
  moreover have "length (vec_rows fp s query metric) = vec_Card s"
    unfolding vec_rows_def vec_Card_def sorted_list_of_fmap_def
    by (simp add: fcard.rep_eq sorted_list_of_fset.rep_eq)
  then have "length hs = min (nat (ClampK k)) (vec_Card s)"
    unfolding hs n_def by (simp add: nat_min)
  ultimately show ?thesis by blast
qed

text \<open>An arithmetic in which the inner product is the last component of the stored vector, and
  three members with the components 1, 2 and 0.5.\<close>

definition last_fpu :: fpu where
  "last_fpu = zero_fpu\<lparr>fp_add := (\<lambda>s x. x), fp_mul := (\<lambda>x y. y), fp_of32 := ucast, fp_to32 := ucast\<rparr>"

definition three_vecs :: vset where
  "three_vecs = \<lparr>vDim = 2, vvals = fmap_of_list [([1], [0, 0x3f800000]), ([2], [0, 0x40000000]), ([3], [0, 0x3f000000])]\<rparr>"

theorem vec_Sim_best_witness:
  "let hs = projr (vec_Sim last_fpu three_vecs [0, 0] 2 2) in
   map hMember hs = [[2], [1]] \<and> sorted_wrt (ranks_before 2) hs \<and>
   list_all (\<lambda>h. ranks_before 2 h \<lparr>hMember = [3], hScore = 0x3f000000\<rparr>) hs"
proof -
  let ?hs = "projr (vec_Sim last_fpu three_vecs [0, 0] 2 2)" and ?c = "\<lparr>hMember = [3], hScore = 0x3f000000 :: f32\<rparr>"
  have sim: "vec_Sim last_fpu three_vecs [0, 0] 2 2 = Inr ?hs" and ms: "map hMember ?hs = [[2], [1]]"
    by code_simp+
  have sc: "vec_Score last_fpu [0, 0] [0, 0x3f800000] 2 = 0x3f800000" "vec_Score last_fpu [0, 0] [0, 0x40000000] 2 = 0x40000000"
    "vec_Score last_fpu [0, 0] [0, 0x3f000000] 2 = 0x3f000000" by code_simp+
  have nn: "\<not> f32_is_nan 0x3f800000" "\<not> f32_is_nan 0x40000000" "\<not> f32_is_nan 0x3f000000" by code_simp+
  have lk: "fmlookup (vvals three_vecs) m =
      (if m = [1] then Some [0, 0x3f800000] else if m = [2] then Some [0, 0x40000000]
       else if m = [3] then Some [0, 0x3f000000] else None)" for m
    by (simp add: three_vecs_def fmlookup_of_list)
  have num: "\<forall>m v. fmlookup (vvals three_vecs) m = Some v \<longrightarrow> \<not> f32_is_nan (vec_Score last_fpu [0, 0] v 2)"
    using sc nn by (auto simp: lk split: if_splits)
  have "?c \<in> hit_set last_fpu three_vecs [0, 0] 2" using sc(3) nn(3) by (auto simp: hit_set_def lk)
  moreover have "?c \<notin> set ?hs" using ms by (force simp: image_iff dest: arg_cong [of _ _ set])
  ultimately show ?thesis using vec_Sim_best [OF sim num] ms by (simp add: Let_def list_all_iff)
qed

end
