(* ===== verification/StoreVec.thy ===== *)
theory StoreVec
  imports LocalBlobs VecCodec
begin

text \<open>Named vector sets: \<open>pkg/store/vecset.go\<close>. The arithmetic of the scores is the parameter
  \<open>fp\<close>, as in the codec. Results of VAdd are \<open>(applied, tooLarge)\<close>.\<close>

section \<open>Operations\<close>

definition insertVSLocked :: "time \<Rightarrow> bytes \<Rightarrow> entry \<Rightarrow> memory \<Rightarrow> bool \<times> memory" where
  "insertVSLocked now k ent m =
     (let m' = evictLocked now (pushFront k (mkItem k ent (entryCost k ent)) m) in (has k m', m'))"

definition vsCommitLocked ::
    "time \<Rightarrow> bytes \<Rightarrow> lru_item \<Rightarrow> bytes \<Rightarrow> f32 list \<Rightarrow> u64 \<Rightarrow> time \<Rightarrow> int \<Rightarrow> memory \<Rightarrow> (bool \<times> bool) \<times> memory" where
  "vsCommitLocked now k it member vec stored_v expireAt maxValue m =
     (case vec_DecodeSnapshot (Value (entry it)) of
        None \<Rightarrow> ((False, False), m)
      | Some s \<Rightarrow>
          if vDim s \<noteq> int (length vec) then ((False, False), m)
          else case vec_Add s member vec of
            Inl err \<Rightarrow> ((False, False), m)
          | Inr s' \<Rightarrow>
              let blob = vec_Encode s' in
              if 0 < maxValue \<and> maxValue < int (length blob) then ((False, True), m)
              else
                let e' = \<lparr>Value = blob, Version = stored_v,
                          ExpireAt = (if expireAt \<noteq> 0 then expireAt else ExpireAt (entry it)), Flags = FlagVectorSet\<rparr>;
                    m' = commitEntry now k it e' m
                in ((has k m', False), m'))"

definition vsInsertOverLocked ::
    "time \<Rightarrow> bytes \<Rightarrow> lru_item \<Rightarrow> bytes \<Rightarrow> f32 list \<Rightarrow> u64 \<Rightarrow> time \<Rightarrow> int \<Rightarrow> memory \<Rightarrow> (bool \<times> bool) \<times> memory" where
  "vsInsertOverLocked now k it member vec stored_v expireAt maxValue m =
     (case vec_Add (NewSet (int (length vec))) member vec of
        Inl err \<Rightarrow> ((False, False), m)
      | Inr s' \<Rightarrow>
          let blob = vec_Encode s' in
          if 0 < maxValue \<and> maxValue < int (length blob) then ((False, True), m)
          else
            let e' = \<lparr>Value = blob, Version = stored_v,
                      ExpireAt = (if expireAt \<noteq> 0 then expireAt else ExpireAt (entry it)), Flags = FlagVectorSet\<rparr>;
                m' = commitEntry now k it e' m
            in ((has k m', False), m'))"

definition vsInsertLocked ::
    "time \<Rightarrow> bytes \<Rightarrow> bytes \<Rightarrow> f32 list \<Rightarrow> u64 \<Rightarrow> time \<Rightarrow> int \<Rightarrow> memory \<Rightarrow> (bool \<times> bool) \<times> memory" where
  "vsInsertLocked now k member vec stored_v expireAt maxValue m =
     (case vec_Add (NewSet (int (length vec))) member vec of
        Inl err \<Rightarrow> ((False, False), m)
      | Inr s' \<Rightarrow>
          let blob = vec_Encode s' in
          if 0 < maxValue \<and> maxValue < int (length blob) then ((False, True), m)
          else case insertVSLocked now k
                 \<lparr>Value = blob, Version = stored_v, ExpireAt = expireAt, Flags = FlagVectorSet\<rparr> m of
               (ok, m') \<Rightarrow> ((ok, False), m'))"

definition VAdd ::
    "time \<Rightarrow> bytes \<Rightarrow> bytes \<Rightarrow> f32 list \<Rightarrow> u64 \<Rightarrow> time \<Rightarrow> int \<Rightarrow> memory \<Rightarrow> (bool \<times> bool) \<times> memory" where
  "VAdd now k member vec version expireAt maxValue m =
     (if length member < 1 \<or> MaxMemberLen < length member \<or> \<not> ValidDim (int (length vec)) \<or> \<not> Finite vec
      then ((False, False), m)
      else
        case items m k of
          None \<Rightarrow> vsInsertLocked now k member vec 1 expireAt maxValue m
        | Some it \<Rightarrow>
            if \<not> Expired (entry it) now then
              if IsTombstone (entry it) then
                if version \<le> Version (entry it) then ((False, False), skipStale m)
                else vsInsertOverLocked now k it member vec (Version (entry it) + 1) expireAt maxValue m
              else if \<not> IsVectorSet (entry it) then ((False, False), m)
              else vsCommitLocked now k it member vec (Version (entry it) + 1) expireAt maxValue m
            else vsInsertLocked now k member vec 1 expireAt maxValue (removeElement k m))"

definition VRem :: "time \<Rightarrow> bytes \<Rightarrow> bytes \<Rightarrow> u64 \<Rightarrow> time \<Rightarrow> memory \<Rightarrow> bool \<times> memory" where
  "VRem now k member version expireAt m =
     (case items m k of
        None \<Rightarrow> (True, m)
      | Some it \<Rightarrow>
          if Expired (entry it) now then (True, removeElement k m)
          else if IsTombstone (entry it) then
            if version \<le> Version (entry it) then (False, skipStale m) else (True, m)
          else if \<not> IsVectorSet (entry it) then (False, m)
          else case vec_DecodeSnapshot (Value (entry it)) of
            None \<Rightarrow> (False, m)
          | Some s \<Rightarrow>
              let e = entry it;
                  e' = \<lparr>Value = vec_Encode (vec_Rem s member), Version = Version e + 1,
                        ExpireAt = (if expireAt \<noteq> 0 then expireAt else ExpireAt e), Flags = FlagVectorSet\<rparr>
              in (True, moveToFront k (clampBytes (replaceItem k (it\<lparr>entry := e', cost := entryCost k e'\<rparr>) m))))"

definition hasVSLocked :: "time \<Rightarrow> bytes \<Rightarrow> memory \<Rightarrow> bool \<times> memory" where
  "hasVSLocked now k m =
     (case items m k of
        None \<Rightarrow> (False, m)
      | Some it \<Rightarrow>
          if Expired (entry it) now then (False, removeElement k m)
          else (\<not> IsTombstone (entry it) \<and> IsVectorSet (entry it), m))"

definition HasVectorSet :: "time \<Rightarrow> bytes \<Rightarrow> memory \<Rightarrow> bool \<times> memory" where
  "HasVectorSet now k m = hasVSLocked now k m"

definition liveVSLocked :: "time \<Rightarrow> bytes \<Rightarrow> memory \<Rightarrow> vset option \<times> memory" where
  "liveVSLocked now k m =
     (case hasVSLocked now k m of
        (False, m') \<Rightarrow> (None, m')
      | (True, m') \<Rightarrow>
          (case items m' k of None \<Rightarrow> (None, m') | Some it \<Rightarrow> (vec_DecodeSnapshot (Value (entry it)), m')))"

definition VSim ::
    "fpu \<Rightarrow> time \<Rightarrow> bytes \<Rightarrow> f32 list \<Rightarrow> int \<Rightarrow> int \<Rightarrow> memory \<Rightarrow> hit list option \<times> memory" where
  "VSim fp now k vec kk metric m =
     (case liveVSLocked now k m of
        (None, m') \<Rightarrow> (None, m')
      | (Some s, m') \<Rightarrow>
          (case vec_Sim fp s vec kk metric of Inl err \<Rightarrow> (None, m') | Inr hs \<Rightarrow> (Some hs, m')))"

definition VCard :: "time \<Rightarrow> bytes \<Rightarrow> memory \<Rightarrow> nat option \<times> memory" where
  "VCard now k m = (case liveVSLocked now k m of (s, m') \<Rightarrow> (map_option vec_Card s, m'))"

definition VDim :: "time \<Rightarrow> bytes \<Rightarrow> memory \<Rightarrow> int option \<times> memory" where
  "VDim now k m = (case liveVSLocked now k m of (s, m') \<Rightarrow> (map_option vDim s, m'))"

definition VEmb :: "time \<Rightarrow> bytes \<Rightarrow> bytes \<Rightarrow> memory \<Rightarrow> f32 list option \<times> memory" where
  "VEmb now k member m =
     (case liveVSLocked now k m of (None, m') \<Rightarrow> (None, m') | (Some s, m') \<Rightarrow> (vec_Emb s member, m'))"

definition VSInstall :: "time \<Rightarrow> bytes \<Rightarrow> bytes \<Rightarrow> u64 \<Rightarrow> time \<Rightarrow> memory \<Rightarrow> bool \<times> memory" where
  "VSInstall now k blob version expireAt m =
     (case vec_DecodeSnapshot blob of
        None \<Rightarrow> (False, m)
      | Some s \<Rightarrow>
          let ent = \<lparr>Value = blob, Version = version, ExpireAt = expireAt, Flags = FlagVectorSet\<rparr> in
          case items m k of
            None \<Rightarrow> insertVSLocked now k ent m
          | Some it \<Rightarrow>
              if \<not> Expired (entry it) now then
                if IsTombstone (entry it) then
                  if version \<le> Version (entry it) then (False, skipStale m)
                  else insertVSLocked now k ent (removeElement k m)
                else if IsVectorSet (entry it) then
                  if version \<le> Version (entry it) then (False, skipStale m)
                  else insertVSLocked now k ent (removeElement k m)
                else if version \<le> Version (entry it) then (False, m)
                else insertVSLocked now k ent (removeElement k m)
              else insertVSLocked now k ent (removeElement k m))"

section \<open>Contracts\<close>

interpretation vt: blob_store FlagVectorSet "\<lambda>b. vec_DecodeSnapshot b \<noteq> None" insertVSLocked VSInstall
    "same_kind FlagVectorSet"
proof (unfold_locales, goal_cases)
  case (5 now k e m)
  show ?case by (simp add: insertVSLocked_def)
next
  case (6 now k blob v ex m)
  show ?case
    by (cases "items m k"; cases "vec_DecodeSnapshot blob") (simp_all add: VSInstall_def Let_def Is_defs)
qed (simp_all add: plain_def lru_pinned_def flag_simps)

lemma vec_flags: "\<forall>f \<in> cached_flags. f AND FlagVectorSet = 0"
  by (simp add: cached_flags_def Flag_defs)

definition vec_pre :: "bytes \<times> f32 list \<times> int \<Rightarrow> (bool \<times> bool) option" where
  "vec_pre a =
     (let x = fst a; vec = fst (snd a) in
      if length x < 1 \<or> MaxMemberLen < length x \<or> \<not> ValidDim (int (length vec)) \<or> \<not> Finite vec
      then Some (False, False) else None)"

definition vec_app :: "bytes option \<Rightarrow> bytes \<times> f32 list \<times> int \<Rightarrow> bool + bytes" where
  "vec_app s = (\<lambda>(x, vec, mv).
     case (case s of None \<Rightarrow> Some (NewSet (int (length vec))) | Some b \<Rightarrow> vec_DecodeSnapshot b) of
       None \<Rightarrow> Inl False
     | Some vs \<Rightarrow>
         if vDim vs \<noteq> int (length vec) then Inl False
         else case vec_Add vs x vec of
           Inl err \<Rightarrow> Inl False
         | Inr vs' \<Rightarrow>
             if 0 < mv \<and> mv < int (length (vec_Encode vs')) then Inl True else Inr (vec_Encode vs'))"

interpretation vta: local_blob FlagVectorSet vec_pre vec_app
    "\<lambda>now k (x, vec, mv) v ex m. VAdd now k x vec v ex mv m"
proof (unfold_locales, goal_cases)
  case (5 e now)
  then show ?case by (rule vt.flag_pinned)
next
  case (7 now k a v ex m)
  obtain x vec mv where a: "a = (x, vec, mv)" by (cases a)
  show ?case
    by (cases "items m k"; cases "vec_Add (NewSet (int (length vec))) x vec")
      (auto simp: a VAdd_def vsInsertLocked_def vsCommitLocked_def vsInsertOverLocked_def insertVSLocked_def
        vec_pre_def vec_app_def Let_def Is_defs NewSet_def [THEN arg_cong [where f = vDim]]
        split: sum.splits option.splits)
qed (auto simp: plain_def flag_simps vec_pre_def Let_def cached_flags_def Flag_defs split: if_splits)

lemma liveVS_at:
  assumes "mem_wf m"
  shows "fst (liveVSLocked now k m) =
    (case live_entry FlagVectorSet now m k of None \<Rightarrow> None | Some e \<Rightarrow> vec_DecodeSnapshot (Value e))"
proof (cases "items m k")
  case None
  then show ?thesis by (simp add: liveVSLocked_def hasVSLocked_def live_entry_def view_def)
next
  case (Some it)
  then show ?thesis
    using live_entry_item [OF assms Some vec_flags, of now]
    by (auto simp: liveVSLocked_def hasVSLocked_def Is_defs)
qed

section \<open>Functional behaviour\<close>

text \<open>The vector set a key holds.\<close>

definition vec_at :: "time \<Rightarrow> memory \<Rightarrow> bytes \<Rightarrow> vset option" where
  "vec_at now m k = (case live_entry FlagVectorSet now m k of None \<Rightarrow> None | Some e \<Rightarrow> vec_DecodeSnapshot (Value e))"

lemma VEmb_at: "mem_wf m \<Longrightarrow> fst (VEmb now k x m) = (case vec_at now m k of None \<Rightarrow> None | Some s \<Rightarrow> vec_Emb s x)"
  using liveVS_at [of m now k] by (auto simp: VEmb_def vec_at_def split: prod.splits option.splits)

text \<open>C33. VAdd stores the vector: after an applied addition to a key without a live entry or with a
  vector set, VEmb returns the new vector for the member and what it returned before for
  every other member.\<close>

theorem VAdd_then_VEmb:
  assumes wf: "mem_wf m" and ex: "ex = 0 \<or> now < ex"
    and add: "VAdd now k x vec v ex mv m = ((True, too), m')"
  shows "fst (VEmb now k y m') = (if y = x then Some vec else fst (VEmb now k y m))"
proof -
  let ?a = "(x, vec, mv)"
  have p: "vec_pre ?a = None"
    using add by (auto simp: vec_pre_def VAdd_def Let_def split: if_splits)
  have w: "vta.writable now v m k" and "\<not> isl (vec_app (vta.base now m k) ?a)"
    using vta.add_fails [OF wf p, of now v k _ ex] add by (auto simp: isl_def)
  then obtain b where b: "vec_app (vta.base now m k) ?a = Inr b" by (cases "vec_app (vta.base now m k) ?a") auto
  let ?s0 = "case vec_at now m k of None \<Rightarrow> NewSet (int (length vec)) | Some s \<Rightarrow> s"
  have s0: "(case vta.base now m k of None \<Rightarrow> Some (NewSet (int (length vec))) | Some b \<Rightarrow> vec_DecodeSnapshot b) = Some ?s0"
    using b by (auto simp: vec_app_def vta.base_def vec_at_def split: option.splits)
  have "ValidDim (int (length vec))" using p by (auto simp: vec_pre_def Let_def split: if_splits)
  then have ok: "vec_ok ?s0"
    using vec_Decode_ok vec_ok_NewSet by (auto simp: vec_at_def split: option.splits)
  obtain s1 where s1: "vec_Add ?s0 x vec = Inr s1" "b = vec_Encode s1"
    using b s0 by (auto simp: vec_app_def split: option.splits if_splits sum.splits)
  note o1 = vec_ok_Add [OF ok s1(1)]
  have "live_entry FlagVectorSet now m' k = Some (vta.result now b ex m k)" "mem_wf m'"
    using vta.add_applies(3) [OF wf p w b ex] vta.add_wf [OF wf, of now k ?a v ex] add by simp_all
  then have "vec_at now m' k = Some s1" and wf': "mem_wf m'"
    using vec_Decode_Encode [OF o1(1)] s1(2) by (simp_all add: vec_at_def)
  then show ?thesis
    using o1(3) by (auto simp: VEmb_at [OF wf'] VEmb_at [OF wf] vec_Emb_def NewSet_def split: option.splits)
qed

theorem VAdd_then_VEmb_witness:
  "fst (VEmb 0 [1] [5] (snd (VAdd 0 [1] [5] [0, 0] 1 0 0 (NewMemory 0 0)))) = Some [0, 0]"
proof -
  let ?r = "VAdd 0 [1] [5] [0, 0] 1 0 0 (NewMemory 0 0)" and ?a = "([5], [0, 0], 0) :: bytes \<times> f32 list \<times> int"
  have "vec_pre ?a = None" "\<exists>b. vec_app None ?a = Inr b"
    by (auto simp: vec_pre_def vec_app_def NewSet_def vec_Add_def ValidDim_def vec_consts Finite_def f32_is_nan_def
        f32_is_inf_def f32_mag_def fcard_fempty)
  then have "fst (fst ?r)"
    using vta.tracks_add(2) [of "[1]" None "NewMemory 0 0" 0 ?a 1] by simp
  then have "?r = ((True, snd (fst ?r)), snd ?r)" by (simp add: prod_eq_iff)
  from VAdd_then_VEmb [OF _ _ this, of "[5]"] show ?thesis by simp
qed

end
