(* ===== verification/JsonText.thy ===== *)
theory JsonText
  imports JsonDoc
begin

text \<open>
  Parsing in \<open>pkg/jsonx/jsonx.go\<close>: \<open>Decode\<close>, \<open>Equal\<close> and \<open>ParsePath\<close>, with the part
  of \<open>encoding/json\<close> they use: a \<open>Decoder\<close> with \<open>UseNumber\<close> reading one value into an
  interface or a string, and \<open>More\<close>. A failed parse is \<open>None\<close>. Values nest at most
  10000 deep, as in the library. The recursion takes fuel; a value of \<open>n\<close> bytes needs at
  most \<open>2 * n + 2\<close>.
\<close>

section \<open>Strings\<close>

definition isSpace :: "byte \<Rightarrow> bool" where
  "isSpace c \<longleftrightarrow> c = 0x20 \<or> c = 0x09 \<or> c = 0x0d \<or> c = 0x0a"

definition skip_ws :: "bytes \<Rightarrow> bytes" where
  "skip_ws s = dropWhile isSpace s"

definition hex_val :: "byte \<Rightarrow> nat option" where
  "hex_val c =
     (if 48 \<le> c \<and> c \<le> 57 then Some (unat c - 48)
      else if 97 \<le> c \<and> c \<le> 102 then Some (unat c - 87)
      else if 65 \<le> c \<and> c \<le> 70 then Some (unat c - 55)
      else None)"

text \<open>Four hexadecimal digits.\<close>

definition hex4 :: "bytes \<Rightarrow> nat option" where
  "hex4 s =
     (case s of
        a # b # c # d # r \<Rightarrow>
          (case (hex_val a, hex_val b, hex_val c, hex_val d) of
             (Some w, Some x, Some y, Some z) \<Rightarrow> Some (w * 4096 + x * 256 + y * 16 + z)
           | _ \<Rightarrow> None)
      | _ \<Rightarrow> None)"

text \<open>\<open>utf8.EncodeRune\<close>; surrogates and values out of range print as U+FFFD.\<close>

definition EncodeRune :: "nat \<Rightarrow> bytes" where
  "EncodeRune r =
     (if r < 0x80 then [of_nat r]
      else if r < 0x800 then [of_nat (0xC0 + r div 64), of_nat (0x80 + r mod 64)]
      else if 0x10FFFF < r \<or> (0xD800 \<le> r \<and> r \<le> 0xDFFF) then [0xEF, 0xBF, 0xBD]
      else if r < 0x10000 then
        [of_nat (0xE0 + r div 4096), of_nat (0x80 + r div 64 mod 64), of_nat (0x80 + r mod 64)]
      else
        [of_nat (0xF0 + r div 262144), of_nat (0x80 + r div 4096 mod 64),
         of_nat (0x80 + r div 64 mod 64), of_nat (0x80 + r mod 64)])"

text \<open>The rune of an escape \<open>\uXXXX\<close> whose code is \<open>r\<close>, given what follows it: a surrogate
  pair joins with the next escape, a lone surrogate is U+FFFD. Returns the rune and the
  bytes consumed of the rest.\<close>

definition surrogate :: "nat \<Rightarrow> bytes \<Rightarrow> nat \<times> nat" where
  "surrogate r rest =
     (if r < 0xD800 \<or> 0xDFFF < r then (r, 0)
      else case rest of
        a # b # s \<Rightarrow>
          if a = 0x5c \<and> b = 0x75 then
            (case hex4 s of
               None \<Rightarrow> (0xFFFD, 0)
             | Some r2 \<Rightarrow>
                 if r \<le> 0xDBFF \<and> 0xDC00 \<le> r2 \<and> r2 \<le> 0xDFFF
                 then ((r - 0xD800) * 1024 + (r2 - 0xDC00) + 0x10000, 6) else (0xFFFD, 0))
          else (0xFFFD, 0)
      | _ \<Rightarrow> (0xFFFD, 0))"

definition simple_escape :: "byte \<Rightarrow> byte option" where
  "simple_escape c =
     (if c = 0x22 \<or> c = 0x5c \<or> c = 0x2f then Some c
      else if c = 0x62 then Some 0x08 else if c = 0x66 then Some 0x0c
      else if c = 0x6e then Some 0x0a else if c = 0x72 then Some 0x0d
      else if c = 0x74 then Some 0x09 else None)"

text \<open>The body of a string literal, after the opening quote: the bytes it denotes and the
  rest after the closing quote.\<close>

function json_str_loop :: "bytes \<Rightarrow> (bytes \<times> bytes) option" where
  "json_str_loop s =
     (case s of
        [] \<Rightarrow> None
      | c # r \<Rightarrow>
          if c = 0x22 then Some ([], r)
          else if c < 0x20 then None
          else if c = 0x5c then
            (case r of
               [] \<Rightarrow> None
             | e # r1 \<Rightarrow>
                 if e = 0x75 then
                   (case hex4 r1 of
                      None \<Rightarrow> None
                    | Some u \<Rightarrow>
                        (case surrogate u (drop 4 r1) of
                           (cp, n) \<Rightarrow>
                             (case json_str_loop (drop (4 + n) r1) of
                                None \<Rightarrow> None
                              | Some (x, q) \<Rightarrow> Some (EncodeRune cp @ x, q))))
                 else
                   (case simple_escape e of
                      None \<Rightarrow> None
                    | Some b \<Rightarrow>
                        (case json_str_loop r1 of None \<Rightarrow> None | Some (x, q) \<Rightarrow> Some (b # x, q))))
          else if c < 0x80 then
            (case json_str_loop r of None \<Rightarrow> None | Some (x, q) \<Rightarrow> Some (c # x, q))
          else
            (case json_str_loop (drop (snd (DecodeRune s)) s) of
               None \<Rightarrow> None
             | Some (x, q) \<Rightarrow> Some (EncodeRune (fst (DecodeRune s)) @ x, q)))"
  by pat_completeness auto
termination
proof (relation "measure length", goal_cases)
  case (5 s c r)
  then show ?case using DecodeRune_width [of c r] by auto
qed auto

declare json_str_loop.simps [simp del]

section \<open>Numbers and literals\<close>

text \<open>The length of the number at the front of a text, if there is one.\<close>

definition digits_len :: "bytes \<Rightarrow> nat" where
  "digits_len s = length (takeWhile is_digit s)"

definition int_len :: "bytes \<Rightarrow> nat option" where
  "int_len s =
     (case s of
        [] \<Rightarrow> None
      | c # r \<Rightarrow> if \<not> is_digit c then None else if c = 48 then Some 1 else Some (digits_len s))"

definition frac_len :: "bytes \<Rightarrow> nat option" where
  "frac_len s =
     (case s of
        [] \<Rightarrow> Some 0
      | c # r \<Rightarrow>
          if c \<noteq> 46 then Some 0 else if digits_len r = 0 then None else Some (1 + digits_len r))"

definition exp_len :: "bytes \<Rightarrow> nat option" where
  "exp_len s =
     (case s of
        [] \<Rightarrow> Some 0
      | c # r \<Rightarrow>
          if c \<noteq> 101 \<and> c \<noteq> 69 then Some 0
          else
            let sg = (if r \<noteq> [] \<and> (hd r = 43 \<or> hd r = 45) then 1 else 0); dl = digits_len (drop sg r) in
            if dl = 0 then None else Some (1 + sg + dl))"

definition json_number :: "bytes \<Rightarrow> (bytes \<times> bytes) option" where
  "json_number s =
     (let sg = (if s \<noteq> [] \<and> hd s = 45 then 1 else 0) in
      case int_len (drop sg s) of
        None \<Rightarrow> None
      | Some i \<Rightarrow>
          (case frac_len (drop (sg + i) s) of
             None \<Rightarrow> None
           | Some f \<Rightarrow>
               (case exp_len (drop (sg + i + f) s) of
                  None \<Rightarrow> None
                | Some e \<Rightarrow> let n = sg + i + f + e in Some (take n s, drop n s))))"

definition lit :: "bytes \<Rightarrow> bytes \<Rightarrow> bytes option" where
  "lit w s = (if take (length w) s = w then Some (drop (length w) s) else None)"

section \<open>Values\<close>

definition maxNestingDepth :: nat where "maxNestingDepth = 10000"

fun json_value :: "nat \<Rightarrow> nat \<Rightarrow> bytes \<Rightarrow> (json \<times> bytes) option"
  and json_elems :: "nat \<Rightarrow> nat \<Rightarrow> bytes \<Rightarrow> (json list \<times> bytes) option"
  and json_fields :: "nat \<Rightarrow> nat \<Rightarrow> (bytes, json) fmap \<Rightarrow> bytes \<Rightarrow> ((bytes, json) fmap \<times> bytes) option" where
  "json_value 0 d s = None"
| "json_value (Suc fuel) d s0 =
     (case skip_ws s0 of
        [] \<Rightarrow> None
      | c # r \<Rightarrow>
          if c = 0x6e then map_option (\<lambda>q. (JNull, q)) (lit (str ''null'') (c # r))
          else if c = 0x74 then map_option (\<lambda>q. (JBool True, q)) (lit (str ''true'') (c # r))
          else if c = 0x66 then map_option (\<lambda>q. (JBool False, q)) (lit (str ''false'') (c # r))
          else if c = 0x22 then map_option (\<lambda>(x, q). (JStr x, q)) (json_str_loop r)
          else if c = 0x5b then
            if maxNestingDepth \<le> d then None
            else (case skip_ws r of
                    [] \<Rightarrow> None
                  | e # q \<Rightarrow>
                      if e = 0x5d then Some (JArr [], q)
                      else map_option (\<lambda>(xs, q). (JArr xs, q)) (json_elems fuel (Suc d) r))
          else if c = 0x7b then
            if maxNestingDepth \<le> d then None
            else (case skip_ws r of
                    [] \<Rightarrow> None
                  | e # q \<Rightarrow>
                      if e = 0x7d then Some (JObj fmempty, q)
                      else map_option (\<lambda>(m, q). (JObj m, q)) (json_fields fuel (Suc d) fmempty r))
          else map_option (\<lambda>(x, q). (JNum x, q)) (json_number (c # r)))"
| "json_elems 0 d s = None"
| "json_elems (Suc fuel) d s =
     (case json_value fuel d s of
        None \<Rightarrow> None
      | Some (v, r) \<Rightarrow>
          (case skip_ws r of
             [] \<Rightarrow> None
           | e # q \<Rightarrow>
               if e = 0x5d then Some ([v], q)
               else if e = 0x2c then map_option (\<lambda>(vs, q). (v # vs, q)) (json_elems fuel d q)
               else None))"
| "json_fields 0 d m s = None"
| "json_fields (Suc fuel) d m s =
     (case skip_ws s of
        [] \<Rightarrow> None
      | c # r \<Rightarrow>
          if c \<noteq> 0x22 then None
          else
            (case json_str_loop r of
               None \<Rightarrow> None
             | Some (ky, r1) \<Rightarrow>
                 (case skip_ws r1 of
                    [] \<Rightarrow> None
                  | e # r2 \<Rightarrow>
                      if e \<noteq> 0x3a then None
                      else
                        (case json_value fuel d r2 of
                           None \<Rightarrow> None
                         | Some (v, r3) \<Rightarrow>
                             (case skip_ws r3 of
                                [] \<Rightarrow> None
                              | f # q \<Rightarrow>
                                  if f = 0x7d then Some (fmupd ky v m, q)
                                  else if f = 0x2c then json_fields fuel d (fmupd ky v m) q
                                  else None)))))"

declare json_value.simps(2) [simp del] json_elems.simps(2) [simp del] json_fields.simps(2) [simp del]

text \<open>\<open>Decoder.More\<close> at the top level: another byte follows that is not a closing bracket.\<close>

definition dec_More :: "bytes \<Rightarrow> bool" where
  "dec_More r = (case skip_ws r of [] \<Rightarrow> False | c # q \<Rightarrow> c \<noteq> 0x5d \<and> c \<noteq> 0x7d)"

definition json_Decode :: "bytes \<Rightarrow> json option" where
  "json_Decode b =
     (if b = [] then None
      else case json_value (2 * length b + 2) 0 b of
        None \<Rightarrow> None
      | Some (v, r) \<Rightarrow> if dec_More r then None else Some v)"

definition json_Equal :: "bytes \<Rightarrow> bytes \<Rightarrow> bool" where
  "json_Equal a b =
     (case json_Decode a of
        None \<Rightarrow> False
      | Some va \<Rightarrow> (case json_Decode b of None \<Rightarrow> False | Some vb \<Rightarrow> va = vb))"

section \<open>Paths\<close>

definition isIdentStart :: "byte \<Rightarrow> bool" where
  "isIdentStart c \<longleftrightarrow> c = 95 \<or> (65 \<le> c \<and> c \<le> 90) \<or> (97 \<le> c \<and> c \<le> 122)"

definition isIdentCont :: "byte \<Rightarrow> bool" where
  "isIdentCont c \<longleftrightarrow> isIdentStart c \<or> (48 \<le> c \<and> c \<le> 57)"

text \<open>An index and the bytes it takes.\<close>

definition parseIndex :: "bytes \<Rightarrow> (int \<times> nat) option" where
  "parseIndex s =
     (if s = [] then None
      else if hd s = 48 then Some (0, 1)
      else if hd s < 49 \<or> 57 < hd s then None
      else
        let i = digits_len s; n = fold (\<lambda>c acc. acc * 10 + (unat c - 48)) (take i s) 0 in
        if 2 ^ 63 - 1 < n then None else Some (int n, i))"

text \<open>A quoted key: the string and what follows it.\<close>

definition parseJSONString :: "bytes \<Rightarrow> (bytes \<times> bytes) option" where
  "parseJSONString s = (case s of [] \<Rightarrow> None | c # r \<Rightarrow> if c = 0x22 then json_str_loop r else None)"

lemma json_str_loop_shorter: "json_str_loop s = Some (x, q) \<Longrightarrow> length q < length s"
proof (induction s arbitrary: x rule: measure_induct_rule [where f = length])
  case (less s)
  show ?case
  proof (cases s)
    case Nil
    then show ?thesis using less(2) by (simp add: json_str_loop.simps)
  next
    case (Cons c r)
    have shorter: "length q < length s" if "length t < length s" "json_str_loop t = Some (y, q)" for t y
      using less(1) [OF that] that(1) by simp
    have w: "1 \<le> snd (DecodeRune (c # r))" by (rule DecodeRune_width)
    show ?thesis
      using less(2) Cons w shorter [of r] shorter [of "tl r"] shorter [of "drop (snd (DecodeRune s)) s"]
        shorter [of "drop (4 + snd (surrogate (the (hex4 (tl r))) (drop 4 (tl r)))) (tl r)"]
      by (subst (asm) json_str_loop.simps)
        (auto split: if_splits list.splits option.splits prod.splits)
  qed
qed

lemma parseJSONString_shorter: "parseJSONString s = Some (x, q) \<Longrightarrow> length q < length s"
  by (auto simp: parseJSONString_def split: list.splits if_splits dest!: json_str_loop_shorter)

text \<open>The loop of \<open>ParsePath\<close> on what follows the dollar sign.\<close>

function path_loop :: "bytes \<Rightarrow> jpath option" where
  "path_loop s =
     (case s of
        [] \<Rightarrow> Some []
      | c # r \<Rightarrow>
          if c = 0x2e then
            if r = [] \<or> \<not> isIdentStart (hd r) then None
            else map_option (\<lambda>p. SegKey (takeWhile isIdentCont r) # p) (path_loop (dropWhile isIdentCont r))
          else if c = 0x5b then
            if r = [] then None
            else if hd r = 0x22 then
              (case parseJSONString r of
                 None \<Rightarrow> None
               | Some (k, q) \<Rightarrow>
                   if q = [] \<or> hd q \<noteq> 0x5d then None
                   else map_option (\<lambda>p. SegKey k # p) (path_loop (tl q)))
            else
              (case parseIndex r of
                 None \<Rightarrow> None
               | Some (i, n) \<Rightarrow>
                   let q = drop n r in
                   if q = [] \<or> hd q \<noteq> 0x5d then None
                   else map_option (\<lambda>p. SegIndex i # p) (path_loop (tl q)))
          else None)"
  by pat_completeness auto
termination
proof (relation "measure length", goal_cases)
  case (2 s c r)
  then show ?case by (simp add: length_dropWhile_le le_imp_less_Suc)
next
  case (3 s c r a k q)
  then show ?case using parseJSONString_shorter [of r k q] by auto
qed auto

declare path_loop.simps [simp del]

definition ParsePath :: "bytes \<Rightarrow> json_err + jpath" where
  "ParsePath s =
     (if s = [] then Inr []
      else if hd s \<noteq> 0x24 then Inl ErrPath
      else case path_loop (tl s) of None \<Rightarrow> Inl ErrPath | Some p \<Rightarrow> Inr p)"

section \<open>The fuel is enough\<close>

lemma length_skip_ws [simp]: "length (skip_ws s) \<le> length s"
  by (simp add: skip_ws_def length_dropWhile_le)

lemma skip_ws_Cons_length: "skip_ws s = c # r \<Longrightarrow> length r < length s"
  using length_skip_ws [of s] by simp

lemma digits_len_le: "digits_len s \<le> length s"
  by (simp add: digits_len_def length_takeWhile_le)

lemma int_len_pos: "int_len s = Some i \<Longrightarrow> 0 < i \<and> s \<noteq> []"
  by (cases s) (auto simp: int_len_def digits_len_def split: if_splits)

lemma json_number_shorter:
  assumes "json_number s = Some (x, q)"
  shows "length q < length s"
proof -
  obtain sg i f e where "int_len (drop sg s) = Some i" "q = drop (sg + i + f + e) s"
    using assms unfolding json_number_def Let_def by (auto split: option.split_asm)
  then show ?thesis using int_len_pos [of "drop sg s" i] by auto
qed

definition shortens :: "nat \<Rightarrow> bool" where
  "shortens f \<longleftrightarrow>
     (\<forall>d s v q. json_value f d s = Some (v, q) \<longrightarrow> length q < length s) \<and>
     (\<forall>d s v q. json_elems f d s = Some (v, q) \<longrightarrow> length q < length s) \<and>
     (\<forall>d m s v q. json_fields f d m s = Some (v, q) \<longrightarrow> length q < length s)"

lemma shortens_value:
  assumes "shortens f" "json_value (Suc f) d s0 = Some (v, q)"
  shows "length q < length s0"
proof (cases "skip_ws s0")
  case Nil
  then show ?thesis using assms by (simp add: json_value.simps(2))
next
  case (Cons c r)
  have len: "length r < length s0" using Cons by (rule skip_ws_Cons_length)
  have litlen: "length q < length s0" if "lit w (b # r) = Some q" "w \<noteq> []" for w b
    using that len by (cases w) (auto simp: lit_def split: if_splits)
  have strlen: "length q < length s0" if "json_str_loop r = Some (x, q)" for x
    using json_str_loop_shorter [OF that] len by simp
  have numlen: "length q < length s0" if "json_number (c # r) = Some (x, q)" for x
    using json_number_shorter [OF that] len by simp
  have wslen: "length q < length s0" if "skip_ws r = e # q" for e
    using skip_ws_Cons_length [OF that] len by simp
  have elen: "length q < length s0" if "json_elems f (Suc d) r = Some (xs, q)" for xs
    using assms(1) that len unfolding shortens_def by (meson order.strict_trans)
  have flen: "length q < length s0" if "json_fields f (Suc d) fmempty r = Some (xs, q)" for xs
    using assms(1) that len unfolding shortens_def by (meson order.strict_trans)
  have litne: "str ''null'' \<noteq> []" "str ''true'' \<noteq> []" "str ''false'' \<noteq> []" by (simp_all add: str_def)
  show ?thesis
    using assms(2) unfolding json_value.simps(2) Cons list.case
    by (simp split: if_split_asm list.split_asm)
      (use strlen numlen wslen elen flen litlen litne in blast)+
qed

lemma shortens_elems:
  assumes "shortens f" "json_elems (Suc f) d s = Some (v, q)"
  shows "length q < length s"
proof -
  obtain x r where r: "json_value f d s = Some (x, r)" and "skip_ws r \<noteq> []"
    using assms(2) unfolding json_elems.simps(2) by (simp split: option.split_asm list.split_asm prod.split_asm)
  then obtain e t where t: "skip_ws r = e # t" by (cases "skip_ws r") auto
  have lr: "length r < length s" using assms(1) r unfolding shortens_def by blast
  have lt: "length t < length r" using t by (rule skip_ws_Cons_length)
  have elen: "length q < length t" if "json_elems f d t = Some (xs, q)" for xs
    using assms(1) that unfolding shortens_def by blast
  show ?thesis using assms(2) r t lr lt unfolding json_elems.simps(2) by (auto split: if_split_asm dest!: elen)
qed

lemma shortens_fields:
  assumes "shortens f" "json_fields (Suc f) d m s = Some (v, q)"
  shows "length q < length s"
proof -
  obtain c r where r: "skip_ws s = c # r" using assms(2) unfolding json_fields.simps(2) by (simp split: list.split_asm)
  obtain ky r1 where r1: "json_str_loop r = Some (ky, r1)" "c = 0x22"
    using assms(2) r unfolding json_fields.simps(2) by (simp split: if_split_asm option.split_asm prod.split_asm)
  obtain e r2 where r2: "skip_ws r1 = e # r2" "e = 0x3a"
    using assms(2) r r1 unfolding json_fields.simps(2) by (simp split: if_split_asm list.split_asm)
  obtain x r3 where r3: "json_value f d r2 = Some (x, r3)"
    using assms(2) r r1 r2 unfolding json_fields.simps(2) by (simp split: option.split_asm prod.split_asm)
  obtain g t where t: "skip_ws r3 = g # t"
    using assms(2) r r1 r2 r3 unfolding json_fields.simps(2) by (simp split: list.split_asm)
  have "length r3 < length r2" using assms(1) r3 unfolding shortens_def by blast
  then have lt: "length t < length s"
    using skip_ws_Cons_length [OF r] json_str_loop_shorter [OF r1(1)] skip_ws_Cons_length [OF r2(1)]
      skip_ws_Cons_length [OF t] by linarith
  have flen: "length q < length t" if "json_fields f d n t = Some (xs, q)" for n xs
    using assms(1) that unfolding shortens_def by blast
  show ?thesis using assms(2) r r1 r2 r3 t lt unfolding json_fields.simps(2) by (auto split: if_split_asm dest!: flen)
qed

lemma json_shortens: "shortens f"
proof (induction f)
  case (Suc f)
  show ?case
    unfolding shortens_def
    using shortens_value [OF Suc] shortens_elems [OF Suc] shortens_fields [OF Suc] by blast
qed (simp add: shortens_def)

lemma json_value_shorter: "json_value f d s = Some (v, q) \<Longrightarrow> length q < length s"
  using json_shortens [of f] unfolding shortens_def by blast

definition settled :: "nat \<Rightarrow> bool" where
  "settled f \<longleftrightarrow>
     (\<forall>d s. 2 * length s + 1 \<le> f \<longrightarrow> json_value (Suc f) d s = json_value f d s) \<and>
     (\<forall>d s. 2 * length s + 2 \<le> f \<longrightarrow> json_elems (Suc f) d s = json_elems f d s) \<and>
     (\<forall>d m s. 2 * length s + 2 \<le> f \<longrightarrow> json_fields (Suc f) d m s = json_fields f d m s)"

lemma settled_value:
  assumes "settled f" "2 * length s + 1 \<le> Suc f"
  shows "json_value (Suc (Suc f)) d s = json_value (Suc f) d s"
proof (cases "skip_ws s")
  case (Cons c r)
  have "2 * length r + 2 \<le> f" using skip_ws_Cons_length [OF Cons] assms(2) by linarith
  then have e: "json_elems (Suc f) d' r = json_elems f d' r" "json_fields (Suc f) d' m r = json_fields f d' m r"
    for d' m using assms(1) unfolding settled_def by blast+
  show ?thesis unfolding json_value.simps(2) Cons list.case e by (rule refl)
qed (simp add: json_value.simps(2))

lemma settled_elems:
  assumes st: "settled f" and b: "2 * length s + 2 \<le> Suc f"
  shows "json_elems (Suc (Suc f)) d s = json_elems (Suc f) d s"
proof -
  have v: "json_value (Suc f) d s = json_value f d s" using st b unfolding settled_def by simp
  show ?thesis
  proof (cases "json_value f d s")
    case None
    then show ?thesis unfolding json_elems.simps(2) v by simp
  next
    case (Some p)
    obtain x r where p: "p = (x, r)" by fastforce
    show ?thesis
    proof (cases "skip_ws r")
      case Nil
      then show ?thesis unfolding json_elems.simps(2) v using Some p by simp
    next
      case (Cons g t)
      have "2 * length t + 2 \<le> f"
        using json_value_shorter [of f d s x r] Some p skip_ws_Cons_length [OF Cons] b by simp
      then have e: "json_elems (Suc f) d t = json_elems f d t" using st unfolding settled_def by blast
      show ?thesis
        by (rule trans [OF json_elems.simps(2)], rule trans [OF _ json_elems.simps(2) [symmetric]])
          (simp only: v Some p option.case prod.case Cons list.case e)
    qed
  qed
qed

lemma settled_fields:
  assumes st: "settled f" and b: "2 * length s + 2 \<le> Suc f"
  shows "json_fields (Suc (Suc f)) d m s = json_fields (Suc f) d m s"
proof -
  have v: "json_value (Suc f) d r2 = json_value f d r2"
    if "skip_ws s = c # r" "json_str_loop r = Some (ky, r1)" "skip_ws r1 = e # r2" for c r ky r1 e r2
  proof -
    have "2 * length r2 + 1 \<le> f"
      using skip_ws_Cons_length [OF that(1)] json_str_loop_shorter [OF that(2)]
        skip_ws_Cons_length [OF that(3)] b by linarith
    then show ?thesis using st unfolding settled_def by blast
  qed
  have g: "json_fields (Suc f) d n t = json_fields f d n t"
    if "skip_ws s = c # r" "json_str_loop r = Some (ky, r1)" "skip_ws r1 = e # r2"
      "json_value f d r2 = Some (x, r3)" "skip_ws r3 = h # t" for n c r ky r1 e r2 x r3 h t
  proof -
    have "2 * length t + 2 \<le> f"
      using skip_ws_Cons_length [OF that(1)] json_str_loop_shorter [OF that(2)]
        skip_ws_Cons_length [OF that(3)] json_value_shorter [OF that(4)] skip_ws_Cons_length [OF that(5)] b
      by linarith
    then show ?thesis using st unfolding settled_def by blast
  qed
  show ?thesis
    by (rule trans [OF json_fields.simps(2)], rule trans [OF _ json_fields.simps(2) [symmetric]])
      (simp add: v g split: option.split list.split)
qed

lemma json_settled: "settled f"
proof (induction f)
  case (Suc f)
  show ?case
    unfolding settled_def
    using settled_value [OF Suc] settled_elems [OF Suc] settled_fields [OF Suc] by blast
qed (simp add: settled_def)

lemma json_value_fuel:
  "2 * length s + 1 \<le> f \<Longrightarrow> json_value (f + k) d s = json_value f d s"
proof (induction k)
  case (Suc k)
  then show ?case using json_settled [of "f + k"] unfolding settled_def
    by simp
qed simp

end
