(* ===== verification/StoreJSON.thy ===== *)
theory StoreJSON
  imports BlobStores JsonText
begin

text \<open>Named JSON documents: \<open>pkg/store/json.go\<close>. An item keeps the decoded document next to
  the encoded value; a null document is the same as no cached document and is decoded
  again. Results of JSet are \<open>(applied, tooLarge)\<close>, of JDel \<open>(ok, mutated)\<close>.\<close>

section \<open>Operations\<close>

text \<open>The document of an item, and the item with the document cached.\<close>

definition jDocLocked :: "lru_item \<Rightarrow> json option \<times> lru_item" where
  "jDocLocked it =
     (if jDirty it then (Some (jCache it), it)
      else if jCache it \<noteq> JNull then (Some (jCache it), it)
      else case json_Decode (Value (entry it)) of
             None \<Rightarrow> (None, it)
           | Some v \<Rightarrow> (Some v, it\<lparr>jCache := v\<rparr>))"

definition jSetCreate :: "jpath \<Rightarrow> json \<Rightarrow> json_err + json" where
  "jSetCreate p val = (if p = [] then Inr val else json_Set (JObj fmempty) p val)"

definition insertJSONLocked :: "time \<Rightarrow> bytes \<Rightarrow> entry \<Rightarrow> json \<Rightarrow> bool \<Rightarrow> memory \<Rightarrow> bool \<times> memory" where
  "insertJSONLocked now k ent cache dirty m =
     (let c = (if dirty then int (length k) + 64 + json_ApproxWireBytes cache else entryCost k ent);
          m' = evictLocked now (pushFront k ((mkItem k ent c)\<lparr>jCache := cache, jDirty := dirty\<rparr>) m)
      in (has k m', m'))"

text \<open>The in-place replacement \<open>JSet\<close> and \<open>JDel\<close> share, up to the eviction.\<close>

definition jReplace :: "time \<Rightarrow> bytes \<Rightarrow> lru_item \<Rightarrow> json \<Rightarrow> bytes \<Rightarrow> u64 \<Rightarrow> time \<Rightarrow> memory \<Rightarrow> memory" where
  "jReplace now k it newDoc blob stored_v expireAt m =
     (let e = entry it;
          e' = \<lparr>Value = blob, Version = stored_v,
                ExpireAt = (if expireAt \<noteq> 0 then expireAt else ExpireAt e), Flags = FlagJSON\<rparr>;
          it' = it\<lparr>entry := e', jCache := newDoc, jDirty := False, cost := entryCost k e'\<rparr>
      in evictLocked now (moveToFront k (clampBytes (replaceItem k it' m))))"

definition jCommitReplaceLocked ::
    "time \<Rightarrow> bytes \<Rightarrow> lru_item \<Rightarrow> json \<Rightarrow> u64 \<Rightarrow> time \<Rightarrow> int \<Rightarrow> memory \<Rightarrow> (bool \<times> bool) \<times> memory" where
  "jCommitReplaceLocked now k it newDoc stored_v expireAt maxValue m =
     (case json_Encode newDoc of
        None \<Rightarrow> ((False, False), m)
      | Some blob \<Rightarrow>
          if 0 < maxValue \<and> maxValue < int (length blob) then ((False, True), m)
          else let m' = jReplace now k it newDoc blob stored_v expireAt m in ((has k m', False), m'))"

definition jCommitInsertLocked ::
    "time \<Rightarrow> bytes \<Rightarrow> json \<Rightarrow> u64 \<Rightarrow> time \<Rightarrow> int \<Rightarrow> memory \<Rightarrow> (bool \<times> bool) \<times> memory" where
  "jCommitInsertLocked now k newDoc stored_v expireAt maxValue m =
     (case json_Encode newDoc of
        None \<Rightarrow> ((False, False), m)
      | Some blob \<Rightarrow>
          if 0 < maxValue \<and> maxValue < int (length blob) then ((False, True), m)
          else
            (case insertJSONLocked now k
                    \<lparr>Value = blob, Version = stored_v, ExpireAt = expireAt, Flags = FlagJSON\<rparr> newDoc False m of
               (ok, m') \<Rightarrow> ((ok, False), m')))"

definition JSet ::
    "time \<Rightarrow> bytes \<Rightarrow> bytes \<Rightarrow> bytes \<Rightarrow> u64 \<Rightarrow> time \<Rightarrow> int \<Rightarrow> memory \<Rightarrow> (bool \<times> bool) \<times> memory" where
  "JSet now k path raw version expireAt maxValue m =
     (case json_Decode raw of
        None \<Rightarrow> ((False, False), m)
      | Some val \<Rightarrow>
          (case ParsePath path of
             Inl err \<Rightarrow> ((False, False), m)
           | Inr p \<Rightarrow>
               (let create = (\<lambda>m. case jSetCreate p val of
                      Inl err \<Rightarrow> ((False, False), m)
                    | Inr newDoc \<Rightarrow> jCommitInsertLocked now k newDoc 1 expireAt maxValue m)
                in case items m k of
                     None \<Rightarrow> create m
                   | Some it \<Rightarrow>
                       if Expired (entry it) now then create (removeElement k m)
                       else if IsTombstone (entry it) then
                         if version \<le> Version (entry it) then ((False, False), skipStale m)
                         else
                           (case jSetCreate p val of
                              Inl err \<Rightarrow> ((False, False), m)
                            | Inr newDoc \<Rightarrow>
                                jCommitReplaceLocked now k it newDoc (Version (entry it) + 1) expireAt maxValue m)
                       else if \<not> IsJSON (entry it) then ((False, False), m)
                       else
                         (case jDocLocked it of
                            (None, it') \<Rightarrow> ((False, False), m)
                          | (Some doc, it') \<Rightarrow>
                              let m1 = putItem k it' m in
                              (case json_Set doc p val of
                                 Inl err \<Rightarrow> ((False, False), m1)
                               | Inr newDoc \<Rightarrow>
                                   jCommitReplaceLocked now k it' newDoc (Version (entry it') + 1)
                                     expireAt maxValue m1)))))"

definition JDel ::
    "time \<Rightarrow> bytes \<Rightarrow> bytes \<Rightarrow> u64 \<Rightarrow> time \<Rightarrow> memory \<Rightarrow> (bool \<times> bool) \<times> memory" where
  "JDel now k path version expireAt m =
     (case items m k of
        None \<Rightarrow> ((True, False), m)
      | Some it \<Rightarrow>
          if Expired (entry it) now then ((True, False), removeElement k m)
          else if IsTombstone (entry it) then
            ((False, False), if version \<le> Version (entry it) then skipStale m else m)
          else if \<not> IsJSON (entry it) then ((False, False), m)
          else
            (case ParsePath path of
               Inl err \<Rightarrow> ((False, False), m)
             | Inr p \<Rightarrow>
                 (case jDocLocked it of
                    (None, it') \<Rightarrow> ((False, False), m)
                  | (Some doc, it') \<Rightarrow>
                      let m1 = putItem k it' m in
                      (case json_Del doc p of
                         (newDoc, removed) \<Rightarrow>
                           if \<not> removed then ((True, False), m1)
                           else
                             (case json_Encode newDoc of
                                None \<Rightarrow> ((False, False), m1)
                              | Some blob \<Rightarrow>
                                  ((True, True),
                                   jReplace now k it' newDoc blob (Version (entry it') + 1) expireAt m1))))))"

definition hasJSONLocked :: "time \<Rightarrow> bytes \<Rightarrow> memory \<Rightarrow> bool \<times> memory" where
  "hasJSONLocked now k m =
     (case items m k of
        None \<Rightarrow> (False, m)
      | Some it \<Rightarrow>
          if Expired (entry it) now then (False, removeElement k m)
          else (\<not> IsTombstone (entry it) \<and> IsJSON (entry it), m))"

definition HasJSON :: "time \<Rightarrow> bytes \<Rightarrow> memory \<Rightarrow> bool \<times> memory" where
  "HasJSON now k m = hasJSONLocked now k m"

definition JGet :: "time \<Rightarrow> bytes \<Rightarrow> bytes \<Rightarrow> memory \<Rightarrow> bytes option \<times> memory" where
  "JGet now k path m =
     (case hasJSONLocked now k m of
        (False, m') \<Rightarrow> (None, m')
      | (True, m') \<Rightarrow>
          (case ParsePath path of
             Inl err \<Rightarrow> (None, m')
           | Inr p \<Rightarrow>
               (case items m' k of
                  None \<Rightarrow> (None, m')
                | Some it \<Rightarrow>
                    if p = [] \<and> \<not> jDirty it then (Some (Value (entry it)), m')
                    else
                      (case jDocLocked it of
                         (None, it') \<Rightarrow> (None, m')
                       | (Some doc, it') \<Rightarrow>
                           (case json_Get doc p of
                              None \<Rightarrow> (None, putItem k it' m')
                            | Some node \<Rightarrow> (json_Encode node, putItem k it' m'))))))"

definition JInstall :: "time \<Rightarrow> bytes \<Rightarrow> bytes \<Rightarrow> u64 \<Rightarrow> time \<Rightarrow> memory \<Rightarrow> bool \<times> memory" where
  "JInstall now k blob version expireAt m =
     (case json_Decode blob of
        None \<Rightarrow> (False, m)
      | Some doc \<Rightarrow>
          (let ent = \<lparr>Value = blob, Version = version, ExpireAt = expireAt, Flags = FlagJSON\<rparr>;
               ins = insertJSONLocked now k ent doc False in
           case items m k of
             None \<Rightarrow> ins m
           | Some it \<Rightarrow>
               if \<not> Expired (entry it) now then
                 if IsTombstone (entry it) then
                   if version \<le> Version (entry it) then (False, skipStale m) else ins (removeElement k m)
                 else if IsJSON (entry it) then
                   if version \<le> Version (entry it) then (False, skipStale m) else ins (removeElement k m)
                 else if version \<le> Version (entry it) then (False, m)
                 else ins (removeElement k m)
               else ins (removeElement k m)))"

section \<open>Items that hold a document\<close>

lemma json_flags: "\<forall>f \<in> cached_flags. f AND FlagJSON = 0"
  by (simp add: cached_flags_def Flag_defs)

lemma FlagJSON_pinned: "Flags e = FlagJSON \<Longrightarrow> \<not> Expired e now \<Longrightarrow> lru_pinned e now"
  by (simp add: lru_pinned_def flag_simps)

lemma item_wf_json:
  assumes "Flags (entry it) = FlagJSON" "\<not> jDirty it" "cost it = entryCost (key it) (entry it)"
  shows "item_wf it" "mat it = entry it"
proof -
  show m: "mat it = entry it"
    using assms(1,2) by (simp add: mat_def materialise_def dirty_value_def Is_defs flag_words Flag_defs)
  show "item_wf it"
    unfolding item_wf_def using assms m by (simp add: caches_coh_def Is_defs cache_coh_off Flag_defs)
qed

lemma jReplace_stored:
  assumes "mem_wf m" "items m k = Some it"
  shows "stored now k \<lparr>Value = blob, Version = sv, ExpireAt = (if ex \<noteq> 0 then ex else ExpireAt (entry it)),
           Flags = FlagJSON\<rparr> m (jReplace now k it doc blob sv ex m)"
proof -
  let ?e = "\<lparr>Value = blob, Version = sv, ExpireAt = (if ex \<noteq> 0 then ex else ExpireAt (entry it)), Flags = FlagJSON\<rparr>"
  let ?it = "it\<lparr>entry := ?e, jCache := doc, jDirty := False, cost := entryCost k ?e\<rparr>"
  have it: "key ?it = k" "item_wf ?it" "mat ?it = ?e"
    using mem_wfD(1) [OF assms] item_wf_json [of ?it] by simp_all
  then have "clampBytes (replaceItem k ?it m) = replaceItem k ?it m"
    using mem_wf_replaceItem [OF assms it(1,2)] by (simp add: clampBytes_id mbytes_nonneg)
  then show ?thesis
    using stored_replace [OF assms it(1,2), of now] it(3) by (simp add: jReplace_def Let_def)
qed

text \<open>Caching the decoded document changes nothing that can be read.\<close>

lemma jCache_put:
  assumes "mem_wf m" "items m k = Some it"
  shows "mem_wf (putItem k (it\<lparr>jCache := v\<rparr>) m)" "view (putItem k (it\<lparr>jCache := v\<rparr>) m) = view m"
    "maxBytes (putItem k (it\<lparr>jCache := v\<rparr>) m) = maxBytes m"
    "tombstoneTTL (putItem k (it\<lparr>jCache := v\<rparr>) m) = tombstoneTTL m"
proof -
  let ?it = "it\<lparr>jCache := v\<rparr>"
  note wf = mem_wfD [OF assms]
  have nd: "IsJSON (entry it) \<Longrightarrow> \<not> jDirty it" using wf(2) by (simp add: item_wf_def caches_coh_def)
  then have mat: "mat ?it = mat it" by (auto simp: mat_def materialise_def dirty_value_def Let_def)
  then have it: "key ?it = k" "item_wf ?it"
    using wf nd by (auto simp: item_wf_def caches_coh_def)
  have eq: "putItem k ?it m = replaceItem k ?it m"
    using assms(2) by (simp add: replaceItem_def addBytes_def putItem_def)
  show "mem_wf (putItem k ?it m)" unfolding eq by (rule mem_wf_replaceItem [OF assms it])
  show "view (putItem k ?it m) = view m"
    unfolding eq view_replaceItem [OF assms(2)] mat using assms(2) by (auto simp: view_def)
qed (simp_all add: putItem_def)

lemma jDocLocked_cached: "jDocLocked it = (d, it') \<Longrightarrow> it' = it\<lparr>jCache := jCache it'\<rparr>"
  by (auto simp: jDocLocked_def split: if_splits option.splits)

lemmas jDoc_put = jCache_put [where v = "jCache it'" for it' :: lru_item]

lemma items_evict_loop: "items (evict_loop now m) k = items m k \<or> items (evict_loop now m) k = None"
proof (induction now m rule: evict_loop.induct)
  case (1 now m)
  then show ?case
    by (subst (1 2) evict_loop.simps) (auto simp: items_removeElement split: option.splits if_splits)
qed

lemma items_evictLocked: "has k (evictLocked now m) \<Longrightarrow> items (evictLocked now m) k = items m k"
  using items_evict_loop [of now m k] by (auto simp: evictLocked_def has_def)

text \<open>The document a live key holds.\<close>

definition jdoc :: "time \<Rightarrow> memory \<Rightarrow> bytes \<Rightarrow> json option" where
  "jdoc now m k =
     (case items m k of
        None \<Rightarrow> None
      | Some it \<Rightarrow>
          if Expired (entry it) now \<or> IsTombstone (entry it) \<or> \<not> IsJSON (entry it) then None
          else fst (jDocLocked it))"

lemma jdocE:
  assumes "jdoc now m k = Some doc"
  obtains it it' where "items m k = Some it" "\<not> Expired (entry it) now" "\<not> IsTombstone (entry it)"
    "IsJSON (entry it)" "jDocLocked it = (Some doc, it')"
  using assms by (auto simp: jdoc_def split: option.splits if_splits) (metis prod.collapse)

lemma jnd: "mem_wf m \<Longrightarrow> items m k = Some it \<Longrightarrow> IsJSON (entry it) \<Longrightarrow> \<not> jDirty it"
  using mem_wfD(2) by (force simp: item_wf_def caches_coh_def)

lemma JGet_node:
  assumes "mem_wf m" "jdoc now m k = Some doc" "ParsePath path = Inr p" "p \<noteq> []"
  shows "fst (JGet now k path m) = Option.bind (json_Get doc p) json_Encode"
  using assms
  by (elim jdocE) (auto simp: JGet_def hasJSONLocked_def split: option.splits)

lemma JGet_root:
  assumes "mem_wf m" "items m k = Some it" "\<not> Expired (entry it) now" "\<not> IsTombstone (entry it)"
    "IsJSON (entry it)" "ParsePath path = Inr []"
  shows "fst (JGet now k path m) = Some (Value (entry it))"
  using assms jnd [OF assms(1,2,5)] by (auto simp: JGet_def hasJSONLocked_def)

text \<open>What an in-place replacement leaves behind.\<close>

lemma jReplace_live:
  assumes wf: "mem_wf m" and it: "items m k = Some it" "\<not> Expired (entry it) now" and ex: "ex = 0 \<or> now < ex"
  shows "has k (jReplace now k it doc blob sv ex m)"
    and "doc \<noteq> JNull \<Longrightarrow> jdoc now (jReplace now k it doc blob sv ex m) k = Some doc"
    and "ParsePath path = Inr [] \<Longrightarrow> fst (JGet now k path (jReplace now k it doc blob sv ex m)) = Some blob"
    and "mem_wf (jReplace now k it doc blob sv ex m)"
proof -
  let ?m = "jReplace now k it doc blob sv ex m"
  let ?e = "\<lparr>Value = blob, Version = sv, ExpireAt = (if ex \<noteq> 0 then ex else ExpireAt (entry it)), Flags = FlagJSON\<rparr>"
  let ?it = "it\<lparr>entry := ?e, jCache := doc, jDirty := False, cost := entryCost k ?e\<rparr>"
  note st = jReplace_stored [OF wf it(1), where now = now and blob = blob and sv = sv and ex = ex and doc = doc]
  have fresh: "\<not> Expired ?e now" using it(2) ex by (auto simp: Expired_def split: if_splits)
  have "view ?m k = Some ?e" by (rule stored_self [OF st FlagJSON_pinned [OF _ fresh]]) simp
  then show has: "has k ?m" by (simp add: has_view)
  show wf': "mem_wf ?m" by (rule stored_wf [OF st])
  have items: "items ?m k = Some ?it"
    using has it(1) unfolding jReplace_def Let_def
    by (subst items_evictLocked) (simp_all add: clampBytes_def replaceItem_def addBytes_def putItem_def)
  have flags: "\<not> IsTombstone ?e" "IsJSON ?e" by (simp_all add: flag_simps)
  show "doc \<noteq> JNull \<Longrightarrow> jdoc now ?m k = Some doc"
    using items fresh flags by (simp add: jdoc_def jDocLocked_def)
  show "ParsePath path = Inr [] \<Longrightarrow> fst (JGet now k path ?m) = Some blob"
    using JGet_root [OF wf' items] fresh flags by simp
qed

lemma json_setRec_container: "json_setRec cur p v = Inr d \<Longrightarrow> p \<noteq> [] \<Longrightarrow> d \<noteq> JNull"
  by (induction cur p v arbitrary: d rule: json_setRec.induct)
    (auto split: json.splits if_splits option.splits sum.splits)

lemma json_Set_container: "json_Set doc p v = Inr d \<Longrightarrow> p \<noteq> [] \<Longrightarrow> d \<noteq> JNull"
  by (auto simp: json_Set_def dest: json_setRec_container split: if_splits)

text \<open>C34. Writing at a path of a live document: the path then reads as the written value, and
  every path that leaves the written one at some segment reads as before.\<close>

theorem JSet_then_JGet:
  assumes wf: "mem_wf m" and doc: "jdoc now m k = Some doc" and ex: "ex = 0 \<or> now < ex"
    and raw: "json_Decode raw = Some val" and path: "ParsePath path = Inr p"
    and new: "json_Set doc p val = Inr newDoc" "json_Encode newDoc = Some blob"
    and fits: "maxValue \<le> 0 \<or> int (length blob) \<le> maxValue"
  shows "fst (JSet now k path raw v ex maxValue m) = (True, False) \<and>
    fst (JGet now k path (snd (JSet now k path raw v ex maxValue m))) = json_Encode val \<and>
    (ParsePath path' = Inr q \<longrightarrow> diverge p q \<longrightarrow>
       fst (JGet now k path' (snd (JSet now k path raw v ex maxValue m))) = fst (JGet now k path' m))"
proof -
  obtain it it' where it: "items m k = Some it" "\<not> Expired (entry it) now" "\<not> IsTombstone (entry it)"
    "IsJSON (entry it)" "jDocLocked it = (Some doc, it')" using doc by (rule jdocE)
  let ?m1 = "putItem k it' m"
  have it': "it' = it\<lparr>jCache := jCache it'\<rparr>" using it(5) by (rule jDocLocked_cached)
  then have e': "entry it' = entry it" by (metis lru_item.select_convs(2) lru_item.surjective lru_item.update_convs(14))
  have wf1: "mem_wf ?m1" using jCache_put(1) [OF wf it(1), of "jCache it'"] it' by simp
  have i1: "items ?m1 k = Some it'" by (simp add: putItem_def)
  let ?m = "jReplace now k it' newDoc blob (Version (entry it') + 1) ex ?m1"
  note live = jReplace_live [OF wf1 i1 _ ex, unfolded e', OF it(2), where doc = newDoc and blob = blob
      and sv = "Version (entry it) + 1"]
  have eq: "JSet now k path raw v ex maxValue m = ((True, False), ?m)"
    using raw path it new fits live(1) by (auto simp: JSet_def jCommitReplaceLocked_def Let_def e')
  have at: "fst (JGet now k path ?m) = json_Encode val"
  proof (cases "p = []")
    case True
    then show ?thesis using live(3) path new by (simp add: json_Set_def e')
  next
    case False
    then show ?thesis
      using JGet_node [OF live(4) live(2) path False] json_Set_container [OF new(1)] json_Set_Get [OF new(1)]
      by (simp add: e')
  qed
  have "fst (JGet now k path' ?m) = fst (JGet now k path' m)" if q: "ParsePath path' = Inr q" "diverge p q"
  proof -
    have ne: "p \<noteq> []" "q \<noteq> []" using q(2) by (cases p; cases q; simp)+
    then show ?thesis
      using JGet_node [OF live(4) live(2) q(1)] JGet_node [OF wf doc q(1)] json_Set_container [OF new(1)]
        json_Set_frame [OF new(1) q(2)] by (simp add: e')
  qed
  then show ?thesis using eq at by simp
qed

lemma jCommitInsert_wf:
  assumes "mem_wf m" "items m k = None"
  shows "mem_wf (snd (jCommitInsertLocked now k doc sv ex maxValue m))"
    and "mem_wf (snd (insertJSONLocked now k \<lparr>Value = blob, Version = sv, ExpireAt = ex, Flags = FlagJSON\<rparr> doc False m))"
proof -
  have "mem_wf (snd (insertJSONLocked now k \<lparr>Value = b, Version = sv, ExpireAt = ex, Flags = FlagJSON\<rparr> doc False m))" for b
  proof -
    let ?e = "\<lparr>Value = b, Version = sv, ExpireAt = ex, Flags = FlagJSON\<rparr>"
    let ?it = "(mkItem k ?e (entryCost k ?e))\<lparr>jCache := doc, jDirty := False\<rparr>"
    have "item_wf ?it" by (rule item_wf_json) simp_all
    then show ?thesis
      unfolding insertJSONLocked_def Let_def using assms
      by (simp add: mem_wf_evictLocked mem_wf_pushFront)
  qed
  then show "mem_wf (snd (jCommitInsertLocked now k doc sv ex maxValue m))"
    and "mem_wf (snd (insertJSONLocked now k \<lparr>Value = blob, Version = sv, ExpireAt = ex, Flags = FlagJSON\<rparr> doc False m))"
    using assms(1) by (simp_all add: jCommitInsertLocked_def Let_def split_beta split: option.split)
qed

lemma jCommitReplace_wf:
  assumes "mem_wf m" "items m k = Some it"
  shows "mem_wf (snd (jCommitReplaceLocked now k it doc sv ex maxValue m))"
  using assms stored_wf [OF jReplace_stored [OF assms]]
  by (simp add: jCommitReplaceLocked_def Let_def split: option.split)

lemma jDoc_wf:
  assumes "mem_wf m" "items m k = Some it" "jDocLocked it = (d, it')"
  shows "mem_wf (putItem k it' m)" "items (putItem k it' m) k = Some it'"
  using jCache_put(1) [OF assms(1,2), of "jCache it'"] jDocLocked_cached [OF assms(3)]
  by (simp_all add: putItem_def)

lemma JSet_wf:
  assumes "mem_wf m"
  shows "mem_wf (snd (JSet now k path raw v ex maxValue m))"
  using assms
  by (auto simp: JSet_def Let_def mem_wf_counters mem_wf_removeElement items_removeElement jDoc_wf
      split: option.split sum.split prod.split intro!: jCommitInsert_wf jCommitReplace_wf)

lemma JDel_wf:
  assumes "mem_wf m"
  shows "mem_wf (snd (JDel now k path v ex m))"
  using assms stored_wf [OF jReplace_stored]
  by (auto simp: JDel_def Let_def mem_wf_counters mem_wf_removeElement jDoc_wf
      split: option.split sum.split prod.split)

lemma JGet_wf:
  assumes "mem_wf m"
  shows "mem_wf (snd (JGet now k path m))"
  using assms
  by (auto simp: JGet_def hasJSONLocked_def mem_wf_removeElement jDoc_wf items_removeElement
      split: option.split sum.split prod.split bool.split)

lemma JInstall_wf:
  assumes "mem_wf m"
  shows "mem_wf (snd (JInstall now k blob v ex m))"
  using assms
  by (auto simp: JInstall_def Let_def mem_wf_counters mem_wf_removeElement items_removeElement
      split: option.split intro!: jCommitInsert_wf(2))

lemma json_Del_frame:
  assumes "json_Del doc p = (d, True)" "p \<noteq> []" "ends_in_key p"
  shows "json_Get d p = None" "diverge p q \<Longrightarrow> json_Get d q = json_Get doc q" "d \<noteq> JNull"
proof -
  have r: "json_delRec doc p = (d, True)"
    using assms(1,2) by (auto simp: json_Del_def split: if_splits prod.splits)
  show "json_Get d p = None" by (rule json_delRec_gone [OF r assms(3)])
  show "diverge p q \<Longrightarrow> json_Get d q = json_Get doc q" by (rule json_delRec_frame [OF r assms(3)])
  show "d \<noteq> JNull"
    using r assms(2) by (cases "(doc, p)" rule: json_delRec.cases)
      (auto split: json.splits if_splits option.splits prod.splits)
qed

text \<open>C35. Deleting an object field of a live document: the field is gone, every path that
  leaves its path reads as before, and a missing field is reported without a change.\<close>

theorem JDel_then_JGet:
  assumes wf: "mem_wf m" and doc: "jdoc now m k = Some doc" and ex: "ex = 0 \<or> now < ex"
    and path: "ParsePath path = Inr p" "p \<noteq> []" "ends_in_key p"
    and enc: "json_Encode (fst (json_Del doc p)) \<noteq> None"
  shows "fst (JDel now k path v ex m) = (True, json_Get doc p \<noteq> None) \<and>
    fst (JGet now k path (snd (JDel now k path v ex m))) = None \<and>
    (ParsePath path' = Inr q \<longrightarrow> diverge p q \<longrightarrow>
       fst (JGet now k path' (snd (JDel now k path v ex m))) = fst (JGet now k path' m))"
proof -
  obtain it it' where it: "items m k = Some it" "\<not> Expired (entry it) now" "\<not> IsTombstone (entry it)"
    "IsJSON (entry it)" "jDocLocked it = (Some doc, it')" using doc by (rule jdocE)
  let ?m1 = "putItem k it' m"
  note m1 = jDoc_wf [OF wf it(1,5)]
  have e': "entry it' = entry it" using it(5) by (auto simp: jDocLocked_def split: if_splits option.splits)
  have d1: "jdoc now ?m1 k = Some doc"
    using it m1(2) by (auto simp: jdoc_def e') (auto simp: jDocLocked_def split: if_splits option.splits)
  obtain d r where del: "json_Del doc p = (d, r)" by fastforce
  have rem: "r \<longleftrightarrow> json_Get doc p \<noteq> None" using json_Del_removed [OF path(2), of doc] del by simp
  have div: "q \<noteq> []" if "diverge p q" using that by (cases p; cases q) simp_all
  show ?thesis
  proof (cases r)
    case False
    have eq: "JDel now k path v ex m = ((True, False), ?m1)"
      using it path del False by (simp add: JDel_def Let_def)
    have "fst (JGet now k pa ?m1) = fst (JGet now k pa m)" if "ParsePath pa = Inr qa" "qa \<noteq> []" for pa qa
      using JGet_node [OF m1(1) d1 that] JGet_node [OF wf doc that] by simp
    then show ?thesis using eq rem False JGet_node [OF m1(1) d1 path(1,2)] div by simp
  next
    case True
    obtain blob where blob: "json_Encode d = Some blob" using enc del by auto
    let ?m = "jReplace now k it' d blob (Version (entry it') + 1) ex ?m1"
    have eq: "JDel now k path v ex m = ((True, True), ?m)"
      using it path del True blob by (simp add: JDel_def Let_def)
    note fr = json_Del_frame [OF del [unfolded True [THEN eqTrueI]] path(2,3)]
    note live = jReplace_live [OF m1 _ ex, unfolded e', OF it(2), where doc = d and blob = blob
        and sv = "Version (entry it) + 1"]
    have "fst (JGet now k pa ?m) = Option.bind (json_Get d qa) json_Encode"
      if "ParsePath pa = Inr qa" "qa \<noteq> []" for pa qa
      using JGet_node [OF live(4) live(2) that] fr(3) by (simp add: e')
    then show ?thesis using eq rem True path fr(1,2) JGet_node [OF wf doc] div by simp
  qed
qed

theorem JSet_then_JGet_witness:
  "let m = snd (JSet 5 [107] [] (str ''{}'') 1 0 0 (NewMemory 0 0)) in
   fst (JSet 5 [107] (str ''$.a'') (str ''true'') 2 0 0 m) = (True, False) \<and>
   fst (JGet 5 [107] (str ''$.a'') (snd (JSet 5 [107] (str ''$.a'') (str ''true'') 2 0 0 m))) = Some (str ''true'')"
proof -
  let ?m = "snd (JSet 5 [107] [] (str ''{}'') 1 0 0 (NewMemory 0 0))"
  let ?d = "JObj (fmupd (str ''a'') (JBool True) fmempty)"
  have doc: "jdoc 5 ?m [107] = Some (JObj fmempty)" by code_simp
  have raw: "json_Decode (str ''true'') = Some (JBool True)" by code_simp
  have path: "ParsePath (str ''$.a'') = Inr [SegKey (str ''a'')]" by code_simp
  have new: "json_Set (JObj fmempty) [SegKey (str ''a'')] (JBool True) = Inr ?d" by (simp add: json_Set_def)
  have enc: "json_Encode ?d = Some (the (json_Encode ?d))" by code_simp
  show ?thesis
    unfolding Let_def
    using JSet_then_JGet [OF JSet_wf [OF mem_wf_NewMemory] doc _ raw path new enc, of 0 0 2] by simp
qed

theorem JDel_then_JGet_witness:
  "let m = snd (JSet 5 [107] [] (str ''{\"a\":1}'') 1 0 0 (NewMemory 0 0)) in
   fst (JDel 5 [107] (str ''$.a'') 2 0 m) = (True, True) \<and>
   fst (JGet 5 [107] (str ''$.a'') (snd (JDel 5 [107] (str ''$.a'') 2 0 m))) = None"
proof -
  let ?m = "snd (JSet 5 [107] [] (str ''{\"a\":1}'') 1 0 0 (NewMemory 0 0))"
  let ?d = "JObj (fmupd (str ''a'') (JNum (str ''1'')) fmempty)"
  have doc: "jdoc 5 ?m [107] = Some ?d" by code_simp
  have path: "ParsePath (str ''$.a'') = Inr [SegKey (str ''a'')]" by code_simp
  have enc: "json_Encode (fst (json_Del ?d [SegKey (str ''a'')])) \<noteq> None" by code_simp
  show ?thesis
    unfolding Let_def
    using JDel_then_JGet [OF JSet_wf [OF mem_wf_NewMemory] doc _ path _ _ enc, of 0 2]
    by (simp add: ends_in_key_def)
qed

text \<open>A document followed by a closing bracket and anything else is accepted, and a snapshot
  installs those bytes as they are.\<close>

lemma JInstall_trailing_bytes:
  "fst (JGet 5 [107] [] (snd (JInstall 5 [107] (str ''{}}x'') 1 0 (NewMemory 0 0)))) = Some (str ''{}}x'')"
  by code_simp

end
