(* ===== verification/Protect.thy ===== *)
theory Protect
  imports Prelude
begin

text \<open>
  The load guard of \<open>pkg/protect/protect.go\<close>: a token bucket and a circuit breaker in front of
  a data source. The clock reading is an argument; the arithmetic of the bucket is the
  parameter \<open>fp\<close>. Each mutex section is one function; \<open>Allow\<close> composes the sections of a call that
  is not interrupted, and the last section of the theory interleaves those of several calls.
\<close>

section \<open>The guard\<close>

datatype guard_err = ErrRateLimited | ErrCircuitOpen

datatype breaker = stateClosed | stateOpen | stateHalfOpen

record guardConfig =
  RateLimitRPS :: f64
  Burst :: int
  FailureThreshold :: int
  OpenTimeout :: int

record guard =
  g_cfg :: guardConfig
  g_tokens :: f64
  lastRefill :: time
  consecutiveFails :: int
  gstate :: breaker
  openedAt :: time
  probeInFlight :: bool
  g_limited :: nat
  g_opens :: nat

text \<open>The integer part of a positive float, for \<open>int(cfg.RateLimitRPS)\<close>, is the parameter
  \<open>trunc\<close>.\<close>

definition guard_New :: "fpu \<Rightarrow> (f64 \<Rightarrow> int) \<Rightarrow> guardConfig \<Rightarrow> time \<Rightarrow> guard" where
  "guard_New fp trunc c now =
     (let c' = (if OpenTimeout c \<le> 0 then c\<lparr>OpenTimeout := 30000000000\<rparr> else c);
          b0 = Burst c';
          b1 = (if b0 \<le> 0 then (let t = trunc (RateLimitRPS c') in if t < 1 then 1 else t) else b0)
      in \<lparr>g_cfg = c', g_tokens = (if f64_lt 0 (RateLimitRPS c') then fp_const fp b1 1 else 0), lastRefill = now,
          consecutiveFails = 0, gstate = stateClosed, openedAt = 0, probeInFlight = False, g_limited = 0, g_opens = 0\<rparr>)"

definition checkBreaker :: "time \<Rightarrow> guard \<Rightarrow> guard_err option \<times> guard" where
  "checkBreaker now g =
     (if FailureThreshold (g_cfg g) \<le> 0 then (None, g)
      else case gstate g of
        stateClosed \<Rightarrow> (None, g)
      | stateOpen \<Rightarrow>
          if now - openedAt g < OpenTimeout (g_cfg g) then (Some ErrCircuitOpen, g)
          else (None, g\<lparr>gstate := stateHalfOpen, probeInFlight := True\<rparr>)
      | stateHalfOpen \<Rightarrow>
          if probeInFlight g then (Some ErrCircuitOpen, g) else (None, g\<lparr>probeInFlight := True\<rparr>))"

text \<open>\<open>Duration.Seconds\<close>.\<close>

definition Seconds :: "fpu \<Rightarrow> int \<Rightarrow> f64" where
  "Seconds fp d =
     (let sec = sgn d * (\<bar>d\<bar> div 1000000000); nsec = d - sec * 1000000000
      in fp_add fp (fp_const fp sec 1) (fp_div fp (fp_const fp nsec 1) (fp_const fp 1000000000 1)))"

definition guard_burst :: "fpu \<Rightarrow> guardConfig \<Rightarrow> f64" where
  "guard_burst fp c =
     (if Burst c \<le> 0 then
        (if f64_lt (RateLimitRPS c) (fp_const fp 1 1) then fp_const fp 1 1 else RateLimitRPS c)
      else fp_const fp (Burst c) 1)"

definition takeToken :: "fpu \<Rightarrow> time \<Rightarrow> guard \<Rightarrow> guard_err option \<times> guard" where
  "takeToken fp now g =
     (if f64_le (RateLimitRPS (g_cfg g)) 0 then (None, g)
      else
        let t = fp_add fp (g_tokens g) (fp_mul fp (Seconds fp (now - lastRefill g)) (RateLimitRPS (g_cfg g)));
            burst = guard_burst fp (g_cfg g);
            t' = (if f64_lt burst t then burst else t);
            g' = g\<lparr>lastRefill := now, g_tokens := t'\<rparr>
        in if f64_lt t' (fp_const fp 1 1) then (Some ErrRateLimited, g')
           else (None, g'\<lparr>g_tokens := fp_sub fp t' (fp_const fp 1 1)\<rparr>))"

definition releaseProbeSlot :: "guard \<Rightarrow> guard" where
  "releaseProbeSlot g =
     (if FailureThreshold (g_cfg g) \<le> 0 then g
      else if gstate g = stateHalfOpen then g\<lparr>probeInFlight := False\<rparr> else g)"

definition Allow :: "fpu \<Rightarrow> time \<Rightarrow> guard \<Rightarrow> guard_err option \<times> guard" where
  "Allow fp now g =
     (case checkBreaker now g of
        (Some e, g1) \<Rightarrow> (Some e, g1)
      | (None, g1) \<Rightarrow>
          (case takeToken fp now g1 of
             (Some e, g2) \<Rightarrow> (Some e, releaseProbeSlot (g2\<lparr>g_limited := g_limited g2 + 1\<rparr>))
           | (None, g2) \<Rightarrow> (None, g2)))"

text \<open>\<open>AllowContext\<close>, with the error of a context that is done as \<open>ctxErr\<close>.\<close>

definition AllowContext :: "'e option \<Rightarrow> fpu \<Rightarrow> time \<Rightarrow> guard \<Rightarrow> ('e + guard_err) option \<times> guard" where
  "AllowContext ctxErr fp now g =
     (case ctxErr of
        Some e \<Rightarrow> (Some (Inl e), g)
      | None \<Rightarrow> (let (r, g') = Allow fp now g in (map_option Inr r, g')))"

definition OnSuccess :: "guard \<Rightarrow> guard" where
  "OnSuccess g =
     (if FailureThreshold (g_cfg g) \<le> 0 then g
      else g\<lparr>consecutiveFails := 0, probeInFlight := False, gstate := stateClosed\<rparr>)"

definition OnFailure :: "time \<Rightarrow> guard \<Rightarrow> guard" where
  "OnFailure now g =
     (if FailureThreshold (g_cfg g) \<le> 0 then g
      else
        let n = consecutiveFails g + 1; g1 = g\<lparr>consecutiveFails := n, probeInFlight := False\<rparr> in
        if gstate g = stateHalfOpen \<or> FailureThreshold (g_cfg g) \<le> n
        then g1\<lparr>gstate := stateOpen, openedAt := now, g_opens := g_opens g + 1\<rparr> else g1)"

definition guard_Stats :: "guard \<Rightarrow> nat \<times> nat" where
  "guard_Stats g = (g_limited g, g_opens g)"

definition guard_State :: "guard \<Rightarrow> bytes" where
  "guard_State g =
     (case gstate g of stateOpen \<Rightarrow> str ''open'' | stateHalfOpen \<Rightarrow> str ''half-open'' | stateClosed \<Rightarrow> str ''closed'')"

section \<open>The breaker\<close>

lemma takeToken_frame:
  "\<exists>r lr tk. takeToken fp now g = (r, g\<lparr>lastRefill := lr, g_tokens := tk\<rparr>)"
proof (cases "f64_le (RateLimitRPS (g_cfg g)) 0")
  case True
  then have "takeToken fp now g = (None, g\<lparr>lastRefill := lastRefill g, g_tokens := g_tokens g\<rparr>)"
    by (simp add: takeToken_def)
  then show ?thesis by blast
next
  case False
  then have "\<exists>r tk. takeToken fp now g = (r, g\<lparr>lastRefill := now, g_tokens := tk\<rparr>)"
    by (auto simp: takeToken_def Let_def)
  then show ?thesis by blast
qed

lemma Allow_unfold:
  obtains r lr tk where
    "Allow fp now g =
       (case checkBreaker now g of
          (Some e, g1) \<Rightarrow> (Some e, g1)
        | (None, g1) \<Rightarrow>
            (case r of
               Some e \<Rightarrow> (Some e, releaseProbeSlot (g1\<lparr>lastRefill := lr, g_tokens := tk, g_limited := g_limited g1 + 1\<rparr>))
             | None \<Rightarrow> (None, g1\<lparr>lastRefill := lr, g_tokens := tk\<rparr>)))"
proof -
  obtain e g1 where c: "checkBreaker now g = (e, g1)" by force
  obtain r lr tk where k: "takeToken fp now g1 = (r, g1\<lparr>lastRefill := lr, g_tokens := tk\<rparr>)"
    using takeToken_frame by blast
  show ?thesis by (rule that [of tk lr r]) (simp add: Allow_def c k split: option.split)
qed

lemma checkBreaker_frame [simp]:
  "g_cfg (snd (checkBreaker now g)) = g_cfg g" "consecutiveFails (snd (checkBreaker now g)) = consecutiveFails g"
  by (cases "gstate g"; simp add: checkBreaker_def)+

lemma releaseProbeSlot_frame [simp]:
  "g_cfg (releaseProbeSlot g) = g_cfg g" "consecutiveFails (releaseProbeSlot g) = consecutiveFails g"
  by (simp_all add: releaseProbeSlot_def)

lemma Allow_frame [simp]:
  "g_cfg (snd (Allow fp now g)) = g_cfg g" "consecutiveFails (snd (Allow fp now g)) = consecutiveFails g"
proof -
  obtain e g1 where c: "checkBreaker now g = (e, g1)" by force
  obtain r lr tk where a: "Allow fp now g = (case checkBreaker now g of
      (Some e, g1) \<Rightarrow> (Some e, g1)
    | (None, g1) \<Rightarrow> (case r of
         Some e \<Rightarrow> (Some e, releaseProbeSlot (g1\<lparr>lastRefill := lr, g_tokens := tk, g_limited := g_limited g1 + 1\<rparr>))
       | None \<Rightarrow> (None, g1\<lparr>lastRefill := lr, g_tokens := tk\<rparr>)))"
    by (rule Allow_unfold)
  have "g_cfg g1 = g_cfg g" "consecutiveFails g1 = consecutiveFails g"
    using checkBreaker_frame [of now g] c by simp_all
  then show "g_cfg (snd (Allow fp now g)) = g_cfg g" "consecutiveFails (snd (Allow fp now g)) = consecutiveFails g"
    unfolding a c by (cases e; cases r; simp)+
qed

text \<open>The breaker's part of \<open>Allow\<close>: what it does to the state, given the limiter's answer.\<close>

lemma Allow_breaker:
  assumes "0 < FailureThreshold (g_cfg g)"
  shows "gstate g = stateOpen \<Longrightarrow> now - openedAt g < OpenTimeout (g_cfg g) \<Longrightarrow> Allow fp now g = (Some ErrCircuitOpen, g)"
    and "gstate g = stateHalfOpen \<Longrightarrow> probeInFlight g \<Longrightarrow> Allow fp now g = (Some ErrCircuitOpen, g)"
  using assms by (simp_all add: Allow_def checkBreaker_def)

lemma Allow_grants_probe:
  assumes "0 < FailureThreshold (g_cfg g)" "fst (Allow fp now g) = None" "gstate g \<noteq> stateClosed"
  shows "gstate (snd (Allow fp now g)) = stateHalfOpen" "probeInFlight (snd (Allow fp now g))"
proof -
  obtain e g1 where c: "checkBreaker now g = (e, g1)" by force
  obtain r lr tk where a: "Allow fp now g = (case checkBreaker now g of
      (Some e, g1) \<Rightarrow> (Some e, g1)
    | (None, g1) \<Rightarrow> (case r of
         Some e \<Rightarrow> (Some e, releaseProbeSlot (g1\<lparr>lastRefill := lr, g_tokens := tk, g_limited := g_limited g1 + 1\<rparr>))
       | None \<Rightarrow> (None, g1\<lparr>lastRefill := lr, g_tokens := tk\<rparr>)))"
    by (rule Allow_unfold)
  have n: "e = None" "r = None" using assms(2) unfolding a c by (cases e; cases r; simp)+
  have "gstate g1 = stateHalfOpen \<and> probeInFlight g1"
    using c assms(1,3) unfolding n by (cases "gstate g") (auto simp: checkBreaker_def split: if_splits)
  then show "gstate (snd (Allow fp now g)) = stateHalfOpen" "probeInFlight (snd (Allow fp now g))"
    unfolding a c n by simp_all
qed

text \<open>Histories of one guard.\<close>

datatype guard_event = GAllow time | GSuccess | GFailure time

fun guard_step :: "fpu \<Rightarrow> guard_event \<Rightarrow> guard \<Rightarrow> guard" where
  "guard_step fp (GAllow now) g = snd (Allow fp now g)"
| "guard_step fp GSuccess g = OnSuccess g"
| "guard_step fp (GFailure now) g = OnFailure now g"

lemma OnFailure_fails:
  "0 < FailureThreshold (g_cfg g) \<Longrightarrow> consecutiveFails (OnFailure now g) = consecutiveFails g + 1"
  "g_cfg (OnFailure now g) = g_cfg g"
  by (simp_all add: OnFailure_def Let_def)

lemma consecutiveFails_run:
  assumes "0 < FailureThreshold (g_cfg g)" "GSuccess \<notin> set es"
  shows "consecutiveFails (fold (guard_step fp) es g) =
      consecutiveFails g + int (length (filter (\<lambda>e. case e of GFailure t \<Rightarrow> True | _ \<Rightarrow> False) es)) \<and>
    g_cfg (fold (guard_step fp) es g) = g_cfg g"
  using assms
proof (induction es arbitrary: g)
  case (Cons e es)
  have "g_cfg (guard_step fp e g) = g_cfg g" using Cons.prems by (cases e) (auto simp: OnFailure_fails)
  then show ?case
    using Cons.IH [of "guard_step fp e g"] Cons.prems by (cases e) (auto simp: OnFailure_fails)
qed simp

text \<open>C37. The breaker opens: when, since the last success, the failures reported reach the
  threshold, then right after the failure that reaches it every call is refused until the
  timeout has passed, whatever calls were let through in between.\<close>

theorem breaker_opens:
  fixes es fp g
  defines "g' \<equiv> fold (guard_step fp) es g"
  assumes t: "0 < FailureThreshold (g_cfg g)" and z: "consecutiveFails g = 0" and ns: "GSuccess \<notin> set es"
    and n: "FailureThreshold (g_cfg g) \<le> int (length (filter (\<lambda>e. case e of GFailure t \<Rightarrow> True | _ \<Rightarrow> False) es)) + 1"
    and early: "now' < now + OpenTimeout (g_cfg g)"
  shows "gstate (OnFailure now g') = stateOpen \<and> g_opens (OnFailure now g') = g_opens g' + 1 \<and>
    Allow fp now' (OnFailure now g') = (Some ErrCircuitOpen, OnFailure now g')"
proof -
  have r: "consecutiveFails g' = consecutiveFails g +
      int (length (filter (\<lambda>e. case e of GFailure t \<Rightarrow> True | _ \<Rightarrow> False) es))" "g_cfg g' = g_cfg g"
    using consecutiveFails_run [OF t ns, of fp] by (simp_all add: g'_def)
  have o: "gstate (OnFailure now g') = stateOpen" "openedAt (OnFailure now g') = now" "g_opens (OnFailure now g') = g_opens g' + 1"
    using r t z n by (simp_all add: OnFailure_def Let_def)
  then show ?thesis
    using Allow_breaker(1) [of "OnFailure now g'" now' fp] t early r(2) by (simp add: OnFailure_fails)
qed

text \<open>A failed probe opens the breaker again, a successful one closes it.\<close>

lemma probe_outcome:
  assumes "0 < FailureThreshold (g_cfg g)" "gstate g = stateHalfOpen"
  shows "gstate (OnFailure now g) = stateOpen" "openedAt (OnFailure now g) = now" "gstate (OnSuccess g) = stateClosed"
    "consecutiveFails (OnSuccess g) = 0"
  using assms by (simp_all add: OnFailure_def OnSuccess_def Let_def)

definition demo_guard :: guard where
  "demo_guard = guard_New zero_fpu (\<lambda>x. 0) \<lparr>RateLimitRPS = 0, Burst = 0, FailureThreshold = 2, OpenTimeout = 10\<rparr> 0"

theorem breaker_opens_witness:
  "fst (Allow zero_fpu 12 (OnFailure 5 (fold (guard_step zero_fpu) [GAllow 1, GFailure 2, GAllow 3] demo_guard))) =
     Some ErrCircuitOpen"
  using breaker_opens [of demo_guard "[GAllow 1, GFailure 2, GAllow 3]" 12 5 zero_fpu]
  by (simp add: demo_guard_def guard_New_def)

section \<open>Calls that overlap\<close>

text \<open>\<open>Allow\<close> holds the lock in three sections: the check of the breaker, the token and, for a call
  that is rate limited, the release of the probe slot. The sections of several calls
  interleave, and so do the reports of their outcomes. A call passes the check, then is
  running or limited; a limited call releases the slot and is idle again.\<close>

datatype call_pc = PIdle | PPassed | PLimited | PRunning

record guardRun =
  rGuard :: guard
  rCalls :: "nat \<Rightarrow> call_pc"

datatype guard_section =
    SCheck nat time
  | SToken nat time
  | SRelease nat
  | SSuccess nat
  | SFailure nat time

fun section_step :: "fpu \<Rightarrow> guard_section \<Rightarrow> guardRun \<Rightarrow> guardRun" where
  "section_step fp (SCheck i now) r =
     (if rCalls r i = PIdle then
        (case checkBreaker now (rGuard r) of
           (None, g) \<Rightarrow> \<lparr>rGuard = g, rCalls = (rCalls r)(i := PPassed)\<rparr>
         | (Some x, g) \<Rightarrow> r\<lparr>rGuard := g\<rparr>)
      else r)"
| "section_step fp (SToken i now) r =
     (if rCalls r i = PPassed then
        (case takeToken fp now (rGuard r) of
           (None, g) \<Rightarrow> \<lparr>rGuard = g, rCalls = (rCalls r)(i := PRunning)\<rparr>
         | (Some x, g) \<Rightarrow> \<lparr>rGuard = g\<lparr>g_limited := g_limited g + 1\<rparr>, rCalls = (rCalls r)(i := PLimited)\<rparr>)
      else r)"
| "section_step fp (SRelease i) r =
     (if rCalls r i = PLimited then \<lparr>rGuard = releaseProbeSlot (rGuard r), rCalls = (rCalls r)(i := PIdle)\<rparr> else r)"
| "section_step fp (SSuccess i) r =
     (if rCalls r i = PRunning then \<lparr>rGuard = OnSuccess (rGuard r), rCalls = (rCalls r)(i := PIdle)\<rparr> else r)"
| "section_step fp (SFailure i now) r =
     (if rCalls r i = PRunning then \<lparr>rGuard = OnFailure now (rGuard r), rCalls = (rCalls r)(i := PIdle)\<rparr> else r)"

text \<open>The sections of one call without interruption are \<open>Allow\<close>.\<close>

lemma Allow_sections:
  assumes "rCalls r i = PIdle"
  shows "rGuard (fold (section_step fp) [SCheck i now, SToken i now, SRelease i] r) = snd (Allow fp now (rGuard r))"
    and "rCalls (fold (section_step fp) [SCheck i now, SToken i now, SRelease i] r) i =
      (if fst (Allow fp now (rGuard r)) = None then PRunning else PIdle)"
proof -
  obtain x g1 where c: "checkBreaker now (rGuard r) = (x, g1)" by fastforce
  obtain y g2 where k: "takeToken fp now g1 = (y, g2)" by fastforce
  show "rGuard (fold (section_step fp) [SCheck i now, SToken i now, SRelease i] r) = snd (Allow fp now (rGuard r))"
    "rCalls (fold (section_step fp) [SCheck i now, SToken i now, SRelease i] r) i =
      (if fst (Allow fp now (rGuard r)) = None then PRunning else PIdle)"
    using assms c k by (cases x; cases y; simp add: Allow_def)+
qed

primrec reports :: "guard_section \<Rightarrow> bool" where
  "reports (SCheck i now) = False"
| "reports (SToken i now) = False"
| "reports (SRelease i) = False"
| "reports (SSuccess i) = True"
| "reports (SFailure i now) = True"

primrec releases :: "guard_section \<Rightarrow> bool" where
  "releases (SCheck i now) = False"
| "releases (SToken i now) = False"
| "releases (SRelease i) = True"
| "releases (SSuccess i) = False"
| "releases (SFailure i now) = False"

text \<open>The slot of a probe is taken and no limited call is about to free it.\<close>

definition probe_held :: "guard \<Rightarrow> bool" where
  "probe_held g \<longleftrightarrow> 0 < FailureThreshold (g_cfg g) \<and> gstate g = stateHalfOpen \<and> probeInFlight g"

lemma checkBreaker_held: "probe_held g \<Longrightarrow> checkBreaker now g = (Some ErrCircuitOpen, g)"
  by (simp add: probe_held_def checkBreaker_def)

lemma checkBreaker_grants:
  assumes "0 < FailureThreshold (g_cfg g)" "gstate g \<noteq> stateClosed" "fst (checkBreaker now g) = None"
  shows "probe_held (snd (checkBreaker now g))"
  using assms by (cases "gstate g") (simp_all add: checkBreaker_def probe_held_def split: if_splits)

lemma takeToken_held: "probe_held g \<Longrightarrow> probe_held (snd (takeToken fp now g))" "g_cfg (snd (takeToken fp now g)) = g_cfg g"
  using takeToken_frame [of fp now g] by (auto simp: probe_held_def)

lemma takeToken_unlimited: "f64_le (RateLimitRPS (g_cfg g)) 0 \<Longrightarrow> takeToken fp now g = (None, g)"
  by (simp add: takeToken_def)

text \<open>No call can free the slot: none releases, or the limiter is off and none is limited.\<close>

definition no_release :: "guard_section list \<Rightarrow> guardRun \<Rightarrow> bool" where
  "no_release es r \<longleftrightarrow> (\<forall>s \<in> set es. \<not> releases s) \<or>
     (f64_le (RateLimitRPS (g_cfg (rGuard r))) 0 \<and> (\<forall>j. rCalls r j \<noteq> PLimited))"

lemma held_step:
  assumes "probe_held (rGuard r)" "\<not> reports s" "no_release (s # es) r"
  shows "probe_held (rGuard (section_step fp s r))" "no_release es (section_step fp s r)"
    "rCalls r j = PIdle \<Longrightarrow> rCalls (section_step fp s r) j = PIdle"
proof -
  have "probe_held (rGuard (section_step fp s r)) \<and> no_release es (section_step fp s r) \<and>
      (rCalls r j = PIdle \<longrightarrow> rCalls (section_step fp s r) j = PIdle)"
  proof (cases s)
    case (SCheck i now)
    then show ?thesis using assms checkBreaker_held [OF assms(1), of now] by (auto simp: no_release_def)
  next
    case (SToken i now)
    obtain x g where k: "takeToken fp now (rGuard r) = (x, g)" by fastforce
    then have g: "probe_held g" "g_cfg g = g_cfg (rGuard r)" using takeToken_held(1) [OF assms(1), of fp now] takeToken_held(2) [of fp now "rGuard r"] by simp_all
    have "x = None" if "f64_le (RateLimitRPS (g_cfg (rGuard r))) 0" using takeToken_unlimited [OF that, of fp now] k by simp
    then show ?thesis
      using SToken assms(1,3) k g by (cases x) (auto simp: no_release_def probe_held_def)
  next
    case (SRelease i)
    then show ?thesis using assms by (auto simp: no_release_def)
  qed (use assms(2) in simp_all)
  then show "probe_held (rGuard (section_step fp s r))" "no_release es (section_step fp s r)"
    "rCalls r j = PIdle \<Longrightarrow> rCalls (section_step fp s r) j = PIdle" by blast+
qed

lemma held_run:
  "probe_held (rGuard r) \<Longrightarrow> \<forall>s \<in> set es. \<not> reports s \<Longrightarrow> no_release es r \<Longrightarrow> rCalls r j = PIdle \<Longrightarrow>
   rCalls (fold (section_step fp) es r) j = PIdle"
proof (induction es arbitrary: r)
  case (Cons s es)
  have "\<not> reports s" using Cons.prems(2) by simp
  note st = held_step [OF Cons.prems(1) this Cons.prems(3)]
  show ?case using Cons.IH [OF st(1) _ st(2) st(3) [OF Cons.prems(4)], of fp] Cons.prems(2) by simp
qed simp

text \<open>C38. Only one probe at a time, with the sections of overlapping calls interleaved. Once the
  check of the breaker lets a call through while the breaker is not closed, no call that was
  idle then passes its check, as long as no outcome is reported and no rate-limited call
  releases the slot. With no rate limit no call is ever limited, so only an outcome ends the
  exclusion.\<close>

theorem breaker_single_probe:
  assumes "0 < FailureThreshold (g_cfg (rGuard r))" "gstate (rGuard r) \<noteq> stateClosed" "rCalls r i = PIdle"
    and "rCalls (section_step fp (SCheck i now) r) i = PPassed"
    and "\<forall>s \<in> set es. \<not> reports s" "no_release es (section_step fp (SCheck i now) r)"
    and "j \<noteq> i" "rCalls r j = PIdle"
  shows "rCalls (fold (section_step fp) (SCheck i now # es) r) j = PIdle"
proof -
  obtain x g where c: "checkBreaker now (rGuard r) = (x, g)" by fastforce
  have st: "section_step fp (SCheck i now) r =
      (case x of None \<Rightarrow> \<lparr>rGuard = g, rCalls = (rCalls r)(i := PPassed)\<rparr> | Some y \<Rightarrow> r\<lparr>rGuard := g\<rparr>)"
    using assms(3) c by (simp split: option.split)
  have n: "x = None" using assms(3,4) unfolding st by (cases x) simp_all
  have "probe_held g" using checkBreaker_grants [OF assms(1,2), of now] c n by simp
  then have "probe_held (rGuard (section_step fp (SCheck i now) r))" unfolding st n by simp
  moreover have "rCalls (section_step fp (SCheck i now) r) j = PIdle" unfolding st n using assms(7,8) by simp
  ultimately have "rCalls (fold (section_step fp) es (section_step fp (SCheck i now) r)) j = PIdle"
    by (rule held_run [OF _ assms(5,6)])
  then show ?thesis by (simp only: fold_simps)
qed

definition probe_run :: guardRun where
  "probe_run = \<lparr>rGuard = demo_guard\<lparr>gstate := stateOpen, openedAt := 5\<rparr>, rCalls = (\<lambda>j. PIdle)\<rparr>"

theorem breaker_single_probe_witness:
  "rCalls (fold (section_step zero_fpu) (SCheck 1 15 # [SCheck 2 16, SToken 1 17, SRelease 1, SCheck 2 18]) probe_run) 1 = PRunning \<and>
   rCalls (fold (section_step zero_fpu) (SCheck 1 15 # [SCheck 2 16, SToken 1 17, SRelease 1, SCheck 2 18]) probe_run) 2 = PIdle"
proof
  let ?r = "section_step zero_fpu (SCheck 1 15) probe_run"
  have z: "f64_le 0 0" by (simp add: f64_le_def f64_eq_def f64_lt_def f64_is_nan_def f64_key_def f64_mag_def)
  have r: "?r = \<lparr>rGuard = (rGuard probe_run)\<lparr>gstate := stateHalfOpen, probeInFlight := True\<rparr>, rCalls = (\<lambda>j. PIdle)(1 := PPassed)\<rparr>"
    by (simp add: probe_run_def demo_guard_def guard_New_def checkBreaker_def)
  have nr: "no_release [SCheck 2 16, SToken 1 17, SRelease 1, SCheck 2 18] ?r"
    unfolding no_release_def r using z by (simp add: probe_run_def demo_guard_def guard_New_def)
  show "rCalls (fold (section_step zero_fpu) (SCheck 1 15 # [SCheck 2 16, SToken 1 17, SRelease 1, SCheck 2 18]) probe_run) 2 = PIdle"
  proof (rule breaker_single_probe [OF _ _ _ _ _ nr])
    show "rCalls ?r 1 = PPassed" unfolding r by simp
  qed (simp_all add: probe_run_def demo_guard_def guard_New_def)
  show "rCalls (fold (section_step zero_fpu) (SCheck 1 15 # [SCheck 2 16, SToken 1 17, SRelease 1, SCheck 2 18]) probe_run) 1 = PRunning"
    by code_simp
qed

text \<open>The slot is released by whoever was rate limited, the holder of the probe or not: a call
  that passed its check before the breaker opened and is limited while another call probes
  frees that call's slot, and the breaker admits a second probe.\<close>

lemma late_release_admits_second_probe:
  assumes "probe_held (rGuard r)" "rCalls r i = PLimited" "rCalls r p = PRunning" "rCalls r j = PIdle"
  shows "rCalls (fold (section_step fp) [SRelease i, SCheck j now] r) p = PRunning"
    and "rCalls (fold (section_step fp) [SRelease i, SCheck j now] r) j = PPassed"
    and "rCalls (section_step fp (SCheck j now) r) j = PIdle"
  using assms by (auto simp: probe_held_def checkBreaker_def releaseProbeSlot_def)

end
