(* ===== verification/Keyspace.thy ===== *)
theory Keyspace
  imports Protect TopKTable VecCodec
begin

text \<open>
  Keyspace configurations, \<open>pkg/keyspace/config.go\<close>: modes, defaults and validation. Durations
  are nanoseconds. The data source of a configuration is code outside the cache; the record
  only says whether there is one. \<open>ConfigHash\<close> (a SHA-256 fingerprint for diagnostics) is
  not modelled.
\<close>

datatype mode =
    ModeLoadThrough | ModeCacheOnly | ModeBloom | ModeSet | ModeZSet | ModeGeo | ModeList | ModeHash
  | ModeCounter | ModeJSON | ModeBitmap | ModeHLL | ModeTopK | ModeCMS | ModeVectorSet | ModeStream
  | ModeUnknown int

record ksconfig =
  ksName :: bytes
  ksMode :: mode
  ksTTL :: int
  NegativeTTL :: int
  MaxBytes :: int
  LoadTimeout :: int
  PeerTimeout :: int
  WarmKeys :: "bytes list"
  RefreshInterval :: int
  ksRateLimitRPS :: f64
  CircuitBreaker :: guardConfig
  DataSource :: bool
  MaxKeyLen :: int
  MaxValueSize :: int
  ReplicationFactor :: int
  TombstoneTTL :: int
  BloomBits :: int
  BloomHashes :: int
  TopKSize :: int
  VectorDim :: int
  VectorMetric :: int
  StreamMaxLen :: int

definition DefaultMaxKeyLen :: int where "DefaultMaxKeyLen = 512"
definition DefaultMaxValueSize :: int where "DefaultMaxValueSize = 1048576"
definition DefaultMaxBatch :: int where "DefaultMaxBatch = 100"
definition DefaultReplicationFactor :: int where "DefaultReplicationFactor = 3"
definition ksDefaultTombstoneTTL :: int where "ksDefaultTombstoneTTL = 300000000000"
definition DefaultBloomBits :: int where "DefaultBloomBits = 1048576"
definition DefaultBloomHashes :: int where "DefaultBloomHashes = 7"
definition DefaultTopKSize :: int where "DefaultTopKSize = 100"
definition StreamHardCap :: int where "StreamHardCap = 4096"

lemmas ks_consts = DefaultMaxKeyLen_def DefaultMaxValueSize_def DefaultMaxBatch_def
  DefaultReplicationFactor_def ksDefaultTombstoneTTL_def DefaultBloomBits_def DefaultBloomHashes_def
  DefaultTopKSize_def StreamHardCap_def

definition EffectiveReplication :: "ksconfig \<Rightarrow> int \<Rightarrow> int" where
  "EffectiveReplication c peerCount =
     (if peerCount \<le> 0 then 1
      else if ReplicationFactor c < 0 then peerCount
      else
        let rf = (if ReplicationFactor c = 0 then DefaultReplicationFactor else ReplicationFactor c)
        in if peerCount < rf then peerCount else rf)"

definition EffectiveTombstoneTTL :: "ksconfig \<Rightarrow> int" where
  "EffectiveTombstoneTTL c =
     (if TombstoneTTL c < 0 then 0 else if TombstoneTTL c = 0 then ksDefaultTombstoneTTL else TombstoneTTL c)"

definition EffectiveBloomBits :: "ksconfig \<Rightarrow> int" where
  "EffectiveBloomBits c = (if BloomBits c \<le> 0 then DefaultBloomBits else BloomBits c)"

definition EffectiveBloomHashes :: "ksconfig \<Rightarrow> int" where
  "EffectiveBloomHashes c = (if BloomHashes c \<le> 0 then DefaultBloomHashes else BloomHashes c)"

definition EffectiveTopKSize :: "ksconfig \<Rightarrow> int" where
  "EffectiveTopKSize c = (if TopKSize c \<le> 0 then DefaultTopKSize else TopKSize c)"

definition EffectiveStreamMaxLen :: "ksconfig \<Rightarrow> int" where
  "EffectiveStreamMaxLen c =
     (if StreamMaxLen c \<le> 0 then 0 else if StreamHardCap < StreamMaxLen c then StreamHardCap else StreamMaxLen c)"

definition mode_String :: "mode \<Rightarrow> bytes option" where
  "mode_String m =
     (case m of
        ModeLoadThrough \<Rightarrow> Some (str ''LoadThrough'') | ModeCacheOnly \<Rightarrow> Some (str ''CacheOnly'')
      | ModeBloom \<Rightarrow> Some (str ''Bloom'') | ModeSet \<Rightarrow> Some (str ''Set'') | ModeZSet \<Rightarrow> Some (str ''ZSet'')
      | ModeGeo \<Rightarrow> Some (str ''Geo'') | ModeList \<Rightarrow> Some (str ''List'') | ModeHash \<Rightarrow> Some (str ''Hash'')
      | ModeCounter \<Rightarrow> Some (str ''Counter'') | ModeJSON \<Rightarrow> Some (str ''JSON'')
      | ModeBitmap \<Rightarrow> Some (str ''Bitmap'') | ModeHLL \<Rightarrow> Some (str ''HLL'') | ModeTopK \<Rightarrow> Some (str ''TopK'')
      | ModeCMS \<Rightarrow> Some (str ''CMS'') | ModeVectorSet \<Rightarrow> Some (str ''VectorSet'')
      | ModeStream \<Rightarrow> Some (str ''Stream'') | ModeUnknown n \<Rightarrow> None)"

datatype config_err =
    NameRequired | DataSourceRequired | MaxBytesNegative | HLLValueSize | CMSValueSize | TopKSizeNegative
  | TopKTooLarge | VectorDimRange | UnknownVectorMetric | VectorSetTooLarge | BloomSize | BloomTooLarge

text \<open>The two checks \<open>Validate\<close> makes for chart and vector keyspaces.\<close>

definition validate_topk :: "ksconfig \<Rightarrow> config_err option" where
  "validate_topk c =
     (if TopKSize c < 0 then Some TopKSizeNegative
      else
        let maxItem = (if 0 < MaxKeyLen c then MaxKeyLen c else DefaultMaxKeyLen);
            maxVal = (if 0 < MaxValueSize c then MaxValueSize c else DefaultMaxValueSize);
            need = WorstEncodedSize (EffectiveTopKSize c) maxItem
        in if 0 < maxVal \<and> maxVal < need then Some TopKTooLarge else None)"

definition validate_vec :: "ksconfig \<Rightarrow> config_err option" where
  "validate_vec c =
     (if VectorDim c < 0 \<or> VectorDim c = 1 \<or> MaxDim < VectorDim c then Some VectorDimRange
      else if VectorMetric c \<noteq> 0 \<and> VectorMetric c \<noteq> 1 \<and> VectorMetric c \<noteq> 2 then Some UnknownVectorMetric
      else
        let dim = (if VectorDim c = 0 then MaxDim else VectorDim c);
            maxItem = (if 0 < MaxKeyLen c then MaxKeyLen c else DefaultMaxKeyLen);
            maxItem = (if int MaxMemberLen < maxItem then int MaxMemberLen else maxItem);
            maxVal = (if 0 < MaxValueSize c then MaxValueSize c else DefaultMaxValueSize);
            need = vec_WorstEncodedSize dim (int MaxMembers) maxItem
        in if 0 < maxVal \<and> maxVal < need then Some VectorSetTooLarge else None)"

definition validate_bloom :: "ksconfig \<Rightarrow> config_err option" where
  "validate_bloom c =
     (if EffectiveBloomBits c < 64 \<or> EffectiveBloomHashes c < 1 then Some BloomSize
      else
        let need = (EffectiveBloomBits c + 7) div 8
        in if 0 < MaxBytes c \<and> MaxBytes c < need then Some BloomTooLarge else None)"

definition Validate :: "ksconfig \<Rightarrow> config_err option" where
  "Validate c =
     (if ksName c = [] then Some NameRequired
      else if ksMode c = ModeLoadThrough \<and> \<not> DataSource c then Some DataSourceRequired
      else if MaxBytes c < 0 then Some MaxBytesNegative
      else if ksMode c = ModeHLL \<and> 0 < MaxValueSize c \<and> MaxValueSize c < 12288 then Some HLLValueSize
      else if ksMode c = ModeCMS \<and> 0 < MaxValueSize c \<and> MaxValueSize c < 65536 then Some CMSValueSize
      else
        case ksMode c of
          ModeTopK \<Rightarrow> validate_topk c
        | ModeVectorSet \<Rightarrow> validate_vec c
        | ModeBloom \<Rightarrow> validate_bloom c
        | _ \<Rightarrow> None)"

section \<open>What validation guarantees\<close>

lemma EffectiveReplication_bounds:
  assumes "0 < n"
  shows "1 \<le> EffectiveReplication c n" "EffectiveReplication c n \<le> n"
  using assms by (auto simp: EffectiveReplication_def Let_def ks_consts)

lemma Validate_bloom:
  assumes "Validate c = None" "ksMode c = ModeBloom"
  shows "64 \<le> EffectiveBloomBits c" "1 \<le> EffectiveBloomHashes c"
  using assms by (auto simp: Validate_def validate_bloom_def Let_def split: if_splits)

end
