(* ===== verification/Ring.thy ===== *)
theory Ring
  imports Prelude
begin

text \<open>
  The consistent hash ring of \<open>internal/ring/ring.go\<close>: virtual nodes on a 64-bit ring, the
  owner of a key and its replicas clockwise. The snapshots of \<open>Peers\<close> and \<open>PeersExcept\<close>
  come in map order, so they are sets.
\<close>

section \<open>The ring\<close>

record peer =
  pID :: bytes
  pAddr :: bytes

record ring =
  vnodes :: int
  rkeys :: "u64 list"
  hashToID :: "u64 \<rightharpoonup> bytes"
  rpeers :: "(bytes, peer) fmap"
  rgen :: u64

definition ring_New :: "int \<Rightarrow> ring" where
  "ring_New v =
     \<lparr>vnodes = (if v \<le> 0 then 64 else v), rkeys = [], hashToID = Map.empty, rpeers = fmempty, rgen = 0\<rparr>"

definition Generation :: "ring \<Rightarrow> u64" where
  "Generation r = rgen r"

definition hashString :: "bytes \<Rightarrow> u64" where
  "hashString s = fnv1a s"

fun itoa_loop :: "nat \<Rightarrow> bytes \<Rightarrow> bytes" where
  "itoa_loop i b = (if i = 0 then b else itoa_loop (i div 10) (of_nat (48 + i mod 10) # b))"

declare itoa_loop.simps [simp del]

definition itoa :: "nat \<Rightarrow> bytes" where
  "itoa i = (if i = 0 then str ''0'' else itoa_loop i [])"

definition vnodeHash :: "bytes \<Rightarrow> nat \<Rightarrow> u64" where
  "vnodeHash i n = hashString (i @ str ''#'' @ itoa n)"

text \<open>The body of the loop of \<open>SetPeers\<close>.\<close>

definition addPeer :: "peer \<Rightarrow> ring \<Rightarrow> ring" where
  "addPeer p r =
     (if pID p = [] then r
      else
        let hs = map (vnodeHash (pID p)) [0..<nat (vnodes r)] in
        r\<lparr>rpeers := fmupd (pID p) p (rpeers r),
          hashToID := fold (\<lambda>h f. f(h \<mapsto> pID p)) hs (hashToID r),
          rkeys := rkeys r @ hs\<rparr>)"

definition SetPeers :: "peer list \<Rightarrow> ring \<Rightarrow> ring" where
  "SetPeers ps r =
     (let r1 = fold addPeer ps (r\<lparr>rpeers := fmempty, hashToID := Map.empty, rkeys := []\<rparr>)
      in r1\<lparr>rkeys := sort (rkeys r1), rgen := rgen r1 + 1\<rparr>)"

text \<open>\<open>sort.Search\<close>: binary search for the first index where a monotone predicate holds.\<close>

function search_loop :: "(nat \<Rightarrow> bool) \<Rightarrow> nat \<Rightarrow> nat \<Rightarrow> nat" where
  "search_loop f i j =
     (if i < j then
        let h = (i + j) div 2 in
        if \<not> f h then search_loop f (h + 1) j else search_loop f i h
      else i)"
  by pat_completeness auto
termination by (relation "measure (\<lambda>(f, i, j). j - i)") auto

declare search_loop.simps [simp del]

definition sort_Search :: "nat \<Rightarrow> (nat \<Rightarrow> bool) \<Rightarrow> nat" where
  "sort_Search n f = search_loop f 0 n"

text \<open>The position of the first virtual node at or after a hash, wrapping around.\<close>

definition ring_pos :: "ring \<Rightarrow> u64 \<Rightarrow> nat" where
  "ring_pos r h =
     (let i = sort_Search (length (rkeys r)) (\<lambda>i. h \<le> rkeys r ! i)
      in if i = length (rkeys r) then 0 else i)"

definition idAt :: "ring \<Rightarrow> u64 \<Rightarrow> bytes" where
  "idAt r h = (case hashToID r h of None \<Rightarrow> [] | Some i \<Rightarrow> i)"

definition Owner :: "bytes \<Rightarrow> ring \<Rightarrow> peer option" where
  "Owner k r =
     (if rkeys r = [] then None
      else fmlookup (rpeers r) (idAt r (rkeys r ! ring_pos r (hashString k))))"

definition Peers :: "ring \<Rightarrow> peer fset" where
  "Peers r = fmran (rpeers r)"

definition PeersExcept :: "bytes \<Rightarrow> ring \<Rightarrow> peer fset" where
  "PeersExcept i r = ffilter (\<lambda>p. pID p \<noteq> i) (fmran (rpeers r))"

definition peerOf :: "ring \<Rightarrow> bytes \<Rightarrow> peer" where
  "peerOf r i = (case fmlookup (rpeers r) i of None \<Rightarrow> \<lparr>pID = [], pAddr = []\<rparr> | Some p \<Rightarrow> p)"

fun replicas_loop :: "ring \<Rightarrow> nat \<Rightarrow> nat \<Rightarrow> nat \<Rightarrow> bytes list \<Rightarrow> peer list \<Rightarrow> peer list" where
  "replicas_loop r n 0 i seen out = out"
| "replicas_loop r n (Suc left) i seen out =
     (if n \<le> length out then out
      else
        let p = idAt r (rkeys r ! i); i' = (if i + 1 = length (rkeys r) then 0 else i + 1) in
        if p \<in> set seen then replicas_loop r n left i' seen out
        else replicas_loop r n left i' (p # seen) (out @ [peerOf r p]))"

definition replicasLocked :: "bytes \<Rightarrow> int \<Rightarrow> ring \<Rightarrow> peer list" where
  "replicasLocked k n r =
     (let np = fcard (fmdom (rpeers r)) in
      if n \<le> 0 \<or> rkeys r = [] \<or> np = 0 then []
      else replicas_loop r (min (nat n) np) (length (rkeys r)) (ring_pos r (hashString k)) [] [])"

definition Replicas :: "bytes \<Rightarrow> int \<Rightarrow> ring \<Rightarrow> peer list" where
  "Replicas k n r = replicasLocked k n r"

definition ReplicasExcept :: "bytes \<Rightarrow> bytes \<Rightarrow> int \<Rightarrow> ring \<Rightarrow> peer list" where
  "ReplicasExcept k i n r =
     (let reps = replicasLocked k n r in
      if i = [] \<or> reps = [] then reps else filter (\<lambda>p. pID p \<noteq> i) reps)"

definition IsReplica :: "bytes \<Rightarrow> bytes \<Rightarrow> int \<Rightarrow> ring \<Rightarrow> bool" where
  "IsReplica k i n r =
     (if i = [] \<or> n \<le> 0 \<or> rkeys r = [] then False
      else if int (fcard (fmdom (rpeers r))) \<le> n then i |\<in>| fmdom (rpeers r)
      else \<exists>p \<in> set (replicasLocked k n r). pID p = i)"

definition ring_Len :: "ring \<Rightarrow> nat" where
  "ring_Len r = fcard (fmdom (rpeers r))"

section \<open>Binary search\<close>

lemma search_loop_bounds: "i \<le> j \<Longrightarrow> search_loop f i j \<le> j"
proof (induction "j - i" arbitrary: i j rule: less_induct)
  case less
  let ?h = "(i + j) div 2"
  show ?case
  proof (cases "i < j")
    case True
    then have "search_loop f (?h + 1) j \<le> j" "search_loop f i ?h \<le> ?h" "?h < j"
      using less.hyps [of j "?h + 1"] less.hyps [of ?h i] by simp_all
    then show ?thesis using True by (subst search_loop.simps) (simp add: Let_def)
  qed (use less.prems in \<open>subst search_loop.simps, simp\<close>)
qed

lemma search_loop_spec:
  assumes mono: "\<And>x y. x \<le> y \<Longrightarrow> y < n \<Longrightarrow> f x \<Longrightarrow> f y"
  shows "i \<le> j \<Longrightarrow> \<forall>x < i. \<not> f x \<Longrightarrow> \<forall>x. j \<le> x \<longrightarrow> x < n \<longrightarrow> f x \<Longrightarrow> j \<le> n \<Longrightarrow>
    (\<forall>x < search_loop f i j. \<not> f x) \<and> (\<forall>x. search_loop f i j \<le> x \<longrightarrow> x < n \<longrightarrow> f x)"
proof (induction "j - i" arbitrary: i j rule: less_induct)
  case less
  show ?case
  proof (cases "i < j")
    case False
    then have "search_loop f i j = i" by (subst search_loop.simps) simp
    then show ?thesis using less.prems False by auto
  next
    case True
    let ?h = "(i + j) div 2"
    have h: "i \<le> ?h" "?h < j" "?h < n" using True less.prems(4) by simp_all
    show ?thesis
    proof (cases "f ?h")
      case t: True
      then have eq: "search_loop f i j = search_loop f i ?h" using True by (subst search_loop.simps) simp
      have hi: "\<forall>x. ?h \<le> x \<longrightarrow> x < n \<longrightarrow> f x" using mono [OF _ _ t] by auto
      have d: "?h - i < j - i" using h by linarith
      show ?thesis unfolding eq by (rule less.hyps [OF d h(1) less.prems(2) hi less_imp_le [OF h(3)]])
    next
      case f: False
      then have eq: "search_loop f i j = search_loop f (?h + 1) j" using True by (subst search_loop.simps) simp
      have "\<not> f x" if "x < ?h + 1" for x using mono [of x ?h] f h(3) that by auto
      then have lo: "\<forall>x < ?h + 1. \<not> f x" by blast
      have d: "j - (?h + 1) < j - i" "?h + 1 \<le> j" using h by linarith+
      show ?thesis unfolding eq by (rule less.hyps [OF d lo less.prems(3,4)])
    qed
  qed
qed

lemma sort_Search_first:
  assumes "\<And>x y. x \<le> y \<Longrightarrow> y < n \<Longrightarrow> f x \<Longrightarrow> f y"
  shows "sort_Search n f \<le> n" "x < sort_Search n f \<Longrightarrow> \<not> f x" "sort_Search n f \<le> x \<Longrightarrow> x < n \<Longrightarrow> f x"
  using search_loop_bounds [of 0 n f] search_loop_spec [where f = f and n = n and i = 0 and j = n, OF assms]
  by (auto simp: sort_Search_def)

lemma sorted_split:
  fixes ks :: "u64 list" and h :: u64
  assumes "sorted ks"
  defines "n \<equiv> sort_Search (length ks) (\<lambda>i. h \<le> ks ! i)"
  shows "take n ks = filter (\<lambda>x. x < h) ks" "drop n ks = filter (\<lambda>x. h \<le> x) ks"
proof -
  have mono: "h \<le> ks ! y" if "x \<le> y" "y < length ks" "h \<le> ks ! x" for x y
    using sorted_nth_mono [OF assms(1) that(1,2)] that(3) by simp
  have lo: "\<forall>x \<in> set (take n ks). x < h"
    using sort_Search_first(2) [of "length ks" "\<lambda>i. h \<le> ks ! i", OF mono]
    by (auto simp: in_set_conv_nth n_def not_le)
  have hi: "\<forall>x \<in> set (drop n ks). h \<le> x"
    using sort_Search_first(3) [of "length ks" "\<lambda>i. h \<le> ks ! i", OF mono]
    by (auto simp: in_set_conv_nth n_def)
  have "filter P ks = filter P (take n ks) @ filter P (drop n ks)" for P
    by (metis append_take_drop_id filter_append)
  then show "take n ks = filter (\<lambda>x. x < h) ks" "drop n ks = filter (\<lambda>x. h \<le> x) ks"
    using lo hi by (auto simp: filter_id_conv filter_empty_conv)
qed

section \<open>The walk around the ring\<close>

text \<open>The ids of the virtual nodes in the order a walk from a hash meets them, and the
  distinct ids in the order of their first appearance.\<close>

definition ring_walk :: "ring \<Rightarrow> u64 \<Rightarrow> u64 list" where
  "ring_walk r h = filter (\<lambda>x. h \<le> x) (rkeys r) @ filter (\<lambda>x. x < h) (rkeys r)"

lemma set_ring_walk [simp]: "set (ring_walk r h) = set (rkeys r)"
  by (auto simp: ring_walk_def)

lemma ring_walk_Nil [simp]: "ring_walk r h = [] \<longleftrightarrow> rkeys r = []"
  unfolding set_empty [symmetric] by simp

fun firsts :: "'a list \<Rightarrow> 'a list" where
  "firsts [] = []"
| "firsts (x # xs) = x # filter (\<lambda>y. y \<noteq> x) (firsts xs)"

lemma set_firsts [simp]: "set (firsts xs) = set xs"
  by (induction xs) auto

lemma distinct_firsts [simp]: "distinct (firsts xs)"
  by (induction xs) auto

lemma firsts_Nil_iff [simp]: "firsts xs = [] \<longleftrightarrow> xs = []"
  by (cases xs) simp_all

lemma hd_firsts: "xs \<noteq> [] \<Longrightarrow> hd (firsts xs) = hd xs"
  by (cases xs) simp_all

lemma firsts_filter: "firsts (filter P xs) = filter P (firsts xs)"
proof (induction xs)
  case (Cons x xs)
  have "filter (\<lambda>y. y \<noteq> x) (filter P (firsts xs)) = filter P (filter (\<lambda>y. y \<noteq> x) (firsts xs))"
    by (simp add: conj_commute)
  moreover have "filter P (firsts xs) = filter P (filter (\<lambda>y. y \<noteq> x) (firsts xs))" if "\<not> P x"
    using that by (auto simp: intro!: filter_cong)
  ultimately show ?case using Cons.IH by auto
qed simp

lemma replicas_loop_walk:
  assumes "i < length (rkeys r)" "left \<le> length (rkeys r)" "length seen = length out"
  shows "replicas_loop r n left i seen out =
    out @ map (peerOf r) (take (n - length out) (filter (\<lambda>p. p \<notin> set seen)
      (firsts (map (idAt r) (take left (rotate i (rkeys r)))))))"
  using assms
proof (induction left arbitrary: i seen out)
  case (Suc left)
  let ?ks = "rkeys r"
  let ?i = "if i + 1 = length ?ks then 0 else i + 1"
  let ?p = "idAt r (?ks ! i)"
  have tk: "take (Suc left) (rotate i ?ks) = ?ks ! i # take left (rotate ?i ?ks)"
  proof -
    have r: "rotate i ?ks = ?ks ! i # (drop (Suc i) ?ks @ take i ?ks)"
      using Suc.prems(1) by (simp add: rotate_drop_take Cons_nth_drop_Suc)
    have "?ks = take i ?ks @ [?ks ! i]" if "Suc i = length ?ks"
      using that take_Suc_conv_app_nth [of i ?ks] by simp
    then have "rotate ?i ?ks = (drop (Suc i) ?ks @ take i ?ks) @ [?ks ! i]"
      using Suc.prems(1) by (auto simp: rotate_drop_take take_Suc_conv_app_nth)
    moreover have "left \<le> length (drop (Suc i) ?ks @ take i ?ks)" using Suc.prems(1,2) by simp
    ultimately show ?thesis by (simp add: r)
  qed
  have i': "?i < length ?ks" using Suc.prems(1) by auto
  show ?case
  proof (cases "n \<le> length out")
    case True
    then show ?thesis by simp
  next
    case False
    have left: "left \<le> length ?ks" using Suc.prems(2) by simp
    let ?F = "firsts (map (idAt r) (take left (rotate ?i ?ks)))"
    have whole: "firsts (map (idAt r) (take (Suc left) (rotate i ?ks))) = ?p # filter (\<lambda>y. y \<noteq> ?p) ?F"
      unfolding tk by simp
    show ?thesis
    proof (cases "?p \<in> set seen")
      case in_seen: True
      have "replicas_loop r n (Suc left) i seen out = replicas_loop r n left ?i seen out"
        using False in_seen by (simp add: Let_def)
      moreover have "filter (\<lambda>p. p \<notin> set seen) (?p # filter (\<lambda>y. y \<noteq> ?p) ?F) = filter (\<lambda>p. p \<notin> set seen) ?F"
        using in_seen by (auto intro!: filter_cong)
      ultimately show ?thesis by (simp only: whole Suc.IH [OF i' left Suc.prems(3)])
    next
      case fresh: False
      have "replicas_loop r n (Suc left) i seen out =
          replicas_loop r n left ?i (?p # seen) (out @ [peerOf r ?p])"
        using False fresh by (simp add: Let_def)
      also have "\<dots> = (out @ [peerOf r ?p]) @ map (peerOf r)
          (take (n - length (out @ [peerOf r ?p])) (filter (\<lambda>p. p \<notin> set (?p # seen)) ?F))"
        by (rule Suc.IH [OF i' left]) (simp add: Suc.prems(3))
      also have "filter (\<lambda>p. p \<notin> set (?p # seen)) ?F = filter (\<lambda>p. p \<notin> set seen) (filter (\<lambda>y. y \<noteq> ?p) ?F)"
        by (auto intro!: filter_cong)
      finally show ?thesis
        unfolding whole using False fresh by (simp add: Suc_diff_Suc [symmetric] not_le)
    qed
  qed
qed simp

text \<open>A ring of sorted virtual nodes, each with an id of the peer map.\<close>

definition ring_ok :: "ring \<Rightarrow> bool" where
  "ring_ok r \<longleftrightarrow>
     sorted (rkeys r) \<and> dom (hashToID r) = set (rkeys r) \<and>
     (\<forall>h i. hashToID r h = Some i \<longrightarrow> i |\<in>| fmdom (rpeers r)) \<and>
     (\<forall>i p. fmlookup (rpeers r) i = Some p \<longrightarrow> pID p = i \<and> i \<noteq> [])"

definition ring_ids :: "bytes \<Rightarrow> ring \<Rightarrow> bytes list" where
  "ring_ids k r = firsts (map (idAt r) (ring_walk r (hashString k)))"

lemma ring_pos_walk:
  assumes "sorted (rkeys r)" "rkeys r \<noteq> []"
  shows "rotate (ring_pos r h) (rkeys r) = ring_walk r h" "ring_pos r h < length (rkeys r)"
proof -
  let ?n = "sort_Search (length (rkeys r)) (\<lambda>i. h \<le> rkeys r ! i)"
  have mono: "h \<le> rkeys r ! y" if "x \<le> y" "y < length (rkeys r)" "h \<le> rkeys r ! x" for x y
    using sorted_nth_mono [OF assms(1) that(1,2)] that(3) by simp
  have le: "?n \<le> length (rkeys r)" by (rule sort_Search_first(1)) (rule mono)
  then show "ring_pos r h < length (rkeys r)" using assms(2) by (auto simp: ring_pos_def Let_def)
  note sp = sorted_split [OF assms(1), of h]
  show "rotate (ring_pos r h) (rkeys r) = ring_walk r h"
  proof (cases "?n = length (rkeys r)")
    case True
    then have "filter (\<lambda>x. x < h) (rkeys r) = rkeys r" "filter (\<lambda>x. h \<le> x) (rkeys r) = []"
      using sp by simp_all
    then show ?thesis using True by (simp add: ring_pos_def ring_walk_def)
  next
    case False
    then have "?n < length (rkeys r)" using le by simp
    then show ?thesis using False sp by (simp add: ring_pos_def ring_walk_def rotate_drop_take)
  qed
qed

lemma Owner_walk:
  assumes "ring_ok r"
  shows "Owner k r = (if rkeys r = [] then None else fmlookup (rpeers r) (hd (ring_ids k r)))"
proof (cases "rkeys r = []")
  case False
  have s: "sorted (rkeys r)" using assms by (simp add: ring_ok_def)
  note w = ring_pos_walk [OF s False, of "hashString k"]
  have "ring_walk r (hashString k) \<noteq> []" using w False by (metis rotate_is_Nil_conv)
  moreover have "hd (ring_walk r (hashString k)) = rkeys r ! ring_pos r (hashString k)"
    using w by (metis False hd_rotate_conv_nth mod_less)
  ultimately show ?thesis using False by (simp add: Owner_def ring_ids_def hd_firsts hd_map)
qed (simp add: Owner_def)

lemma Replicas_walk:
  assumes "ring_ok r"
  shows "Replicas k n r =
    (if n \<le> 0 \<or> rkeys r = [] then []
     else map (peerOf r) (take (min (nat n) (ring_Len r)) (ring_ids k r)))"
proof (cases "n \<le> 0 \<or> rkeys r = []")
  case False
  have s: "sorted (rkeys r)" using assms by (simp add: ring_ok_def)
  note w = ring_pos_walk [OF s, of "hashString k"]
  show ?thesis
  proof (cases "fcard (fmdom (rpeers r)) = 0")
    case True
    then show ?thesis using False by (simp add: Replicas_def replicasLocked_def ring_Len_def fcard_fempty)
  next
    case ne: False
    have tk: "take (length (rkeys r)) (ring_walk r (hashString k)) = ring_walk r (hashString k)"
      using w(1) False by (metis length_rotate order_refl take_all)
    have "replicas_loop r j (length (rkeys r)) (ring_pos r (hashString k)) [] [] =
        map (peerOf r) (take j (ring_ids k r))" for j
      using replicas_loop_walk [of "ring_pos r (hashString k)" r "length (rkeys r)" "[]" "[]" j] w False
      by (simp add: ring_ids_def tk)
    then show ?thesis using False ne by (simp add: Replicas_def replicasLocked_def ring_Len_def)
  qed
qed (auto simp: Replicas_def replicasLocked_def)

section \<open>What SetPeers builds\<close>

definition hashes :: "int \<Rightarrow> bytes \<Rightarrow> u64 list" where
  "hashes v i = map (vnodeHash i) [0..<nat v]"

lemma fold_map_upd: "fold (\<lambda>h f. f(h \<mapsto> i)) hs f h = (if h \<in> set hs then Some i else f h)"
  by (induction hs arbitrary: f) auto

lemma addPeer_fields [simp]:
  "vnodes (addPeer p r) = vnodes r" "rgen (addPeer p r) = rgen r"
  by (simp_all add: addPeer_def Let_def)

lemma fold_addPeer_fields [simp]:
  "vnodes (fold addPeer ps r) = vnodes r" "rgen (fold addPeer ps r) = rgen r"
  by (induction ps arbitrary: r) simp_all

text \<open>The invariant holds after every \<open>SetPeers\<close>, whatever the hashes are.\<close>

definition ring_pre :: "ring \<Rightarrow> bool" where
  "ring_pre r \<longleftrightarrow>
     dom (hashToID r) = set (rkeys r) \<and> (\<forall>h i. hashToID r h = Some i \<longrightarrow> i |\<in>| fmdom (rpeers r)) \<and>
     (\<forall>i p. fmlookup (rpeers r) i = Some p \<longrightarrow> pID p = i \<and> i \<noteq> [])"

lemma addPeer_pre: "ring_pre r \<Longrightarrow> ring_pre (addPeer p r)"
  by (auto simp: ring_pre_def addPeer_def Let_def fold_map_upd dom_def split: if_splits)

lemma fold_addPeer_pre: "ring_pre r \<Longrightarrow> ring_pre (fold addPeer ps r)"
  by (induction ps arbitrary: r) (simp_all add: addPeer_pre)

lemma SetPeers_ok: "ring_ok (SetPeers ps r)"
  using fold_addPeer_pre [of "r\<lparr>rpeers := fmempty, hashToID := Map.empty, rkeys := []\<rparr>" ps]
  by (simp add: SetPeers_def ring_ok_def ring_pre_def Let_def)

text \<open>Peers with distinct ids whose virtual nodes do not collide.\<close>

definition clash_free :: "int \<Rightarrow> peer list \<Rightarrow> bool" where
  "clash_free v ps \<longleftrightarrow>
     distinct (map pID ps) \<and> (\<forall>p \<in> set ps. pID p \<noteq> []) \<and>
     (\<forall>p \<in> set ps. \<forall>q \<in> set ps. p \<noteq> q \<longrightarrow> set (hashes v (pID p)) \<inter> set (hashes v (pID q)) = {})"

lemma clash_free_id: "clash_free v ps \<Longrightarrow> p \<in> set ps \<Longrightarrow> q \<in> set ps \<Longrightarrow> pID p = pID q \<Longrightarrow> p = q"
  by (auto simp: clash_free_def distinct_map dest: inj_onD)

lemma clash_free_mset: "mset ps = mset qs \<Longrightarrow> clash_free v ps \<longleftrightarrow> clash_free v qs"
  using mset_eq_setD [of ps qs] mset_eq_imp_distinct_iff [of "map pID ps" "map pID qs"]
  by (simp add: clash_free_def)

lemma fold_addPeer_keys:
  "\<forall>p \<in> set ps. pID p \<noteq> [] \<Longrightarrow>
   rkeys (fold addPeer ps r) = rkeys r @ concat (map (\<lambda>p. hashes (vnodes r) (pID p)) ps)"
  by (induction ps arbitrary: r) (simp_all add: addPeer_def hashes_def Let_def)

lemma addPeer_peers: "pID p \<noteq> [] \<Longrightarrow> rpeers (addPeer p r) = fmupd (pID p) p (rpeers r)"
  by (simp add: addPeer_def Let_def)

lemma fold_addPeer_peers:
  "distinct (map pID ps) \<Longrightarrow> \<forall>p \<in> set ps. pID p \<noteq> [] \<Longrightarrow>
   fmlookup (rpeers (fold addPeer ps r)) i = Some p \<longleftrightarrow>
     p \<in> set ps \<and> pID p = i \<or> i \<notin> pID ` set ps \<and> fmlookup (rpeers r) i = Some p"
proof (induction ps arbitrary: r)
  case (Cons q ps)
  then have "fmlookup (rpeers (fold addPeer (q # ps) r)) i = Some p \<longleftrightarrow>
      p \<in> set ps \<and> pID p = i \<or> i \<notin> pID ` set ps \<and> fmlookup (fmupd (pID q) q (rpeers r)) i = Some p"
    using Cons.IH [of "addPeer q r"] by (simp add: addPeer_peers)
  then show ?case using Cons.prems(1) by auto
qed simp

lemma addPeer_hash:
  "pID p \<noteq> [] \<Longrightarrow> hashToID (addPeer p r) h =
     (if h \<in> set (hashes (vnodes r) (pID p)) then Some (pID p) else hashToID r h)"
  by (simp add: addPeer_def hashes_def Let_def fold_map_upd)

lemma fold_addPeer_hash:
  "\<forall>p \<in> set ps. pID p \<noteq> [] \<Longrightarrow> (\<forall>p \<in> set ps. h \<notin> set (hashes (vnodes r) (pID p))) \<Longrightarrow>
   hashToID (fold addPeer ps r) h = hashToID r h"
  by (induction ps arbitrary: r) (simp_all add: addPeer_hash)

lemma fold_addPeer_hash_at:
  assumes "\<forall>p \<in> set ps. pID p \<noteq> []" "p \<in> set ps" "h \<in> set (hashes (vnodes r) (pID p))"
    "\<forall>q \<in> set ps. q \<noteq> p \<longrightarrow> h \<notin> set (hashes (vnodes r) (pID q))"
  shows "hashToID (fold addPeer ps r) h = Some (pID p)"
  using assms
proof (induction ps arbitrary: r)
  case (Cons q ps)
  show ?case
  proof (cases "p \<in> set ps")
    case True
    then show ?thesis using Cons by simp
  next
    case False
    then have "p = q" "\<forall>x \<in> set ps. h \<notin> set (hashes (vnodes r) (pID x))" using Cons.prems(2,4) by auto
    then show ?thesis
      using Cons.prems(1,3) fold_addPeer_hash [of ps h "addPeer q r"]
      by (simp add: addPeer_hash)
  qed
qed simp

lemma SetPeers_peers:
  assumes "clash_free (vnodes r) ps"
  shows "fmlookup (rpeers (SetPeers ps r)) i = Some p \<longleftrightarrow> p \<in> set ps \<and> pID p = i"
  using assms fold_addPeer_peers [of ps] by (simp add: SetPeers_def Let_def clash_free_def)

lemma SetPeers_keys:
  assumes "clash_free (vnodes r) ps"
  shows "rkeys (SetPeers ps r) = sort (concat (map (\<lambda>p. hashes (vnodes r) (pID p)) ps))"
  using assms by (simp add: SetPeers_def Let_def fold_addPeer_keys clash_free_def)

lemma SetPeers_hash:
  assumes cf: "clash_free (vnodes r) ps"
  shows "hashToID (SetPeers ps r) h = Some i \<longleftrightarrow>
    (\<exists>p \<in> set ps. pID p = i \<and> h \<in> set (hashes (vnodes r) i))"
proof (cases "\<exists>p \<in> set ps. h \<in> set (hashes (vnodes r) (pID p))")
  case True
  then obtain p where p: "p \<in> set ps" "h \<in> set (hashes (vnodes r) (pID p))" by blast
  have u: "q = p" if "q \<in> set ps" "h \<in> set (hashes (vnodes r) (pID q))" for q
    using cf p that unfolding clash_free_def by blast
  have ne: "\<forall>p \<in> set ps. pID p \<noteq> []" using cf by (simp add: clash_free_def)
  have "\<forall>q \<in> set ps. q \<noteq> p \<longrightarrow> h \<notin> set (hashes (vnodes r) (pID q))" using u by blast
  then have "hashToID (SetPeers ps r) h = Some (pID p)"
    using fold_addPeer_hash_at [OF ne p(1), of h "r\<lparr>rpeers := fmempty, hashToID := Map.empty, rkeys := []\<rparr>"] p(2)
    by (simp add: SetPeers_def Let_def)
  moreover have "(\<exists>q \<in> set ps. pID q = i \<and> h \<in> set (hashes (vnodes r) i)) \<longleftrightarrow> i = pID p"
    using p u by blast
  ultimately show ?thesis by auto
next
  case False
  have ne: "\<forall>p \<in> set ps. pID p \<noteq> []" using cf by (simp add: clash_free_def)
  have "hashToID (SetPeers ps r) h = None"
    using fold_addPeer_hash [OF ne, of h "r\<lparr>rpeers := fmempty, hashToID := Map.empty, rkeys := []\<rparr>"] False
    by (simp add: SetPeers_def Let_def)
  then show ?thesis using False by auto
qed

lemma SetPeers_Len: "clash_free (vnodes r) ps \<Longrightarrow> ring_Len (SetPeers ps r) = length ps"
proof -
  assume cf: "clash_free (vnodes r) ps"
  have "fmdom (rpeers (SetPeers ps r)) = fset_of_list (map pID ps)"
    using SetPeers_peers [OF cf] by (auto simp: fset_eq_iff fmlookup_dom_iff fset_of_list_elem image_iff)
  moreover have "card (set (map pID ps)) = length ps"
    using cf distinct_card [of "map pID ps"] by (simp add: clash_free_def)
  ultimately show ?thesis by (simp add: ring_Len_def fcard.rep_eq fset_of_list.rep_eq)
qed

section \<open>Ownership\<close>

lemma ring_cong:
  assumes "rkeys r = rkeys s" "hashToID r = hashToID s" "rpeers r = rpeers s"
  shows "Owner k r = Owner k s" "Replicas k n r = Replicas k n s" "IsReplica k i n r = IsReplica k i n s"
proof -
  have "replicas_loop r n l i seen out = replicas_loop s n l i seen out" for n l i seen out
    by (induction l arbitrary: i seen out) (simp_all add: Let_def assms idAt_def peerOf_def)
  then show "Owner k r = Owner k s" "Replicas k n r = Replicas k n s" "IsReplica k i n r = IsReplica k i n s"
    using assms by (simp_all add: Owner_def Replicas_def IsReplica_def replicasLocked_def ring_pos_def idAt_def)
qed

lemma option_eqI: "(\<And>i. x = Some i \<longleftrightarrow> y = Some i) \<Longrightarrow> x = y"
  by (cases x) (metis option.exhaust)+

lemma SetPeers_mset:
  assumes "clash_free (vnodes r) ps" "mset ps = mset qs" "vnodes r = vnodes s"
  shows "rkeys (SetPeers ps r) = rkeys (SetPeers qs s)" "hashToID (SetPeers ps r) = hashToID (SetPeers qs s)"
    "rpeers (SetPeers ps r) = rpeers (SetPeers qs s)"
proof -
  have cf: "clash_free (vnodes s) qs" using assms(1,3) clash_free_mset [OF assms(2)] by simp
  have set: "set ps = set qs" using assms(2) by (rule mset_eq_setD)
  let ?f = "\<lambda>p. hashes (vnodes r) (pID p)"
  have c: "mset (concat (map ?f xs)) = \<Sum>\<^sub># (image_mset (\<lambda>p. mset (?f p)) (mset xs))" for xs
    by (induction xs) simp_all
  have m: "mset (sort (concat (map ?f qs))) = mset (concat (map ?f ps))"
    unfolding mset_sort c assms(2) by (rule refl)
  show "rkeys (SetPeers ps r) = rkeys (SetPeers qs s)"
    unfolding SetPeers_keys [OF assms(1)] SetPeers_keys [OF cf] assms(3) [symmetric]
    by (rule properties_for_sort [OF m sorted_sort])
  show "hashToID (SetPeers ps r) = hashToID (SetPeers qs s)"
  proof
    fix h
    show "hashToID (SetPeers ps r) h = hashToID (SetPeers qs s) h"
      using SetPeers_hash [OF assms(1)] SetPeers_hash [OF cf] set assms(3) by (intro option_eqI) simp
  qed
  show "rpeers (SetPeers ps r) = rpeers (SetPeers qs s)"
  proof (rule fmap_ext)
    fix i
    show "fmlookup (rpeers (SetPeers ps r)) i = fmlookup (rpeers (SetPeers qs s)) i"
      using SetPeers_peers [OF assms(1)] SetPeers_peers [OF cf] set by (intro option_eqI) simp
  qed
qed

text \<open>C8. Nodes agree on placement: two rings that were told the same peers, in any order and
  whatever they held before, name the same owner and the same replicas for every key.\<close>

theorem ring_agreement:
  assumes "clash_free (vnodes r) ps" "mset ps = mset qs" "vnodes r = vnodes s"
  shows "Owner k (SetPeers ps r) = Owner k (SetPeers qs s) \<and>
    Replicas k n (SetPeers ps r) = Replicas k n (SetPeers qs s) \<and>
    IsReplica k i n (SetPeers ps r) = IsReplica k i n (SetPeers qs s)"
  using ring_cong [OF SetPeers_mset [OF assms]] by blast

theorem ring_agreement_witness:
  "Owner (str ''k'') (SetPeers [\<lparr>pID = str ''a'', pAddr = []\<rparr>, \<lparr>pID = str ''b'', pAddr = []\<rparr>] (ring_New 2)) =
   Owner (str ''k'') (SetPeers [\<lparr>pID = str ''b'', pAddr = []\<rparr>, \<lparr>pID = str ''a'', pAddr = []\<rparr>] (ring_New 2))"
proof -
  have "clash_free (vnodes (ring_New 2)) [\<lparr>pID = str ''a'', pAddr = []\<rparr>, \<lparr>pID = str ''b'', pAddr = []\<rparr>]"
    by code_simp
  from ring_agreement [OF this, of "[\<lparr>pID = str ''b'', pAddr = []\<rparr>, \<lparr>pID = str ''a'', pAddr = []\<rparr>]" "ring_New 2"]
  show ?thesis by (simp add: add_mset_commute)
qed

lemma take_filter_mem: "x \<in> set (take n xs) \<Longrightarrow> P x \<Longrightarrow> x \<in> set (take n (filter P xs))"
proof (induction xs arbitrary: n)
  case (Cons y ys)
  have "set (take m zs) \<subseteq> set (take (Suc m) zs)" for m and zs :: "'a list" by (rule set_take_subset_set_take) simp
  then show ?case using Cons by (cases n) (auto split: if_splits)
qed simp

lemma ring_ids_dom:
  assumes "ring_ok r"
  shows "set (ring_ids k r) \<subseteq> fset (fmdom (rpeers r))"
  using assms by (auto simp: ring_ids_def ring_walk_def ring_ok_def idAt_def split: option.splits) (metis domIff)+

lemma ring_ids_length: "ring_ok r \<Longrightarrow> length (ring_ids k r) \<le> ring_Len r"
  using card_mono [OF _ ring_ids_dom, of r k] distinct_card [of "ring_ids k r"]
  by (simp add: ring_Len_def fcard.rep_eq ring_ids_def)

lemma Replicas_take:
  assumes "ring_ok r" "0 < n" "rkeys r \<noteq> []"
  shows "Replicas k n r = map (peerOf r) (take (nat n) (ring_ids k r))"
proof -
  have "take (min (nat n) (ring_Len r)) (ring_ids k r) = take (nat n) (ring_ids k r)"
    using ring_ids_length [OF assms(1), of k] by (simp add: min_def)
  then show ?thesis using assms by (simp add: Replicas_walk)
qed

lemma ring_ids_all:
  assumes "clash_free (vnodes r) ps" "0 < vnodes r"
  shows "set (ring_ids k (SetPeers ps r)) = pID ` set ps"
proof -
  let ?r = "SetPeers ps r"
  have "set (ring_ids k ?r) = idAt ?r ` set (rkeys ?r)"
    by (simp add: ring_ids_def)
  also have "\<dots> = pID ` set ps"
  proof (intro set_eqI iffI)
    fix i
    assume "i \<in> idAt ?r ` set (rkeys ?r)"
    then obtain p h where "p \<in> set ps" "h \<in> set (hashes (vnodes r) (pID p))" "i = idAt ?r h"
      by (auto simp: SetPeers_keys [OF assms(1)])
    then show "i \<in> pID ` set ps" using SetPeers_hash [OF assms(1), of h "pID p"] by (auto simp: idAt_def)
  next
    fix i
    assume "i \<in> pID ` set ps"
    then obtain p where p: "p \<in> set ps" "i = pID p" by blast
    have h: "vnodeHash i 0 \<in> set (hashes (vnodes r) i)" using assms(2) by (simp add: hashes_def)
    then have "idAt ?r (vnodeHash i 0) = i" "vnodeHash i 0 \<in> set (rkeys ?r)"
      using SetPeers_hash [OF assms(1), of "vnodeHash i 0" i] p
      by (auto simp: idAt_def SetPeers_keys [OF assms(1)])
    then show "i \<in> idAt ?r ` set (rkeys ?r)" by (metis imageI)
  qed
  finally show ?thesis .
qed

lemma peerOf_SetPeers: "clash_free (vnodes r) ps \<Longrightarrow> p \<in> set ps \<Longrightarrow> peerOf (SetPeers ps r) (pID p) = p"
  using SetPeers_peers [of r ps "pID p" p] by (simp add: peerOf_def)

lemma Replicas_SetPeers:
  assumes cf: "clash_free (vnodes r) ps" and v: "0 < vnodes r" and n: "0 < n"
  shows "Replicas k n (SetPeers ps r) = map (peerOf (SetPeers ps r)) (take (nat n) (ring_ids k (SetPeers ps r)))"
proof (cases "rkeys (SetPeers ps r) = []")
  case True
  then show ?thesis by (simp add: Replicas_walk [OF SetPeers_ok] ring_ids_def ring_walk_def)
qed (simp add: Replicas_take [OF SetPeers_ok n])

lemma ring_ids_facts:
  assumes cf: "clash_free (vnodes r) ps" and v: "0 < vnodes r"
  shows "distinct (ring_ids k (SetPeers ps r))" "length (ring_ids k (SetPeers ps r)) = length ps"
    "i \<in> set (ring_ids k (SetPeers ps r)) \<Longrightarrow> pID (peerOf (SetPeers ps r) i) = i"
    "i \<in> set (ring_ids k (SetPeers ps r)) \<Longrightarrow> peerOf (SetPeers ps r) i \<in> set ps"
proof -
  note ids = ring_ids_all [OF cf v, of k]
  show d: "distinct (ring_ids k (SetPeers ps r))" by (simp add: ring_ids_def)
  have "card (pID ` set ps) = length ps"
    using distinct_card [of "map pID ps"] cf by (simp add: clash_free_def)
  then show "length (ring_ids k (SetPeers ps r)) = length ps" using distinct_card [OF d] ids by simp
  show "pID (peerOf (SetPeers ps r) i) = i" "peerOf (SetPeers ps r) i \<in> set ps"
    if "i \<in> set (ring_ids k (SetPeers ps r))" using that unfolding ids by (auto simp: peerOf_SetPeers [OF cf])
qed

lemma Replicas_ids:
  assumes "clash_free (vnodes r) ps" "0 < vnodes r" "0 < n"
  shows "map pID (Replicas k n (SetPeers ps r)) = take (nat n) (ring_ids k (SetPeers ps r))"
  unfolding Replicas_SetPeers [OF assms] map_map
  by (rule map_idI) (auto simp: ring_ids_facts(3) [OF assms(1,2)] dest: in_set_takeD)

lemma Owner_first:
  assumes cf: "clash_free (vnodes r) ps" and v: "0 < vnodes r" and ne: "ps \<noteq> []" and n: "0 < n"
  shows "Owner k (SetPeers ps r) = Some (hd (Replicas k n (SetPeers ps r)))"
proof -
  let ?r = "SetPeers ps r"
  have ids_ne: "ring_ids k ?r \<noteq> []" using ring_ids_facts(2) [OF cf v, of k] ne by auto
  then have keys: "rkeys ?r \<noteq> []" by (auto simp: ring_ids_def)
  have "hd (ring_ids k ?r) \<in> set (ring_ids k ?r)" using ids_ne by simp
  then obtain p where p: "p \<in> set ps" "hd (ring_ids k ?r) = pID p"
    unfolding ring_ids_all [OF cf v] by auto
  have "hd (Replicas k n ?r) = peerOf ?r (hd (ring_ids k ?r))"
    unfolding Replicas_SetPeers [OF cf v n] using ids_ne n by (simp add: hd_map hd_take)
  also have "\<dots> = p" using peerOf_SetPeers [OF cf p(1)] p(2) by simp
  finally show ?thesis
    using keys p(2) SetPeers_peers [OF cf, of "pID p" p] p(1) by (simp add: Owner_walk [OF SetPeers_ok])
qed

lemma IsReplica_iff:
  assumes cf: "clash_free (vnodes r) ps" and v: "0 < vnodes r" and n: "0 < n"
  shows "IsReplica k i n (SetPeers ps r) \<longleftrightarrow> i \<in> pID ` set (Replicas k n (SetPeers ps r))"
proof -
  let ?r = "SetPeers ps r"
  note ids = ring_ids_all [OF cf v, of k]
  have pids: "pID ` set (Replicas k n ?r) = set (take (nat n) (ring_ids k ?r))"
    using Replicas_ids [OF cf v n, of k] by (metis set_map)
  have dom: "i |\<in>| fmdom (rpeers ?r) \<longleftrightarrow> i \<in> pID ` set ps"
    using SetPeers_peers [OF cf] by (auto simp: fmlookup_dom_iff)
  have ne: "i \<noteq> []" if "i \<in> pID ` set ps" using that cf by (auto simp: clash_free_def)
  have sub: "set (take (nat n) (ring_ids k ?r)) \<subseteq> pID ` set ps" using ids set_take_subset by metis
  have keys: "rkeys ?r \<noteq> []" if "i \<in> pID ` set ps" using that ids by (auto simp: ring_ids_def)
  have len: "fcard (fmdom (rpeers ?r)) = length ps" using SetPeers_Len [OF cf] by (simp add: ring_Len_def)
  show ?thesis
  proof (cases "i \<in> pID ` set ps")
    case True
    have "(\<exists>p \<in> set (Replicas k n ?r). pID p = i) \<longleftrightarrow> i \<in> pID ` set (Replicas k n ?r)" by auto
    moreover have "set (take (nat n) (ring_ids k ?r)) = pID ` set ps" if "int (length ps) \<le> n"
      using that ids ring_ids_facts(2) [OF cf v, of k] by simp
    ultimately show ?thesis
      using True ne keys n dom len pids by (simp add: IsReplica_def Replicas_def [symmetric])
  next
    case False
    then have "i \<notin> pID ` set (Replicas k n ?r)" using sub pids by blast
    then have "\<not> (\<exists>p \<in> set (replicasLocked k n ?r). pID p = i)" by (auto simp: Replicas_def)
    then show ?thesis using False dom \<open>i \<notin> pID ` set (Replicas k n ?r)\<close> by (simp add: IsReplica_def)
  qed
qed

text \<open>C9. The replicas of a key: as many distinct peers as asked for or as there are, the owner
  first, and a larger replica count only adds peers at the end; \<open>IsReplica\<close> is membership
  in that list.\<close>

theorem Replicas_correct:
  assumes cf: "clash_free (vnodes r) ps" and v: "0 < vnodes r" and ne: "ps \<noteq> []" and n: "0 < n" and d: "0 \<le> d"
  shows "length (Replicas k n (SetPeers ps r)) = min (nat n) (length ps) \<and>
    distinct (map pID (Replicas k n (SetPeers ps r))) \<and> set (Replicas k n (SetPeers ps r)) \<subseteq> set ps \<and>
    Owner k (SetPeers ps r) = Some (hd (Replicas k n (SetPeers ps r))) \<and>
    (IsReplica k i n (SetPeers ps r) \<longleftrightarrow> i \<in> pID ` set (Replicas k n (SetPeers ps r))) \<and>
    take (nat n) (Replicas k (n + d) (SetPeers ps r)) = Replicas k n (SetPeers ps r)"
proof (intro conjI)
  let ?r = "SetPeers ps r"
  note f = ring_ids_facts [OF cf v, where k = k]
  show "length (Replicas k n ?r) = min (nat n) (length ps)"
    by (simp add: Replicas_SetPeers [OF cf v n] f(2) min.commute)
  show "distinct (map pID (Replicas k n ?r))" unfolding Replicas_ids [OF cf v n] by (simp add: f(1))
  show "set (Replicas k n ?r) \<subseteq> set ps"
    by (auto simp: Replicas_SetPeers [OF cf v n] dest!: in_set_takeD intro: f(4))
  show "Owner k ?r = Some (hd (Replicas k n ?r))" by (rule Owner_first [OF cf v ne n])
  show "IsReplica k i n ?r \<longleftrightarrow> i \<in> pID ` set (Replicas k n ?r)" by (rule IsReplica_iff [OF cf v n])
  show "take (nat n) (Replicas k (n + d) ?r) = Replicas k n ?r"
    using n d by (simp add: Replicas_SetPeers [OF cf v] take_map min_def)
qed

theorem Replicas_correct_witness:
  "length (Replicas (str ''k'') 2 (SetPeers [\<lparr>pID = str ''a'', pAddr = []\<rparr>, \<lparr>pID = str ''b'', pAddr = []\<rparr>] (ring_New 2))) = 2"
proof -
  have "clash_free (vnodes (ring_New 2)) [\<lparr>pID = str ''a'', pAddr = []\<rparr>, \<lparr>pID = str ''b'', pAddr = []\<rparr>]"
    by code_simp
  from Replicas_correct [OF this, of 2 0 "str ''k''"] show ?thesis by (simp add: ring_New_def)
qed

lemma clash_free_tl: "clash_free v (p # ps) \<Longrightarrow> clash_free v ps"
  by (simp add: clash_free_def)

lemma clash_free_disjoint:
  assumes "clash_free v (p # ps)" "q \<in> set ps" "x \<in> set (hashes v (pID q))"
  shows "x \<notin> set (hashes v (pID p))"
proof -
  have "p \<noteq> q" using assms(1,2) by (auto simp: clash_free_def)
  then have "set (hashes v (pID p)) \<inter> set (hashes v (pID q)) = {}"
    using assms(1,2) unfolding clash_free_def by simp
  then show ?thesis using assms(3) by blast
qed

lemma ring_walk_join:
  assumes cf: "clash_free (vnodes r) (p # ps)"
  shows "filter (\<lambda>x. x \<notin> set (hashes (vnodes r) (pID p))) (ring_walk (SetPeers (p # ps) r) h) =
    ring_walk (SetPeers ps r) h"
proof -
  let ?H = "set (hashes (vnodes r) (pID p))"
  let ?ks = "concat (map (\<lambda>p. hashes (vnodes r) (pID p)) ps)"
  have "filter (\<lambda>x. x \<notin> ?H) (hashes (vnodes r) (pID p) @ ?ks) = ?ks"
    using clash_free_disjoint [OF cf] by (auto simp: filter_empty_conv filter_id_conv)
  then have "filter (\<lambda>x. x \<notin> ?H) (rkeys (SetPeers (p # ps) r)) = rkeys (SetPeers ps r)"
    unfolding SetPeers_keys [OF cf] SetPeers_keys [OF clash_free_tl [OF cf]] filter_sort by simp
  then have keys: "rkeys (SetPeers ps r) = filter (\<lambda>x. x \<notin> ?H) (rkeys (SetPeers (p # ps) r))" by simp
  show ?thesis unfolding ring_walk_def keys filter_append filter_filter by (simp add: conj_commute)
qed

lemma idAt_join:
  assumes cf: "clash_free (vnodes r) (p # ps)" and x: "x \<in> set (rkeys (SetPeers (p # ps) r))"
  shows "idAt (SetPeers (p # ps) r) x = pID p \<longleftrightarrow> x \<in> set (hashes (vnodes r) (pID p))"
    and "x \<notin> set (hashes (vnodes r) (pID p)) \<Longrightarrow> idAt (SetPeers (p # ps) r) x = idAt (SetPeers ps r) x"
proof -
  obtain q where q: "q \<in> set (p # ps)" "x \<in> set (hashes (vnodes r) (pID q))"
    using x unfolding SetPeers_keys [OF cf] by auto
  have at: "idAt (SetPeers (p # ps) r) x = pID q"
    using SetPeers_hash [OF cf, of x "pID q"] q by (auto simp: idAt_def)
  show "idAt (SetPeers (p # ps) r) x = pID p \<longleftrightarrow> x \<in> set (hashes (vnodes r) (pID p))"
    using at q clash_free_id [OF cf q(1), of p] clash_free_disjoint [OF cf _ q(2)] by auto
  show "idAt (SetPeers (p # ps) r) x = idAt (SetPeers ps r) x" if "x \<notin> set (hashes (vnodes r) (pID p))"
  proof -
    have "q \<in> set ps" using q that by auto
    then show ?thesis
      using at SetPeers_hash [OF clash_free_tl [OF cf], of x "pID q"] q(2) by (auto simp: idAt_def)
  qed
qed

lemma ring_ids_join:
  assumes cf: "clash_free (vnodes r) (p # ps)"
  shows "filter (\<lambda>i. i \<noteq> pID p) (ring_ids k (SetPeers (p # ps) r)) = ring_ids k (SetPeers ps r)"
proof -
  let ?r = "SetPeers (p # ps) r" and ?s = "SetPeers ps r" and ?H = "set (hashes (vnodes r) (pID p))"
  have "filter (\<lambda>i. i \<noteq> pID p) (map (idAt ?r) (ring_walk ?r h)) = map (idAt ?s) (ring_walk ?s h)" for h
  proof -
    have "filter (\<lambda>x. idAt ?r x \<noteq> pID p) (ring_walk ?r h) = filter (\<lambda>x. x \<notin> ?H) (ring_walk ?r h)"
      by (rule filter_cong) (simp_all add: idAt_join(1) [OF cf])
    then have "filter (\<lambda>i. i \<noteq> pID p) (map (idAt ?r) (ring_walk ?r h)) = map (idAt ?r) (ring_walk ?s h)"
      by (simp add: filter_map comp_def ring_walk_join [OF cf])
    also have "\<dots> = map (idAt ?s) (ring_walk ?s h)"
    proof (rule map_cong [OF refl])
      fix x
      assume "x \<in> set (ring_walk ?s h)"
      then have "x \<in> set (filter (\<lambda>x. x \<notin> ?H) (ring_walk ?r h))" by (simp only: ring_walk_join [OF cf])
      then show "idAt ?r x = idAt ?s x" using idAt_join(2) [OF cf] by simp
    qed
    finally show ?thesis .
  qed
  then show ?thesis unfolding ring_ids_def firsts_filter [symmetric] by simp
qed

text \<open>C11. Consistent hashing: when a peer joins, in whatever order the peers are listed, a key
  keeps its owner unless the new peer takes it over, and a replica of a key was a replica
  before or is the new peer. Read backwards, the same holds when a peer leaves.\<close>

theorem ring_join:
  assumes cf: "clash_free (vnodes r) qs" and qs: "mset qs = mset (p # ps)" and ne: "ps \<noteq> []"
    and v: "vnodes r = vnodes s" "0 < vnodes r" and n: "0 < n"
  shows "(Owner k (SetPeers qs r) = Some p \<or> Owner k (SetPeers qs r) = Owner k (SetPeers ps s)) \<and>
    set (Replicas k n (SetPeers qs r)) \<subseteq> insert p (set (Replicas k n (SetPeers ps s)))"
proof -
  have cfr: "clash_free (vnodes s) (p # ps)" and cf': "clash_free (vnodes s) ps"
    using cf clash_free_mset [OF qs] v(1) clash_free_tl by auto
  let ?r = "SetPeers (p # ps) s" and ?s = "SetPeers ps s"
  note same = ring_cong [OF SetPeers_mset [OF cf qs v(1)]]
  have v': "0 < vnodes s" using v by simp
  have mem: "x = p \<or> x \<in> set (Replicas k j ?s)" if x: "x \<in> set (Replicas k j ?r)" and j: "0 < j" for x j
  proof -
    obtain i where i: "i \<in> set (take (nat j) (ring_ids k ?r))" "x = peerOf ?r i"
      using x unfolding Replicas_SetPeers [OF cfr v' j] by auto
    show ?thesis
    proof (cases "i = pID p")
      case True
      then show ?thesis using i(2) peerOf_SetPeers [OF cfr, of p] by simp
    next
      case False
      then have i': "i \<in> set (take (nat j) (ring_ids k ?s))"
        using take_filter_mem [OF i(1), of "\<lambda>i. i \<noteq> pID p"] ring_ids_join [OF cfr] by simp
      then obtain q where "q \<in> set ps" "i = pID q"
        using ring_ids_all [OF cf' v'] in_set_takeD by fastforce
      then have "peerOf ?r i = peerOf ?s i"
        using peerOf_SetPeers [OF cfr, of q] peerOf_SetPeers [OF cf', of q] by simp
      then show ?thesis using i(2) i' unfolding Replicas_SetPeers [OF cf' v' j] by simp
    qed
  qed
  have "Owner k ?r = Some p \<or> Owner k ?r = Owner k ?s"
  proof -
    have o: "Owner k ?r = Some (hd (Replicas k 1 ?r))" "Owner k ?s = Some (hd (Replicas k 1 ?s))"
      using Owner_first [OF cfr v', of 1 k] Owner_first [OF cf' v' ne, of 1 k] by simp_all
    have one: "length (Replicas k 1 ?s) \<le> 1" "Replicas k 1 ?r \<noteq> []"
      using ring_ids_facts(2) [OF cfr v', of k] by (auto simp: Replicas_SetPeers [OF cf' v'] Replicas_SetPeers [OF cfr v'])
    then have "hd (Replicas k 1 ?r) = p \<or> hd (Replicas k 1 ?r) \<in> set (Replicas k 1 ?s)"
      using mem [of "hd (Replicas k 1 ?r)" 1] by simp
    then show ?thesis using o one(1) by (cases "Replicas k 1 ?s") auto
  qed
  then show ?thesis using mem [OF _ n] same by auto
qed

theorem ring_join_witness:
  "set (Replicas (str ''k'') 1 (SetPeers [\<lparr>pID = str ''a'', pAddr = []\<rparr>, \<lparr>pID = str ''b'', pAddr = []\<rparr>] (ring_New 2))) \<subseteq>
   insert \<lparr>pID = str ''b'', pAddr = []\<rparr> (set (Replicas (str ''k'') 1 (SetPeers [\<lparr>pID = str ''a'', pAddr = []\<rparr>] (ring_New 2))))"
proof -
  have "clash_free (vnodes (ring_New 2)) [\<lparr>pID = str ''a'', pAddr = []\<rparr>, \<lparr>pID = str ''b'', pAddr = []\<rparr>]"
    by code_simp
  from ring_join [OF this, of "\<lparr>pID = str ''b'', pAddr = []\<rparr>" "[\<lparr>pID = str ''a'', pAddr = []\<rparr>]" "ring_New 2" 1]
  show ?thesis by (simp add: add_mset_commute ring_New_def)
qed

end
