(* ===== verification/Fanout.thy ===== *)
theory Fanout
  imports Ring StoreEntry
begin

text \<open>
  Replica fan-out and hinted hand-off: \<open>internal/peer/hints.go\<close> and the pool of
  \<open>internal/peer/transport.go\<close>.

  \<^item> A peer RPC either is accepted or fails. The network is a parameter \<open>net\<close>: it sees the
    calls made so far and decides the outcome of the next one.
  \<^item> Here a job (\<open>applyJob\<close>) and the flush of a peer (\<open>flushPeerHints\<close>) run without interruption,
    the goroutines of a job in the order of its peer list. \<open>FanoutRuns\<close> interleaves them.
  \<^item> The mutex sections (\<open>enqueueHint\<close>, \<open>peekHint\<close>, \<open>popHint\<close>) are single functions.
  \<^item> \<open>pLog\<close> records the calls with their outcome, latest first.
\<close>

section \<open>State\<close>

datatype rpc =
    ApplyPutCall (rpcAddr: bytes) (rpcKs: bytes) (rpcKey: bytes) entry u64
  | ApplyDeleteCall (rpcAddr: bytes) (rpcKs: bytes) (rpcKey: bytes) u64 u64

type_synonym network = "(rpc \<times> bool) list \<Rightarrow> rpc \<Rightarrow> bool"

record fanoutHint =
  hPeer :: peer
  hKs :: bytes
  hKey :: bytes
  hEnt :: entry
  hGen :: u64

record peerHintQ =
  qOrder :: "bytes list"
  qItems :: "bytes \<rightharpoonup> fanoutHint"

record fanoutJob =
  jPeers :: "peer list"
  jKs :: bytes
  jKey :: bytes
  jEnt :: entry
  jGen :: u64

record fanoutPool =
  hintsDisabled :: bool
  hintMax :: int
  pClosed :: bool
  pHints :: "bytes \<rightharpoonup> peerHintQ"
  pJobs :: "fanoutJob list"
  queueSize :: int
  HintsFlushed :: nat
  HintsDropped :: nat
  FanoutErrors :: nat
  FanoutDropped :: nat
  pLog :: "(rpc \<times> bool) list"

record fanoutConfig =
  QueueSize :: int
  DisableHints :: bool
  HintMaxPerPeer :: int

definition NewFanoutPool :: "fanoutConfig \<Rightarrow> fanoutPool" where
  "NewFanoutPool cfg =
     \<lparr>hintsDisabled = DisableHints cfg, hintMax = (if HintMaxPerPeer cfg \<le> 0 then 4096 else HintMaxPerPeer cfg),
      pClosed = False, pHints = Map.empty, pJobs = [],
      queueSize = (if QueueSize cfg \<le> 0 then 10000 else QueueSize cfg),
      HintsFlushed = 0, HintsDropped = 0, FanoutErrors = 0, FanoutDropped = 0, pLog = []\<rparr>"

section \<open>Hints\<close>

definition hintID :: "bytes \<Rightarrow> bytes \<Rightarrow> entry \<Rightarrow> bytes" where
  "hintID ks k ent = (if IsBloomAdd ent then ks @ [0] @ k @ [0] @ Value ent else ks @ [0] @ k)"

definition hint_id :: "fanoutHint \<Rightarrow> bytes" where
  "hint_id h = hintID (hKs h) (hKey h) (hEnt h)"

definition hintNewer :: "entry \<Rightarrow> entry \<Rightarrow> bool" where
  "hintNewer a b =
     (if Version a \<noteq> Version b then Version b < Version a else IsTombstone a \<and> \<not> IsTombstone b)"

text \<open>A tombstone drops the queued item-adds of its filter.\<close>

definition dropAdds :: "bytes \<Rightarrow> bytes \<Rightarrow> peerHintQ \<Rightarrow> peerHintQ" where
  "dropAdds ks k q =
     (let items' = (\<lambda>oid. case qItems q oid of
            None \<Rightarrow> None
          | Some old \<Rightarrow> if hKs old = ks \<and> hKey old = k \<and> IsBloomAdd (hEnt old) then None else Some old)
      in q\<lparr>qItems := items', qOrder := filter (\<lambda>oid. items' oid \<noteq> None) (qOrder q)\<rparr>)"

text \<open>The loop that makes room: the oldest hints are dropped and counted.\<close>

fun makeRoom :: "int \<Rightarrow> bytes list \<Rightarrow> (bytes \<rightharpoonup> fanoutHint) \<Rightarrow> nat \<Rightarrow> bytes list \<times> (bytes \<rightharpoonup> fanoutHint) \<times> nat" where
  "makeRoom mx [] its n = ([], its, n)"
| "makeRoom mx (old # order) its n =
     (if int (length (old # order)) < mx then (old # order, its, n)
      else makeRoom mx order (its(old := None)) (n + 1))"

definition enqueueHint :: "peer \<Rightarrow> bytes \<Rightarrow> bytes \<Rightarrow> entry \<Rightarrow> u64 \<Rightarrow> fanoutPool \<Rightarrow> fanoutPool" where
  "enqueueHint pr ks k ent ringGen p =
     (if hintsDisabled p \<or> pClosed p \<or> pAddr pr = [] then p
      else
        let h = \<lparr>hPeer = pr, hKs = ks, hKey = k, hEnt = ent\<lparr>Value := CloneValue ent\<rparr>, hGen = ringGen\<rparr>;
            hid = hint_id h;
            q0 = (case pHints p (pAddr pr) of None \<Rightarrow> \<lparr>qOrder = [], qItems = Map.empty\<rparr> | Some q \<Rightarrow> q);
            q1 = (if IsTombstone (hEnt h) then dropAdds ks k q0 else q0);
            put = (\<lambda>q. p\<lparr>pHints := (pHints p)(pAddr pr \<mapsto> q)\<rparr>);
            tombID = ks @ [0] @ k;
            blocked = IsBloomAdd (hEnt h) \<and>
              (case qItems q1 tombID of
                 None \<Rightarrow> False
               | Some old \<Rightarrow> IsTombstone (hEnt old) \<and> Version (hEnt h) \<le> Version (hEnt old))
        in if blocked then put q1
           else
             (case qItems q1 hid of
                Some old \<Rightarrow>
                  if \<not> hintNewer (hEnt h) (hEnt old) then put q1
                  else put (q1\<lparr>qItems := (qItems q1)(hid \<mapsto> h)\<rparr>)
              | None \<Rightarrow>
                  (case makeRoom (hintMax p) (qOrder q1) (qItems q1) 0 of
                     (order, its, n) \<Rightarrow>
                       (put \<lparr>qOrder = order @ [hid], qItems = its(hid \<mapsto> h)\<rparr>)
                         \<lparr>HintsDropped := HintsDropped p + n\<rparr>)))"

definition peekHint :: "bytes \<Rightarrow> fanoutPool \<Rightarrow> fanoutHint option" where
  "peekHint addr p =
     (case pHints p addr of
        None \<Rightarrow> None
      | Some q \<Rightarrow> (case qOrder q of [] \<Rightarrow> None | i # order \<Rightarrow> qItems q i))"

definition popHint :: "bytes \<Rightarrow> bytes \<Rightarrow> fanoutPool \<Rightarrow> fanoutPool" where
  "popHint addr i p =
     (case pHints p addr of
        None \<Rightarrow> p
      | Some q \<Rightarrow>
          let order = remove1 i (qOrder q) in
          if order = [] then p\<lparr>pHints := (pHints p)(addr := None)\<rparr>
          else p\<lparr>pHints := (pHints p)(addr \<mapsto> \<lparr>qOrder = order, qItems = (qItems q)(i := None)\<rparr>)\<rparr>)"

definition HintPending :: "bytes list \<Rightarrow> fanoutPool \<Rightarrow> nat" where
  "HintPending addrs p =
     sum_list (map (\<lambda>a. case pHints p a of None \<Rightarrow> 0 | Some q \<Rightarrow> card (dom (qItems q))) addrs)"

section \<open>Applying to peers\<close>

definition applyCall :: "bytes \<Rightarrow> bytes \<Rightarrow> bytes \<Rightarrow> entry \<Rightarrow> u64 \<Rightarrow> rpc" where
  "applyCall addr ks k ent gen =
     (if IsTombstone ent then ApplyDeleteCall addr ks k (Version ent) gen else ApplyPutCall addr ks k ent gen)"

text \<open>The result is true when the call failed.\<close>

definition applyToPeer ::
    "network \<Rightarrow> peer \<Rightarrow> bytes \<Rightarrow> bytes \<Rightarrow> entry \<Rightarrow> u64 \<Rightarrow> bool \<Rightarrow> fanoutPool \<Rightarrow> bool \<times> fanoutPool" where
  "applyToPeer net pr ks k ent ringGen hintOnFail p =
     (if pAddr pr = [] then (True, p)
      else
        let c = applyCall (pAddr pr) ks k ent ringGen; ok = net (pLog p) c;
            p1 = p\<lparr>pLog := (c, ok) # pLog p\<rparr>
        in if ok then (False, p1)
           else
             let p2 = p1\<lparr>FanoutErrors := FanoutErrors p1 + 1\<rparr>
             in (True, if hintOnFail then enqueueHint pr ks k ent ringGen p2 else p2))"

definition applyJob :: "network \<Rightarrow> fanoutJob \<Rightarrow> fanoutPool \<Rightarrow> fanoutPool" where
  "applyJob net j p =
     fold (\<lambda>pr p. if pAddr pr = [] then p
                  else snd (applyToPeer net pr (jKs j) (jKey j) (jEnt j) (jGen j) True p)) (jPeers j) p"

text \<open>One round of a worker: the next job of the queue.\<close>

definition fanout_loop :: "network \<Rightarrow> fanoutPool \<Rightarrow> fanoutPool" where
  "fanout_loop net p = (case pJobs p of [] \<Rightarrow> p | j # js \<Rightarrow> applyJob net j (p\<lparr>pJobs := js\<rparr>))"

definition Submit :: "peer list \<Rightarrow> bytes \<Rightarrow> bytes \<Rightarrow> entry \<Rightarrow> u64 \<Rightarrow> fanoutPool \<Rightarrow> fanoutPool" where
  "Submit peers ks k ent ringGen p =
     (if pClosed p then p
      else if int (length (pJobs p)) < queueSize p then
        p\<lparr>pJobs := pJobs p @ [\<lparr>jPeers = peers, jKs = ks, jKey = k, jEnt = ent, jGen = ringGen\<rparr>]\<rparr>
      else
        fold (\<lambda>pr p. enqueueHint pr ks k ent ringGen p) peers
          (p\<lparr>FanoutDropped := FanoutDropped p + 1\<rparr>))"

fun Apply_loop :: "network \<Rightarrow> peer list \<Rightarrow> bytes \<Rightarrow> bytes \<Rightarrow> entry \<Rightarrow> u64 \<Rightarrow> fanoutPool \<Rightarrow> peer list \<times> fanoutPool" where
  "Apply_loop net [] ks k ent g p = ([], p)"
| "Apply_loop net (pr # prs) ks k ent g p =
     (case (if pAddr pr = [] then (True, p) else applyToPeer net pr ks k ent g True p) of
        (failed, p1) \<Rightarrow>
          (case Apply_loop net prs ks k ent g p1 of
             (out, p2) \<Rightarrow> (if failed then pr # out else out, p2)))"

text \<open>\<open>Apply\<close> returns the peers that failed.\<close>

definition fanout_Apply ::
    "network \<Rightarrow> peer list \<Rightarrow> bytes \<Rightarrow> bytes \<Rightarrow> entry \<Rightarrow> u64 \<Rightarrow> fanoutPool \<Rightarrow> peer list \<times> fanoutPool" where
  "fanout_Apply net prs ks k ent g p = (if pClosed p then ([], p) else Apply_loop net prs ks k ent g p)"

definition replayHint :: "network \<Rightarrow> bytes \<Rightarrow> fanoutHint \<Rightarrow> fanoutPool \<Rightarrow> bool \<times> fanoutPool" where
  "replayHint net addr h p =
     (let pr = (if pAddr (hPeer h) = [] then (hPeer h)\<lparr>pAddr := addr\<rparr> else hPeer h)
      in applyToPeer net pr (hKs h) (hKey h) (hEnt h) (hGen h) False p)"

text \<open>The flush loop of one peer. Every successful round takes a hint out of the queue, so
  the length of the queue is enough fuel.\<close>

fun flush_loop :: "nat \<Rightarrow> network \<Rightarrow> bytes \<Rightarrow> fanoutPool \<Rightarrow> fanoutPool" where
  "flush_loop 0 net addr p = p"
| "flush_loop (Suc fuel) net addr p =
     (case peekHint addr p of
        None \<Rightarrow> p
      | Some h \<Rightarrow>
          (case replayHint net addr h p of
             (True, p1) \<Rightarrow> p1\<lparr>FanoutErrors := FanoutErrors p1 + 1\<rparr>
           | (False, p1) \<Rightarrow>
               let p2 = popHint addr (hint_id h) p1
               in flush_loop fuel net addr (p2\<lparr>HintsFlushed := HintsFlushed p2 + 1\<rparr>)))"

definition queue_len :: "bytes \<Rightarrow> fanoutPool \<Rightarrow> nat" where
  "queue_len addr p = (case pHints p addr of None \<Rightarrow> 0 | Some q \<Rightarrow> length (qOrder q))"

definition flushPeerHints :: "network \<Rightarrow> bytes \<Rightarrow> fanoutPool \<Rightarrow> fanoutPool" where
  "flushPeerHints net addr p = flush_loop (queue_len addr p + 1) net addr p"

text \<open>\<open>flushHints\<close> visits the queues in map order: the addresses are an argument.\<close>

definition flushHints :: "network \<Rightarrow> bytes list \<Rightarrow> fanoutPool \<Rightarrow> fanoutPool" where
  "flushHints net addrs p = fold (\<lambda>a p. if pClosed p then p else flushPeerHints net a p) addrs p"

text \<open>Closing the job channel lets the workers finish the queued jobs; hints are no longer
  taken.\<close>

definition pool_Close :: "network \<Rightarrow> fanoutPool \<Rightarrow> fanoutPool" where
  "pool_Close net p =
     (if pClosed p then p else fold (applyJob net) (pJobs p) (p\<lparr>pClosed := True, pJobs := []\<rparr>))"

section \<open>The invariant of the hint queues\<close>

definition nul_free :: "bytes \<Rightarrow> bool" where
  "nul_free s \<longleftrightarrow> 0 \<notin> set s"

definition item_ok :: "bytes \<Rightarrow> bytes \<Rightarrow> fanoutHint \<Rightarrow> bool" where
  "item_ok addr i h \<longleftrightarrow> hint_id h = i \<and> pAddr (hPeer h) = addr \<and> nul_free (hKs h) \<and> nul_free (hKey h)"

definition queue_ok :: "bytes \<Rightarrow> int \<Rightarrow> peerHintQ \<Rightarrow> bool" where
  "queue_ok addr mx q \<longleftrightarrow>
     distinct (qOrder q) \<and> set (qOrder q) = dom (qItems q) \<and> int (length (qOrder q)) \<le> mx \<and>
     (\<forall>i h. qItems q i = Some h \<longrightarrow> item_ok addr i h)"

definition pool_ok :: "fanoutPool \<Rightarrow> bool" where
  "pool_ok p \<longleftrightarrow>
     0 < hintMax p \<and> (\<forall>addr q. pHints p addr = Some q \<longrightarrow> addr \<noteq> [] \<and> qOrder q \<noteq> [] \<and> queue_ok addr (hintMax p) q)"

lemma nul_split:
  assumes "nul_free a" "nul_free c" "a @ [0] @ b = c @ [0] @ d"
  shows "a = c \<and> b = d"
  using assms
proof (induction a arbitrary: c)
  case Nil
  then show ?case by (cases c) (auto simp: nul_free_def)
next
  case (Cons x a)
  then show ?case by (cases c) (auto simp: nul_free_def)
qed

text \<open>Keys with NUL bytes can share an id.\<close>

lemma hintID_collision:
  "hintID (str ''a'') (str ''b'' @ [0] @ str ''c'') \<lparr>Value = x, Version = v, ExpireAt = 0, Flags = 0\<rparr> =
   hintID (str ''a'' @ [0] @ str ''b'') (str ''c'') \<lparr>Value = x, Version = v, ExpireAt = 0, Flags = 0\<rparr>"
  by (simp add: hintID_def Is_defs Flag_defs)

text \<open>With keys free of NUL bytes the id of a plain hint determines the keyspace and the key.\<close>

lemma hintID_inj:
  assumes "nul_free ks" "nul_free k" "nul_free ks'" "nul_free k'" "hintID ks' k' e = ks @ [0] @ k"
  shows "ks' = ks \<and> k' = k \<and> \<not> IsBloomAdd e"
proof (cases "IsBloomAdd e")
  case True
  then have "ks' = ks \<and> k' @ [0] @ Value e = k"
    using assms nul_split [of ks' ks "k' @ [0] @ Value e" k] by (simp add: hintID_def)
  then show ?thesis using assms(2) by (auto simp: nul_free_def)
next
  case False
  then show ?thesis using assms nul_split [of ks' ks k' k] by (simp add: hintID_def)
qed

lemma makeRoom_spec:
  assumes "makeRoom mx order its n = (order', its', n')" "distinct order" "set order = dom its" "0 < mx"
  shows "int (length order') < mx" "distinct order'" "set order' = dom its'" "its' \<subseteq>\<^sub>m its"
    "n' = n \<Longrightarrow> its' = its" "n \<le> n'"
proof -
  have "n \<le> n' \<and> int (length order') < mx \<and> distinct order' \<and> set order' = dom its' \<and> its' \<subseteq>\<^sub>m its \<and>
      (n' = n \<longrightarrow> its' = its)"
    using assms
  proof (induction mx order its n rule: makeRoom.induct)
    case (2 mx old order its n)
    show ?case
    proof (cases "int (length (old # order)) < mx")
      case True
      then show ?thesis using 2(2-) by auto
    next
      case False
      have "set order = dom (its(old := None))" "distinct order" using 2(3,4) by auto
      then have "n + 1 \<le> n' \<and> int (length order') < mx \<and> distinct order' \<and> set order' = dom its' \<and>
          its' \<subseteq>\<^sub>m its(old := None)"
        using 2(1) [OF False] 2(2,5) False by (simp del: fun_upd_apply)
      moreover have "its(old := None) \<subseteq>\<^sub>m its" by (simp add: map_le_def)
      ultimately show ?thesis by (auto intro: map_le_trans)
    qed
  qed simp
  then show "int (length order') < mx" "distinct order'" "set order' = dom its'" "its' \<subseteq>\<^sub>m its"
    "n' = n \<Longrightarrow> its' = its" "n \<le> n'" by simp_all
qed

lemma dropAdds_ok: "queue_ok addr mx q \<Longrightarrow> queue_ok addr mx (dropAdds ks k q)"
  unfolding queue_ok_def dropAdds_def Let_def
  by (auto split: option.splits if_splits intro: order_trans [OF of_nat_mono [OF length_filter_le]])

text \<open>What \<open>enqueueHint\<close> does to the queue of the peer.\<close>

definition newHint :: "peer \<Rightarrow> bytes \<Rightarrow> bytes \<Rightarrow> entry \<Rightarrow> u64 \<Rightarrow> fanoutHint" where
  "newHint pr ks k ent g = \<lparr>hPeer = pr, hKs = ks, hKey = k, hEnt = ent, hGen = g\<rparr>"

definition openQ :: "bytes \<Rightarrow> fanoutPool \<Rightarrow> peerHintQ" where
  "openQ addr p = (case pHints p addr of None \<Rightarrow> \<lparr>qOrder = [], qItems = Map.empty\<rparr> | Some q \<Rightarrow> q)"

lemma openQ_ok: "pool_ok p \<Longrightarrow> queue_ok addr (hintMax p) (openQ addr p)"
  by (auto simp: openQ_def pool_ok_def queue_ok_def split: option.splits)

lemma enqueueHint_off:
  "hintsDisabled p \<or> pClosed p \<or> pAddr pr = [] \<Longrightarrow> enqueueHint pr ks k ent g p = p"
  by (auto simp: enqueueHint_def)

text \<open>The rank of an entry under \<open>hintNewer\<close>.\<close>

definition rank :: "entry \<Rightarrow> nat" where
  "rank e = 2 * unat (Version e) + (if IsTombstone e then 1 else 0)"

lemma hintNewer_rank: "hintNewer a b \<longleftrightarrow> rank b < rank a"
proof (cases "Version a = Version b")
  case True
  then show ?thesis by (simp add: hintNewer_def rank_def)
next
  case False
  then have "unat (Version a) \<noteq> unat (Version b)" by (simp add: word_unat_eq_iff)
  then show ?thesis using False by (auto simp: hintNewer_def rank_def word_less_nat_alt)
qed

text \<open>A hint for a key at least as new as rank \<open>n\<close> waits in a queue.\<close>

definition pending :: "bytes \<Rightarrow> bytes \<Rightarrow> nat \<Rightarrow> peerHintQ \<Rightarrow> bool" where
  "pending ks k n q \<longleftrightarrow> (\<exists>h. qItems q (ks @ [0] @ k) = Some h \<and> n \<le> rank (hEnt h))"

definition q_kept :: "peerHintQ \<Rightarrow> peerHintQ \<Rightarrow> bool" where
  "q_kept q q' \<longleftrightarrow> (\<forall>ks k n. nul_free ks \<longrightarrow> nul_free k \<longrightarrow> pending ks k n q \<longrightarrow> pending ks k n q')"

lemma q_kept_refl: "q_kept q q"
  by (auto simp: q_kept_def)

lemma q_kept_trans: "q_kept a b \<Longrightarrow> q_kept b c \<Longrightarrow> q_kept a c"
  by (auto simp: q_kept_def)

lemma q_kept_dropAdds:
  assumes "queue_ok addr mx q"
  shows "q_kept q (dropAdds ks k q)"
  unfolding q_kept_def pending_def
proof (intro allI impI, elim exE conjE)
  fix ks' k' n h
  assume nf: "nul_free ks'" "nul_free k'" and h: "qItems q (ks' @ [0] @ k') = Some h" "n \<le> rank (hEnt h)"
  have "item_ok addr (ks' @ [0] @ k') h" using assms h(1) by (auto simp: queue_ok_def)
  then have "\<not> IsBloomAdd (hEnt h)"
    using hintID_inj [OF nf, of "hKs h" "hKey h" "hEnt h"] by (simp add: item_ok_def hint_id_def)
  then show "\<exists>h. qItems (dropAdds ks k q) (ks' @ [0] @ k') = Some h \<and> n \<le> rank (hEnt h)"
    using h by (simp add: dropAdds_def Let_def)
qed

lemma q_kept_update:
  "qItems q i = Some old \<Longrightarrow> rank (hEnt old) \<le> rank (hEnt h) \<Longrightarrow> q_kept q (q\<lparr>qItems := (qItems q)(i \<mapsto> h)\<rparr>)"
  by (auto simp: q_kept_def pending_def)

lemma queue_ok_update:
  assumes "queue_ok a mx q" "qItems q i = Some old" "item_ok a i h"
  shows "queue_ok a mx (q\<lparr>qItems := (qItems q)(i \<mapsto> h)\<rparr>)"
  using assms by (auto simp: queue_ok_def)

lemma queue_insert:
  assumes ok: "queue_ok a mx q" "0 < mx" and i: "qItems q i = None" "item_ok a i h"
    and mr: "makeRoom mx (qOrder q) (qItems q) 0 = (order, its, n)"
  shows "queue_ok a mx \<lparr>qOrder = order @ [i], qItems = its(i \<mapsto> h)\<rparr>"
    and "n = 0 \<Longrightarrow> q_kept q \<lparr>qOrder = order @ [i], qItems = its(i \<mapsto> h)\<rparr>"
proof -
  have q: "distinct (qOrder q)" "set (qOrder q) = dom (qItems q)" "\<And>j h. qItems q j = Some h \<Longrightarrow> item_ok a j h"
    using ok(1) by (auto simp: queue_ok_def)
  note sp = makeRoom_spec [OF mr q(1,2) ok(2)]
  have le: "\<And>j h. its j = Some h \<Longrightarrow> qItems q j = Some h" using sp(4) by (auto simp: map_le_def dom_def)
  have "i \<notin> set order" using le i(1) sp(3) by (metis domD option.distinct(1))
  then show "queue_ok a mx \<lparr>qOrder = order @ [i], qItems = its(i \<mapsto> h)\<rparr>"
    using sp(1-3) q(3) le i(2) by (auto simp: queue_ok_def)
  show "n = 0 \<Longrightarrow> q_kept q \<lparr>qOrder = order @ [i], qItems = its(i \<mapsto> h)\<rparr>"
    using sp(5) i(1) by (auto simp: q_kept_def pending_def)
qed

text \<open>The queue \<open>enqueueHint\<close> works on, and its three outcomes.\<close>

definition workQ :: "peer \<Rightarrow> bytes \<Rightarrow> bytes \<Rightarrow> entry \<Rightarrow> fanoutPool \<Rightarrow> peerHintQ" where
  "workQ pr ks k ent p =
     (if IsTombstone ent then dropAdds ks k (openQ (pAddr pr) p) else openQ (pAddr pr) p)"

definition add_blocked :: "bytes \<Rightarrow> bytes \<Rightarrow> entry \<Rightarrow> peerHintQ \<Rightarrow> bool" where
  "add_blocked ks k ent q \<longleftrightarrow> IsBloomAdd ent \<and> (case qItems q (ks @ [0] @ k) of None \<Rightarrow> False
     | Some old \<Rightarrow> IsTombstone (hEnt old) \<and> Version ent \<le> Version (hEnt old))"

definition putQ :: "bytes \<Rightarrow> peerHintQ \<Rightarrow> nat \<Rightarrow> fanoutPool \<Rightarrow> fanoutPool" where
  "putQ addr q n p = p\<lparr>pHints := (pHints p)(addr \<mapsto> q), HintsDropped := HintsDropped p + n\<rparr>"

lemma enqueueHint_eq:
  assumes on: "\<not> hintsDisabled p" "\<not> pClosed p" "pAddr pr \<noteq> []"
  shows "enqueueHint pr ks k ent g p =
     (let q = workQ pr ks k ent p; i = hintID ks k ent; h = newHint pr ks k ent g in
      if add_blocked ks k ent q then putQ (pAddr pr) q 0 p
      else case qItems q i of
        Some old \<Rightarrow> if \<not> hintNewer ent (hEnt old) then putQ (pAddr pr) q 0 p
                    else putQ (pAddr pr) (q\<lparr>qItems := (qItems q)(i \<mapsto> h)\<rparr>) 0 p
      | None \<Rightarrow> (case makeRoom (hintMax p) (qOrder q) (qItems q) 0 of
            (order, its, n) \<Rightarrow> putQ (pAddr pr) \<lparr>qOrder = order @ [i], qItems = its(i \<mapsto> h)\<rparr> n p))"
proof -
  have E: "ent\<lparr>Value := CloneValue ent\<rparr> = ent" by (simp add: CloneValue_def)
  show ?thesis
    unfolding enqueueHint_def add_blocked_def workQ_def openQ_def newHint_def hint_id_def Let_def putQ_def
      E fanoutHint.select_convs
    using on by (simp cong: if_cong option.case_cong)
qed

text \<open>A queue has room for an id when the id is queued already or the bound is not reached.
  Then no other hint is dropped.\<close>

definition roomy :: "bytes \<Rightarrow> bytes \<Rightarrow> fanoutPool \<Rightarrow> bool" where
  "roomy a i p \<longleftrightarrow> qItems (openQ a p) i \<noteq> None \<or> int (length (qOrder (openQ a p))) < hintMax p"

lemma makeRoom_room: "int (length order) < mx \<Longrightarrow> makeRoom mx order its n = (order, its, n)"
  by (cases order) simp_all

lemma dropAdds_sub: "dom (qItems (dropAdds ks k q)) \<subseteq> dom (qItems q)"
  by (auto simp: dropAdds_def Let_def split: option.splits if_splits)

lemma dropAdds_len:
  "length (qOrder (dropAdds ks k q)) \<le> length (qOrder q)"
  "qItems q i \<noteq> None \<Longrightarrow> qItems (dropAdds ks k q) i = None \<Longrightarrow> i \<in> set (qOrder q) \<Longrightarrow>
     length (qOrder (dropAdds ks k q)) < length (qOrder q)"
  by (auto simp: dropAdds_def Let_def intro!: length_filter_less)

lemma workQ_roomy:
  assumes "pool_ok p" "roomy (pAddr pr) i p"
  shows "qItems (workQ pr ks k ent p) i \<noteq> None \<or> int (length (qOrder (workQ pr ks k ent p))) < hintMax p"
proof (cases "IsTombstone ent \<and> qItems (openQ (pAddr pr) p) i \<noteq> None")
  case True
  have "queue_ok (pAddr pr) (hintMax p) (openQ (pAddr pr) p)" by (rule openQ_ok [OF assms(1)])
  then have "i \<in> set (qOrder (openQ (pAddr pr) p))" "int (length (qOrder (openQ (pAddr pr) p))) \<le> hintMax p"
    using True by (auto simp: queue_ok_def)
  then show ?thesis using True dropAdds_len(2) [of "openQ (pAddr pr) p" i ks k] by (fastforce simp: workQ_def)
next
  case False
  then show ?thesis
    using assms(2) dropAdds_len(1) [of ks k "openQ (pAddr pr) p"] by (auto simp: roomy_def workQ_def)
qed

lemma enqueueHint_on:
  assumes on: "\<not> hintsDisabled p" "\<not> pClosed p" "pAddr pr \<noteq> []" and ok: "pool_ok p"
    and nf: "nul_free ks" "nul_free k"
  obtains q n where "enqueueHint pr ks k ent g p = putQ (pAddr pr) q n p"
    "queue_ok (pAddr pr) (hintMax p) q" "qOrder q \<noteq> []"
    "dom (qItems q) \<subseteq> insert (hintID ks k ent) (dom (qItems (openQ (pAddr pr) p)))"
    "\<not> IsBloomAdd ent \<longrightarrow> pending ks k (rank ent) q"
    "roomy (pAddr pr) (hintID ks k ent) p \<longrightarrow> q_kept (openQ (pAddr pr) p) q"
proof -
  let ?h = "newHint pr ks k ent g" and ?i = "hintID ks k ent" and ?q = "workQ pr ks k ent p" and ?a = "pAddr pr"
  have mx: "0 < hintMax p" using ok by (simp add: pool_ok_def)
  have q: "queue_ok ?a (hintMax p) ?q" "q_kept (openQ ?a p) ?q" "dom (qItems ?q) \<subseteq> dom (qItems (openQ ?a p))"
    using openQ_ok [OF ok, of ?a] q_kept_dropAdds [OF openQ_ok [OF ok, of ?a]] dropAdds_sub [of ks k "openQ ?a p"]
    by (simp_all add: workQ_def dropAdds_ok q_kept_refl)
  have ne: "qOrder ?q \<noteq> []" if "qItems ?q j = Some x" for j x using that q(1) by (auto simp: queue_ok_def)
  have iok: "item_ok ?a ?i ?h" using nf by (simp add: item_ok_def newHint_def hint_id_def)
  have plain: "?i = ks @ [0] @ k" if "\<not> IsBloomAdd ent" using that by (simp add: hintID_def)
  note eq = enqueueHint_eq [OF on, of ks k ent g, unfolded Let_def]
  consider (blocked) "add_blocked ks k ent ?q"
    | (old) old where "\<not> add_blocked ks k ent ?q" "qItems ?q ?i = Some old"
    | (fresh) "\<not> add_blocked ks k ent ?q" "qItems ?q ?i = None" by fastforce
  then show thesis
  proof cases
    case blocked
    then have "IsBloomAdd ent" "qOrder ?q \<noteq> []" by (auto simp: add_blocked_def split: option.splits dest: ne)
    then show thesis using that [where q = ?q and n = 0] blocked q eq by auto
  next
    case (old old)
    let ?u = "?q\<lparr>qItems := (qItems ?q)(?i \<mapsto> ?h)\<rparr>"
    have "pending ks k (rank ent) ?q" if "\<not> hintNewer ent (hEnt old)" "\<not> IsBloomAdd ent"
      using that(1) old plain [OF that(2)] by (simp add: pending_def hintNewer_rank)
    moreover have "pending ks k (rank ent) ?u" if "\<not> IsBloomAdd ent"
      using plain [OF that] by (simp add: pending_def newHint_def)
    moreover have "q_kept (openQ ?a p) ?u" if "hintNewer ent (hEnt old)"
      using that by (intro q_kept_trans [OF q(2)] q_kept_update [OF old(2)]) (simp add: hintNewer_rank newHint_def)
    moreover have "dom (qItems ?u) \<subseteq> insert ?i (dom (qItems (openQ ?a p)))" using q(3) by auto
    ultimately show thesis
      using that [where q = ?q and n = 0] that [where q = ?u and n = 0] old q eq ne [OF old(2)]
        queue_ok_update [OF q(1) old(2) iok]
      by (cases "hintNewer ent (hEnt old)") (simp_all add: subset_insertI2)
  next
    case fresh
    obtain order its n where mr: "makeRoom (hintMax p) (qOrder ?q) (qItems ?q) 0 = (order, its, n)"
      by (metis prod_cases3)
    let ?u = "\<lparr>qOrder = order @ [?i], qItems = its(?i \<mapsto> ?h)\<rparr>"
    note ins = queue_insert [OF q(1) mx fresh(2) iok mr]
    have pend: "pending ks k (rank ent) ?u" if "\<not> IsBloomAdd ent"
      using plain [OF that] by (simp add: pending_def newHint_def)
    have "set (qOrder ?q) = dom (qItems ?q)" "distinct (qOrder ?q)" using q(1) by (simp_all add: queue_ok_def)
    then have "dom its \<subseteq> dom (qItems ?q)" using makeRoom_spec(4) [OF mr _ _ mx] by (simp add: map_le_implies_dom_le)
    then have sub: "dom (qItems ?u) \<subseteq> insert ?i (dom (qItems (openQ ?a p)))" using q(3) by auto
    have keep: "q_kept (openQ ?a p) ?u" if "roomy ?a ?i p"
    proof -
      have "int (length (qOrder ?q)) < hintMax p" using workQ_roomy [OF ok that, of ks k ent] fresh(2) by simp
      then have "n = 0" using mr makeRoom_room [of "qOrder ?q" "hintMax p" "qItems ?q" 0] by simp
      then show ?thesis using q_kept_trans [OF q(2) ins(2)] by simp
    qed
    have "enqueueHint pr ks k ent g p = putQ ?a ?u n p" using fresh mr eq by simp
    then show thesis using that [where q = ?u and n = n] ins(1) sub pend keep by simp
  qed
qed

section \<open>What a peer is owed\<close>

definition rpc_rank :: "rpc \<Rightarrow> nat" where
  "rpc_rank c = (case c of ApplyPutCall a ks k e g \<Rightarrow> rank e | ApplyDeleteCall a ks k v g \<Rightarrow> 2 * unat v + 1)"

definition delivered :: "bytes \<Rightarrow> bytes \<Rightarrow> bytes \<Rightarrow> nat \<Rightarrow> fanoutPool \<Rightarrow> bool" where
  "delivered a ks k n p \<longleftrightarrow>
     (\<exists>c. (c, True) \<in> set (pLog p) \<and> rpcAddr c = a \<and> rpcKs c = ks \<and> rpcKey c = k \<and> n \<le> rpc_rank c)"

text \<open>A mutation of rank \<open>n\<close> for a key of a peer is settled when the peer accepted it or
  something newer, or a hint at least as new waits.\<close>

definition settled :: "bytes \<Rightarrow> bytes \<Rightarrow> bytes \<Rightarrow> nat \<Rightarrow> fanoutPool \<Rightarrow> bool" where
  "settled a ks k n p \<longleftrightarrow>
     delivered a ks k n p \<or> (case pHints p a of None \<Rightarrow> False | Some q \<Rightarrow> pending ks k n q)"

definition queued :: "bytes \<Rightarrow> bytes \<Rightarrow> bytes \<Rightarrow> nat \<Rightarrow> fanoutPool \<Rightarrow> bool" where
  "queued a ks k n p \<longleftrightarrow>
     (\<exists>j \<in> set (pJobs p). jKs j = ks \<and> jKey j = k \<and> rank (jEnt j) = n \<and> \<not> IsBloomAdd (jEnt j) \<and>
        a \<in> pAddr ` set (jPeers j))"

definition owed :: "bytes \<Rightarrow> bytes \<Rightarrow> bytes \<Rightarrow> nat \<Rightarrow> fanoutPool \<Rightarrow> bool" where
  "owed a ks k n p \<longleftrightarrow> settled a ks k n p \<or> queued a ks k n p"

text \<open>Configurations in which hints are taken, and what a step may not undo for a peer.\<close>

definition hinting :: "fanoutPool \<Rightarrow> bool" where
  "hinting p \<longleftrightarrow> \<not> hintsDisabled p \<and> \<not> pClosed p \<and> pool_ok p \<and>
     (\<forall>j \<in> set (pJobs p). nul_free (jKs j) \<and> nul_free (jKey j))"

definition keeps :: "bytes \<Rightarrow> fanoutPool \<Rightarrow> fanoutPool \<Rightarrow> bool" where
  "keeps a p p' \<longleftrightarrow> hinting p' \<and>
     (\<forall>ks k n. nul_free ks \<longrightarrow> nul_free k \<longrightarrow> settled a ks k n p \<longrightarrow> settled a ks k n p')"

lemma keeps_refl: "hinting p \<Longrightarrow> keeps a p p"
  by (simp add: keeps_def)

lemma keeps_trans: "keeps x a b \<Longrightarrow> keeps x b c \<Longrightarrow> keeps x a c"
  by (auto simp: keeps_def)

lemma keeps_hinting: "keeps a p p' \<Longrightarrow> hinting p'"
  by (simp add: keeps_def)

lemma keeps_settled: "keeps a p p' \<Longrightarrow> nul_free ks \<Longrightarrow> nul_free k \<Longrightarrow> settled a ks k n p \<Longrightarrow> settled a ks k n p'"
  by (simp add: keeps_def)

lemma queued_jobs: "pJobs p' = pJobs p \<Longrightarrow> queued a ks k n p' = queued a ks k n p"
  by (simp add: queued_def)

lemma keeps_owed:
  assumes "keeps a p p'" "queued a ks k n p \<Longrightarrow> queued a ks k n p'" "nul_free ks" "nul_free k" "owed a ks k n p"
  shows "owed a ks k n p'"
  using assms unfolding keeps_def owed_def by blast

lemma rpc_rank_applyCall [simp]: "rpc_rank (applyCall a ks k ent g) = rank ent"
  by (simp add: applyCall_def rpc_rank_def rank_def)

lemma rpc_fields_applyCall [simp]:
  "rpcAddr (applyCall a ks k ent g) = a" "rpcKs (applyCall a ks k ent g) = ks" "rpcKey (applyCall a ks k ent g) = k"
  by (simp_all add: applyCall_def)

lemma hinting_log: "hinting (p\<lparr>pLog := l\<rparr>) = hinting p" "hinting (p\<lparr>FanoutErrors := n\<rparr>) = hinting p"
  "hinting (p\<lparr>FanoutDropped := n\<rparr>) = hinting p" "hinting (p\<lparr>HintsFlushed := n\<rparr>) = hinting p"
  by (simp_all add: hinting_def pool_ok_def)

lemma keeps_counters:
  "hinting p \<Longrightarrow> keeps a p (p\<lparr>FanoutErrors := n\<rparr>)" "hinting p \<Longrightarrow> keeps a p (p\<lparr>FanoutDropped := n\<rparr>)"
  "hinting p \<Longrightarrow> keeps a p (p\<lparr>HintsFlushed := n\<rparr>)" "hinting p \<Longrightarrow> keeps a p (p\<lparr>pLog := x # pLog p\<rparr>)"
  by (auto simp: keeps_def hinting_log settled_def delivered_def)

text \<open>Queueing a hint settles its own mutation whether there is room or not, and disturbs what
  else is settled for a peer only when the queue of that very peer is full.\<close>

lemma enqueueHint_spec:
  assumes h: "hinting p" and nf: "nul_free ks" "nul_free k" and a: "pAddr pr \<noteq> []"
  obtains q n where "enqueueHint pr ks k ent g p = putQ (pAddr pr) q n p" "hinting (putQ (pAddr pr) q n p)"
    "dom (qItems q) \<subseteq> insert (hintID ks k ent) (dom (qItems (openQ (pAddr pr) p)))"
    "\<not> IsBloomAdd ent \<longrightarrow> pending ks k (rank ent) q"
    "roomy (pAddr pr) (hintID ks k ent) p \<longrightarrow> q_kept (openQ (pAddr pr) p) q"
proof -
  have on: "\<not> hintsDisabled p" "\<not> pClosed p" "pool_ok p" using h by (simp_all add: hinting_def)
  obtain q n where q: "enqueueHint pr ks k ent g p = putQ (pAddr pr) q n p" "queue_ok (pAddr pr) (hintMax p) q"
      "qOrder q \<noteq> []" "dom (qItems q) \<subseteq> insert (hintID ks k ent) (dom (qItems (openQ (pAddr pr) p)))"
      "\<not> IsBloomAdd ent \<longrightarrow> pending ks k (rank ent) q"
      "roomy (pAddr pr) (hintID ks k ent) p \<longrightarrow> q_kept (openQ (pAddr pr) p) q"
    using enqueueHint_on [OF on(1,2) a on(3) nf, of ent g] by metis
  have "hinting (putQ (pAddr pr) q n p)" using h q(2,3) a by (auto simp: hinting_def pool_ok_def putQ_def)
  then show thesis using that q by blast
qed

lemma enqueueHint_hinting:
  assumes "hinting p" "nul_free ks" "nul_free k"
  shows "hinting (enqueueHint pr ks k ent g p)"
proof (cases "pAddr pr = []")
  case False
  then show ?thesis using enqueueHint_spec [OF assms False, of ent g] by metis
qed (simp add: enqueueHint_off assms)

lemma enqueueHint_keeps:
  assumes h: "hinting p" and nf: "nul_free ks" "nul_free k" and room: "pAddr pr = a \<Longrightarrow> roomy a (hintID ks k ent) p"
  shows "keeps a p (enqueueHint pr ks k ent g p)"
proof (cases "pAddr pr = []")
  case False
  obtain q n where q: "enqueueHint pr ks k ent g p = putQ (pAddr pr) q n p" "hinting (putQ (pAddr pr) q n p)"
      "roomy (pAddr pr) (hintID ks k ent) p \<longrightarrow> q_kept (openQ (pAddr pr) p) q"
    using enqueueHint_spec [OF h nf False, of ent g] by metis
  have "settled a ks' k' m (putQ (pAddr pr) q n p)"
    if s: "settled a ks' k' m p" and nf: "nul_free ks'" "nul_free k'" for ks' k' m
  proof (cases "a = pAddr pr")
    case True
    then have "q_kept (openQ a p) q" using q(3) room by simp
    then show ?thesis
      using s nf True by (auto simp: settled_def delivered_def putQ_def q_kept_def openQ_def split: option.splits)
  qed (use s in \<open>simp add: settled_def delivered_def putQ_def\<close>)
  then show ?thesis using q(1,2) by (simp add: keeps_def)
qed (simp add: enqueueHint_off keeps_refl h)

lemma enqueueHint_settles:
  assumes "hinting p" "nul_free ks" "nul_free k" "pAddr pr \<noteq> []" "\<not> IsBloomAdd ent"
  shows "settled (pAddr pr) ks k (rank ent) (enqueueHint pr ks k ent g p)"
proof -
  obtain q n where "enqueueHint pr ks k ent g p = putQ (pAddr pr) q n p" "pending ks k (rank ent) q"
    using enqueueHint_spec [OF assms(1-4), of ent g] assms(5) by metis
  then show ?thesis by (simp add: settled_def putQ_def)
qed

lemma enqueueHint_fields [simp]:
  "pJobs (enqueueHint pr ks k ent g p) = pJobs p" "hintMax (enqueueHint pr ks k ent g p) = hintMax p"
  "pLog (enqueueHint pr ks k ent g p) = pLog p"
  by (simp_all add: enqueueHint_def Let_def split: option.split prod.split)

text \<open>The ids queued for a peer.\<close>

definition ids_of :: "bytes \<Rightarrow> fanoutPool \<Rightarrow> bytes set" where
  "ids_of a p = dom (qItems (openQ a p))"

lemma ids_of_update [simp]:
  "ids_of a (p\<lparr>pLog := l\<rparr>) = ids_of a p" "ids_of a (p\<lparr>FanoutErrors := n\<rparr>) = ids_of a p"
  "ids_of a (p\<lparr>FanoutDropped := n\<rparr>) = ids_of a p" "ids_of a (p\<lparr>HintsFlushed := n\<rparr>) = ids_of a p"
  "ids_of a (p\<lparr>pJobs := js\<rparr>) = ids_of a p"
  by (simp_all add: ids_of_def openQ_def)

lemma enqueueHint_ids:
  assumes "hinting p" "nul_free ks" "nul_free k"
  shows "ids_of a (enqueueHint pr ks k ent g p) \<subseteq> ids_of a p \<union> (if pAddr pr = a then {hintID ks k ent} else {})"
proof (cases "pAddr pr = []")
  case False
  obtain q n where "enqueueHint pr ks k ent g p = putQ (pAddr pr) q n p"
      "dom (qItems q) \<subseteq> insert (hintID ks k ent) (dom (qItems (openQ (pAddr pr) p)))"
    using enqueueHint_spec [OF assms False, of ent g] by metis
  then show ?thesis by (auto simp: ids_of_def openQ_def putQ_def)
qed (simp add: enqueueHint_off)

text \<open>A set of at most \<open>hintMax\<close> ids that holds all queued ones leaves room for each of them.\<close>

lemma roomyI:
  assumes "pool_ok p" "ids_of a p \<subseteq> I" "finite I" "int (card I) \<le> hintMax p" "i \<in> I"
  shows "roomy a i p"
proof (cases "i \<in> ids_of a p")
  case True
  then show ?thesis by (auto simp: roomy_def ids_of_def)
next
  case False
  then have "card (ids_of a p) < card I" using assms(2,3,5) by (intro psubset_card_mono) auto
  moreover have "length (qOrder (openQ a p)) = card (ids_of a p)"
    using openQ_ok [OF assms(1), of a] by (simp add: queue_ok_def ids_of_def distinct_card [symmetric])
  ultimately show ?thesis using assms(4) by (simp add: roomy_def)
qed

lemma applyToPeer_eq:
  assumes "pAddr pr \<noteq> []"
  shows "snd (applyToPeer net pr ks k ent g True p) =
    (let c = applyCall (pAddr pr) ks k ent g; ok = net (pLog p) c; p1 = p\<lparr>pLog := (c, ok) # pLog p\<rparr>
     in if ok then p1 else enqueueHint pr ks k ent g (p1\<lparr>FanoutErrors := FanoutErrors p1 + 1\<rparr>))"
  using assms by (simp add: applyToPeer_def Let_def)

lemma applyToPeer_fields [simp]:
  "pJobs (snd (applyToPeer net pr ks k ent g True p)) = pJobs p"
  "hintMax (snd (applyToPeer net pr ks k ent g True p)) = hintMax p"
  by (simp_all add: applyToPeer_def Let_def)

lemma openQ_update [simp]: "openQ a (p\<lparr>pLog := l\<rparr>) = openQ a p" "openQ a (p\<lparr>FanoutErrors := n\<rparr>) = openQ a p"
  by (simp_all add: openQ_def)

lemma applyToPeer_keeps:
  assumes h: "hinting p" and nf: "nul_free ks" "nul_free k" and a: "pAddr pr \<noteq> []"
    and room: "pAddr pr = a \<Longrightarrow> net (pLog p) (applyCall a ks k ent g) \<or> roomy a (hintID ks k ent) p"
  shows "keeps a p (snd (applyToPeer net pr ks k ent g True p))"
proof -
  let ?c = "applyCall (pAddr pr) ks k ent g"
  let ?p1 = "p\<lparr>pLog := (?c, net (pLog p) ?c) # pLog p\<rparr>"
  let ?p2 = "?p1\<lparr>FanoutErrors := FanoutErrors ?p1 + 1\<rparr>"
  have h1: "hinting ?p1" "hinting ?p2" using h by (simp_all add: hinting_log)
  have k1: "keeps a p ?p1" by (rule keeps_counters(4) [OF h])
  have k2: "keeps a p ?p2" by (rule keeps_trans [OF k1 keeps_counters(1) [OF h1(1)]])
  have "keeps a ?p2 (enqueueHint pr ks k ent g ?p2)" if "\<not> net (pLog p) ?c"
    by (rule enqueueHint_keeps [OF h1(2) nf]) (use room that in \<open>auto simp: roomy_def\<close>)
  then show ?thesis unfolding applyToPeer_eq [OF a] Let_def using k1 keeps_trans [OF k2]
    by (cases "net (pLog p) ?c") simp_all
qed

lemma applyToPeer_settles:
  assumes h: "hinting p" and nf: "nul_free ks" "nul_free k" and a: "pAddr pr \<noteq> []" and b: "\<not> IsBloomAdd ent"
  shows "settled (pAddr pr) ks k (rank ent) (snd (applyToPeer net pr ks k ent g True p))"
proof -
  let ?c = "applyCall (pAddr pr) ks k ent g"
  let ?p1 = "p\<lparr>pLog := (?c, net (pLog p) ?c) # pLog p\<rparr>"
  have "delivered (pAddr pr) ks k (rank ent) ?p1" if "net (pLog p) ?c"
    using that unfolding delivered_def by (intro exI [of _ ?c]) simp
  moreover have "hinting (?p1\<lparr>FanoutErrors := FanoutErrors ?p1 + 1\<rparr>)" using h by (simp add: hinting_log)
  ultimately show ?thesis
    unfolding applyToPeer_eq [OF a] Let_def using enqueueHint_settles [OF _ nf a b]
    by (cases "net (pLog p) ?c") (simp_all add: settled_def [of _ _ _ _ ?p1] settled_def [of _ _ _ _ "p\<lparr>pLog := x\<rparr>" for x])
qed

lemma applyToPeer_ids:
  assumes "hinting p" "nul_free ks" "nul_free k"
  shows "ids_of a (snd (applyToPeer net pr ks k ent g True p)) \<subseteq>
    ids_of a p \<union> (if pAddr pr = a then {hintID ks k ent} else {})"
proof (cases "pAddr pr = []")
  case False
  have "hinting (p\<lparr>pLog := l, FanoutErrors := n\<rparr>)" for l n using assms(1) by (simp add: hinting_log)
  from enqueueHint_ids [OF this assms(2,3), of a pr ent g] show ?thesis
    unfolding applyToPeer_eq [OF False] Let_def
    by (cases "net (pLog p) (applyCall (pAddr pr) ks k ent g)") auto
qed (simp add: applyToPeer_def)

lemma hinting_jobs:
  "hinting p \<Longrightarrow> \<forall>j \<in> set js. nul_free (jKs j) \<and> nul_free (jKey j) \<Longrightarrow> hinting (p\<lparr>pJobs := js\<rparr>)"
  by (simp add: hinting_def pool_ok_def)

text \<open>A submission is owed to each of its peers: it is queued as a job, or hinted.\<close>

lemma fold_enqueue:
  assumes nf: "nul_free ks" "nul_free k"
  shows "hinting p \<Longrightarrow> hinting (fold (\<lambda>pr p. enqueueHint pr ks k ent g p) prs p) \<and>
    (a \<noteq> [] \<longrightarrow> \<not> IsBloomAdd ent \<longrightarrow> a \<in> pAddr ` set prs \<or> settled a ks k (rank ent) p \<longrightarrow>
       settled a ks k (rank ent) (fold (\<lambda>pr p. enqueueHint pr ks k ent g p) prs p))"
proof (induction prs arbitrary: p)
  case (Cons pr prs)
  let ?p = "enqueueHint pr ks k ent g p"
  have "hinting ?p" by (rule enqueueHint_hinting [OF Cons.prems nf])
  note IH = Cons.IH [OF this]
  have "settled a ks k (rank ent) ?p"
    if "a \<noteq> []" "\<not> IsBloomAdd ent" "pAddr pr = a \<or> settled a ks k (rank ent) p"
  proof (cases "pAddr pr = a")
    case True
    then show ?thesis using enqueueHint_settles [OF Cons.prems nf, of pr ent g] that by auto
  next
    case False
    then show ?thesis
      using keeps_settled [OF enqueueHint_keeps [OF Cons.prems nf] nf] that(3) by blast
  qed
  then show ?case using IH by auto
qed simp

lemma Submit_owed:
  assumes h: "hinting p" and nf: "nul_free ks" "nul_free k"
  shows "hinting (Submit prs ks k ent g p)"
    and "a \<noteq> [] \<Longrightarrow> a \<in> pAddr ` set prs \<Longrightarrow> \<not> IsBloomAdd ent \<Longrightarrow> owed a ks k (rank ent) (Submit prs ks k ent g p)"
proof -
  have opn: "\<not> pClosed p" using h by (simp add: hinting_def)
  have "hinting (p\<lparr>FanoutDropped := FanoutDropped p + 1\<rparr>)" using h by (simp add: hinting_log)
  note f = fold_enqueue [OF nf this, of ent g prs a]
  show "hinting (Submit prs ks k ent g p)"
    using f hinting_jobs [OF h, of "pJobs p @ [\<lparr>jPeers = prs, jKs = ks, jKey = k, jEnt = ent, jGen = g\<rparr>]"] h nf opn
    by (auto simp: Submit_def hinting_def)
  show "owed a ks k (rank ent) (Submit prs ks k ent g p)" if "a \<noteq> []" "a \<in> pAddr ` set prs" "\<not> IsBloomAdd ent"
    using that f opn by (auto simp: Submit_def owed_def queued_def)
qed

section \<open>Working off the jobs\<close>

text \<open>With a peer that accepts calls no hint is queued for it, so nothing it is owed can be lost
  to another hint while the jobs are worked off.\<close>

lemma fold_apply_up:
  fixes ent g
  assumes up: "\<forall>l c. rpcAddr c = a \<longrightarrow> net l c" and nf: "nul_free ks" "nul_free k"
  defines "f \<equiv> \<lambda>pr p. if pAddr pr = [] then p else snd (applyToPeer net pr ks k ent g True p)"
  shows "hinting p \<Longrightarrow> keeps a p (fold f prs p) \<and> pJobs (fold f prs p) = pJobs p \<and>
    (a \<noteq> [] \<longrightarrow> \<not> IsBloomAdd ent \<longrightarrow> a \<in> pAddr ` set prs \<longrightarrow> settled a ks k (rank ent) (fold f prs p))"
proof (induction prs arbitrary: p)
  case (Cons pr prs)
  have f: "keeps a p (f pr p)" "pJobs (f pr p) = pJobs p"
    using applyToPeer_keeps [OF Cons.prems nf, of pr a net ent g] up Cons.prems by (auto simp: f_def keeps_refl)
  note IH = Cons.IH [OF keeps_hinting [OF f(1)]]
  have "settled a ks k (rank ent) (f pr p)" if "a \<noteq> []" "\<not> IsBloomAdd ent" "pAddr pr = a"
    using applyToPeer_settles [OF Cons.prems nf, of pr ent net g] that by (auto simp: f_def)
  then have "settled a ks k (rank ent) (fold f prs (f pr p))"
    if "a \<noteq> []" "\<not> IsBloomAdd ent" "a \<in> pAddr ` set (pr # prs)"
    using that IH keeps_settled [OF conjunct1 [OF IH] nf] by auto
  then show ?case using IH f keeps_trans [OF f(1)] by simp
qed (simp add: keeps_refl)

lemma applyJob_up:
  assumes up: "\<forall>l c. rpcAddr c = a \<longrightarrow> net l c" and nf: "nul_free (jKs j)" "nul_free (jKey j)" and "hinting p"
  shows "keeps a p (applyJob net j p)" "pJobs (applyJob net j p) = pJobs p"
    "a \<noteq> [] \<Longrightarrow> \<not> IsBloomAdd (jEnt j) \<Longrightarrow> a \<in> pAddr ` set (jPeers j) \<Longrightarrow>
       settled a (jKs j) (jKey j) (rank (jEnt j)) (applyJob net j p)"
  using fold_apply_up [OF assms] unfolding applyJob_def by blast+

lemma fanout_loop_up:
  assumes up: "\<forall>l c. rpcAddr c = a \<longrightarrow> net l c" and h: "hinting p" and nf: "a \<noteq> []" "nul_free ks" "nul_free k"
  shows "hinting (fanout_loop net p)" "pJobs (fanout_loop net p) = tl (pJobs p)"
    and "owed a ks k n p \<Longrightarrow> owed a ks k n (fanout_loop net p)"
proof -
  have "hinting (fanout_loop net p) \<and> pJobs (fanout_loop net p) = tl (pJobs p) \<and>
    (owed a ks k n p \<longrightarrow> owed a ks k n (fanout_loop net p))"
  proof (cases "pJobs p")
    case Nil
    then show ?thesis using h by (simp add: fanout_loop_def)
  next
    case (Cons j js)
    let ?p = "p\<lparr>pJobs := js\<rparr>"
    have hj: "hinting ?p" "nul_free (jKs j)" "nul_free (jKey j)"
      using h Cons by (auto simp: hinting_def pool_ok_def)
    note aj = applyJob_up [OF up hj(2,3,1)]
    have eq: "fanout_loop net p = applyJob net j ?p" using Cons by (simp add: fanout_loop_def)
    have "owed a ks k n (applyJob net j ?p)" if "queued a ks k n p"
      using that aj(2,3) nf Cons by (auto simp: owed_def queued_def)
    moreover have "owed a ks k n (applyJob net j ?p)" if "settled a ks k n p"
      using keeps_settled [OF aj(1) nf(2,3)] that by (simp add: owed_def settled_def delivered_def)
    ultimately show ?thesis
      unfolding eq using keeps_hinting [OF aj(1)] aj(2) Cons by (auto simp: owed_def [of _ _ _ _ p])
  qed
  then show "hinting (fanout_loop net p)" "pJobs (fanout_loop net p) = tl (pJobs p)"
    and "owed a ks k n p \<Longrightarrow> owed a ks k n (fanout_loop net p)" by blast+
qed

lemma work_off:
  assumes up: "\<forall>l c. rpcAddr c = a \<longrightarrow> net l c" and h: "hinting p" and nf: "a \<noteq> []" "nul_free ks" "nul_free k"
    and o: "owed a ks k n p"
  shows "hinting ((fanout_loop net ^^ i) p)" "pJobs ((fanout_loop net ^^ i) p) = drop i (pJobs p)"
    "owed a ks k n ((fanout_loop net ^^ i) p)"
proof -
  have "hinting ((fanout_loop net ^^ i) p) \<and> pJobs ((fanout_loop net ^^ i) p) = drop i (pJobs p) \<and>
      owed a ks k n ((fanout_loop net ^^ i) p)"
  proof (induction i)
    case (Suc i)
    then show ?case using fanout_loop_up [OF up _ nf, of "(fanout_loop net ^^ i) p"] by (simp add: drop_Suc tl_drop)
  qed (use h o in simp)
  then show "hinting ((fanout_loop net ^^ i) p)" "pJobs ((fanout_loop net ^^ i) p) = drop i (pJobs p)"
    "owed a ks k n ((fanout_loop net ^^ i) p)" by simp_all
qed

section \<open>Flushing\<close>

lemma peekHint_item:
  assumes "pool_ok p" "peekHint addr p = Some h"
  obtains q where "pHints p addr = Some q" "qItems q (hint_id h) = Some h" "item_ok addr (hint_id h) h"
    "qOrder q = hint_id h # tl (qOrder q)" "addr \<noteq> []"
proof -
  obtain q i order where q: "pHints p addr = Some q" "qOrder q = i # order" "qItems q i = Some h"
    using assms(2) by (auto simp: peekHint_def split: option.splits list.splits)
  then have "item_ok addr i h" "addr \<noteq> []" using assms(1) by (auto simp: pool_ok_def queue_ok_def)
  then show thesis using that [OF q(1)] q by (simp add: item_ok_def)
qed

text \<open>A successful round of a flush: the hint is delivered, then taken out.\<close>

definition flush_round :: "network \<Rightarrow> bytes \<Rightarrow> fanoutHint \<Rightarrow> fanoutPool \<Rightarrow> fanoutPool" where
  "flush_round net addr h p =
     (let p2 = popHint addr (hint_id h) (snd (replayHint net addr h p)) in p2\<lparr>HintsFlushed := HintsFlushed p2 + 1\<rparr>)"

lemma replayHint_eq:
  assumes "item_ok addr i h" "addr \<noteq> []"
  shows "replayHint net addr h p =
    (let c = applyCall addr (hKs h) (hKey h) (hEnt h) (hGen h); ok = net (pLog p) c;
         p1 = p\<lparr>pLog := (c, ok) # pLog p\<rparr>
     in if ok then (False, p1) else (True, p1\<lparr>FanoutErrors := FanoutErrors p1 + 1\<rparr>))"
  using assms by (auto simp: replayHint_def applyToPeer_def item_ok_def Let_def)

lemma popHint_ok:
  assumes "pool_ok p"
  shows "pool_ok (popHint addr i p)"
proof (cases "pHints p addr")
  case None
  then show ?thesis using assms by (simp add: popHint_def)
next
  case (Some q)
  have q: "distinct (qOrder q)" "set (qOrder q) = dom (qItems q)" "int (length (qOrder q)) \<le> hintMax p"
      "\<forall>i h. qItems q i = Some h \<longrightarrow> item_ok addr i h" "addr \<noteq> []"
    using assms Some by (auto simp: pool_ok_def queue_ok_def)
  have "length (remove1 i (qOrder q)) \<le> length (qOrder q)" by (simp add: length_remove1)
  then have "queue_ok addr (hintMax p) \<lparr>qOrder = remove1 i (qOrder q), qItems = (qItems q)(i := None)\<rparr>"
    using q by (auto simp: queue_ok_def)
  then show ?thesis using assms Some q(5) by (auto simp: popHint_def pool_ok_def Let_def)
qed

lemma popHint_pending:
  assumes "pool_ok p" "pHints p a = Some q" "pending ks k n q" "ks @ [0] @ k \<noteq> i \<or> a \<noteq> addr"
  shows "\<exists>q'. pHints (popHint addr i p) a = Some q' \<and> pending ks k n q'"
proof (cases "a = addr")
  case True
  have "ks @ [0] @ k \<in> set (qOrder q)" using assms(1-3) by (auto simp: pool_ok_def queue_ok_def pending_def)
  then have "ks @ [0] @ k \<in> set (remove1 i (qOrder q))" using assms(4) True by simp
  then have "remove1 i (qOrder q) \<noteq> []" by (metis empty_iff list.set(1))
  then show ?thesis using assms(2-4) True by (simp add: popHint_def Let_def pending_def)
next
  case False
  then show ?thesis using assms(2,3) by (simp add: popHint_def Let_def split: option.split)
qed

lemma popHint_fields [simp]:
  "pLog (popHint a i p) = pLog p" "HintsDropped (popHint a i p) = HintsDropped p" "pJobs (popHint a i p) = pJobs p"
  "hintsDisabled (popHint a i p) = hintsDisabled p" "pClosed (popHint a i p) = pClosed p"
  "hintMax (popHint a i p) = hintMax p"
  by (simp_all add: popHint_def Let_def split: option.split)

lemma popHint_hinting: "hinting p \<Longrightarrow> hinting (popHint addr i p)"
  by (simp add: hinting_def popHint_ok)

lemma popHint_ids: "pool_ok p \<Longrightarrow> ids_of a (popHint addr i p) \<subseteq> ids_of a p"
  by (auto simp: ids_of_def openQ_def popHint_def Let_def split: option.splits if_splits)

text \<open>Taking out the hint of an id loses nothing when a hint at least as new as the queued one
  was delivered.\<close>

lemma popHint_keeps:
  assumes h: "hinting p" and iok: "item_ok addr (hint_id h) h"
    and del: "delivered addr (hKs h) (hKey h) (rank (hEnt h)) p"
    and old: "\<And>q h'. pHints p addr = Some q \<Longrightarrow> qItems q (hint_id h) = Some h' \<Longrightarrow> \<not> hintNewer (hEnt h') (hEnt h)"
  shows "keeps a p (popHint addr (hint_id h) p)"
proof -
  have "settled a ks k n (popHint addr (hint_id h) p)"
    if s: "settled a ks k n p" and nf: "nul_free ks" "nul_free k" for ks k n
  proof (cases "delivered a ks k n p")
    case True
    then show ?thesis by (simp add: settled_def delivered_def)
  next
    case nd: False
    then obtain q where q: "pHints p a = Some q" "pending ks k n q" using s by (auto simp: settled_def split: option.splits)
    show ?thesis
    proof (cases "a = addr \<and> ks @ [0] @ k = hint_id h")
      case True
      then obtain h' where "qItems q (hint_id h) = Some h'" "n \<le> rank (hEnt h')" using q(2) by (auto simp: pending_def)
      then have "n \<le> rank (hEnt h)" using old [of q h'] q(1) True by (auto simp: hintNewer_rank)
      moreover have "hKs h = ks \<and> hKey h = k"
        using True iok hintID_inj [OF nf, of "hKs h" "hKey h" "hEnt h"] by (simp add: item_ok_def hint_id_def)
      ultimately have "delivered a ks k n p" using del True by (fastforce simp: delivered_def)
      then show ?thesis using nd by simp
    next
      case False
      then show ?thesis using popHint_pending [OF _ q, of "hint_id h" addr] h by (auto simp: hinting_def settled_def)
    qed
  qed
  then show ?thesis using popHint_hinting [OF h] by (simp add: keeps_def)
qed

lemma flush_round_keeps:
  assumes h: "hinting p" and pk: "peekHint addr p = Some h" and ok: "\<not> fst (replayHint net addr h p)"
  shows "keeps a p (flush_round net addr h p)"
proof -
  have pok: "pool_ok p" using h by (simp add: hinting_def)
  obtain q where q: "pHints p addr = Some q" "qItems q (hint_id h) = Some h" "item_ok addr (hint_id h) h" "addr \<noteq> []"
    using peekHint_item [OF pok pk] by metis
  let ?c = "applyCall addr (hKs h) (hKey h) (hEnt h) (hGen h)"
  let ?p1 = "p\<lparr>pLog := (?c, True) # pLog p\<rparr>"
  have net: "net (pLog p) ?c" using ok replayHint_eq [OF q(3,4), of net p] by (simp add: Let_def split: if_splits)
  have eq: "flush_round net addr h p =
      (popHint addr (hint_id h) ?p1)\<lparr>HintsFlushed := HintsFlushed (popHint addr (hint_id h) ?p1) + 1\<rparr>"
    using replayHint_eq [OF q(3,4), of net p] net by (simp add: flush_round_def Let_def)
  have h1: "hinting ?p1" using h by (simp add: hinting_log)
  have del: "delivered addr (hKs h) (hKey h) (rank (hEnt h)) ?p1"
    unfolding delivered_def by (intro exI [of _ ?c]) simp
  have "keeps a ?p1 (popHint addr (hint_id h) ?p1)"
    by (rule popHint_keeps [OF h1 q(3) del]) (use q(1,2) in \<open>auto simp: hintNewer_def\<close>)
  then show ?thesis
    unfolding eq using keeps_trans [OF keeps_trans [OF keeps_counters(4) [OF h]]] keeps_counters(3) keeps_hinting by metis
qed

lemma flush_loop_round:
  "flush_loop (Suc fuel) net addr p =
     (case peekHint addr p of
        None \<Rightarrow> p
      | Some h \<Rightarrow>
          if fst (replayHint net addr h p)
          then (snd (replayHint net addr h p))\<lparr>FanoutErrors := FanoutErrors (snd (replayHint net addr h p)) + 1\<rparr>
          else flush_loop fuel net addr (flush_round net addr h p))"
  by (auto simp: flush_round_def Let_def split: option.split prod.split bool.split)

lemma replayHint_keeps:
  assumes "hinting p" "item_ok addr i h" "addr \<noteq> []"
  shows "keeps a p (snd (replayHint net addr h p))" "pJobs (snd (replayHint net addr h p)) = pJobs p"
    "hintMax (snd (replayHint net addr h p)) = hintMax p" "ids_of a (snd (replayHint net addr h p)) = ids_of a p"
  using keeps_counters(4) [OF assms(1)] keeps_trans [OF keeps_counters(4) keeps_counters(1), OF assms(1)]
  by (simp_all add: replayHint_eq [OF assms(2,3)] Let_def hinting_log assms(1))

lemma replayHint_delivers:
  assumes "item_ok addr i h" "addr \<noteq> []" "\<not> fst (replayHint net addr h p)"
  shows "delivered addr (hKs h) (hKey h) (rank (hEnt h)) (snd (replayHint net addr h p))"
  using assms(3) unfolding delivered_def
  by (intro exI [of _ "applyCall addr (hKs h) (hKey h) (hEnt h) (hGen h)"])
    (auto simp: replayHint_eq [OF assms(1,2)] Let_def split: if_splits)

lemma flush_loop_keeps:
  "hinting p \<Longrightarrow> keeps a p (flush_loop fuel net addr p) \<and> pJobs (flush_loop fuel net addr p) = pJobs p"
proof (induction fuel arbitrary: p)
  case (Suc fuel)
  have pok: "pool_ok p" using Suc.prems by (simp add: hinting_def)
  show ?case
  proof (cases "peekHint addr p")
    case None
    then show ?thesis using Suc.prems by (simp add: keeps_refl)
  next
    case (Some h)
    obtain q where q: "item_ok addr (hint_id h) h" "addr \<noteq> []" using peekHint_item [OF pok Some] by metis
    note rk = replayHint_keeps(1) [OF Suc.prems q, of a net] replayHint_keeps(2) [OF Suc.prems q, of net]
    show ?thesis
    proof (cases "fst (replayHint net addr h p)")
      case True
      from keeps_trans [OF rk(1) keeps_counters(1) [OF keeps_hinting [OF rk(1)]]] show ?thesis
        using Some True rk(2) by (simp add: flush_loop_round del: flush_loop.simps)
    next
      case False
      note fr = flush_round_keeps [OF Suc.prems Some False, where a = a]
      note IH = Suc.IH [OF keeps_hinting [OF fr]]
      have "pJobs (flush_round net addr h p) = pJobs p" using rk(2) by (simp add: flush_round_def Let_def)
      then show ?thesis
        using IH keeps_trans [OF fr] Some False by (simp add: flush_loop_round del: flush_loop.simps)
    qed
  qed
qed (simp add: keeps_refl)

lemma flushPeerHints_keeps:
  assumes "hinting p"
  shows "keeps a p (flushPeerHints net addr p)" "pJobs (flushPeerHints net addr p) = pJobs p"
  using flush_loop_keeps [OF assms] unfolding flushPeerHints_def by blast+

lemma queue_len_round:
  assumes "pool_ok p" "peekHint addr p = Some h"
  shows "queue_len addr (flush_round net addr h p) = queue_len addr p - 1" "0 < queue_len addr p"
proof -
  obtain q where q: "pHints p addr = Some q" "item_ok addr (hint_id h) h" "qOrder q = hint_id h # tl (qOrder q)" "addr \<noteq> []"
    using peekHint_item [OF assms] by metis
  have h: "pHints (snd (replayHint net addr h p)) addr = Some q"
    using q(1) by (simp add: replayHint_eq [OF q(2,4)] Let_def)
  have "length (remove1 (hint_id h) (qOrder q)) = length (qOrder q) - 1"
    using q(3) by (metis length_remove1 list.set_intros(1))
  then show "queue_len addr (flush_round net addr h p) = queue_len addr p - 1"
    using h q(1) by (auto simp: flush_round_def popHint_def queue_len_def Let_def)
  show "0 < queue_len addr p" using q(1,3) by (auto simp: queue_len_def)
qed

lemma peekHint_None:
  assumes "pool_ok p" "peekHint addr p = None"
  shows "pHints p addr = None"
proof (rule ccontr)
  assume "pHints p addr \<noteq> None"
  then obtain q where q: "pHints p addr = Some q" by blast
  then have "qOrder q \<noteq> []" "set (qOrder q) = dom (qItems q)" using assms(1) by (auto simp: pool_ok_def queue_ok_def)
  then have "qItems q (hd (qOrder q)) \<noteq> None" by (metis domIff hd_in_set)
  then show False using assms(2) q \<open>qOrder q \<noteq> []\<close> by (auto simp: peekHint_def split: list.splits)
qed

lemma flush_loop_drains:
  assumes up: "\<forall>l c. rpcAddr c = addr \<longrightarrow> net l c"
  shows "hinting p \<Longrightarrow> queue_len addr p < fuel \<Longrightarrow> pHints (flush_loop fuel net addr p) addr = None"
proof (induction fuel arbitrary: p)
  case (Suc fuel)
  have pok: "pool_ok p" using Suc.prems(1) by (simp add: hinting_def)
  show ?case
  proof (cases "peekHint addr p")
    case None
    then show ?thesis using peekHint_None [OF pok] by simp
  next
    case (Some h)
    obtain q where q: "item_ok addr (hint_id h) h" "addr \<noteq> []" using peekHint_item [OF pok Some] by metis
    have ok: "\<not> fst (replayHint net addr h p)" using up by (simp add: replayHint_eq [OF q] Let_def)
    have "hinting (flush_round net addr h p)"
      using flush_round_keeps [OF Suc.prems(1) Some ok] by (rule keeps_hinting)
    moreover have "queue_len addr (flush_round net addr h p) < fuel"
      using queue_len_round(1) [OF pok Some, of net] queue_len_round(2) [OF pok Some] Suc.prems(2) by simp
    ultimately show ?thesis
      using Suc.IH Some ok by (simp add: flush_loop_round del: flush_loop.simps)
  qed
qed simp

lemma flushPeerHints_drains:
  assumes "\<forall>l c. rpcAddr c = addr \<longrightarrow> net l c" "hinting p"
  shows "pHints (flushPeerHints net addr p) addr = None"
  unfolding flushPeerHints_def by (rule flush_loop_drains [OF assms]) simp

lemma NewFanoutPool_hinting: "\<not> DisableHints cfg \<Longrightarrow> hinting (NewFanoutPool cfg)"
  by (simp add: hinting_def NewFanoutPool_def pool_ok_def)

text \<open>Once a peer accepts calls, working off the jobs and one flush deliver what is owed to it.\<close>

lemma delivered_after:
  assumes h: "hinting p" and nf: "a \<noteq> []" "nul_free ks" "nul_free k" and o: "owed a ks k n p"
    and up: "\<forall>l c. rpcAddr c = a \<longrightarrow> net l c"
  shows "let p' = flushPeerHints net a ((fanout_loop net ^^ length (pJobs p)) p)
     in pHints p' a = None \<and> pJobs p' = [] \<and> delivered a ks k n p'"
proof -
  let ?w = "(fanout_loop net ^^ length (pJobs p)) p" and ?p' = "flushPeerHints net a ((fanout_loop net ^^ length (pJobs p)) p)"
  note w = work_off [OF up h nf o, where i = "length (pJobs p)"]
  note f = flushPeerHints_keeps(1) [OF w(1), of a net a] flushPeerHints_keeps(2) [OF w(1), of net a]
  have none: "pHints ?p' a = None" by (rule flushPeerHints_drains [OF up w(1)])
  have jobs: "pJobs ?p' = []" using f(2) w(2) by simp
  have "owed a ks k n ?p'"
    using keeps_owed [OF f(1) _ nf(2,3) w(3)] queued_jobs [OF f(2)] by simp
  then show ?thesis using none jobs by (simp add: owed_def settled_def queued_def)
qed

section \<open>A race between flushing and hinting\<close>

lemma enqueue_newer:
  assumes h: "hinting p" and nf: "nul_free ks" "nul_free k" and q: "pHints p (pAddr pr) = Some q" "pAddr pr \<noteq> []"
    and old: "qItems q (ks @ [0] @ k) = Some h0" and new: "hintNewer ent (hEnt h0)" and plain: "\<not> IsBloomAdd ent"
  obtains q' where "enqueueHint pr ks k ent g p = p\<lparr>pHints := (pHints p)(pAddr pr \<mapsto> q')\<rparr>"
    "qItems q' (ks @ [0] @ k) = Some (newHint pr ks k ent g)" "set (qOrder q') = dom (qItems q')" "distinct (qOrder q')"
proof -
  have on: "\<not> hintsDisabled p" "\<not> pClosed p" and pok: "pool_ok p" using h by (simp_all add: hinting_def)
  let ?w = "workQ pr ks k ent p"
  have qok: "queue_ok (pAddr pr) (hintMax p) q" using pok q(1) by (auto simp: pool_ok_def)
  have o: "openQ (pAddr pr) p = q" using q(1) by (simp add: openQ_def)
  have wok: "queue_ok (pAddr pr) (hintMax p) ?w" using qok by (simp add: workQ_def o dropAdds_ok)
  have "item_ok (pAddr pr) (ks @ [0] @ k) h0" using qok old by (auto simp: queue_ok_def)
  then have "\<not> IsBloomAdd (hEnt h0)"
    using hintID_inj [OF nf, of "hKs h0" "hKey h0" "hEnt h0"] by (simp add: item_ok_def hint_id_def)
  then have w: "qItems ?w (ks @ [0] @ k) = Some h0" using old by (simp add: workQ_def o dropAdds_def Let_def)
  let ?q = "?w\<lparr>qItems := (qItems ?w)(ks @ [0] @ k \<mapsto> newHint pr ks k ent g)\<rparr>"
  have "enqueueHint pr ks k ent g p = putQ (pAddr pr) ?q 0 p"
    using enqueueHint_eq [OF on q(2), of ks k ent g] w new plain
    by (simp add: Let_def add_blocked_def hintID_def)
  moreover have "set (qOrder ?q) = dom (qItems ?q)" "distinct (qOrder ?q)"
    using wok w by (auto simp: queue_ok_def)
  ultimately show thesis using that [of ?q] by (simp add: putQ_def)
qed

text \<open>C36. A flush that has read a hint takes out whatever hint is queued under its id when the
  call returns. When a newer mutation of the same key is hinted in between, the flush
  discards it: it is neither delivered nor pending nor counted as dropped.\<close>

theorem hint_race:
  fixes net pr addr h0 ent g p
  defines "p3 \<equiv> popHint addr (hint_id h0) (snd (replayHint net addr h0 (enqueueHint pr (hKs h0) (hKey h0) ent g p)))"
  assumes h: "hinting p" and pk: "peekHint addr p = Some h0" and plain: "\<not> IsBloomAdd ent" "\<not> IsBloomAdd (hEnt h0)"
    and pr: "pAddr pr = addr" and new: "hintNewer ent (hEnt h0)"
    and ok: "\<not> fst (replayHint net addr h0 (enqueueHint pr (hKs h0) (hKey h0) ent g p))"
    and fresh: "\<not> delivered addr (hKs h0) (hKey h0) (rank ent) p"
  shows "\<not> delivered addr (hKs h0) (hKey h0) (rank ent) p3 \<and> HintsDropped p3 = HintsDropped p \<and>
    (case pHints p3 addr of None \<Rightarrow> True | Some q \<Rightarrow> qItems q (hint_id h0) = None)"
proof -
  have pok: "pool_ok p" using h by (simp add: hinting_def)
  obtain q where q: "pHints p addr = Some q" "qItems q (hint_id h0) = Some h0" "item_ok addr (hint_id h0) h0" "addr \<noteq> []"
    using peekHint_item [OF pok pk] by metis
  have id: "hint_id h0 = hKs h0 @ [0] @ hKey h0" using plain(2) by (simp add: hint_id_def hintID_def)
  have nf: "nul_free (hKs h0)" "nul_free (hKey h0)" using q(3) by (simp_all add: item_ok_def)
  obtain q' where q': "enqueueHint pr (hKs h0) (hKey h0) ent g p = p\<lparr>pHints := (pHints p)(addr \<mapsto> q')\<rparr>"
    using enqueue_newer [OF h nf, of pr q h0 ent g] q pr id new plain(1) by metis
  let ?p1 = "p\<lparr>pHints := (pHints p)(addr \<mapsto> q')\<rparr>"
  let ?c = "applyCall addr (hKs h0) (hKey h0) (hEnt h0) (hGen h0)"
  have "net (pLog p) ?c" using ok by (simp add: q' replayHint_eq [OF q(3,4)] Let_def split: if_splits)
  then have r: "snd (replayHint net addr h0 ?p1) = ?p1\<lparr>pLog := (?c, True) # pLog p\<rparr>"
    by (simp add: replayHint_eq [OF q(3,4)] Let_def)
  have "\<not> rank ent \<le> rank (hEnt h0)" using new by (simp add: hintNewer_rank)
  then have "\<not> delivered addr (hKs h0) (hKey h0) (rank ent) p3"
    using fresh unfolding p3_def q' r by (auto simp: delivered_def) (metis rpc_rank_applyCall)
  then show ?thesis unfolding p3_def q' r by (simp add: popHint_def Let_def)
qed

definition race_ent :: "u64 \<Rightarrow> entry" where
  "race_ent v = \<lparr>Value = [1], Version = v, ExpireAt = 0, Flags = 0\<rparr>"

definition race_peer :: peer where
  "race_peer = \<lparr>pID = str ''b'', pAddr = str ''b:1''\<rparr>"

definition race_pool :: fanoutPool where
  "race_pool = enqueueHint race_peer (str ''ks'') (str ''k'') (race_ent 3) 1
     (NewFanoutPool \<lparr>QueueSize = 1, DisableHints = False, HintMaxPerPeer = 0\<rparr>)"

theorem hint_race_witness:
  "\<not> delivered (str ''b:1'') (str ''ks'') (str ''k'') 8
     (popHint (str ''b:1'') (str ''ks'' @ [0] @ str ''k'')
       (snd (replayHint (\<lambda>l c. True) (str ''b:1'') (newHint race_peer (str ''ks'') (str ''k'') (race_ent 3) 1)
          (enqueueHint race_peer (str ''ks'') (str ''k'') (race_ent 4) 1 race_pool))))"
proof -
  let ?h = "newHint race_peer (str ''ks'') (str ''k'') (race_ent 3) 1"
  have nf: "nul_free (str ''ks'')" "nul_free (str ''k'')" by (simp_all add: nul_free_def str_def)
  have h: "hinting race_pool"
    unfolding race_pool_def
    by (intro enqueueHint_hinting NewFanoutPool_hinting nf) simp
  have pk: "peekHint (str ''b:1'') race_pool = Some ?h" by code_simp
  have "pLog race_pool = []" by code_simp
  then have fresh: "\<not> delivered a ks k n race_pool" for a ks k n by (simp add: delivered_def)
  have iok: "item_ok (str ''b:1'') (hint_id ?h) ?h"
    using nf by (simp add: item_ok_def newHint_def race_peer_def)
  have ok: "\<not> fst (replayHint (\<lambda>l c. True) (str ''b:1'') ?h p)" for p
    using replayHint_eq [OF iok, of "\<lambda>l c. True" p] by (simp add: Let_def str_def)
  show ?thesis
    using hint_race [OF h pk _ _ _ _ ok fresh, of "race_ent 4" race_peer 1]
    by (simp add: race_ent_def race_peer_def newHint_def hintNewer_def flag_simps rank_def hint_id_def hintID_def)
qed

end
