(* ===== verification/EngineCore.thy ===== *)
theory EngineCore
  imports Keyspace Fanout MemoryFacts
begin

text \<open>
  The engine of \<open>pkg/engine/engine.go\<close> and \<open>cluster.go\<close>: keyspaces, versions, the plain
  key/value operations with owner routing, load-through with protection, and replication.

  \<^item> A call of an exported method is one step on the record \<open>engine\<close>. What the call meets
    outside the engine is the record \<open>env\<close>: the clock, the state of the caller's context,
    the answers of the data source and of the peers, and the order in which Go visits a map.
  \<^item> A keyspace is looked up by name where the code holds a pointer to it; the pointer's
    \<open>store\<close>, \<open>guard\<close> and \<open>lastVer\<close> live in the record \<open>ksRuntime\<close>.
  \<^item> An error is represented by the sentinel it wraps; its text is left out. \<open>ErrBackend\<close> is an
    error of the data source, \<open>ErrRemote\<close> one of a peer call, \<open>ErrContext\<close> a context error.
  \<^item> \<open>singleflight.Do\<close> runs its function once for all concurrent callers: one step here is
    the caller that runs it.
  \<^item> Metrics and spans do not influence results and are left out. The recorded hits of
    \<open>recordHit\<close> are kept as a log.
\<close>

section \<open>State\<close>

datatype engine_err =
    ErrNotFound | ErrKeyspaceNotFound | ErrUnavailable | ErrInvalidArgument | ErrValueTooLarge
  | ErrKeyTooLarge | ErrBatchTooLarge | ErrContext | ErrBackend | ErrRemote
  | MultiError "bytes list" | KeyErrors "(bytes \<times> engine_err) list"

datatype load_result = Loaded bytes | LoadNotFound | LoadFailed

record ksRuntime =
  ks_cfg :: ksconfig
  ks_store :: memory
  ks_guard :: guard
  lastVer :: "(bytes, u64) fmap"
  maxVersionKeys :: int

record cluster =
  SelfID :: bytes
  cRing :: "ring option"
  cTransport :: bool
  cFanout :: "fanoutPool option"

record engine =
  keyspaces :: "bytes \<rightharpoonup> ksRuntime"
  global :: "guard option"
  nodeID :: bytes
  nodeAddr :: bytes
  ringGen :: u64
  e_closed :: bool
  cluster :: "cluster option"
  hitLog :: "(bytes \<times> bytes) list option"
  maxKeyLen :: int
  maxValueSize :: int
  maxBatch :: int
  e_maxVersionKeys :: int

record getOrLoadResult =
  gFound :: bool
  gEntry :: entry

record env =
  eNow :: time
  eMilli :: u64
  eCtx :: "engine_err option"
  eCtxEnd :: "engine_err option"
  eLoad :: "bytes \<Rightarrow> bytes \<Rightarrow> load_result"
  eOrd :: "bytes list"
  eFp :: fpu
  eTrunc :: "f64 \<Rightarrow> int"
  eNet :: network
  eForwardPut :: "bytes \<Rightarrow> bytes \<Rightarrow> bytes \<Rightarrow> bytes \<Rightarrow> int \<Rightarrow> bool \<Rightarrow> nat \<Rightarrow> engine_err option"
  eForwardDelete :: "bytes \<Rightarrow> bytes \<Rightarrow> bytes \<Rightarrow> engine_err + bytes list"
  eGetOrLoad :: "bytes \<Rightarrow> bytes \<Rightarrow> bytes \<Rightarrow> engine_err + getOrLoadResult"
  eApplyPut :: "bytes \<Rightarrow> bytes \<Rightarrow> bytes \<Rightarrow> entry \<Rightarrow> u64 \<Rightarrow> engine_err + bool"
  eListPop :: "bytes \<Rightarrow> bytes \<Rightarrow> bytes \<Rightarrow> bool \<Rightarrow> engine_err + bytes option"
  eCounterIncr :: "bytes \<Rightarrow> bytes \<Rightarrow> bytes \<Rightarrow> int \<Rightarrow> engine_err + int"
  eStreamAdd :: "bytes \<Rightarrow> bytes \<Rightarrow> bytes \<Rightarrow> bytes \<Rightarrow> engine_err + bytes"

definition zero_entry :: entry where
  "zero_entry = \<lparr>Value = [], Version = 0, ExpireAt = 0, Flags = 0\<rparr>"

definition DefaultMaxVersionKeys :: int where
  "DefaultMaxVersionKeys = 1000000"

text \<open>\<open>New\<close> with \<open>WithGlobalProtect\<close>, \<open>WithLimits\<close> and \<open>WithMaxVersionKeys\<close>; a limit that
  is not positive keeps the default.\<close>

definition engine_New :: "guard option \<Rightarrow> int \<Rightarrow> int \<Rightarrow> int \<Rightarrow> int \<Rightarrow> engine" where
  "engine_New g mkl mvs mb mvk =
     \<lparr>keyspaces = Map.empty, global = g, nodeID = [], nodeAddr = [], ringGen = 0, e_closed = False,
      cluster = None, hitLog = None,
      maxKeyLen = (if 0 < mkl then mkl else DefaultMaxKeyLen),
      maxValueSize = (if 0 < mvs then mvs else DefaultMaxValueSize),
      maxBatch = (if 0 < mb then mb else DefaultMaxBatch),
      e_maxVersionKeys = (if 0 < mvk then mvk else DefaultMaxVersionKeys)\<rparr>"

definition ks_of :: "bytes \<Rightarrow> engine \<Rightarrow> ksRuntime" where
  "ks_of n e = the (keyspaces e n)"

definition upd_ks :: "bytes \<Rightarrow> (ksRuntime \<Rightarrow> ksRuntime) \<Rightarrow> engine \<Rightarrow> engine" where
  "upd_ks n f e = e\<lparr>keyspaces := (keyspaces e)(n \<mapsto> f (ks_of n e))\<rparr>"

text \<open>A call of a store method of keyspace \<open>n\<close>.\<close>

definition store_op :: "bytes \<Rightarrow> (memory \<Rightarrow> 'a \<times> memory) \<Rightarrow> engine \<Rightarrow> 'a \<times> engine" where
  "store_op n f e =
     (case f (ks_store (ks_of n e)) of (r, m) \<Rightarrow> (r, upd_ks n (\<lambda>ks. ks\<lparr>ks_store := m\<rparr>) e))"

definition ks_config :: "bytes \<Rightarrow> engine \<Rightarrow> ksconfig" where
  "ks_config n e = ks_cfg (ks_of n e)"

section \<open>Checks\<close>

definition getKS :: "bytes \<Rightarrow> engine \<Rightarrow> engine_err option" where
  "getKS n e = (case keyspaces e n of None \<Rightarrow> Some ErrKeyspaceNotFound | Some ks \<Rightarrow> None)"

definition validateKey :: "bytes \<Rightarrow> bytes \<Rightarrow> engine \<Rightarrow> engine_err option" where
  "validateKey n k e =
     (if n = [] then Some ErrInvalidArgument
      else if k = [] then Some ErrInvalidArgument
      else if maxKeyLen e < int (length k) then Some ErrKeyTooLarge
      else None)"

definition itemMax :: "bytes \<Rightarrow> engine \<Rightarrow> int" where
  "itemMax n e = (if 0 < MaxKeyLen (ks_config n e) then MaxKeyLen (ks_config n e) else maxKeyLen e)"

definition validateKeyLen :: "bytes \<Rightarrow> bytes \<Rightarrow> engine \<Rightarrow> engine_err option" where
  "validateKeyLen n k e = (if itemMax n e < int (length k) then Some ErrKeyTooLarge else None)"

definition MaxValue :: "bytes \<Rightarrow> engine \<Rightarrow> int" where
  "MaxValue n e = (if 0 < MaxValueSize (ks_config n e) then MaxValueSize (ks_config n e) else maxValueSize e)"

definition validateValueSize :: "bytes \<Rightarrow> bytes \<Rightarrow> engine \<Rightarrow> engine_err option" where
  "validateValueSize n v e = (if MaxValue n e < int (length v) then Some ErrValueTooLarge else None)"

text \<open>A sequence of \<open>if err := ...; err != nil { return err }\<close>: the first error.\<close>

fun first_err :: "engine_err option list \<Rightarrow> engine_err option" where
  "first_err [] = None"
| "first_err (None # xs) = first_err xs"
| "first_err (Some x # xs) = Some x"

definition check :: "bool \<Rightarrow> engine_err \<Rightarrow> engine_err option" where
  "check b x = (if b then Some x else None)"

text \<open>The checks of \<open>Get\<close>, \<open>GetOrLoadLocal\<close>, \<open>DeleteAsOwner\<close> and \<open>ForceLoad\<close>. The list is
  evaluated from the left, so the keyspace exists where it is used.\<close>

definition key_checks :: "env \<Rightarrow> bytes \<Rightarrow> bytes \<Rightarrow> engine \<Rightarrow> engine_err option" where
  "key_checks v n k e = first_err [eCtx v, validateKey n k e, getKS n e, validateKeyLen n k e]"

section \<open>Keyspaces\<close>

definition UpdateKeySpace :: "env \<Rightarrow> ksconfig \<Rightarrow> engine \<Rightarrow> engine_err option \<times> engine" where
  "UpdateKeySpace v c e =
     (case Validate c of
        Some x \<Rightarrow> (Some ErrInvalidArgument, e)
      | None \<Rightarrow>
          let lv = (case keyspaces e (ksName c) of None \<Rightarrow> fmempty | Some old \<Rightarrow> lastVer old);
              gc = (if f64_lt 0 (ksRateLimitRPS c) then (CircuitBreaker c)\<lparr>RateLimitRPS := ksRateLimitRPS c\<rparr>
                    else CircuitBreaker c);
              ks = \<lparr>ks_cfg = c, ks_store = NewMemory (MaxBytes c) (EffectiveTombstoneTTL c),
                    ks_guard = guard_New (eFp v) (eTrunc v) gc (eNow v), lastVer = lv,
                    maxVersionKeys = e_maxVersionKeys e\<rparr>
          in (None, e\<lparr>keyspaces := (keyspaces e)(ksName c \<mapsto> ks)\<rparr>))"

definition DeleteKeySpace :: "bytes \<Rightarrow> engine \<Rightarrow> engine_err option \<times> engine" where
  "DeleteKeySpace n e =
     (case keyspaces e n of
        None \<Rightarrow> (Some ErrKeyspaceNotFound, e)
      | Some ks \<Rightarrow> (None, e\<lparr>keyspaces := (keyspaces e)(n := None)\<rparr>))"

definition engine_Close :: "engine \<Rightarrow> engine" where
  "engine_Close e = e\<lparr>e_closed := True, keyspaces := Map.empty\<rparr>"

section \<open>Versions\<close>

definition lastVer_of :: "bytes \<Rightarrow> ksRuntime \<Rightarrow> u64" where
  "lastVer_of k ks = (case fmlookup (lastVer ks) k of None \<Rightarrow> 0 | Some x \<Rightarrow> x)"

definition lv_len :: "(bytes, u64) fmap \<Rightarrow> int" where
  "lv_len lv = int (fcard (fmdom lv))"

text \<open>The two loops of \<open>pruneLastVerLocked\<close> over the keys in the order Go visits them.\<close>

fun prune_absent :: "time \<Rightarrow> int \<Rightarrow> bytes list \<Rightarrow> memory \<Rightarrow> (bytes, u64) fmap \<Rightarrow> memory \<times> (bytes, u64) fmap" where
  "prune_absent now mx [] m lv = (m, lv)"
| "prune_absent now mx (k # ks) m lv =
     (if lv_len lv \<le> mx then (m, lv)
      else if k |\<notin>| fmdom lv then prune_absent now mx ks m lv
      else
        case Peek now k m of
          (None, m') \<Rightarrow> prune_absent now mx ks m' (fmdrop k lv)
        | (Some x, m') \<Rightarrow> prune_absent now mx ks m' lv)"

fun prune_any :: "int \<Rightarrow> bytes list \<Rightarrow> (bytes, u64) fmap \<Rightarrow> (bytes, u64) fmap" where
  "prune_any mx [] lv = lv"
| "prune_any mx (k # ks) lv = (if lv_len lv \<le> mx then lv else prune_any mx ks (fmdrop k lv))"

definition pruneLastVerLocked :: "env \<Rightarrow> ksRuntime \<Rightarrow> ksRuntime" where
  "pruneLastVerLocked v ks =
     (let mx = maxVersionKeys ks in
      if mx \<le> 0 \<or> lv_len (lastVer ks) \<le> mx then ks
      else
        case prune_absent (eNow v) mx (eOrd v) (ks_store ks) (lastVer ks) of
          (m, lv) \<Rightarrow> ks\<lparr>ks_store := m, lastVer := prune_any mx (eOrd v) lv\<rparr>)"

definition nextVersion :: "env \<Rightarrow> bytes \<Rightarrow> u64 \<Rightarrow> ksRuntime \<Rightarrow> u64 \<times> ksRuntime" where
  "nextVersion v k lo ks =
     (let cur = lastVer_of k ks;
          cur = (if cur < lo then lo else cur)
      in case PeekVersion (eNow v) k (ks_store ks) of
           (pv, m) \<Rightarrow>
             let cur = (case pv of Some ver \<Rightarrow> if cur < ver then ver else cur | None \<Rightarrow> cur);
                 n = cur + 1
             in (n, pruneLastVerLocked v (ks\<lparr>ks_store := m, lastVer := fmupd k n (lastVer ks)\<rparr>)))"

definition observeVersion :: "env \<Rightarrow> bytes \<Rightarrow> u64 \<Rightarrow> ksRuntime \<Rightarrow> ksRuntime" where
  "observeVersion v k x ks =
     pruneLastVerLocked v
       (if lastVer_of k ks < x then ks\<lparr>lastVer := fmupd k x (lastVer ks)\<rparr> else ks)"

definition VersionTrackerSize :: "bytes \<Rightarrow> engine \<Rightarrow> int" where
  "VersionTrackerSize n e = (case keyspaces e n of None \<Rightarrow> -1 | Some ks \<Rightarrow> lv_len (lastVer ks))"

definition mint :: "env \<Rightarrow> bytes \<Rightarrow> bytes \<Rightarrow> u64 \<Rightarrow> engine \<Rightarrow> u64 \<times> engine" where
  "mint v n k lo e =
     (case nextVersion v k lo (ks_of n e) of (ver, ks) \<Rightarrow> (ver, upd_ks n (\<lambda>_. ks) e))"

definition observe_ver :: "env \<Rightarrow> bytes \<Rightarrow> bytes \<Rightarrow> u64 \<Rightarrow> engine \<Rightarrow> engine" where
  "observe_ver v n k x e = upd_ks n (observeVersion v k x) e"

definition expireAt :: "env \<Rightarrow> int \<Rightarrow> time" where
  "expireAt v ttl = (if ttl \<le> 0 then 0 else eNow v + ttl)"

section \<open>Replication\<close>

definition AttachCluster :: "cluster option \<Rightarrow> engine \<Rightarrow> engine" where
  "AttachCluster c e =
     (case c of None \<Rightarrow> e\<lparr>cluster := None\<rparr> | Some c' \<Rightarrow> e\<lparr>cluster := Some c', nodeID := SelfID c'\<rparr>)"

definition SetNodeInfo :: "bytes \<Rightarrow> bytes \<Rightarrow> engine \<Rightarrow> engine" where
  "SetNodeInfo i a e = e\<lparr>nodeID := i, nodeAddr := a\<rparr>"

text \<open>The cluster with its ring, when both are there.\<close>

definition ring_of :: "engine \<Rightarrow> (cluster \<times> ring) option" where
  "ring_of e =
     (case cluster e of
        None \<Rightarrow> None
      | Some c \<Rightarrow> (case cRing c of None \<Rightarrow> None | Some r \<Rightarrow> Some (c, r)))"

definition RingGeneration :: "engine \<Rightarrow> u64" where
  "RingGeneration e = (case ring_of e of None \<Rightarrow> ringGen e | Some (c, r) \<Rightarrow> Generation r)"

definition OwnerOf :: "bytes \<Rightarrow> engine \<Rightarrow> peer option" where
  "OwnerOf k e = (case ring_of e of None \<Rightarrow> None | Some (c, r) \<Rightarrow> Owner k r)"

text \<open>\<open>owner, ok := c.Ring.Owner(key); ok && owner.ID != "" && owner.ID != c.SelfID\<close>\<close>

definition remoteOwner :: "bytes \<Rightarrow> engine \<Rightarrow> (cluster \<times> ring \<times> peer) option" where
  "remoteOwner k e =
     (case ring_of e of
        None \<Rightarrow> None
      | Some (c, r) \<Rightarrow>
          (case Owner k r of
             None \<Rightarrow> None
           | Some p \<Rightarrow> if pID p \<noteq> [] \<and> pID p \<noteq> SelfID c then Some (c, r, p) else None))"

definition reachable_owner :: "cluster \<Rightarrow> peer \<Rightarrow> bool" where
  "reachable_owner c p \<longleftrightarrow> cTransport c \<and> pAddr p \<noteq> []"

definition replicaPeers :: "bytes \<Rightarrow> bytes \<Rightarrow> bytes \<Rightarrow> ring \<Rightarrow> engine \<Rightarrow> peer list" where
  "replicaPeers n k except r e =
     (case keyspaces e n of
        None \<Rightarrow> ReplicasExcept k except DefaultReplicationFactor r
      | Some ks \<Rightarrow> ReplicasExcept k except (EffectiveReplication (ks_cfg ks) (int (ring_Len r))) r)"

definition holdsReplica :: "bytes \<Rightarrow> bytes \<Rightarrow> engine \<Rightarrow> bool" where
  "holdsReplica n k e =
     (case ring_of e of
        None \<Rightarrow> True
      | Some (c, r) \<Rightarrow> IsReplica k (SelfID c) (EffectiveReplication (ks_config n e) (int (ring_Len r))) r)"

definition replicaFanout ::
    "bytes \<Rightarrow> bytes \<Rightarrow> bool \<Rightarrow> engine \<Rightarrow> (cluster \<times> ring \<times> fanoutPool \<times> peer list) option" where
  "replicaFanout n k force e =
     (case ring_of e of
        None \<Rightarrow> None
      | Some (c, r) \<Rightarrow>
          (case cFanout c of
             None \<Rightarrow> None
           | Some p \<Rightarrow>
               let elsewhere = (case Owner k r of None \<Rightarrow> False | Some q \<Rightarrow> pID q \<noteq> SelfID c)
               in Some (c, r, p, if \<not> force \<and> elsewhere then [] else replicaPeers n k (SelfID c) r e)))"

definition replicate :: "bytes \<Rightarrow> bytes \<Rightarrow> entry \<Rightarrow> bool \<Rightarrow> engine \<Rightarrow> engine" where
  "replicate n k ent force e =
     (case replicaFanout n k force e of
        None \<Rightarrow> e
      | Some (c, r, p, peers) \<Rightarrow>
          if peers = [] then e
          else e\<lparr>cluster := Some (c\<lparr>cFanout := Some (Submit peers n k ent (Generation r) p)\<rparr>)\<rparr>)"

definition replicateWait :: "env \<Rightarrow> bytes \<Rightarrow> bytes \<Rightarrow> entry \<Rightarrow> engine \<Rightarrow> engine_err option \<times> engine" where
  "replicateWait v n k ent e =
     (case replicaFanout n k True e of
        None \<Rightarrow> (None, e)
      | Some (c, r, p, peers) \<Rightarrow>
          if peers = [] then (None, e)
          else
            case fanout_Apply (eNet v) peers n k ent (Generation r) p of
              (fails, p') \<Rightarrow>
                (if fails = [] then None else Some (MultiError (map pID fails)),
                 e\<lparr>cluster := Some (c\<lparr>cFanout := Some p'\<rparr>)\<rparr>))"

definition recordHit :: "bytes \<Rightarrow> bytes \<Rightarrow> engine \<Rightarrow> engine" where
  "recordHit n k e = (case hitLog e of None \<Rightarrow> e | Some h \<Rightarrow> e\<lparr>hitLog := Some ((n, k) # h)\<rparr>)"

section \<open>Load-through\<close>

text \<open>The second half of \<open>storeNegative\<close>: mint a version and install the negative entry.\<close>

definition store_negative_mint :: "env \<Rightarrow> bytes \<Rightarrow> bytes \<Rightarrow> bool \<Rightarrow> engine \<Rightarrow> engine" where
  "store_negative_mint v n k allowFanout e =
     (case mint v n k 0 e of
        (ver, e1) \<Rightarrow>
          let ent = \<lparr>Value = [], Version = ver, ExpireAt = expireAt v (NegativeTTL (ks_config n e)),
                     Flags = FlagNegative\<rparr>
          in case store_op n (AcceptNegative (eNow v) k ent) e1 of
               (ok, e2) \<Rightarrow> if ok \<and> allowFanout then replicate n k ent False e2 else e2)"

definition storeNegative :: "env \<Rightarrow> bytes \<Rightarrow> bytes \<Rightarrow> bool \<Rightarrow> engine \<Rightarrow> engine" where
  "storeNegative v n k allowFanout e =
     (if NegativeTTL (ks_config n e) \<le> 0 then e
      else
        case store_op n (Peek (eNow v) k) e of
          (cur, e1) \<Rightarrow>
            (case cur of
               Some c \<Rightarrow> if \<not> IsNegative c then e1 else store_negative_mint v n k allowFanout e1
             | None \<Rightarrow> store_negative_mint v n k allowFanout e1))"

text \<open>The two guards of a load. \<open>ctxErr\<close> is the error of the load's context.\<close>

definition global_Allow :: "env \<Rightarrow> engine_err option \<Rightarrow> engine \<Rightarrow> bool \<times> engine" where
  "global_Allow v ctxErr e =
     (case global e of
        None \<Rightarrow> (True, e)
      | Some g \<Rightarrow>
          (case AllowContext ctxErr (eFp v) (eNow v) g of (x, g') \<Rightarrow> (x = None, e\<lparr>global := Some g'\<rparr>)))"

definition ks_Allow :: "env \<Rightarrow> engine_err option \<Rightarrow> bytes \<Rightarrow> engine \<Rightarrow> bool \<times> engine" where
  "ks_Allow v ctxErr n e =
     (case AllowContext ctxErr (eFp v) (eNow v) (ks_guard (ks_of n e)) of
        (x, g') \<Rightarrow> (x = None, upd_ks n (\<lambda>ks. ks\<lparr>ks_guard := g'\<rparr>) e))"

definition load_succeeded :: "bytes \<Rightarrow> engine \<Rightarrow> engine" where
  "load_succeeded n e =
     upd_ks n (\<lambda>ks. ks\<lparr>ks_guard := OnSuccess (ks_guard ks)\<rparr>) (e\<lparr>global := map_option OnSuccess (global e)\<rparr>)"

definition load_failed :: "env \<Rightarrow> bytes \<Rightarrow> engine \<Rightarrow> engine" where
  "load_failed v n e =
     upd_ks n (\<lambda>ks. ks\<lparr>ks_guard := OnFailure (eNow v) (ks_guard ks)\<rparr>)
       (e\<lparr>global := map_option (OnFailure (eNow v)) (global e)\<rparr>)"

text \<open>A live positive entry: \<open>ent, ok := ks.store.Get(key); ok && !ent.IsNegative()\<close>.\<close>

definition get_positive :: "env \<Rightarrow> bytes \<Rightarrow> bytes \<Rightarrow> engine \<Rightarrow> entry option \<times> engine" where
  "get_positive v n k e =
     (case store_op n (Get (eNow v) k) e of
        (r, e1) \<Rightarrow> (case r of Some x \<Rightarrow> if IsNegative x then None else Some x | None \<Rightarrow> None, e1))"

text \<open>The fill after a successful load.\<close>

definition load_fill :: "env \<Rightarrow> bytes \<Rightarrow> bytes \<Rightarrow> bytes \<Rightarrow> bool \<Rightarrow> engine \<Rightarrow> (engine_err + bytes) \<times> engine" where
  "load_fill v n k val allowFanout e =
     (case mint v n k 0 e of
        (ver, e1) \<Rightarrow>
          let ent = \<lparr>Value = val, Version = ver, ExpireAt = expireAt v (ksTTL (ks_config n e)), Flags = 0\<rparr>
          in case store_op n (AcceptIfNewer (eNow v) k ent) e1 of
               (ok, e2) \<Rightarrow>
                 if \<not> ok then
                   (case get_positive v n k e2 of
                      (Some cur, e3) \<Rightarrow> (Inr (Value cur), e3)
                    | (None, e3) \<Rightarrow> (Inr val, e3))
                 else (Inr val, if allowFanout then replicate n k ent False e2 else e2))"

definition loadThrough ::
    "env \<Rightarrow> engine_err option \<Rightarrow> bytes \<Rightarrow> bytes \<Rightarrow> bool \<Rightarrow> engine \<Rightarrow> (engine_err + bytes) \<times> engine" where
  "loadThrough v ctxErr n k allowFanout e =
     (case global_Allow v ctxErr e of
        (False, e1) \<Rightarrow> (Inl ErrUnavailable, e1)
      | (True, e1) \<Rightarrow>
     (case ks_Allow v ctxErr n e1 of
        (False, e2) \<Rightarrow> (Inl ErrUnavailable, e2)
      | (True, e2) \<Rightarrow>
     (case eLoad v n k of
        LoadNotFound \<Rightarrow>
          (case get_positive v n k (load_succeeded n (storeNegative v n k allowFanout e2)) of
             (Some ent, e3) \<Rightarrow> (Inr (Value ent), e3)
           | (None, e3) \<Rightarrow> (Inl ErrNotFound, e3))
      | LoadFailed \<Rightarrow> (Inl ErrBackend, load_failed v n e2)
      | Loaded val \<Rightarrow>
          let e3 = load_succeeded n e2 in
          case validateValueSize n val e3 of
            Some x \<Rightarrow> (Inl x, e3)
          | None \<Rightarrow>
              (case get_positive v n k e3 of
                 (Some ent, e4) \<Rightarrow> (Inr (Value ent), e4)
               | (None, e4) \<Rightarrow> load_fill v n k val allowFanout e4))))"

definition getViaCluster :: "env \<Rightarrow> bytes \<Rightarrow> bytes \<Rightarrow> engine \<Rightarrow> (engine_err + bytes) \<times> engine" where
  "getViaCluster v n k e =
     (case remoteOwner k e of
        None \<Rightarrow> loadThrough v None n k True e
      | Some (c, r, p) \<Rightarrow>
          if \<not> reachable_owner c p then loadThrough v None n k False e
          else
            case eGetOrLoad v (pAddr p) n k of
              Inl x \<Rightarrow> loadThrough v None n k False e
            | Inr res \<Rightarrow>
                let storeLocal = holdsReplica n k e; ent = gEntry res in
                if \<not> gFound res then
                  (Inl ErrNotFound,
                   if storeLocal then
                     if IsNegative ent \<or> 0 < Version ent then snd (store_op n (AcceptNegative (eNow v) k ent) e)
                     else storeNegative v n k False e
                   else e)
                else if IsNegative ent then
                  (Inl ErrNotFound, if storeLocal then snd (store_op n (AcceptNegative (eNow v) k ent) e) else e)
                else (Inr (Value ent), if storeLocal then snd (store_op n (AcceptIfNewer (eNow v) k ent) e) else e))"

definition fetchFromOwner :: "env \<Rightarrow> bytes \<Rightarrow> bytes \<Rightarrow> engine \<Rightarrow> (engine_err + bytes) \<times> engine" where
  "fetchFromOwner v n k e =
     (case remoteOwner k e of
        None \<Rightarrow> (Inl ErrNotFound, e)
      | Some (c, r, p) \<Rightarrow>
          if \<not> reachable_owner c p then (Inl ErrNotFound, e)
          else
            case eGetOrLoad v (pAddr p) n k of
              Inl x \<Rightarrow> (Inl ErrNotFound, e)
            | Inr res \<Rightarrow>
                if \<not> gFound res \<or> IsNegative (gEntry res) then (Inl ErrNotFound, e)
                else (Inr (Value (gEntry res)),
                      if holdsReplica n k e then snd (store_op n (AcceptIfNewer (eNow v) k (gEntry res)) e) else e))"

section \<open>Get\<close>

text \<open>The typed modes and the flag test of their entries; \<open>Get\<close> and \<open>Put\<close> refuse them.\<close>

definition mode_kind :: "mode \<Rightarrow> (entry \<Rightarrow> bool) option" where
  "mode_kind m =
     (case m of
        ModeBloom \<Rightarrow> Some IsBloom | ModeSet \<Rightarrow> Some IsSet | ModeZSet \<Rightarrow> Some IsZSet | ModeGeo \<Rightarrow> Some IsGeo
      | ModeList \<Rightarrow> Some IsList | ModeHash \<Rightarrow> Some IsHash | ModeCounter \<Rightarrow> Some IsCounter
      | ModeJSON \<Rightarrow> Some IsJSON | ModeBitmap \<Rightarrow> Some IsBitmap | ModeHLL \<Rightarrow> Some IsHLL | ModeTopK \<Rightarrow> Some IsTopK
      | ModeCMS \<Rightarrow> Some IsCMS | ModeVectorSet \<Rightarrow> Some IsVectorSet | ModeStream \<Rightarrow> Some IsStream
      | _ \<Rightarrow> None)"

definition typed_mode :: "mode \<Rightarrow> bool" where
  "typed_mode m \<longleftrightarrow> (case mode_kind m of None \<Rightarrow> False | Some f \<Rightarrow> True)"

text \<open>The function both flights of \<open>Get\<close> run: look again, then fetch or load with \<open>f\<close>.\<close>

definition get_flight ::
    "env \<Rightarrow> bytes \<Rightarrow> bytes \<Rightarrow> (engine \<Rightarrow> (engine_err + bytes) \<times> engine) \<Rightarrow> engine \<Rightarrow> (engine_err + bytes) \<times> engine" where
  "get_flight v n k f e =
     (case store_op n (Get (eNow v) k) e of
        (Some ent, e1) \<Rightarrow> (if IsNegative ent then Inl ErrNotFound else Inr (Value ent), e1)
      | (None, e1) \<Rightarrow> f e1)"

definition engine_Get :: "env \<Rightarrow> bytes \<Rightarrow> bytes \<Rightarrow> engine \<Rightarrow> (engine_err + bytes) \<times> engine" where
  "engine_Get v n k e =
     (case key_checks v n k e of
        Some x \<Rightarrow> (Inl x, e)
      | None \<Rightarrow>
          if typed_mode (ksMode (ks_config n e)) then (Inl ErrInvalidArgument, e)
          else
            case store_op n (Get (eNow v) k) e of
              (Some ent, e1) \<Rightarrow>
                if IsNegative ent then (Inl ErrNotFound, e1) else (Inr (Value ent), recordHit n k e1)
            | (None, e1) \<Rightarrow>
                if ksMode (ks_config n e) = ModeCacheOnly then
                  case ring_of e of
                    None \<Rightarrow> (Inl ErrNotFound, e1)
                  | Some (c, r) \<Rightarrow>
                      if \<not> cTransport c then (Inl ErrNotFound, e1)
                      else
                        case get_flight v n k (fetchFromOwner v n k) e1 of
                          (Inl x, e2) \<Rightarrow> (Inl x, e2)
                        | (Inr val, e2) \<Rightarrow> (case eCtxEnd v of Some x \<Rightarrow> Inl x | None \<Rightarrow> Inr val, e2)
                else
                  case get_flight v n k (getViaCluster v n k) e1 of
                    (Inl x, e2) \<Rightarrow> (Inl x, e2)
                  | (Inr val, e2) \<Rightarrow>
                      (case eCtxEnd v of Some x \<Rightarrow> (Inl x, e2) | None \<Rightarrow> (Inr val, recordHit n k e2)))"

text \<open>\<open>GetOrLoadLocal\<close> returns an entry and an error: a negative entry comes with
  \<open>ErrNotFound\<close> so that a peer can install it with the same version.\<close>

definition load_flight :: "env \<Rightarrow> bytes \<Rightarrow> bytes \<Rightarrow> engine \<Rightarrow> (entry option \<times> engine_err option) \<times> engine" where
  "load_flight v n k e =
     (case store_op n (Get (eNow v) k) e of
        (Some ent, e1) \<Rightarrow> ((Some ent, if IsNegative ent then Some ErrNotFound else None), e1)
      | (None, e1) \<Rightarrow>
     (case loadThrough v None n k True e1 of
        (Inl x, e2) \<Rightarrow>
          if x = ErrNotFound then
            (case store_op n (Get (eNow v) k) e2 of
               (Some ent, e3) \<Rightarrow> ((if IsNegative ent then Some ent else None, Some ErrNotFound), e3)
             | (None, e3) \<Rightarrow> ((None, Some ErrNotFound), e3))
          else ((None, Some x), e2)
      | (Inr val, e2) \<Rightarrow>
          (case get_positive v n k e2 of
             (Some ent, e3) \<Rightarrow> ((Some ent, None), e3)
           | (None, e3) \<Rightarrow> ((Some (zero_entry\<lparr>Value := val\<rparr>), None), e3))))"

definition GetOrLoadLocal :: "env \<Rightarrow> bytes \<Rightarrow> bytes \<Rightarrow> engine \<Rightarrow> (entry \<times> engine_err option) \<times> engine" where
  "GetOrLoadLocal v n k e =
     (case key_checks v n k e of
        Some x \<Rightarrow> ((zero_entry, Some x), e)
      | None \<Rightarrow>
          case mode_kind (ksMode (ks_config n e)) of
            Some kind \<Rightarrow>
              (case store_op n (Peek (eNow v) k) e of
                 (Some ent, e1) \<Rightarrow>
                   if IsTombstone ent \<or> \<not> kind ent then ((zero_entry, Some ErrNotFound), e1) else ((ent, None), e1)
               | (None, e1) \<Rightarrow> ((zero_entry, Some ErrNotFound), e1))
          | None \<Rightarrow>
              (case store_op n (Get (eNow v) k) e of
                 (Some ent, e1) \<Rightarrow> ((ent, if IsNegative ent then Some ErrNotFound else None), e1)
               | (None, e1) \<Rightarrow>
                   if ksMode (ks_config n e) = ModeCacheOnly then ((zero_entry, Some ErrNotFound), e1)
                   else
                     case load_flight v n k e1 of
                       ((ent, Some x), e2) \<Rightarrow>
                         (case ent of
                            Some en \<Rightarrow> if IsNegative en then ((en, Some x), e2) else ((zero_entry, Some x), e2)
                          | None \<Rightarrow>
                              if x = ErrNotFound then
                                (case store_op n (Get (eNow v) k) e2 of
                                   (Some en, e3) \<Rightarrow> ((if IsNegative en then en else zero_entry, Some ErrNotFound), e3)
                                 | (None, e3) \<Rightarrow> ((zero_entry, Some x), e3))
                              else ((zero_entry, Some x), e2))
                     | ((ent, None), e2) \<Rightarrow>
                         (case eCtxEnd v of
                            Some x \<Rightarrow> ((zero_entry, Some x), e2)
                          | None \<Rightarrow> ((case ent of Some en \<Rightarrow> en | None \<Rightarrow> zero_entry, None), e2))))"

section \<open>Put\<close>

text \<open>The TTL option of a put: \<open>None\<close> when \<open>WithTTL\<close> is not given.\<close>

type_synonym put_ttl = "int option"

definition ttlNanos :: "put_ttl \<Rightarrow> int" where
  "ttlNanos t = (case t of None \<Rightarrow> 0 | Some d \<Rightarrow> d)"

definition putLocalApply ::
    "env \<Rightarrow> bytes \<Rightarrow> bytes \<Rightarrow> bytes \<Rightarrow> bool \<Rightarrow> put_ttl \<Rightarrow> engine \<Rightarrow> engine_err option \<times> engine" where
  "putLocalApply v n k val forceFanout t e =
     (case eCtx v of
        Some x \<Rightarrow> (Some x, e)
      | None \<Rightarrow>
          let ttl = (case t of None \<Rightarrow> ksTTL (ks_config n e) | Some d \<Rightarrow> d) in
          case mint v n k 0 e of
            (ver, e1) \<Rightarrow>
              let ent = \<lparr>Value = val, Version = ver, ExpireAt = expireAt v ttl, Flags = 0\<rparr> in
              case store_op n (AcceptIfNewer (eNow v) k ent) e1 of
                (True, e2) \<Rightarrow> (None, replicate n k ent forceFanout e2)
              | (False, e2) \<Rightarrow>
                  (case store_op n (Peek (eNow v) k) e2 of
                     (cur, e3) \<Rightarrow>
                       let keep = (case cur of Some c \<Rightarrow> \<not> IsTombstone c \<and> ver \<le> Version c | None \<Rightarrow> False)
                       in if keep then (None, e3)
                          else
                            case store_op n (Peek (eNow v) k) e3 of
                              (cur, e4) \<Rightarrow>
                                let tomb = (case cur of Some c \<Rightarrow> IsTombstone c \<and> ver \<le> Version c | None \<Rightarrow> False)
                                in (if tomb then None else Some ErrInvalidArgument, e4)))"

definition maxForwardHops :: nat where "maxForwardHops = 1"

definition PutLocalAtHop ::
    "env \<Rightarrow> bytes \<Rightarrow> bytes \<Rightarrow> bytes \<Rightarrow> nat \<Rightarrow> put_ttl \<Rightarrow> engine \<Rightarrow> engine_err option \<times> engine" where
  "PutLocalAtHop v n k val hopCount t e =
     (case first_err [eCtx v, validateKey n k e, getKS n e, validateValueSize n val e, validateKeyLen n k e] of
        Some x \<Rightarrow> (Some x, e)
      | None \<Rightarrow>
          case remoteOwner k e of
            Some (c, r, p) \<Rightarrow>
              if reachable_owner c p \<and> hopCount < maxForwardHops \<and>
                 eForwardPut v (pAddr p) n k val (ttlNanos t) (t \<noteq> None) (hopCount + 1) = None
              then (None, e)
              else putLocalApply v n k val True t e
          | None \<Rightarrow> putLocalApply v n k val False t e)"

definition PutLocal :: "env \<Rightarrow> bytes \<Rightarrow> bytes \<Rightarrow> bytes \<Rightarrow> put_ttl \<Rightarrow> engine \<Rightarrow> engine_err option \<times> engine" where
  "PutLocal v n k val t e = PutLocalAtHop v n k val 0 t e"

definition putViaCluster :: "env \<Rightarrow> bytes \<Rightarrow> bytes \<Rightarrow> bytes \<Rightarrow> put_ttl \<Rightarrow> engine \<Rightarrow> engine_err option \<times> engine" where
  "putViaCluster v n k val t e =
     (case remoteOwner k e of
        None \<Rightarrow> PutLocal v n k val t e
      | Some (c, r, p) \<Rightarrow>
          if \<not> reachable_owner c p then (Some ErrUnavailable, e)
          else
            case getKS n e of
              Some x \<Rightarrow> (Some x, e)
            | None \<Rightarrow>
                (case eForwardPut v (pAddr p) n k val (ttlNanos t) (t \<noteq> None) 0 of
                   Some x \<Rightarrow> (Some ErrUnavailable, e)
                 | None \<Rightarrow> (None, e)))"

definition engine_Put :: "env \<Rightarrow> bytes \<Rightarrow> bytes \<Rightarrow> bytes \<Rightarrow> put_ttl \<Rightarrow> engine \<Rightarrow> engine_err option \<times> engine" where
  "engine_Put v n k val t e =
     (case keyspaces e n of
        Some ks \<Rightarrow>
          if typed_mode (ksMode (ks_cfg ks)) then (Some ErrInvalidArgument, e) else putViaCluster v n k val t e
      | None \<Rightarrow> putViaCluster v n k val t e)"

text \<open>The batches run every key and collect the errors; one error is returned as it is.\<close>

definition joinErrors :: "(bytes \<times> engine_err) list \<Rightarrow> engine_err option" where
  "joinErrors xs = (if xs = [] then None else Some (KeyErrors xs))"

fun many_loop ::
    "(bytes \<Rightarrow> 'a \<Rightarrow> engine \<Rightarrow> engine_err option \<times> engine) \<Rightarrow> (bytes \<times> 'a) list \<Rightarrow> engine \<Rightarrow>
     (bytes \<times> engine_err) list \<times> engine" where
  "many_loop f [] e = ([], e)"
| "many_loop f ((k, x) # kvs) e =
     (case f k x e of
        (r, e1) \<Rightarrow>
          (case many_loop f kvs e1 of
             (errs, e2) \<Rightarrow> (case r of Some y \<Rightarrow> (k, y) # errs | None \<Rightarrow> errs, e2)))"

definition PutMany :: "env \<Rightarrow> bytes \<Rightarrow> (bytes \<times> bytes) list \<Rightarrow> put_ttl \<Rightarrow> engine \<Rightarrow> engine_err option \<times> engine" where
  "PutMany v n kvs t e =
     (if maxBatch e < int (length kvs) then (Some ErrBatchTooLarge, e)
      else
        case many_loop (\<lambda>k val. engine_Put v n k val t) kvs e of
          (errs, e1) \<Rightarrow> (joinErrors errs, e1))"

section \<open>Delete\<close>

definition DeleteAsOwner :: "env \<Rightarrow> bytes \<Rightarrow> bytes \<Rightarrow> engine \<Rightarrow> engine_err option \<times> engine" where
  "DeleteAsOwner v n k e =
     (case key_checks v n k e of
        Some x \<Rightarrow> (Some x, e)
      | None \<Rightarrow>
          case mint v n k 0 e of
            (ver, e1) \<Rightarrow>
              let e2 = snd (store_op n (DeleteIfVersion (eNow v) k ver) e1)
              in replicateWait v n k \<lparr>Value = [], Version = ver, ExpireAt = 0, Flags = FlagTombstone\<rparr> e2)"

definition deleteViaCluster :: "env \<Rightarrow> bytes \<Rightarrow> bytes \<Rightarrow> engine \<Rightarrow> engine_err option \<times> engine" where
  "deleteViaCluster v n k e =
     (case remoteOwner k e of
        None \<Rightarrow> DeleteAsOwner v n k e
      | Some (c, r, p) \<Rightarrow>
          if \<not> reachable_owner c p then DeleteAsOwner v n k e
          else
            case eForwardDelete v (pAddr p) n k of
              Inl x \<Rightarrow> DeleteAsOwner v n k e
            | Inr fails \<Rightarrow> (if fails = [] then None else Some (MultiError fails), e))"

definition engine_Delete :: "env \<Rightarrow> bytes \<Rightarrow> bytes \<Rightarrow> engine \<Rightarrow> engine_err option \<times> engine" where
  "engine_Delete v n k e = deleteViaCluster v n k e"

definition DeleteMany :: "env \<Rightarrow> bytes \<Rightarrow> bytes list \<Rightarrow> engine \<Rightarrow> engine_err option \<times> engine" where
  "DeleteMany v n ks e =
     (if maxBatch e < int (length ks) then (Some ErrBatchTooLarge, e)
      else
        case many_loop (\<lambda>k u. engine_Delete v n k) (map (\<lambda>k. (k, ())) ks) e of
          (errs, e1) \<Rightarrow> (joinErrors errs, e1))"

section \<open>Refresh, diagnostics\<close>

definition ForceLoad :: "env \<Rightarrow> bytes \<Rightarrow> bytes \<Rightarrow> engine \<Rightarrow> engine_err option \<times> engine" where
  "ForceLoad v n k e =
     (case key_checks v n k e of
        Some x \<Rightarrow> (Some x, e)
      | None \<Rightarrow>
          if ksMode (ks_config n e) \<noteq> ModeLoadThrough then
            (case engine_Get v n k e of (r, e1) \<Rightarrow> (case r of Inl x \<Rightarrow> Some x | Inr y \<Rightarrow> None, e1))
          else
            case remoteOwner k e of
              Some o' \<Rightarrow> (None, e)
            | None \<Rightarrow>
                (case loadThrough v (eCtx v) n k True e of
                   (r, e1) \<Rightarrow> (case r of Inl x \<Rightarrow> Some x | Inr y \<Rightarrow> None, e1)))"

definition HasLocal :: "env \<Rightarrow> bytes \<Rightarrow> bytes \<Rightarrow> engine \<Rightarrow> bool \<times> engine" where
  "HasLocal v n k e =
     (case keyspaces e n of
        None \<Rightarrow> (False, e)
      | Some ks \<Rightarrow>
          (case store_op n (Peek (eNow v) k) e of
             (r, e1) \<Rightarrow> (case r of Some ent \<Rightarrow> \<not> IsTombstone ent \<and> \<not> IsNegative ent | None \<Rightarrow> False, e1)))"

datatype localKind = LocalMissing | LocalLive | LocalTombstone | LocalNegative

record localView =
  lKind :: localKind
  lVersion :: u64
  lFlags :: u64
  lBytes :: nat

definition LocalView :: "env \<Rightarrow> bytes \<Rightarrow> bytes \<Rightarrow> engine \<Rightarrow> localView \<times> engine" where
  "LocalView v n k e =
     (let missing = \<lparr>lKind = LocalMissing, lVersion = 0, lFlags = 0, lBytes = 0\<rparr> in
      case keyspaces e n of
        None \<Rightarrow> (missing, e)
      | Some ks \<Rightarrow>
          (case store_op n (Peek (eNow v) k) e of
             (None, e1) \<Rightarrow> (missing, e1)
           | (Some ent, e1) \<Rightarrow>
               (\<lparr>lKind = (if IsTombstone ent then LocalTombstone else if IsNegative ent then LocalNegative else LocalLive),
                 lVersion = Version ent, lFlags = Flags ent, lBytes = length (Value ent)\<rparr>, e1)))"

definition FanoutStats :: "engine \<Rightarrow> nat \<times> nat" where
  "FanoutStats e =
     (case cluster e of
        None \<Rightarrow> (0, 0)
      | Some c \<Rightarrow>
          if \<not> cTransport c then (0, 0)
          else (case cFanout c of None \<Rightarrow> (0, 0) | Some p \<Rightarrow> (FanoutErrors p, FanoutDropped p)))"

definition engine_Stats :: "bytes \<Rightarrow> engine \<Rightarrow> engine_err + stats" where
  "engine_Stats n e =
     (case keyspaces e n of None \<Rightarrow> Inl ErrKeyspaceNotFound | Some ks \<Rightarrow> Inr (Stats (ks_store ks)))"

definition Ready :: "engine \<Rightarrow> bool" where
  "Ready e \<longleftrightarrow> \<not> e_closed e"

definition BloomDump :: "env \<Rightarrow> bytes \<Rightarrow> bytes \<Rightarrow> engine \<Rightarrow> (bytes option \<times> int \<times> int) \<times> engine" where
  "BloomDump v n k e =
     (case keyspaces e n of
        None \<Rightarrow> ((None, 0, 0), e)
      | Some ks \<Rightarrow>
          (case store_op n (Peek (eNow v) k) e of
             (r, e1) \<Rightarrow>
               ((case r of Some ent \<Rightarrow> if IsTombstone ent \<or> \<not> IsBloom ent then None else Some (Value ent) | None \<Rightarrow> None,
                 EffectiveBloomBits (ks_cfg ks), EffectiveBloomHashes (ks_cfg ks)), e1)))"

text \<open>The entries a handoff sends: the keys come in map order.\<close>

definition LocalEntries :: "env \<Rightarrow> bytes \<Rightarrow> engine \<Rightarrow> (bytes \<times> entry) list \<times> engine" where
  "LocalEntries v n e =
     (case keyspaces e n of
        None \<Rightarrow> ([], e)
      | Some ks \<Rightarrow> store_op n (RangeAll (eNow v) (eOrd v) (\<lambda>k ent. True)) e)"

definition ReplicateToPeers :: "bytes \<Rightarrow> bytes \<Rightarrow> entry \<Rightarrow> engine \<Rightarrow> engine" where
  "ReplicateToPeers n k ent e = replicate n k ent True e"

end
