(* ===== verification/EngineHost.thy ===== *)
theory EngineHost
  imports EngineCore
begin

text \<open>
  What the mode packages \<open>pkg/*/eng\<close> need from the engine (\<open>pkg/engine/modehost.go\<close>) and the
  steps they share: the version gate of the modes that replicate snapshots, the snapshot
  fan-out, the fetch of a missing name from its owner, and the routing of writes. A mode
  package is written once per data type in the source with the same text; the shared steps
  are one definition here, with the flag test and the store operation as arguments.
\<close>

section \<open>The mode host\<close>

definition host_ExpireAt :: "env \<Rightarrow> bytes \<Rightarrow> engine \<Rightarrow> time" where
  "host_ExpireAt v n e = expireAt v (ksTTL (ks_config n e))"

text \<open>\<open>if expireAt == 0 { expireAt = h.ExpireAt() }\<close>\<close>

definition or_ExpireAt :: "env \<Rightarrow> bytes \<Rightarrow> time \<Rightarrow> engine \<Rightarrow> time" where
  "or_ExpireAt v n ex e = (if ex = 0 then host_ExpireAt v n e else ex)"

definition host_Replicate :: "bytes \<Rightarrow> bytes \<Rightarrow> entry \<Rightarrow> engine \<Rightarrow> engine" where
  "host_Replicate n k ent e = replicate n k ent False e"

text \<open>The address of the owner and whether it is this node.\<close>

definition host_Owner :: "bytes \<Rightarrow> engine \<Rightarrow> (bytes \<times> bool) option" where
  "host_Owner k e =
     (case ring_of e of
        None \<Rightarrow> None
      | Some (c, r) \<Rightarrow>
          (case Owner k r of
             None \<Rightarrow> None
           | Some p \<Rightarrow> if pID p = [] then None else Some (pAddr p, pID p = SelfID c)))"

definition host_GetOrLoad :: "env \<Rightarrow> bytes \<Rightarrow> bytes \<Rightarrow> bytes \<Rightarrow> engine \<Rightarrow> entry option" where
  "host_GetOrLoad v addr n k e =
     (case cluster e of
        None \<Rightarrow> None
      | Some c \<Rightarrow>
          if \<not> cTransport c then None
          else (case eGetOrLoad v addr n k of
                  Inl x \<Rightarrow> None
                | Inr res \<Rightarrow> if gFound res then Some (gEntry res) else None))"

definition host_HoldsReplica :: "bytes \<Rightarrow> bytes \<Rightarrow> engine \<Rightarrow> bool" where
  "host_HoldsReplica n k e = (case cluster e of None \<Rightarrow> False | Some c \<Rightarrow> holdsReplica n k e)"

definition peek_version :: "env \<Rightarrow> bytes \<Rightarrow> bytes \<Rightarrow> engine \<Rightarrow> u64 \<times> engine" where
  "peek_version v n k e =
     (case store_op n (PeekVersion (eNow v) k) e of (r, e1) \<Rightarrow> (case r of Some x \<Rightarrow> x | None \<Rightarrow> 0, e1))"

definition host_NextVersion :: "env \<Rightarrow> bytes \<Rightarrow> bytes \<Rightarrow> engine \<Rightarrow> u64 \<times> engine" where
  "host_NextVersion v n k e =
     (case store_op n (PeekVersion (eNow v) k) e of
        (Some ver, e1) \<Rightarrow> mint v n k ver e1
      | (None, e1) \<Rightarrow> mint v n k 0 e1)"

definition HasBloom :: "env \<Rightarrow> bytes \<Rightarrow> bytes \<Rightarrow> engine \<Rightarrow> bool \<times> engine" where
  "HasBloom v n k e =
     (case store_op n (Peek (eNow v) k) e of
        (r, e1) \<Rightarrow> (case r of Some ent \<Rightarrow> IsBloom ent \<and> \<not> IsTombstone ent | None \<Rightarrow> False, e1))"

section \<open>Shared steps of the mode packages\<close>

text \<open>An install on behalf of a peer: \<open>ApplyInstall\<close>.\<close>

type_synonym installer = "time \<Rightarrow> bytes \<Rightarrow> bytes \<Rightarrow> u64 \<Rightarrow> time \<Rightarrow> memory \<Rightarrow> bool \<times> memory"

definition host_ApplyInstall ::
    "installer \<Rightarrow> env \<Rightarrow> bytes \<Rightarrow> bytes \<Rightarrow> bytes \<Rightarrow> u64 \<Rightarrow> time \<Rightarrow> engine \<Rightarrow> bool \<times> engine" where
  "host_ApplyInstall install v n k blob ver ex e =
     store_op n (install (eNow v) k blob ver (or_ExpireAt v n ex e)) e"

text \<open>\<open>FetchOwner\<close>: ask the owner for a missing name; a replica keeps the snapshot. The test
  \<open>valid\<close> is the decoding some modes try first.\<close>

definition host_FetchOwner ::
    "(entry \<Rightarrow> bool) \<Rightarrow> (bytes \<Rightarrow> bool) \<Rightarrow> installer \<Rightarrow> env \<Rightarrow> bytes \<Rightarrow> bytes \<Rightarrow> engine \<Rightarrow> entry option \<times> engine" where
  "host_FetchOwner kind valid install v n k e =
     (case host_Owner k e of
        None \<Rightarrow> (None, e)
      | Some (addr, isSelf) \<Rightarrow>
          if isSelf \<or> addr = [] then (None, e)
          else
            case host_GetOrLoad v addr n k e of
              None \<Rightarrow> (None, e)
            | Some ent \<Rightarrow>
                if \<not> kind ent \<or> \<not> valid (Value ent) then (None, e)
                else (Some ent,
                      if host_HoldsReplica n k e
                      then snd (store_op n (install (eNow v) k (Value ent) (Version ent) (ExpireAt ent)) e)
                      else e))"

text \<open>The older form of the same step inside the engine package (\<open>hFetchOwner\<close>,
  \<open>zFetchOwner\<close>, \<open>gFetchOwner\<close>, \<open>bFetchOwner\<close>, \<open>jFetchOwner\<close>, \<open>hllFetchOwner\<close>,
  \<open>topkFetchOwner\<close>).\<close>

definition engine_FetchOwner ::
    "(entry \<Rightarrow> bool) \<Rightarrow> (bytes \<Rightarrow> bool) \<Rightarrow> installer \<Rightarrow> env \<Rightarrow> bytes \<Rightarrow> bytes \<Rightarrow> engine \<Rightarrow> entry option \<times> engine" where
  "engine_FetchOwner kind valid install v n k e =
     (case remoteOwner k e of
        None \<Rightarrow> (None, e)
      | Some (c, r, p) \<Rightarrow>
          if \<not> reachable_owner c p then (None, e)
          else
            case eGetOrLoad v (pAddr p) n k of
              Inl x \<Rightarrow> (None, e)
            | Inr res \<Rightarrow>
                if \<not> gFound res \<or> \<not> kind (gEntry res) \<or> \<not> valid (Value (gEntry res)) then (None, e)
                else (Some (gEntry res),
                      if holdsReplica n k e
                      then snd (store_op n (install (eNow v) k (Value (gEntry res)) (Version (gEntry res))
                                                            (ExpireAt (gEntry res))) e)
                      else e))"

text \<open>\<open>ReplicateSnapshot\<close>.\<close>

type_synonym replicator = "env \<Rightarrow> bytes \<Rightarrow> bytes \<Rightarrow> u64 \<Rightarrow> time \<Rightarrow> engine \<Rightarrow> engine"

definition host_ReplicateSnapshot ::
    "(entry \<Rightarrow> bool) \<Rightarrow> u64 \<Rightarrow> replicator" where
  "host_ReplicateSnapshot kind flag v n k ver expire e =
     (case store_op n (Peek (eNow v) k) e of
        (Some ent, e1) \<Rightarrow>
          if kind ent
          then host_Replicate n k \<lparr>Value = Value ent, Version = ver, ExpireAt = expire, Flags = flag\<rparr> e1
          else e1
      | (None, e1) \<Rightarrow> e1)"

text \<open>\<open>ver, _ := PeekVersion(name); ObserveVersion(name, ver); ReplicateSnapshot(...)\<close>\<close>

definition snapshot_done :: "replicator \<Rightarrow> env \<Rightarrow> bytes \<Rightarrow> bytes \<Rightarrow> time \<Rightarrow> engine \<Rightarrow> engine" where
  "snapshot_done rep v n k expire e =
     (case peek_version v n k e of (ver, e1) \<Rightarrow> rep v n k ver expire (observe_ver v n k ver e1))"

text \<open>A local write of a snapshot mode: the store operation \<open>f\<close> gets the version gate and
  answers \<open>(applied, tooLarge)\<close>.\<close>

definition snapshot_write ::
    "replicator \<Rightarrow> (u64 \<Rightarrow> memory \<Rightarrow> (bool \<times> bool) \<times> memory) \<Rightarrow> env \<Rightarrow> bytes \<Rightarrow> bytes \<Rightarrow> time \<Rightarrow>
     engine \<Rightarrow> (bool \<times> bool) \<times> engine" where
  "snapshot_write rep f v n k expire e =
     (case peek_version v n k e of
        (cur, e1) \<Rightarrow>
          (case store_op n (f (cur + 1)) e1 of
             ((applied, tooLarge), e2) \<Rightarrow>
               ((applied, tooLarge),
                if tooLarge \<or> \<not> applied then e2 else snapshot_done rep v n k expire e2)))"

text \<open>The error of a local write: \<open>ErrTooLarge\<close> becomes \<open>ErrValueTooLarge\<close>, \<open>ErrRejected\<close>
  an invalid argument.\<close>

definition write_err :: "bool \<times> bool \<Rightarrow> engine_err option" where
  "write_err r = (if snd r then Some ErrValueTooLarge else if \<not> fst r then Some ErrInvalidArgument else None)"

definition reject_err :: "bool \<Rightarrow> engine_err option" where
  "reject_err ok = (if ok then None else Some ErrInvalidArgument)"

section \<open>Routing\<close>

text \<open>A write goes to the owner when that is another node.\<close>

definition route_write ::
    "bytes \<Rightarrow> (peer \<Rightarrow> ring \<Rightarrow> engine_err option) \<Rightarrow> (engine \<Rightarrow> engine_err option \<times> engine) \<Rightarrow> engine \<Rightarrow>
     engine_err option \<times> engine" where
  "route_write k remote here e =
     (case remoteOwner k e of
        Some (c, r, p) \<Rightarrow> (if reachable_owner c p then remote p r else Some ErrUnavailable, e)
      | None \<Rightarrow> here e)"

text \<open>The message to the owner. The operation modes ignore \<open>applied\<close>; the snapshot modes
  turn a refusal into an invalid argument.\<close>

definition mut_via_owner :: "env \<Rightarrow> bytes \<Rightarrow> bytes \<Rightarrow> bytes \<Rightarrow> u64 \<Rightarrow> peer \<Rightarrow> ring \<Rightarrow> engine_err option" where
  "mut_via_owner v n k val flag p r =
     (case eApplyPut v (pAddr p) n k \<lparr>Value = val, Version = 1, ExpireAt = 0, Flags = flag\<rparr> (Generation r) of
        Inl x \<Rightarrow> Some x
      | Inr applied \<Rightarrow> None)"

definition inbox_via_owner :: "env \<Rightarrow> bytes \<Rightarrow> bytes \<Rightarrow> bytes \<Rightarrow> u64 \<Rightarrow> u64 \<Rightarrow> peer \<Rightarrow> ring \<Rightarrow> engine_err option" where
  "inbox_via_owner v n k val flag ver p r =
     (case eApplyPut v (pAddr p) n k \<lparr>Value = val, Version = ver, ExpireAt = 0, Flags = flag\<rparr> (Generation r) of
        Inl x \<Rightarrow> Some x
      | Inr applied \<Rightarrow> reject_err applied)"

text \<open>A read of mode \<open>md\<close>: the checks, the local answer when the name is here, else the
  answer from the owner's snapshot. \<open>none\<close> is the answer for a missing name.\<close>

definition mode_checks :: "env \<Rightarrow> bytes \<Rightarrow> bytes \<Rightarrow> mode \<Rightarrow> engine \<Rightarrow> engine_err option" where
  "mode_checks v n k md e =
     first_err [eCtx v, validateKey n k e, getKS n e,
       check (ksMode (ks_config n e) \<noteq> md) ErrInvalidArgument, validateKeyLen n k e]"

definition read_or_fetch ::
    "(time \<Rightarrow> bytes \<Rightarrow> memory \<Rightarrow> bool \<times> memory) \<Rightarrow> (memory \<Rightarrow> 'a \<times> memory) \<Rightarrow>
     (engine \<Rightarrow> entry option \<times> engine) \<Rightarrow> (bytes \<Rightarrow> 'a) \<Rightarrow> 'a \<Rightarrow> env \<Rightarrow> bytes \<Rightarrow> bytes \<Rightarrow> engine \<Rightarrow> 'a \<times> engine" where
  "read_or_fetch hasLocal local fetch fromBlob none v n k e =
     (case store_op n (hasLocal (eNow v) k) e of
        (True, e1) \<Rightarrow> store_op n local e1
      | (False, e1) \<Rightarrow>
          (case fetch e1 of
             (None, e2) \<Rightarrow> (none, e2)
           | (Some ent, e2) \<Rightarrow> (fromBlob (Value ent), e2)))"

definition checked :: "engine_err option \<Rightarrow> (engine \<Rightarrow> 'a \<times> engine) \<Rightarrow> engine \<Rightarrow> (engine_err + 'a) \<times> engine" where
  "checked c f e = (case c of Some x \<Rightarrow> (Inl x, e) | None \<Rightarrow> (case f e of (r, e1) \<Rightarrow> (Inr r, e1)))"

definition checked_write ::
    "engine_err option \<Rightarrow> (engine \<Rightarrow> engine_err option \<times> engine) \<Rightarrow> engine \<Rightarrow> engine_err option \<times> engine" where
  "checked_write c f e = (case c of Some x \<Rightarrow> (Some x, e) | None \<Rightarrow> f e)"

section \<open>The two forms of the fetch agree\<close>

lemma FetchOwner_equiv: "engine_FetchOwner kind valid install v n k e = host_FetchOwner kind valid install v n k e"
proof (cases "ring_of e")
  case None
  then show ?thesis by (simp add: engine_FetchOwner_def host_FetchOwner_def remoteOwner_def host_Owner_def)
next
  case (Some cr)
  obtain c r where cr: "cr = (c, r)" by (cases cr)
  have c: "cluster e = Some c" using Some cr by (auto simp: ring_of_def split: option.splits)
  show ?thesis
    using Some cr c
    by (auto simp: engine_FetchOwner_def host_FetchOwner_def remoteOwner_def host_Owner_def host_GetOrLoad_def
        host_HoldsReplica_def reachable_owner_def split: option.splits sum.splits)
qed

end
