(* ===== verification/EngineContainers.thy ===== *)
theory EngineContainers
  imports EngineHost StoreSet StoreZSet StoreGeo StoreHash StoreBloom
begin

text \<open>
  The engine operations of the modes that replicate operations: Bloom filters, sets, sorted
  sets, geo indexes and hashes (\<open>pkg/engine/bloom.go\<close>, \<open>set.go\<close>, \<open>zset.go\<close>, \<open>geo.go\<close>,
  \<open>hash.go\<close> with their \<open>_cluster.go\<close> parts, and \<open>pkg/*/eng/local.go\<close>). The owner mints a
  version, applies the operation to its store and sends the operation to the replicas.
\<close>

section \<open>Shared steps\<close>

definition op_add ::
    "(u64 \<Rightarrow> time \<Rightarrow> memory \<Rightarrow> bool \<times> memory) \<Rightarrow> bytes \<Rightarrow> u64 \<Rightarrow> env \<Rightarrow> bytes \<Rightarrow> bytes \<Rightarrow> bool \<Rightarrow> engine \<Rightarrow>
     bool \<times> engine" where
  "op_add f payload flag v n k fanout e =
     (case host_NextVersion v n k e of
        (ver, e1) \<Rightarrow>
          let ex = host_ExpireAt v n e1 in
          case store_op n (f ver ex) e1 of
            (False, e2) \<Rightarrow> (False, e2)
          | (True, e2) \<Rightarrow>
              (True,
               if fanout then host_Replicate n k \<lparr>Value = payload, Version = ver, ExpireAt = ex, Flags = flag\<rparr> e2
               else e2))"

text \<open>A removal that the store refuses is an error only when the name is there.\<close>

definition op_remove ::
    "(u64 \<Rightarrow> time \<Rightarrow> memory \<Rightarrow> bool \<times> memory) \<Rightarrow> (time \<Rightarrow> bytes \<Rightarrow> memory \<Rightarrow> bool \<times> memory) \<Rightarrow> bytes \<Rightarrow> u64 \<Rightarrow>
     env \<Rightarrow> bytes \<Rightarrow> bytes \<Rightarrow> bool \<Rightarrow> engine \<Rightarrow> bool \<times> engine" where
  "op_remove f hasLocal payload flag v n k fanout e =
     (case host_NextVersion v n k e of
        (ver, e1) \<Rightarrow>
          let ex = host_ExpireAt v n e1 in
          case store_op n (f ver ex) e1 of
            (False, e2) \<Rightarrow> (case store_op n (hasLocal (eNow v) k) e2 of (h, e3) \<Rightarrow> (\<not> h, e3))
          | (True, e2) \<Rightarrow>
              (True,
               if fanout then host_Replicate n k \<lparr>Value = payload, Version = ver, ExpireAt = ex, Flags = flag\<rparr> e2
               else e2))"

definition op_result :: "bool \<times> engine \<Rightarrow> engine_err option \<times> engine" where
  "op_result r = (reject_err (fst r), snd r)"

definition item_checks :: "env \<Rightarrow> bytes \<Rightarrow> bytes \<Rightarrow> mode \<Rightarrow> bytes \<Rightarrow> bool \<Rightarrow> engine \<Rightarrow> engine_err option" where
  "item_checks v n k md item bad e =
     first_err [eCtx v, validateKey n k e, check (item = []) ErrInvalidArgument, check bad ErrInvalidArgument,
       getKS n e, check (ksMode (ks_config n e) \<noteq> md) ErrInvalidArgument, validateKeyLen n k e,
       check (maxKeyLen e < int (length item)) ErrKeyTooLarge]"

section \<open>Bloom filters\<close>

definition bloom_AddLocal :: "env \<Rightarrow> bytes \<Rightarrow> bytes \<Rightarrow> bytes \<Rightarrow> bool \<Rightarrow> engine \<Rightarrow> bool \<times> engine" where
  "bloom_AddLocal v n k item fanout e =
     (case (case store_op n (Peek (eNow v) k) e of
              (None, e1) \<Rightarrow> (1, e1)
            | (Some cur, e1) \<Rightarrow>
                (case host_NextVersion v n k e1 of
                   (ver, e2) \<Rightarrow> (if IsBloom cur \<and> \<not> IsTombstone cur then Version cur else ver, e2))) of
        (ver, e3) \<Rightarrow>
          let ex = host_ExpireAt v n e3; mb = EffectiveBloomBits (ks_config n e3);
              kh = EffectiveBloomHashes (ks_config n e3) in
          case store_op n (BloomAdd (eNow v) k item mb kh ver ex) e3 of
            (False, e4) \<Rightarrow> (False, e4)
          | (True, e4) \<Rightarrow>
              (True,
               if fanout
               then host_Replicate n k \<lparr>Value = item, Version = ver, ExpireAt = ex, Flags = FlagBloomAdd\<rparr> e4
               else e4))"

definition bloom_ApplyAdd :: "env \<Rightarrow> bytes \<Rightarrow> bytes \<Rightarrow> bytes \<Rightarrow> u64 \<Rightarrow> time \<Rightarrow> engine \<Rightarrow> bool \<times> engine" where
  "bloom_ApplyAdd v n k item ver ex e =
     store_op n (BloomAdd (eNow v) k item (EffectiveBloomBits (ks_config n e)) (EffectiveBloomHashes (ks_config n e))
       ver (or_ExpireAt v n ex e)) e"

definition bloom_ApplyMerge :: "env \<Rightarrow> bytes \<Rightarrow> bytes \<Rightarrow> bytes \<Rightarrow> u64 \<Rightarrow> time \<Rightarrow> engine \<Rightarrow> bool \<times> engine" where
  "bloom_ApplyMerge v n k bs ver ex e =
     store_op n (BloomMerge (eNow v) k bs (EffectiveBloomBits (ks_config n e)) (EffectiveBloomHashes (ks_config n e))
       ver (or_ExpireAt v n ex e)) e"

definition bloomAddViaOwner :: "env \<Rightarrow> bytes \<Rightarrow> bytes \<Rightarrow> bytes \<Rightarrow> peer \<Rightarrow> ring \<Rightarrow> engine_err option" where
  "bloomAddViaOwner v n k item p r = mut_via_owner v n k item FlagBloomAdd p r"

definition engine_BloomAdd :: "env \<Rightarrow> bytes \<Rightarrow> bytes \<Rightarrow> bytes \<Rightarrow> engine \<Rightarrow> engine_err option \<times> engine" where
  "engine_BloomAdd v n k item e =
     checked_write (item_checks v n k ModeBloom item False e)
       (route_write k (bloomAddViaOwner v n k item) (op_result \<circ> bloom_AddLocal v n k item True)) e"

definition engine_BloomTest :: "env \<Rightarrow> bytes \<Rightarrow> bytes \<Rightarrow> bytes \<Rightarrow> engine \<Rightarrow> (engine_err + bool) \<times> engine" where
  "engine_BloomTest v n k item e =
     checked (mode_checks v n k ModeBloom e)
       (\<lambda>e.
          let mb = EffectiveBloomBits (ks_config n e); kh = EffectiveBloomHashes (ks_config n e) in
          case store_op n (BloomTest (eNow v) k item mb kh) e of
            (True, e1) \<Rightarrow> (True, e1)
          | (False, e1) \<Rightarrow>
              (case HasBloom v n k e1 of
                 (True, e2) \<Rightarrow> (False, e2)
               | (False, e2) \<Rightarrow>
                   (case remoteOwner k e2 of
                      None \<Rightarrow> (False, e2)
                    | Some (c, r, p) \<Rightarrow>
                        if \<not> reachable_owner c p then (False, e2)
                        else
                          case eGetOrLoad v (pAddr p) n k of
                            Inl x \<Rightarrow> (False, e2)
                          | Inr res \<Rightarrow>
                              if \<not> gFound res \<or> \<not> IsBloom (gEntry res) then (False, e2)
                              else (case bloom_Open mb kh (Value (gEntry res)) of
                                      None \<Rightarrow> (False, e2)
                                    | Some f \<Rightarrow> (bloom_Test f item, e2))))) e"

definition ApplyBloomMerge :: "env \<Rightarrow> bytes \<Rightarrow> bytes \<Rightarrow> bytes \<Rightarrow> u64 \<Rightarrow> engine \<Rightarrow> (engine_err + bool) \<times> engine" where
  "ApplyBloomMerge v n k bs ver e =
     checked (first_err [validateKey n k e, getKS n e])
       (\<lambda>e. bloom_ApplyMerge v n k bs ver 0 (observe_ver v n k ver e)) e"

section \<open>Sets\<close>

definition set_AddLocal :: "env \<Rightarrow> bytes \<Rightarrow> bytes \<Rightarrow> bytes \<Rightarrow> bool \<Rightarrow> engine \<Rightarrow> bool \<times> engine" where
  "set_AddLocal v n k item fanout e = op_add (SetAdd (eNow v) k item) item FlagSetAdd v n k fanout e"

definition set_RemoveLocal :: "env \<Rightarrow> bytes \<Rightarrow> bytes \<Rightarrow> bytes \<Rightarrow> bool \<Rightarrow> engine \<Rightarrow> bool \<times> engine" where
  "set_RemoveLocal v n k item fanout e = op_remove (SetRemove (eNow v) k item) HasSet item FlagSetRemove v n k fanout e"

definition set_ApplyAdd :: "env \<Rightarrow> bytes \<Rightarrow> bytes \<Rightarrow> bytes \<Rightarrow> u64 \<Rightarrow> time \<Rightarrow> engine \<Rightarrow> bool \<times> engine" where
  "set_ApplyAdd v n k item ver ex e = store_op n (SetAdd (eNow v) k item ver (or_ExpireAt v n ex e)) e"

definition set_ApplyRemove :: "env \<Rightarrow> bytes \<Rightarrow> bytes \<Rightarrow> bytes \<Rightarrow> u64 \<Rightarrow> time \<Rightarrow> engine \<Rightarrow> bool \<times> engine" where
  "set_ApplyRemove v n k item ver ex e = store_op n (SetRemove (eNow v) k item ver (or_ExpireAt v n ex e)) e"

definition set_ApplyInstall :: "env \<Rightarrow> bytes \<Rightarrow> bytes \<Rightarrow> bytes \<Rightarrow> u64 \<Rightarrow> time \<Rightarrow> engine \<Rightarrow> bool \<times> engine" where
  "set_ApplyInstall v n k blob ver ex e = host_ApplyInstall SetInstall v n k blob ver ex e"

definition ContainsBlob :: "bytes \<Rightarrow> bytes \<Rightarrow> bool" where
  "ContainsBlob item blob = (case set_DecodeSet blob of Inl x \<Rightarrow> False | Inr s \<Rightarrow> set_Contains s item)"

definition CardBlob :: "bytes \<Rightarrow> nat" where
  "CardBlob blob = (case set_DecodeSet blob of Inl x \<Rightarrow> 0 | Inr s \<Rightarrow> set_Len s)"

definition MembersBlob :: "bytes \<Rightarrow> bytes list" where
  "MembersBlob blob = (case set_DecodeSet blob of Inl x \<Rightarrow> [] | Inr s \<Rightarrow> set_Members s)"

definition set_FetchOwner :: "env \<Rightarrow> bytes \<Rightarrow> bytes \<Rightarrow> engine \<Rightarrow> entry option \<times> engine" where
  "set_FetchOwner v n k e = host_FetchOwner IsSet (\<lambda>b. True) SetInstall v n k e"

definition setMutViaOwner :: "env \<Rightarrow> bytes \<Rightarrow> bytes \<Rightarrow> bytes \<Rightarrow> u64 \<Rightarrow> peer \<Rightarrow> ring \<Rightarrow> engine_err option" where
  "setMutViaOwner v n k val flag p r = mut_via_owner v n k val flag p r"

definition engine_SetAdd :: "env \<Rightarrow> bytes \<Rightarrow> bytes \<Rightarrow> bytes \<Rightarrow> engine \<Rightarrow> engine_err option \<times> engine" where
  "engine_SetAdd v n k item e =
     checked_write (item_checks v n k ModeSet item False e)
       (route_write k (setMutViaOwner v n k item FlagSetAdd) (op_result \<circ> set_AddLocal v n k item True)) e"

definition engine_SetRemove :: "env \<Rightarrow> bytes \<Rightarrow> bytes \<Rightarrow> bytes \<Rightarrow> engine \<Rightarrow> engine_err option \<times> engine" where
  "engine_SetRemove v n k item e =
     checked_write (item_checks v n k ModeSet item False e)
       (route_write k (setMutViaOwner v n k item FlagSetRemove) (op_result \<circ> set_RemoveLocal v n k item True)) e"

text \<open>The tail of the three reads: ask the owner; a replica installs the snapshot and reads
  it from its store, another node decodes it.\<close>

definition set_from_owner ::
    "(memory \<Rightarrow> 'a \<times> memory) \<Rightarrow> (bytes \<Rightarrow> 'a) \<Rightarrow> 'a \<Rightarrow> env \<Rightarrow> bytes \<Rightarrow> bytes \<Rightarrow> engine \<Rightarrow> 'a \<times> engine" where
  "set_from_owner local fromBlob none v n k e =
     (case remoteOwner k e of
        None \<Rightarrow> (none, e)
      | Some (c, r, p) \<Rightarrow>
          if \<not> reachable_owner c p then (none, e)
          else
            case eGetOrLoad v (pAddr p) n k of
              Inl x \<Rightarrow> (none, e)
            | Inr res \<Rightarrow>
                let ent = gEntry res in
                if \<not> gFound res \<or> \<not> IsSet ent then (none, e)
                else if holdsReplica n k e then
                  store_op n local
                    (snd (store_op n (SetInstall (eNow v) k (Value ent) (Version ent) (ExpireAt ent)) e))
                else (fromBlob (Value ent), e))"

definition engine_SetContains :: "env \<Rightarrow> bytes \<Rightarrow> bytes \<Rightarrow> bytes \<Rightarrow> engine \<Rightarrow> (engine_err + bool) \<times> engine" where
  "engine_SetContains v n k item e =
     checked (mode_checks v n k ModeSet e)
       (\<lambda>e. case store_op n (SetContains (eNow v) k item) e of
               (True, e1) \<Rightarrow> (True, e1)
             | (False, e1) \<Rightarrow>
                 (case store_op n (HasSet (eNow v) k) e1 of
                    (True, e2) \<Rightarrow> (False, e2)
                  | (False, e2) \<Rightarrow>
                      set_from_owner (SetContains (eNow v) k item) (ContainsBlob item) False v n k e2)) e"

definition engine_SetCard :: "env \<Rightarrow> bytes \<Rightarrow> bytes \<Rightarrow> engine \<Rightarrow> (engine_err + nat) \<times> engine" where
  "engine_SetCard v n k e =
     checked (mode_checks v n k ModeSet e)
       (\<lambda>e. case store_op n (HasSet (eNow v) k) e of
               (True, e1) \<Rightarrow> store_op n (SetCard (eNow v) k) e1
             | (False, e1) \<Rightarrow> set_from_owner (SetCard (eNow v) k) CardBlob 0 v n k e1) e"

definition engine_SetMembers :: "env \<Rightarrow> bytes \<Rightarrow> bytes \<Rightarrow> engine \<Rightarrow> (engine_err + bytes list) \<times> engine" where
  "engine_SetMembers v n k e =
     checked (mode_checks v n k ModeSet e)
       (\<lambda>e. case store_op n (HasSet (eNow v) k) e of
               (True, e1) \<Rightarrow> store_op n (SetMembers (eNow v) k) e1
             | (False, e1) \<Rightarrow> set_from_owner (SetMembers (eNow v) k) MembersBlob [] v n k e1) e"

section \<open>Sorted sets\<close>

definition zset_AddLocal :: "env \<Rightarrow> bytes \<Rightarrow> bytes \<Rightarrow> bytes \<Rightarrow> f64 \<Rightarrow> bool \<Rightarrow> engine \<Rightarrow> bool \<times> engine" where
  "zset_AddLocal v n k member score fanout e =
     op_add (ZAdd (eNow v) k member score) (zset_EncodeAdd member score) FlagZSetAdd v n k fanout e"

definition zset_RemLocal :: "env \<Rightarrow> bytes \<Rightarrow> bytes \<Rightarrow> bytes \<Rightarrow> bool \<Rightarrow> engine \<Rightarrow> bool \<times> engine" where
  "zset_RemLocal v n k member fanout e = op_remove (ZRem (eNow v) k member) HasZSet member FlagZSetRem v n k fanout e"

definition zset_ApplyAdd :: "env \<Rightarrow> bytes \<Rightarrow> bytes \<Rightarrow> bytes \<Rightarrow> u64 \<Rightarrow> time \<Rightarrow> engine \<Rightarrow> bool \<times> engine" where
  "zset_ApplyAdd v n k val ver ex e =
     (case zset_DecodeAdd val of
        Inl x \<Rightarrow> (False, e)
      | Inr (member, score) \<Rightarrow> store_op n (ZAdd (eNow v) k member score ver (or_ExpireAt v n ex e)) e)"

definition zset_ApplyRem :: "env \<Rightarrow> bytes \<Rightarrow> bytes \<Rightarrow> bytes \<Rightarrow> u64 \<Rightarrow> time \<Rightarrow> engine \<Rightarrow> bool \<times> engine" where
  "zset_ApplyRem v n k member ver ex e = store_op n (ZRem (eNow v) k member ver (or_ExpireAt v n ex e)) e"

definition zset_ApplyInstall :: "env \<Rightarrow> bytes \<Rightarrow> bytes \<Rightarrow> bytes \<Rightarrow> u64 \<Rightarrow> time \<Rightarrow> engine \<Rightarrow> bool \<times> engine" where
  "zset_ApplyInstall v n k blob ver ex e = host_ApplyInstall ZInstall v n k blob ver ex e"

definition zset_FetchOwner :: "env \<Rightarrow> bytes \<Rightarrow> bytes \<Rightarrow> engine \<Rightarrow> entry option \<times> engine" where
  "zset_FetchOwner v n k e = host_FetchOwner IsZSet (\<lambda>b. True) ZInstall v n k e"

definition zFetchOwner :: "env \<Rightarrow> bytes \<Rightarrow> bytes \<Rightarrow> engine \<Rightarrow> entry option \<times> engine" where
  "zFetchOwner v n k e = engine_FetchOwner IsZSet (\<lambda>b. True) ZInstall v n k e"

definition zMutViaOwner :: "env \<Rightarrow> bytes \<Rightarrow> bytes \<Rightarrow> bytes \<Rightarrow> u64 \<Rightarrow> peer \<Rightarrow> ring \<Rightarrow> engine_err option" where
  "zMutViaOwner v n k val flag p r = mut_via_owner v n k val flag p r"

definition engine_ZAdd :: "env \<Rightarrow> bytes \<Rightarrow> bytes \<Rightarrow> bytes \<Rightarrow> f64 \<Rightarrow> engine \<Rightarrow> engine_err option \<times> engine" where
  "engine_ZAdd v n k member score e =
     checked_write (item_checks v n k ModeZSet member (f64_is_nan score) e)
       (route_write k (zMutViaOwner v n k (zset_EncodeAdd member score) FlagZSetAdd)
         (op_result \<circ> zset_AddLocal v n k member score True)) e"

definition engine_ZRem :: "env \<Rightarrow> bytes \<Rightarrow> bytes \<Rightarrow> bytes \<Rightarrow> engine \<Rightarrow> engine_err option \<times> engine" where
  "engine_ZRem v n k member e =
     checked_write (item_checks v n k ModeZSet member False e)
       (route_write k (zMutViaOwner v n k member FlagZSetRem) (op_result \<circ> zset_RemLocal v n k member True)) e"

definition zset_blob :: "(gzset \<Rightarrow> 'a) \<Rightarrow> 'a \<Rightarrow> bytes \<Rightarrow> 'a" where
  "zset_blob f none b = (case zset_Decode b of Inl x \<Rightarrow> none | Inr z \<Rightarrow> f z)"

definition engine_ZScore :: "env \<Rightarrow> bytes \<Rightarrow> bytes \<Rightarrow> bytes \<Rightarrow> engine \<Rightarrow> (engine_err + f64 option) \<times> engine" where
  "engine_ZScore v n k member e =
     checked (mode_checks v n k ModeZSet e)
       (\<lambda>e. case store_op n (ZScore (eNow v) k member) e of
               (Some sc, e1) \<Rightarrow> (Some sc, e1)
             | (None, e1) \<Rightarrow>
                 (case store_op n (HasZSet (eNow v) k) e1 of
                    (True, e2) \<Rightarrow> (None, e2)
                  | (False, e2) \<Rightarrow>
                      (case zset_FetchOwner v n k e2 of
                         (None, e3) \<Rightarrow> (None, e3)
                       | (Some ent, e3) \<Rightarrow> (zset_blob (\<lambda>z. zset_Score z member) None (Value ent), e3)))) e"

definition engine_ZCard :: "env \<Rightarrow> bytes \<Rightarrow> bytes \<Rightarrow> engine \<Rightarrow> (engine_err + nat) \<times> engine" where
  "engine_ZCard v n k e =
     checked (mode_checks v n k ModeZSet e)
       (read_or_fetch HasZSet (ZCard (eNow v) k) (zset_FetchOwner v n k) (zset_blob zset_Card 0) 0 v n k) e"

definition engine_ZRange :: "env \<Rightarrow> bytes \<Rightarrow> bytes \<Rightarrow> int \<Rightarrow> int \<Rightarrow> engine \<Rightarrow> (engine_err + zmember list) \<times> engine" where
  "engine_ZRange v n k start stop e =
     checked (mode_checks v n k ModeZSet e)
       (read_or_fetch HasZSet (ZRange (eNow v) k start stop) (zset_FetchOwner v n k)
         (zset_blob (\<lambda>z. zset_Range z start stop) []) [] v n k) e"

definition engine_ZRangeByScore :: "env \<Rightarrow> bytes \<Rightarrow> bytes \<Rightarrow> f64 \<Rightarrow> f64 \<Rightarrow> engine \<Rightarrow> (engine_err + zmember list) \<times> engine" where
  "engine_ZRangeByScore v n k mn mx e =
     checked (mode_checks v n k ModeZSet e)
       (read_or_fetch HasZSet (ZRangeByScore (eNow v) k mn mx) (zset_FetchOwner v n k)
         (zset_blob (\<lambda>z. zset_RangeByScore z mn mx) []) [] v n k) e"

section \<open>Geo indexes\<close>

definition geo_AddLocal :: "env \<Rightarrow> bytes \<Rightarrow> bytes \<Rightarrow> bytes \<Rightarrow> f64 \<Rightarrow> f64 \<Rightarrow> bool \<Rightarrow> engine \<Rightarrow> bool \<times> engine" where
  "geo_AddLocal v n k member lon lat fanout e =
     op_add (GeoAdd (eNow v) k member lon lat) (geo_EncodeAdd member lon lat) FlagGeoAdd v n k fanout e"

definition geo_RemLocal :: "env \<Rightarrow> bytes \<Rightarrow> bytes \<Rightarrow> bytes \<Rightarrow> bool \<Rightarrow> engine \<Rightarrow> bool \<times> engine" where
  "geo_RemLocal v n k member fanout e = op_remove (GeoRem (eNow v) k member) HasGeo member FlagGeoRem v n k fanout e"

definition geo_ApplyAdd :: "env \<Rightarrow> bytes \<Rightarrow> bytes \<Rightarrow> bytes \<Rightarrow> u64 \<Rightarrow> time \<Rightarrow> engine \<Rightarrow> bool \<times> engine" where
  "geo_ApplyAdd v n k val ver ex e =
     (case geo_DecodeAdd val of
        Inl x \<Rightarrow> (False, e)
      | Inr (member, lon, lat) \<Rightarrow> store_op n (GeoAdd (eNow v) k member lon lat ver (or_ExpireAt v n ex e)) e)"

definition geo_ApplyRem :: "env \<Rightarrow> bytes \<Rightarrow> bytes \<Rightarrow> bytes \<Rightarrow> u64 \<Rightarrow> time \<Rightarrow> engine \<Rightarrow> bool \<times> engine" where
  "geo_ApplyRem v n k member ver ex e = store_op n (GeoRem (eNow v) k member ver (or_ExpireAt v n ex e)) e"

definition geo_ApplyInstall :: "env \<Rightarrow> bytes \<Rightarrow> bytes \<Rightarrow> bytes \<Rightarrow> u64 \<Rightarrow> time \<Rightarrow> engine \<Rightarrow> bool \<times> engine" where
  "geo_ApplyInstall v n k blob ver ex e = host_ApplyInstall GeoInstall v n k blob ver ex e"

definition geo_FetchOwner :: "env \<Rightarrow> bytes \<Rightarrow> bytes \<Rightarrow> engine \<Rightarrow> entry option \<times> engine" where
  "geo_FetchOwner v n k e = host_FetchOwner IsGeo (\<lambda>b. True) GeoInstall v n k e"

definition gFetchOwner :: "env \<Rightarrow> bytes \<Rightarrow> bytes \<Rightarrow> engine \<Rightarrow> entry option \<times> engine" where
  "gFetchOwner v n k e = engine_FetchOwner IsGeo (\<lambda>b. True) GeoInstall v n k e"

definition gMutViaOwner :: "env \<Rightarrow> bytes \<Rightarrow> bytes \<Rightarrow> bytes \<Rightarrow> u64 \<Rightarrow> peer \<Rightarrow> ring \<Rightarrow> engine_err option" where
  "gMutViaOwner v n k val flag p r = mut_via_owner v n k val flag p r"

definition engine_GeoAdd :: "env \<Rightarrow> bytes \<Rightarrow> bytes \<Rightarrow> bytes \<Rightarrow> f64 \<Rightarrow> f64 \<Rightarrow> engine \<Rightarrow> engine_err option \<times> engine" where
  "engine_GeoAdd v n k member lon lat e =
     checked_write (item_checks v n k ModeGeo member (\<not> geo_ValidCoord lon lat) e)
       (route_write k (gMutViaOwner v n k (geo_EncodeAdd member lon lat) FlagGeoAdd)
         (op_result \<circ> geo_AddLocal v n k member lon lat True)) e"

definition engine_GeoRem :: "env \<Rightarrow> bytes \<Rightarrow> bytes \<Rightarrow> bytes \<Rightarrow> engine \<Rightarrow> engine_err option \<times> engine" where
  "engine_GeoRem v n k member e =
     checked_write (item_checks v n k ModeGeo member False e)
       (route_write k (gMutViaOwner v n k member FlagGeoRem) (op_result \<circ> geo_RemLocal v n k member True)) e"

definition geo_blob :: "(ggeo \<Rightarrow> 'a) \<Rightarrow> 'a \<Rightarrow> bytes \<Rightarrow> 'a" where
  "geo_blob f none b = (case geo_Decode b of Inl x \<Rightarrow> none | Inr g \<Rightarrow> f g)"

definition engine_GeoPos :: "env \<Rightarrow> bytes \<Rightarrow> bytes \<Rightarrow> bytes \<Rightarrow> engine \<Rightarrow> (engine_err + geo_point option) \<times> engine" where
  "engine_GeoPos v n k member e =
     checked (mode_checks v n k ModeGeo e)
       (\<lambda>e. case store_op n (GeoPos (eNow v) k member) e of
               (Some p, e1) \<Rightarrow> (Some p, e1)
             | (None, e1) \<Rightarrow>
                 (case store_op n (HasGeo (eNow v) k) e1 of
                    (True, e2) \<Rightarrow> (None, e2)
                  | (False, e2) \<Rightarrow>
                      (case geo_FetchOwner v n k e2 of
                         (None, e3) \<Rightarrow> (None, e3)
                       | (Some ent, e3) \<Rightarrow> (geo_blob (\<lambda>g. geo_Pos g member) None (Value ent), e3)))) e"

definition engine_GeoCard :: "env \<Rightarrow> bytes \<Rightarrow> bytes \<Rightarrow> engine \<Rightarrow> (engine_err + nat) \<times> engine" where
  "engine_GeoCard v n k e =
     checked (mode_checks v n k ModeGeo e)
       (read_or_fetch HasGeo (GeoCard (eNow v) k) (geo_FetchOwner v n k) (geo_blob geo_Card 0) 0 v n k) e"

definition engine_GeoDist :: "env \<Rightarrow> bytes \<Rightarrow> bytes \<Rightarrow> bytes \<Rightarrow> bytes \<Rightarrow> engine \<Rightarrow> (engine_err + f64 option) \<times> engine" where
  "engine_GeoDist v n k a b e =
     checked (mode_checks v n k ModeGeo e)
       (read_or_fetch HasGeo (GeoDist (eFp v) (eNow v) k a b) (geo_FetchOwner v n k)
         (geo_blob (\<lambda>g. geo_Dist (eFp v) g a b) None) None v n k) e"

definition engine_GeoRadius ::
    "env \<Rightarrow> bytes \<Rightarrow> bytes \<Rightarrow> f64 \<Rightarrow> f64 \<Rightarrow> f64 \<Rightarrow> int \<Rightarrow> engine \<Rightarrow> (engine_err + geo_member list) \<times> engine" where
  "engine_GeoRadius v n k lon lat radiusM limit e =
     checked (first_err [eCtx v, validateKey n k e, check (\<not> geo_ValidCoord lon lat) ErrInvalidArgument,
         check (f64_lt radiusM 0 \<or> f64_is_nan radiusM) ErrInvalidArgument, getKS n e,
         check (ksMode (ks_config n e) \<noteq> ModeGeo) ErrInvalidArgument, validateKeyLen n k e])
       (read_or_fetch HasGeo (GeoRadius (eFp v) (eNow v) k lon lat radiusM limit) (geo_FetchOwner v n k)
         (geo_blob (\<lambda>g. geo_Radius (eFp v) g lon lat radiusM limit) []) [] v n k) e"

section \<open>Hashes\<close>

definition hash_SetLocal :: "env \<Rightarrow> bytes \<Rightarrow> bytes \<Rightarrow> bytes \<Rightarrow> bytes \<Rightarrow> bool \<Rightarrow> engine \<Rightarrow> bool \<times> engine" where
  "hash_SetLocal v n k field val fanout e =
     op_add (HSet (eNow v) k field val) (hash_EncodeSet field val) FlagHashSet v n k fanout e"

definition hash_DelLocal :: "env \<Rightarrow> bytes \<Rightarrow> bytes \<Rightarrow> bytes \<Rightarrow> bool \<Rightarrow> engine \<Rightarrow> bool \<times> engine" where
  "hash_DelLocal v n k field fanout e = op_remove (HDel (eNow v) k field) HasHash field FlagHashDel v n k fanout e"

definition hash_ApplySet :: "env \<Rightarrow> bytes \<Rightarrow> bytes \<Rightarrow> bytes \<Rightarrow> u64 \<Rightarrow> time \<Rightarrow> engine \<Rightarrow> bool \<times> engine" where
  "hash_ApplySet v n k val ver ex e =
     (case hash_DecodeSet val of
        Inl x \<Rightarrow> (False, e)
      | Inr (field, x) \<Rightarrow> store_op n (HSet (eNow v) k field x ver (or_ExpireAt v n ex e)) e)"

definition hash_ApplyDel :: "env \<Rightarrow> bytes \<Rightarrow> bytes \<Rightarrow> bytes \<Rightarrow> u64 \<Rightarrow> time \<Rightarrow> engine \<Rightarrow> bool \<times> engine" where
  "hash_ApplyDel v n k field ver ex e = store_op n (HDel (eNow v) k field ver (or_ExpireAt v n ex e)) e"

definition hash_ApplyInstall :: "env \<Rightarrow> bytes \<Rightarrow> bytes \<Rightarrow> bytes \<Rightarrow> u64 \<Rightarrow> time \<Rightarrow> engine \<Rightarrow> bool \<times> engine" where
  "hash_ApplyInstall v n k blob ver ex e = host_ApplyInstall HInstall v n k blob ver ex e"

definition hash_FetchOwner :: "env \<Rightarrow> bytes \<Rightarrow> bytes \<Rightarrow> engine \<Rightarrow> entry option \<times> engine" where
  "hash_FetchOwner v n k e = host_FetchOwner IsHash (\<lambda>b. True) HInstall v n k e"

definition hFetchOwner :: "env \<Rightarrow> bytes \<Rightarrow> bytes \<Rightarrow> engine \<Rightarrow> entry option \<times> engine" where
  "hFetchOwner v n k e = engine_FetchOwner IsHash (\<lambda>b. True) HInstall v n k e"

definition checkHashField :: "bytes \<Rightarrow> engine \<Rightarrow> engine_err option" where
  "checkHashField field e =
     first_err [check (field = []) ErrInvalidArgument, check (maxKeyLen e < int (length field)) ErrKeyTooLarge]"

definition hMutViaOwner :: "env \<Rightarrow> bytes \<Rightarrow> bytes \<Rightarrow> bytes \<Rightarrow> u64 \<Rightarrow> peer \<Rightarrow> ring \<Rightarrow> engine_err option" where
  "hMutViaOwner v n k val flag p r = mut_via_owner v n k val flag p r"

definition engine_HSet :: "env \<Rightarrow> bytes \<Rightarrow> bytes \<Rightarrow> bytes \<Rightarrow> bytes \<Rightarrow> engine \<Rightarrow> engine_err option \<times> engine" where
  "engine_HSet v n k field val e =
     checked_write (first_err [eCtx v, validateKey n k e, checkHashField field e, getKS n e,
         check (ksMode (ks_config n e) \<noteq> ModeHash) ErrInvalidArgument, validateKeyLen n k e, validateValueSize n val e])
       (route_write k (hMutViaOwner v n k (hash_EncodeSet field val) FlagHashSet)
         (op_result \<circ> hash_SetLocal v n k field val True)) e"

definition field_checks :: "env \<Rightarrow> bytes \<Rightarrow> bytes \<Rightarrow> bytes \<Rightarrow> engine \<Rightarrow> engine_err option" where
  "field_checks v n k field e =
     first_err [eCtx v, validateKey n k e, checkHashField field e, getKS n e,
       check (ksMode (ks_config n e) \<noteq> ModeHash) ErrInvalidArgument, validateKeyLen n k e]"

definition engine_HDel :: "env \<Rightarrow> bytes \<Rightarrow> bytes \<Rightarrow> bytes \<Rightarrow> engine \<Rightarrow> engine_err option \<times> engine" where
  "engine_HDel v n k field e =
     checked_write (field_checks v n k field e)
       (route_write k (hMutViaOwner v n k field FlagHashDel) (op_result \<circ> hash_DelLocal v n k field True)) e"

definition hash_blob :: "(ghash \<Rightarrow> 'a) \<Rightarrow> 'a \<Rightarrow> bytes \<Rightarrow> 'a" where
  "hash_blob f none b = (case hash_Decode b of Inl x \<Rightarrow> none | Inr h \<Rightarrow> f h)"

definition engine_HGet :: "env \<Rightarrow> bytes \<Rightarrow> bytes \<Rightarrow> bytes \<Rightarrow> engine \<Rightarrow> (engine_err + bytes option) \<times> engine" where
  "engine_HGet v n k field e =
     checked (field_checks v n k field e)
       (\<lambda>e. case store_op n (HGet (eNow v) k field) e of
               (Some x, e1) \<Rightarrow> (Some x, e1)
             | (None, e1) \<Rightarrow>
                 (case store_op n (HasHash (eNow v) k) e1 of
                    (True, e2) \<Rightarrow> (None, e2)
                  | (False, e2) \<Rightarrow>
                      (case hash_FetchOwner v n k e2 of
                         (None, e3) \<Rightarrow> (None, e3)
                       | (Some ent, e3) \<Rightarrow> (hash_blob (\<lambda>h. hash_Get h field) None (Value ent), e3)))) e"

definition engine_HExists :: "env \<Rightarrow> bytes \<Rightarrow> bytes \<Rightarrow> bytes \<Rightarrow> engine \<Rightarrow> (engine_err + bool) \<times> engine" where
  "engine_HExists v n k field e =
     checked (field_checks v n k field e)
       (read_or_fetch HasHash (HExists (eNow v) k field) (hash_FetchOwner v n k)
         (hash_blob (\<lambda>h. hash_Exists h field) False) False v n k) e"

definition engine_HLen :: "env \<Rightarrow> bytes \<Rightarrow> bytes \<Rightarrow> engine \<Rightarrow> (engine_err + nat) \<times> engine" where
  "engine_HLen v n k e =
     checked (mode_checks v n k ModeHash e)
       (read_or_fetch HasHash (HLen (eNow v) k) (hash_FetchOwner v n k) (hash_blob hash_Len 0) 0 v n k) e"

definition engine_HGetAll :: "env \<Rightarrow> bytes \<Rightarrow> bytes \<Rightarrow> engine \<Rightarrow> (engine_err + (bytes \<times> bytes) list) \<times> engine" where
  "engine_HGetAll v n k e =
     checked (mode_checks v n k ModeHash e)
       (read_or_fetch HasHash (HGetAll (eNow v) k) (hash_FetchOwner v n k) (hash_blob hash_All []) [] v n k) e"

end
