(* ===== verification/EngineBlobs.thy ===== *)
theory EngineBlobs
  imports EngineHost StoreList StoreCounter StoreJSON StoreBitmap StoreHLL StoreTopK StoreCMS StoreVec StoreStream
begin

text \<open>
  The engine operations of the modes that replicate snapshots: lists, counters, JSON
  documents, bitmaps, HyperLogLog and count-min sketches, top-k tables, vector sets and
  streams (\<open>pkg/engine/list.go\<close>, \<open>counter.go\<close>, \<open>json.go\<close>, \<open>bitmap.go\<close>, \<open>hll.go\<close>,
  \<open>topk.go\<close>, \<open>cms.go\<close>, \<open>vecset.go\<close>, \<open>stream.go\<close> with their \<open>_cluster.go\<close> parts, and
  \<open>pkg/*/eng\<close>). The owner applies the operation and sends the whole value.
\<close>

section \<open>Shared steps\<close>

definition as_write :: "(memory \<Rightarrow> bool \<times> memory) \<Rightarrow> memory \<Rightarrow> (bool \<times> bool) \<times> memory" where
  "as_write f m = (case f m of (ok, m') \<Rightarrow> ((ok, False), m'))"

definition write_result :: "(bool \<times> bool) \<times> engine \<Rightarrow> engine_err option \<times> engine" where
  "write_result r = (write_err (fst r), snd r)"

text \<open>The answer of an inbox application: \<open>if !ok || tooLarge { return false }\<close>.\<close>

definition apply_result :: "(bool \<times> bool) \<times> engine \<Rightarrow> bool \<times> engine" where
  "apply_result r = (fst (fst r) \<and> \<not> snd (fst r), snd r)"

text \<open>\<open>validateKey\<close>, the mode and \<open>validateKeyLen\<close>: \<open>vsNeed\<close>, \<open>sxNeed\<close>.\<close>

definition mode_need :: "bytes \<Rightarrow> bytes \<Rightarrow> mode \<Rightarrow> engine \<Rightarrow> engine_err option" where
  "mode_need n k md e =
     first_err [validateKey n k e, check (ksMode (ks_config n e) \<noteq> md) ErrInvalidArgument, validateKeyLen n k e]"

section \<open>Lists\<close>

definition list_ReplicateSnapshot :: replicator where
  "list_ReplicateSnapshot v n k ver ex e = host_ReplicateSnapshot IsList FlagList v n k ver ex e"

definition list_Push :: "env \<Rightarrow> bytes \<Rightarrow> bytes \<Rightarrow> bytes \<Rightarrow> bool \<Rightarrow> bool \<Rightarrow> engine \<Rightarrow> bool \<times> engine" where
  "list_Push v n k item left fanout e =
     (let ex = host_ExpireAt v n e in
      case peek_version v n k e of
        (cur, e1) \<Rightarrow>
          (case store_op n ((if left then LPush else RPush) (eNow v) k item (cur + 1) ex) e1 of
             (False, e2) \<Rightarrow> (False, e2)
           | (True, e2) \<Rightarrow>
               (case peek_version v n k e2 of
                  (ver, e3) \<Rightarrow>
                    let e4 = observe_ver v n k ver e3 in
                    (True, if fanout then list_ReplicateSnapshot v n k ver ex e4 else e4))))"

text \<open>The second component is false when the pop is rejected.\<close>

definition list_Pop :: "env \<Rightarrow> bytes \<Rightarrow> bytes \<Rightarrow> bool \<Rightarrow> bool \<Rightarrow> engine \<Rightarrow> (bytes option \<times> bool) \<times> engine" where
  "list_Pop v n k left fanout e =
     (let ex = host_ExpireAt v n e in
      case peek_version v n k e of
        (cur, e1) \<Rightarrow>
          (case store_op n ((if left then LPop else RPop) (eNow v) k (cur + 1) ex) e1 of
             ((item, False), e2) \<Rightarrow>
               (case store_op n (HasList (eNow v) k) e2 of (h, e3) \<Rightarrow> ((None, \<not> h), e3))
           | ((item, True), e2) \<Rightarrow>
               ((item, True),
                if item \<noteq> None \<and> fanout then snapshot_done list_ReplicateSnapshot v n k ex e2 else e2)))"

definition list_ApplyLPush :: "env \<Rightarrow> bytes \<Rightarrow> bytes \<Rightarrow> bytes \<Rightarrow> time \<Rightarrow> engine \<Rightarrow> bool \<times> engine" where
  "list_ApplyLPush v n k item ex e =
     (let ex' = or_ExpireAt v n ex e in
      apply_result (snapshot_write list_ReplicateSnapshot (\<lambda>g. as_write (LPush (eNow v) k item g ex')) v n k ex' e))"

definition list_ApplyRPush :: "env \<Rightarrow> bytes \<Rightarrow> bytes \<Rightarrow> bytes \<Rightarrow> time \<Rightarrow> engine \<Rightarrow> bool \<times> engine" where
  "list_ApplyRPush v n k item ex e =
     (let ex' = or_ExpireAt v n ex e in
      apply_result (snapshot_write list_ReplicateSnapshot (\<lambda>g. as_write (RPush (eNow v) k item g ex')) v n k ex' e))"

definition list_ApplyInstall :: "env \<Rightarrow> bytes \<Rightarrow> bytes \<Rightarrow> bytes \<Rightarrow> u64 \<Rightarrow> time \<Rightarrow> engine \<Rightarrow> bool \<times> engine" where
  "list_ApplyInstall v n k blob ver ex e = host_ApplyInstall LInstall v n k blob ver ex e"

definition list_FetchOwner :: "env \<Rightarrow> bytes \<Rightarrow> bytes \<Rightarrow> engine \<Rightarrow> entry option \<times> engine" where
  "list_FetchOwner v n k e = host_FetchOwner IsList (\<lambda>b. True) LInstall v n k e"

definition LenFromBlob :: "bytes \<Rightarrow> int" where
  "LenFromBlob b = (case list_Decode b of Inl x \<Rightarrow> 0 | Inr l \<Rightarrow> list_Len l)"

definition IndexFromBlob :: "int \<Rightarrow> bytes \<Rightarrow> bytes option" where
  "IndexFromBlob i b = (case list_Decode b of Inl x \<Rightarrow> None | Inr l \<Rightarrow> list_Index l i)"

definition RangeFromBlob :: "int \<Rightarrow> int \<Rightarrow> bytes \<Rightarrow> bytes list" where
  "RangeFromBlob start stop b = (case list_Decode b of Inl x \<Rightarrow> [] | Inr l \<Rightarrow> list_Range l start stop)"

definition lPush :: "env \<Rightarrow> bytes \<Rightarrow> bytes \<Rightarrow> bytes \<Rightarrow> bool \<Rightarrow> engine \<Rightarrow> engine_err option \<times> engine" where
  "lPush v n k item left e =
     checked_write (first_err [eCtx v, validateKey n k e, check (item = []) ErrInvalidArgument, getKS n e,
         check (ksMode (ks_config n e) \<noteq> ModeList) ErrInvalidArgument, validateKeyLen n k e,
         check (maxKeyLen e < int (length item)) ErrKeyTooLarge])
       (route_write k (mut_via_owner v n k item (if left then FlagListLPush else FlagListRPush))
         (\<lambda>e. case list_Push v n k item left True e of (ok, e1) \<Rightarrow> (reject_err ok, e1))) e"

definition engine_LPush :: "env \<Rightarrow> bytes \<Rightarrow> bytes \<Rightarrow> bytes \<Rightarrow> engine \<Rightarrow> engine_err option \<times> engine" where
  "engine_LPush v n k item e = lPush v n k item True e"

definition engine_RPush :: "env \<Rightarrow> bytes \<Rightarrow> bytes \<Rightarrow> bytes \<Rightarrow> engine \<Rightarrow> engine_err option \<times> engine" where
  "engine_RPush v n k item e = lPush v n k item False e"

definition lPop :: "env \<Rightarrow> bytes \<Rightarrow> bytes \<Rightarrow> bool \<Rightarrow> engine \<Rightarrow> (engine_err + bytes option) \<times> engine" where
  "lPop v n k left e =
     (case mode_checks v n k ModeList e of
        Some x \<Rightarrow> (Inl x, e)
      | None \<Rightarrow>
          case remoteOwner k e of
            Some (c, r, p) \<Rightarrow>
              (if \<not> reachable_owner c p then Inl ErrUnavailable else eListPop v (pAddr p) n k left, e)
          | None \<Rightarrow>
              (case list_Pop v n k left True e of
                 ((item, ok), e1) \<Rightarrow> (if ok then Inr item else Inl ErrInvalidArgument, e1)))"

definition engine_LPop :: "env \<Rightarrow> bytes \<Rightarrow> bytes \<Rightarrow> engine \<Rightarrow> (engine_err + bytes option) \<times> engine" where
  "engine_LPop v n k e = lPop v n k True e"

definition engine_RPop :: "env \<Rightarrow> bytes \<Rightarrow> bytes \<Rightarrow> engine \<Rightarrow> (engine_err + bytes option) \<times> engine" where
  "engine_RPop v n k e = lPop v n k False e"

definition engine_LLen :: "env \<Rightarrow> bytes \<Rightarrow> bytes \<Rightarrow> engine \<Rightarrow> (engine_err + int) \<times> engine" where
  "engine_LLen v n k e =
     checked (mode_checks v n k ModeList e)
       (read_or_fetch HasList (LLen (eNow v) k) (list_FetchOwner v n k) LenFromBlob 0 v n k) e"

definition engine_LIndex :: "env \<Rightarrow> bytes \<Rightarrow> bytes \<Rightarrow> int \<Rightarrow> engine \<Rightarrow> (engine_err + bytes option) \<times> engine" where
  "engine_LIndex v n k i e =
     checked (mode_checks v n k ModeList e)
       (read_or_fetch HasList (LIndex (eNow v) k i) (list_FetchOwner v n k) (IndexFromBlob i) None v n k) e"

definition engine_LRange :: "env \<Rightarrow> bytes \<Rightarrow> bytes \<Rightarrow> int \<Rightarrow> int \<Rightarrow> engine \<Rightarrow> (engine_err + bytes list) \<times> engine" where
  "engine_LRange v n k start stop e =
     checked (mode_checks v n k ModeList e)
       (read_or_fetch HasList (LRange (eNow v) k start stop) (list_FetchOwner v n k) (RangeFromBlob start stop) [] v n k) e"

section \<open>Counters\<close>

definition counter_ReplicateSnapshot :: "bytes \<Rightarrow> bytes \<Rightarrow> int \<Rightarrow> u64 \<Rightarrow> time \<Rightarrow> engine \<Rightarrow> engine" where
  "counter_ReplicateSnapshot n k x ver ex e =
     host_Replicate n k \<lparr>Value = counter_Encode x, Version = ver, ExpireAt = ex, Flags = FlagCounter\<rparr> e"

text \<open>\<open>ErrOverflow\<close> and \<open>ErrRejected\<close> both reach the caller as an invalid argument.\<close>

definition counter_IncrLocal :: "env \<Rightarrow> bytes \<Rightarrow> bytes \<Rightarrow> int \<Rightarrow> bool \<Rightarrow> engine \<Rightarrow> (engine_err + int) \<times> engine" where
  "counter_IncrLocal v n k delta fanout e =
     (let ex = host_ExpireAt v n e in
      case peek_version v n k e of
        (cur, e1) \<Rightarrow>
          (case store_op n (CIncr (eNow v) k delta (cur + 1) ex) e1 of
             ((x, applied, overflow), e2) \<Rightarrow>
               if overflow then (Inl ErrInvalidArgument, e2)
               else if \<not> applied then (Inl ErrInvalidArgument, e2)
               else
                 case peek_version v n k e2 of
                   (ver, e3) \<Rightarrow>
                     let e4 = observe_ver v n k ver e3 in
                     (Inr x, if fanout then counter_ReplicateSnapshot n k x ver ex e4 else e4)))"

definition counter_ApplyInstall :: "env \<Rightarrow> bytes \<Rightarrow> bytes \<Rightarrow> bytes \<Rightarrow> u64 \<Rightarrow> time \<Rightarrow> engine \<Rightarrow> bool \<times> engine" where
  "counter_ApplyInstall v n k blob ver ex e = host_ApplyInstall CInstall v n k blob ver ex e"

definition counter_FetchOwner :: "env \<Rightarrow> bytes \<Rightarrow> bytes \<Rightarrow> engine \<Rightarrow> entry option \<times> engine" where
  "counter_FetchOwner v n k e = host_FetchOwner IsCounter (\<lambda>b. \<not> isl (counter_Decode b)) CInstall v n k e"

definition Incr :: "env \<Rightarrow> bytes \<Rightarrow> bytes \<Rightarrow> int \<Rightarrow> engine \<Rightarrow> (engine_err + int) \<times> engine" where
  "Incr v n k delta e =
     (case mode_checks v n k ModeCounter e of
        Some x \<Rightarrow> (Inl x, e)
      | None \<Rightarrow>
          case remoteOwner k e of
            Some (c, r, p) \<Rightarrow>
              (if \<not> reachable_owner c p then Inl ErrUnavailable else eCounterIncr v (pAddr p) n k delta, e)
          | None \<Rightarrow> counter_IncrLocal v n k delta True e)"

definition CounterGet :: "env \<Rightarrow> bytes \<Rightarrow> bytes \<Rightarrow> engine \<Rightarrow> (engine_err + int option) \<times> engine" where
  "CounterGet v n k e =
     checked (mode_checks v n k ModeCounter e)
       (read_or_fetch HasCounter (CGet (eNow v) k) (counter_FetchOwner v n k)
         (\<lambda>b. case counter_Decode b of Inl x \<Rightarrow> None | Inr x \<Rightarrow> Some x) None v n k) e"

section \<open>JSON documents\<close>

definition json_ReplicateSnapshot :: replicator where
  "json_ReplicateSnapshot v n k ver ex e = host_ReplicateSnapshot IsJSON FlagJSON v n k ver ex e"

definition json_SetLocal :: "env \<Rightarrow> bytes \<Rightarrow> bytes \<Rightarrow> bytes \<Rightarrow> bytes \<Rightarrow> engine \<Rightarrow> (bool \<times> bool) \<times> engine" where
  "json_SetLocal v n k path val e =
     (let ex = host_ExpireAt v n e in
      snapshot_write json_ReplicateSnapshot (\<lambda>g. JSet (eNow v) k path val g ex (MaxValue n e)) v n k ex e)"

text \<open>The shared body of \<open>DelLocal\<close> and \<open>ApplyDel\<close>: a delete that changes nothing is not
  replicated.\<close>

definition json_del :: "env \<Rightarrow> bytes \<Rightarrow> bytes \<Rightarrow> bytes \<Rightarrow> time \<Rightarrow> engine \<Rightarrow> bool \<times> engine" where
  "json_del v n k path ex e =
     (case peek_version v n k e of
        (cur, e1) \<Rightarrow>
          (case store_op n (JDel (eNow v) k path (cur + 1) ex) e1 of
             ((ok, mutated), e2) \<Rightarrow>
               if \<not> ok then (False, e2)
               else (True, if mutated then snapshot_done json_ReplicateSnapshot v n k ex e2 else e2)))"

definition json_DelLocal :: "env \<Rightarrow> bytes \<Rightarrow> bytes \<Rightarrow> bytes \<Rightarrow> engine \<Rightarrow> bool \<times> engine" where
  "json_DelLocal v n k path e = json_del v n k path (host_ExpireAt v n e) e"

definition json_ApplySet :: "env \<Rightarrow> bytes \<Rightarrow> bytes \<Rightarrow> bytes \<Rightarrow> time \<Rightarrow> engine \<Rightarrow> bool \<times> engine" where
  "json_ApplySet v n k inbox ex e =
     (case json_DecodeSet inbox of
        Inl x \<Rightarrow> (False, e)
      | Inr (path, raw) \<Rightarrow>
          let ex' = or_ExpireAt v n ex e in
          apply_result (snapshot_write json_ReplicateSnapshot (\<lambda>g. JSet (eNow v) k path raw g ex' (MaxValue n e)) v n k ex' e))"

definition json_ApplyDel :: "env \<Rightarrow> bytes \<Rightarrow> bytes \<Rightarrow> bytes \<Rightarrow> time \<Rightarrow> engine \<Rightarrow> bool \<times> engine" where
  "json_ApplyDel v n k path ex e = json_del v n k path (or_ExpireAt v n ex e) e"

definition json_ApplyInstall :: "env \<Rightarrow> bytes \<Rightarrow> bytes \<Rightarrow> bytes \<Rightarrow> u64 \<Rightarrow> time \<Rightarrow> engine \<Rightarrow> bool \<times> engine" where
  "json_ApplyInstall v n k blob ver ex e = host_ApplyInstall JInstall v n k blob ver ex e"

definition json_FetchOwner :: "env \<Rightarrow> bytes \<Rightarrow> bytes \<Rightarrow> engine \<Rightarrow> entry option \<times> engine" where
  "json_FetchOwner v n k e = host_FetchOwner IsJSON (\<lambda>b. json_Decode b \<noteq> None) JInstall v n k e"

definition jFetchOwner :: "env \<Rightarrow> bytes \<Rightarrow> bytes \<Rightarrow> engine \<Rightarrow> entry option \<times> engine" where
  "jFetchOwner v n k e = engine_FetchOwner IsJSON (\<lambda>b. json_Decode b \<noteq> None) JInstall v n k e"

definition jExtract :: "bytes \<Rightarrow> bytes \<Rightarrow> bytes option" where
  "jExtract path blob =
     (case json_Decode blob of
        None \<Rightarrow> None
      | Some doc \<Rightarrow>
          (case ParsePath path of
             Inl x \<Rightarrow> None
           | Inr p \<Rightarrow> (case json_Get doc p of None \<Rightarrow> None | Some node \<Rightarrow> json_Encode node)))"

definition bad_path :: "bytes \<Rightarrow> bool" where
  "bad_path path = (case ParsePath path of Inl x \<Rightarrow> True | Inr p \<Rightarrow> False)"

definition path_checks :: "env \<Rightarrow> bytes \<Rightarrow> bytes \<Rightarrow> bytes \<Rightarrow> engine \<Rightarrow> engine_err option list" where
  "path_checks v n k path e =
     [eCtx v, validateKey n k e, getKS n e, check (ksMode (ks_config n e) \<noteq> ModeJSON) ErrInvalidArgument,
      validateKeyLen n k e, check (maxKeyLen e < int (length path)) ErrKeyTooLarge,
      check (bad_path path) ErrInvalidArgument]"

definition jMutViaOwner :: "env \<Rightarrow> bytes \<Rightarrow> bytes \<Rightarrow> bytes \<Rightarrow> u64 \<Rightarrow> peer \<Rightarrow> ring \<Rightarrow> engine_err option" where
  "jMutViaOwner v n k val flag p r = inbox_via_owner v n k val flag 1 p r"

definition JsonSet :: "env \<Rightarrow> bytes \<Rightarrow> bytes \<Rightarrow> bytes \<Rightarrow> bytes \<Rightarrow> engine \<Rightarrow> engine_err option \<times> engine" where
  "JsonSet v n k path val e =
     checked_write (first_err (path_checks v n k path e @
         [validateValueSize n val e, check (json_Decode val = None) ErrInvalidArgument]))
       (route_write k (jMutViaOwner v n k (json_EncodeSet path val) FlagJSONSet)
         (write_result \<circ> json_SetLocal v n k path val)) e"

definition JsonGet :: "env \<Rightarrow> bytes \<Rightarrow> bytes \<Rightarrow> bytes \<Rightarrow> engine \<Rightarrow> (engine_err + bytes option) \<times> engine" where
  "JsonGet v n k path e =
     checked (first_err (path_checks v n k path e))
       (read_or_fetch HasJSON (JGet (eNow v) k path) (json_FetchOwner v n k) (jExtract path) None v n k) e"

definition JsonDel :: "env \<Rightarrow> bytes \<Rightarrow> bytes \<Rightarrow> bytes \<Rightarrow> engine \<Rightarrow> engine_err option \<times> engine" where
  "JsonDel v n k path e =
     checked_write (first_err (path_checks v n k path e))
       (route_write k (jMutViaOwner v n k path FlagJSONDel)
         (\<lambda>e. case json_DelLocal v n k path e of (ok, e1) \<Rightarrow> (reject_err ok, e1))) e"

section \<open>Bitmaps\<close>

definition bitmap_ReplicateSnapshot :: replicator where
  "bitmap_ReplicateSnapshot v n k ver ex e = host_ReplicateSnapshot IsBitmap FlagBitmap v n k ver ex e"

definition bitmap_SetLocal :: "env \<Rightarrow> bytes \<Rightarrow> bytes \<Rightarrow> u64 \<Rightarrow> bool \<Rightarrow> engine \<Rightarrow> (bool \<times> bool) \<times> engine" where
  "bitmap_SetLocal v n k offset b e =
     (let ex = host_ExpireAt v n e in
      snapshot_write bitmap_ReplicateSnapshot (\<lambda>g. BSet (eNow v) k offset b g ex (MaxValue n e)) v n k ex e)"

definition bitmap_ApplySet :: "env \<Rightarrow> bytes \<Rightarrow> bytes \<Rightarrow> bytes \<Rightarrow> time \<Rightarrow> engine \<Rightarrow> bool \<times> engine" where
  "bitmap_ApplySet v n k inbox ex e =
     (case bitmap_DecodeSet inbox of
        Inl x \<Rightarrow> (False, e)
      | Inr (offset, b) \<Rightarrow>
          let ex' = or_ExpireAt v n ex e in
          apply_result (snapshot_write bitmap_ReplicateSnapshot (\<lambda>g. BSet (eNow v) k offset b g ex' (MaxValue n e)) v n k ex' e))"

definition bitmap_ApplyInstall :: "env \<Rightarrow> bytes \<Rightarrow> bytes \<Rightarrow> bytes \<Rightarrow> u64 \<Rightarrow> time \<Rightarrow> engine \<Rightarrow> bool \<times> engine" where
  "bitmap_ApplyInstall v n k blob ver ex e = host_ApplyInstall BInstall v n k blob ver ex e"

definition bitmap_FetchOwner :: "env \<Rightarrow> bytes \<Rightarrow> bytes \<Rightarrow> engine \<Rightarrow> entry option \<times> engine" where
  "bitmap_FetchOwner v n k e = host_FetchOwner IsBitmap (\<lambda>b. True) BInstall v n k e"

definition bFetchOwner :: "env \<Rightarrow> bytes \<Rightarrow> bytes \<Rightarrow> engine \<Rightarrow> entry option \<times> engine" where
  "bFetchOwner v n k e = engine_FetchOwner IsBitmap (\<lambda>b. True) BInstall v n k e"

definition bitmapNeed :: "bytes \<Rightarrow> u64 \<Rightarrow> engine \<Rightarrow> engine_err option" where
  "bitmapNeed n offset e =
     (case EncodedLen offset of
        None \<Rightarrow> Some ErrValueTooLarge
      | Some need \<Rightarrow> check (0 < MaxValue n e \<and> MaxValue n e < int need) ErrValueTooLarge)"

definition bMutViaOwner :: "env \<Rightarrow> bytes \<Rightarrow> bytes \<Rightarrow> bytes \<Rightarrow> peer \<Rightarrow> ring \<Rightarrow> engine_err option" where
  "bMutViaOwner v n k val p r = inbox_via_owner v n k val FlagBitmapSet 1 p r"

definition BitSet :: "env \<Rightarrow> bytes \<Rightarrow> bytes \<Rightarrow> u64 \<Rightarrow> bool \<Rightarrow> engine \<Rightarrow> engine_err option \<times> engine" where
  "BitSet v n k offset b e =
     checked_write (first_err [mode_checks v n k ModeBitmap e, bitmapNeed n offset e])
       (route_write k (bMutViaOwner v n k (bitmap_EncodeSet offset b))
         (write_result \<circ> bitmap_SetLocal v n k offset b)) e"

definition BitGet :: "env \<Rightarrow> bytes \<Rightarrow> bytes \<Rightarrow> u64 \<Rightarrow> engine \<Rightarrow> (engine_err + bool option) \<times> engine" where
  "BitGet v n k offset e =
     checked (mode_checks v n k ModeBitmap e)
       (read_or_fetch HasBitmap (BGet (eNow v) k offset) (bitmap_FetchOwner v n k)
         (\<lambda>b. Some (bitmap_Get b offset)) None v n k) e"

definition BitCount :: "env \<Rightarrow> bytes \<Rightarrow> bytes \<Rightarrow> int \<Rightarrow> int \<Rightarrow> engine \<Rightarrow> (engine_err + nat) \<times> engine" where
  "BitCount v n k start stop e =
     checked (mode_checks v n k ModeBitmap e)
       (read_or_fetch HasBitmap
         (\<lambda>m. case BCount (eNow v) k start stop m of (r, m') \<Rightarrow> (case r of None \<Rightarrow> 0 | Some c \<Rightarrow> c, m'))
         (bitmap_FetchOwner v n k) (\<lambda>b. bitmap_Count b start stop) 0 v n k) e"

definition BitPos :: "env \<Rightarrow> bytes \<Rightarrow> bytes \<Rightarrow> bool \<Rightarrow> int \<Rightarrow> int \<Rightarrow> engine \<Rightarrow> (engine_err + nat option) \<times> engine" where
  "BitPos v n k want start stop e =
     checked (mode_checks v n k ModeBitmap e)
       (read_or_fetch HasBitmap
         (\<lambda>m. case BPos (eNow v) k want start stop m of (r, m') \<Rightarrow> (case r of None \<Rightarrow> None | Some p \<Rightarrow> p, m'))
         (bitmap_FetchOwner v n k) (\<lambda>b. bitmap_Pos b want start stop) None v n k) e"

section \<open>HyperLogLog sketches\<close>

definition hll_ReplicateSnapshot :: replicator where
  "hll_ReplicateSnapshot v n k ver ex e = host_ReplicateSnapshot IsHLL FlagHLL v n k ver ex e"

definition hll_AddLocal :: "env \<Rightarrow> bytes \<Rightarrow> bytes \<Rightarrow> bytes \<Rightarrow> engine \<Rightarrow> (bool \<times> bool) \<times> engine" where
  "hll_AddLocal v n k item e =
     (let ex = host_ExpireAt v n e in
      snapshot_write hll_ReplicateSnapshot (\<lambda>g. HLLAdd (eNow v) k item g ex (MaxValue n e)) v n k ex e)"

definition hll_ApplyAdd :: "env \<Rightarrow> bytes \<Rightarrow> bytes \<Rightarrow> bytes \<Rightarrow> time \<Rightarrow> engine \<Rightarrow> bool \<times> engine" where
  "hll_ApplyAdd v n k item ex e =
     (if item = [] then (False, e)
      else
        let ex' = or_ExpireAt v n ex e in
        apply_result (snapshot_write hll_ReplicateSnapshot (\<lambda>g. HLLAdd (eNow v) k item g ex' (MaxValue n e)) v n k ex' e))"

definition hll_ApplyInstall :: "env \<Rightarrow> bytes \<Rightarrow> bytes \<Rightarrow> bytes \<Rightarrow> u64 \<Rightarrow> time \<Rightarrow> engine \<Rightarrow> bool \<times> engine" where
  "hll_ApplyInstall v n k blob ver ex e = host_ApplyInstall HLLInstall v n k blob ver ex e"

definition hll_FetchOwner :: "env \<Rightarrow> bytes \<Rightarrow> bytes \<Rightarrow> engine \<Rightarrow> entry option \<times> engine" where
  "hll_FetchOwner v n k e = host_FetchOwner IsHLL (\<lambda>b. True) HLLInstall v n k e"

definition hllFetchOwner :: "env \<Rightarrow> bytes \<Rightarrow> bytes \<Rightarrow> engine \<Rightarrow> entry option \<times> engine" where
  "hllFetchOwner v n k e = engine_FetchOwner IsHLL (\<lambda>b. True) HLLInstall v n k e"

definition hllNeed :: "bytes \<Rightarrow> engine \<Rightarrow> engine_err option" where
  "hllNeed n e = check (0 < MaxValue n e \<and> MaxValue n e < int DenseSize) ErrValueTooLarge"

definition hllMutViaOwner :: "env \<Rightarrow> bytes \<Rightarrow> bytes \<Rightarrow> bytes \<Rightarrow> peer \<Rightarrow> ring \<Rightarrow> engine_err option" where
  "hllMutViaOwner v n k item p r = inbox_via_owner v n k item FlagHLLAdd 1 p r"

definition engine_HLLAdd :: "env \<Rightarrow> bytes \<Rightarrow> bytes \<Rightarrow> bytes \<Rightarrow> engine \<Rightarrow> engine_err option \<times> engine" where
  "engine_HLLAdd v n k item e =
     checked_write (first_err [eCtx v, check (item = []) ErrInvalidArgument, mode_checks v n k ModeHLL e,
         check (maxKeyLen e < int (length item)) ErrKeyTooLarge, hllNeed n e])
       (route_write k (hllMutViaOwner v n k item) (write_result \<circ> hll_AddLocal v n k item)) e"

definition engine_HLLCount :: "env \<Rightarrow> bytes \<Rightarrow> bytes \<Rightarrow> engine \<Rightarrow> (engine_err + u64 option) \<times> engine" where
  "engine_HLLCount v n k e =
     checked (mode_checks v n k ModeHLL e)
       (read_or_fetch HasHLL (HLLCount (eFp v) (eNow v) k) (hll_FetchOwner v n k)
         (\<lambda>b. Some (hll_Count (eFp v) b)) None v n k) e"

section \<open>Top-k tables\<close>

definition topk_ReplicateSnapshot :: replicator where
  "topk_ReplicateSnapshot v n k ver ex e = host_ReplicateSnapshot IsTopK FlagTopK v n k ver ex e"

definition topk_install :: "bytes \<Rightarrow> engine \<Rightarrow> installer" where
  "topk_install n e now k blob ver ex m = TopKInstall now k blob ver ex (EffectiveTopKSize (ks_config n e)) m"

definition topk_write :: "env \<Rightarrow> bytes \<Rightarrow> bytes \<Rightarrow> bytes \<Rightarrow> time \<Rightarrow> engine \<Rightarrow> (bool \<times> bool) \<times> engine" where
  "topk_write v n k item ex e =
     snapshot_write topk_ReplicateSnapshot
       (\<lambda>g. TopKAdd (eNow v) k item g ex (EffectiveTopKSize (ks_config n e)) (MaxValue n e)) v n k ex e"

definition topk_AddLocal :: "env \<Rightarrow> bytes \<Rightarrow> bytes \<Rightarrow> bytes \<Rightarrow> engine \<Rightarrow> (bool \<times> bool) \<times> engine" where
  "topk_AddLocal v n k item e = topk_write v n k item (host_ExpireAt v n e) e"

definition topk_ApplyAdd :: "env \<Rightarrow> bytes \<Rightarrow> bytes \<Rightarrow> bytes \<Rightarrow> time \<Rightarrow> engine \<Rightarrow> bool \<times> engine" where
  "topk_ApplyAdd v n k item ex e =
     (if item = [] \<or> itemMax n e < int (length item) then (False, e)
      else apply_result (topk_write v n k item (or_ExpireAt v n ex e) e))"

definition topk_ApplyInstall :: "env \<Rightarrow> bytes \<Rightarrow> bytes \<Rightarrow> bytes \<Rightarrow> u64 \<Rightarrow> time \<Rightarrow> engine \<Rightarrow> bool \<times> engine" where
  "topk_ApplyInstall v n k blob ver ex e = host_ApplyInstall (topk_install n e) v n k blob ver ex e"

definition topk_FetchOwner :: "env \<Rightarrow> bytes \<Rightarrow> bytes \<Rightarrow> engine \<Rightarrow> entry option \<times> engine" where
  "topk_FetchOwner v n k e = host_FetchOwner IsTopK (\<lambda>b. True) (topk_install n e) v n k e"

definition topkFetchOwner :: "env \<Rightarrow> bytes \<Rightarrow> bytes \<Rightarrow> engine \<Rightarrow> entry option \<times> engine" where
  "topkFetchOwner v n k e = engine_FetchOwner IsTopK (\<lambda>b. True) (topk_install n e) v n k e"

definition topkNeed :: "bytes \<Rightarrow> engine \<Rightarrow> engine_err option" where
  "topkNeed n e =
     check (0 < MaxValue n e \<and> MaxValue n e < WorstEncodedSize (EffectiveTopKSize (ks_config n e)) (itemMax n e))
       ErrValueTooLarge"

definition topkMutViaOwner :: "env \<Rightarrow> bytes \<Rightarrow> bytes \<Rightarrow> bytes \<Rightarrow> peer \<Rightarrow> ring \<Rightarrow> engine_err option" where
  "topkMutViaOwner v n k item p r = inbox_via_owner v n k item FlagTopKAdd 1 p r"

definition engine_TopKAdd :: "env \<Rightarrow> bytes \<Rightarrow> bytes \<Rightarrow> bytes \<Rightarrow> engine \<Rightarrow> engine_err option \<times> engine" where
  "engine_TopKAdd v n k item e =
     checked_write (first_err [eCtx v, check (item = []) ErrInvalidArgument, mode_checks v n k ModeTopK e,
         check (itemMax n e < int (length item)) ErrKeyTooLarge, topkNeed n e])
       (route_write k (topkMutViaOwner v n k item) (write_result \<circ> topk_AddLocal v n k item)) e"

definition engine_TopKList :: "env \<Rightarrow> bytes \<Rightarrow> bytes \<Rightarrow> engine \<Rightarrow> (engine_err + topk_row list option) \<times> engine" where
  "engine_TopKList v n k e =
     checked (mode_checks v n k ModeTopK e)
       (\<lambda>e. let kk = EffectiveTopKSize (ks_config n e) in
             read_or_fetch HasTopK (TopKList (eNow v) k kk) (topk_FetchOwner v n k)
               (\<lambda>b. case topk_Decode b kk of Inl x \<Rightarrow> None | Inr tb \<Rightarrow> Some (topk_List (Some tb))) None v n k e) e"

section \<open>Count-min sketches\<close>

definition cms_ReplicateSnapshot :: replicator where
  "cms_ReplicateSnapshot v n k ver ex e = host_ReplicateSnapshot IsCMS FlagCMS v n k ver ex e"

definition cms_IncrLocal :: "env \<Rightarrow> bytes \<Rightarrow> bytes \<Rightarrow> bytes \<Rightarrow> u64 \<Rightarrow> engine \<Rightarrow> (bool \<times> bool) \<times> engine" where
  "cms_IncrLocal v n k item x e =
     (let ex = host_ExpireAt v n e in
      snapshot_write cms_ReplicateSnapshot (\<lambda>g. CMSIncr (eNow v) k item x g ex (MaxValue n e)) v n k ex e)"

definition cms_ApplyIncr :: "env \<Rightarrow> bytes \<Rightarrow> bytes \<Rightarrow> bytes \<Rightarrow> time \<Rightarrow> engine \<Rightarrow> bool \<times> engine" where
  "cms_ApplyIncr v n k inbox ex e =
     (case DecodeInbox inbox of
        Inl x \<Rightarrow> (False, e)
      | Inr (x, item) \<Rightarrow>
          if item = [] then (False, e)
          else
            let ex' = or_ExpireAt v n ex e in
            apply_result (snapshot_write cms_ReplicateSnapshot (\<lambda>g. CMSIncr (eNow v) k item x g ex' (MaxValue n e)) v n k ex' e))"

definition cms_ApplyInstall :: "env \<Rightarrow> bytes \<Rightarrow> bytes \<Rightarrow> bytes \<Rightarrow> u64 \<Rightarrow> time \<Rightarrow> engine \<Rightarrow> bool \<times> engine" where
  "cms_ApplyInstall v n k blob ver ex e = host_ApplyInstall CMSInstall v n k blob ver ex e"

definition cms_FetchOwner :: "env \<Rightarrow> bytes \<Rightarrow> bytes \<Rightarrow> engine \<Rightarrow> entry option \<times> engine" where
  "cms_FetchOwner v n k e = host_FetchOwner IsCMS (\<lambda>b. True) CMSInstall v n k e"

definition cmsNeed :: "bytes \<Rightarrow> engine \<Rightarrow> engine_err option" where
  "cmsNeed n e = check (0 < MaxValue n e \<and> MaxValue n e < int CMSSize) ErrValueTooLarge"

definition cmsMutViaOwner :: "env \<Rightarrow> bytes \<Rightarrow> bytes \<Rightarrow> bytes \<Rightarrow> u64 \<Rightarrow> peer \<Rightarrow> ring \<Rightarrow> engine_err option" where
  "cmsMutViaOwner v n k item x p r =
     (case EncodeInbox x item of
        Inl y \<Rightarrow> Some ErrInvalidArgument
      | Inr inbox \<Rightarrow> inbox_via_owner v n k inbox FlagCMSIncr 1 p r)"

definition engine_CMSIncr :: "env \<Rightarrow> bytes \<Rightarrow> bytes \<Rightarrow> bytes \<Rightarrow> u64 \<Rightarrow> engine \<Rightarrow> engine_err option \<times> engine" where
  "engine_CMSIncr v n k item x e =
     checked_write (first_err [eCtx v, check (item = []) ErrInvalidArgument, mode_checks v n k ModeCMS e,
         check (maxKeyLen e < int (length item)) ErrKeyTooLarge, cmsNeed n e])
       (route_write k (cmsMutViaOwner v n k item x) (write_result \<circ> cms_IncrLocal v n k item x)) e"

definition engine_CMSQuery :: "env \<Rightarrow> bytes \<Rightarrow> bytes \<Rightarrow> bytes \<Rightarrow> engine \<Rightarrow> (engine_err + u64 option) \<times> engine" where
  "engine_CMSQuery v n k item e =
     checked (first_err [eCtx v, check (item = []) ErrInvalidArgument, mode_checks v n k ModeCMS e])
       (read_or_fetch HasCMS (CMSQuery (eNow v) k item) (cms_FetchOwner v n k)
         (\<lambda>b. Some (cms_Query b item)) None v n k) e"

section \<open>Vector sets and streams: shared steps\<close>

text \<open>Check by check, where a check may read the store.\<close>

definition and_then ::
    "(engine \<Rightarrow> engine_err option \<times> engine) \<Rightarrow> (engine \<Rightarrow> engine_err option \<times> engine) \<Rightarrow> engine \<Rightarrow>
     engine_err option \<times> engine" where
  "and_then f g e = (case f e of (Some x, e1) \<Rightarrow> (Some x, e1) | (None, e1) \<Rightarrow> g e1)"

text \<open>A read that asks the owner when the local read has no answer.\<close>

definition local_or_fetch ::
    "bytes \<Rightarrow> (memory \<Rightarrow> 'a option \<times> memory) \<Rightarrow> (engine \<Rightarrow> entry option \<times> engine) \<Rightarrow> (bytes \<Rightarrow> 'a option) \<Rightarrow>
     engine \<Rightarrow> 'a option \<times> engine" where
  "local_or_fetch n local fetch fromBlob e =
     (case store_op n local e of
        (Some r, e1) \<Rightarrow> (Some r, e1)
      | (None, e1) \<Rightarrow>
          (case fetch e1 of
             (None, e2) \<Rightarrow> (None, e2)
           | (Some ent, e2) \<Rightarrow> (fromBlob (Value ent), e2)))"

text \<open>\<open>ent.Value[0] == PrefixSnapshot\<close>\<close>

definition is_snapshot :: "(entry \<Rightarrow> bool) \<Rightarrow> entry \<Rightarrow> bool" where
  "is_snapshot kind ent \<longleftrightarrow> kind ent \<and> Value ent \<noteq> [] \<and> hd (Value ent) = 83"

text \<open>The tail of \<open>RemLocal\<close>, \<open>DelLocal\<close> and \<open>TrimLocal\<close>: nothing is sent for a name that is
  not there.\<close>

definition change_local ::
    "replicator \<Rightarrow> (time \<Rightarrow> bytes \<Rightarrow> memory \<Rightarrow> bool \<times> memory) \<Rightarrow> (u64 \<Rightarrow> memory \<Rightarrow> bool \<times> memory) \<Rightarrow>
     env \<Rightarrow> bytes \<Rightarrow> bytes \<Rightarrow> time \<Rightarrow> engine \<Rightarrow> bool \<times> engine" where
  "change_local rep hasIt f v n k ex e =
     (case peek_version v n k e of
        (cur, e1) \<Rightarrow>
          (case store_op n (f (cur + 1)) e1 of
             (False, e2) \<Rightarrow> (False, e2)
           | (True, e2) \<Rightarrow>
               (case store_op n (hasIt (eNow v) k) e2 of
                  (False, e3) \<Rightarrow> (True, e3)
                | (True, e3) \<Rightarrow> (True, snapshot_done rep v n k ex e3))))"

definition owned_elsewhere :: "bytes \<Rightarrow> engine \<Rightarrow> bool" where
  "owned_elsewhere k e = (remoteOwner k e \<noteq> None)"

section \<open>Vector sets\<close>

definition vec_ReplicateSnapshot :: replicator where
  "vec_ReplicateSnapshot v n k ver ex e = host_ReplicateSnapshot (is_snapshot IsVectorSet) FlagVectorSet v n k ver ex e"

definition vec_AddLocal :: "env \<Rightarrow> bytes \<Rightarrow> bytes \<Rightarrow> bytes \<Rightarrow> f32 list \<Rightarrow> engine \<Rightarrow> (bool \<times> bool) \<times> engine" where
  "vec_AddLocal v n k member vec e =
     (let ex = host_ExpireAt v n e in
      snapshot_write vec_ReplicateSnapshot
        (\<lambda>g. VAdd (eNow v) k member vec g ex (MaxValue n e)) v n k ex e)"

definition vec_RemLocal :: "env \<Rightarrow> bytes \<Rightarrow> bytes \<Rightarrow> bytes \<Rightarrow> engine \<Rightarrow> bool \<times> engine" where
  "vec_RemLocal v n k member e =
     (let ex = host_ExpireAt v n e in
      change_local vec_ReplicateSnapshot HasVectorSet
        (\<lambda>g. VRem (eNow v) k member g ex) v n k ex e)"

definition vec_ApplyInbox :: "env \<Rightarrow> bytes \<Rightarrow> bytes \<Rightarrow> bytes \<Rightarrow> time \<Rightarrow> engine \<Rightarrow> bool \<times> engine" where
  "vec_ApplyInbox v n k blob ex e =
     (if blob = [] then (False, e)
      else
        let ex' = or_ExpireAt v n ex e in
        if hd blob = 65 then
          (case vec_DecodeInboxAdd blob of
             None \<Rightarrow> (False, e)
           | Some (member, vec) \<Rightarrow>
               apply_result (snapshot_write vec_ReplicateSnapshot
                 (\<lambda>g. VAdd (eNow v) k member vec g ex' (MaxValue n e)) v n k ex' e))
        else if hd blob = 82 then
          (case vec_DecodeInboxRem blob of
             None \<Rightarrow> (False, e)
           | Some member \<Rightarrow>
               apply_result (snapshot_write vec_ReplicateSnapshot
                 (\<lambda>g. as_write (VRem (eNow v) k member g ex')) v n k ex' e))
        else (False, e))"

definition vec_ApplyInstall :: "env \<Rightarrow> bytes \<Rightarrow> bytes \<Rightarrow> bytes \<Rightarrow> u64 \<Rightarrow> time \<Rightarrow> engine \<Rightarrow> bool \<times> engine" where
  "vec_ApplyInstall v n k blob ver ex e = host_ApplyInstall VSInstall v n k blob ver ex e"

definition vec_FetchOwner :: "env \<Rightarrow> bytes \<Rightarrow> bytes \<Rightarrow> engine \<Rightarrow> entry option \<times> engine" where
  "vec_FetchOwner v n k e = host_FetchOwner IsVectorSet (\<lambda>b. True) VSInstall v n k e"

definition vsNeed :: "bytes \<Rightarrow> bytes \<Rightarrow> engine \<Rightarrow> engine_err option" where
  "vsNeed n k e = mode_need n k ModeVectorSet e"

definition vsCheckMember :: "bytes \<Rightarrow> engine \<Rightarrow> engine_err option" where
  "vsCheckMember member e =
     first_err [check (length member < 1 \<or> MaxMemberLen < length member) ErrInvalidArgument,
       check (maxKeyLen e < int (length member)) ErrKeyTooLarge]"

definition vsCheckVec :: "env \<Rightarrow> bytes \<Rightarrow> bytes \<Rightarrow> f32 list \<Rightarrow> engine \<Rightarrow> engine_err option \<times> engine" where
  "vsCheckVec v n k vec e =
     (let c = ks_config n e; d = int (length vec) in
      if \<not> ValidDim d \<or> \<not> Finite vec then (Some ErrInvalidArgument, e)
      else if 0 < VectorDim c \<and> d \<noteq> VectorDim c then (Some ErrInvalidArgument, e)
      else
        case store_op n (VDim (eNow v) k) e of
          (dim, e1) \<Rightarrow>
            (if dim \<noteq> None \<and> dim \<noteq> Some d then (Some ErrInvalidArgument, e1)
             else if VectorMetric c = 0 \<and> IsZero vec then (Some ErrInvalidArgument, e1)
             else (None, e1)))"

definition vsCheckFull :: "env \<Rightarrow> bytes \<Rightarrow> bytes \<Rightarrow> bytes \<Rightarrow> engine \<Rightarrow> engine_err option \<times> engine" where
  "vsCheckFull v n k member e =
     (case store_op n (VCard (eNow v) k) e of
        (None, e1) \<Rightarrow> (None, e1)
      | (Some c, e1) \<Rightarrow>
          (case store_op n (VEmb (eNow v) k member) e1 of
             (emb, e2) \<Rightarrow> (check (emb = None \<and> MaxMembers \<le> c) ErrInvalidArgument, e2)))"

text \<open>\<open>Some vec\<close> adds the member, \<open>None\<close> removes it.\<close>

definition vsMutViaOwner :: "env \<Rightarrow> bytes \<Rightarrow> bytes \<Rightarrow> bytes \<Rightarrow> f32 list option \<Rightarrow> peer \<Rightarrow> ring \<Rightarrow> engine_err option" where
  "vsMutViaOwner v n k member vec p r =
     (case (case vec of Some x \<Rightarrow> vec_EncodeInboxAdd member x | None \<Rightarrow> vec_EncodeInboxRem member) of
        Inl x \<Rightarrow> Some ErrInvalidArgument
      | Inr inbox \<Rightarrow> inbox_via_owner v n k inbox FlagVectorSet 1 p r)"

definition engine_VAdd :: "env \<Rightarrow> bytes \<Rightarrow> bytes \<Rightarrow> bytes \<Rightarrow> f32 list \<Rightarrow> engine \<Rightarrow> engine_err option \<times> engine" where
  "engine_VAdd v n k member vec e =
     checked_write (first_err [eCtx v, validateKey n k e, getKS n e, vsNeed n k e, vsCheckMember member e])
       (and_then (vsCheckVec v n k vec) (and_then (vsCheckFull v n k member)
         (route_write k (vsMutViaOwner v n k member (Some vec))
           (write_result \<circ> vec_AddLocal v n k member vec)))) e"

definition engine_VRem :: "env \<Rightarrow> bytes \<Rightarrow> bytes \<Rightarrow> bytes \<Rightarrow> engine \<Rightarrow> engine_err option \<times> engine" where
  "engine_VRem v n k member e =
     checked_write (first_err [eCtx v, getKS n e, vsNeed n k e, vsCheckMember member e])
       (route_write k (vsMutViaOwner v n k member None)
         (\<lambda>e. case vec_RemLocal v n k member e of (ok, e1) \<Rightarrow> (reject_err ok, e1))) e"

definition engine_VSim ::
    "env \<Rightarrow> bytes \<Rightarrow> bytes \<Rightarrow> f32 list \<Rightarrow> int \<Rightarrow> engine \<Rightarrow> (engine_err + hit list) \<times> engine" where
  "engine_VSim v n k vec kk e =
     (case checked_write (first_err [eCtx v, getKS n e, vsNeed n k e]) (vsCheckVec v n k vec) e of
        (Some x, e1) \<Rightarrow> (Inl x, e1)
      | (None, e1) \<Rightarrow>
          let metric = VectorMetric (ks_config n e1) in
          (case local_or_fetch n (VSim (eFp v) (eNow v) k vec kk metric) (vec_FetchOwner v n k)
                  (\<lambda>b. case Sim (eFp v) b vec kk metric of Inl x \<Rightarrow> None | Inr raw \<Rightarrow> Some raw) e1 of
             (r, e2) \<Rightarrow> (Inr (case r of None \<Rightarrow> [] | Some hs \<Rightarrow> hs), e2)))"

definition vsReadInt ::
    "env \<Rightarrow> bytes \<Rightarrow> bytes \<Rightarrow> (memory \<Rightarrow> 'a option \<times> memory) \<Rightarrow> (bytes \<Rightarrow> 'a option) \<Rightarrow> engine \<Rightarrow>
     (engine_err + 'a option) \<times> engine" where
  "vsReadInt v n k local fromEnt e =
     checked (first_err [eCtx v, getKS n e, vsNeed n k e])
       (local_or_fetch n local (vec_FetchOwner v n k) fromEnt) e"

definition engine_VCard :: "env \<Rightarrow> bytes \<Rightarrow> bytes \<Rightarrow> engine \<Rightarrow> (engine_err + nat option) \<times> engine" where
  "engine_VCard v n k e =
     vsReadInt v n k (VCard (eNow v) k) (\<lambda>b. map_option vec_Card (vec_DecodeSnapshot b)) e"

definition engine_VDim :: "env \<Rightarrow> bytes \<Rightarrow> bytes \<Rightarrow> engine \<Rightarrow> (engine_err + int option) \<times> engine" where
  "engine_VDim v n k e =
     vsReadInt v n k (VDim (eNow v) k) (\<lambda>b. map_option vDim (vec_DecodeSnapshot b)) e"

definition engine_VEmb :: "env \<Rightarrow> bytes \<Rightarrow> bytes \<Rightarrow> bytes \<Rightarrow> engine \<Rightarrow> (engine_err + f32 list option) \<times> engine" where
  "engine_VEmb v n k member e =
     checked (first_err [eCtx v, getKS n e, vsNeed n k e, vsCheckMember member e])
       (local_or_fetch n (VEmb (eNow v) k member) (vec_FetchOwner v n k)
         (\<lambda>b. case vec_DecodeSnapshot b of None \<Rightarrow> None | Some s \<Rightarrow> vec_Emb s member)) e"

definition applyVectorSet :: "env \<Rightarrow> bytes \<Rightarrow> bytes \<Rightarrow> entry \<Rightarrow> engine \<Rightarrow> bool \<times> engine" where
  "applyVectorSet v n k ent e =
     (case Value ent of
        [] \<Rightarrow> (False, e)
      | b # bs \<Rightarrow>
          if b = 65 \<or> b = 82 then
            if owned_elsewhere k e then (False, e)
            else vec_ApplyInbox v n k (Value ent) (ExpireAt ent) e
          else if b = 83 then vec_ApplyInstall v n k (Value ent) (Version ent) (ExpireAt ent) e
          else (False, e))"

section \<open>Streams\<close>

definition stream_ReplicateSnapshot :: replicator where
  "stream_ReplicateSnapshot v n k ver ex e = host_ReplicateSnapshot (is_snapshot IsStream) FlagStream v n k ver ex e"

definition stream_AddLocal :: "env \<Rightarrow> bytes \<Rightarrow> bytes \<Rightarrow> bytes \<Rightarrow> engine \<Rightarrow> (engine_err + bytes) \<times> engine" where
  "stream_AddLocal v n k payload e =
     (let ex = host_ExpireAt v n e in
      case peek_version v n k e of
        (cur, e1) \<Rightarrow>
          (case store_op n (XAdd (eNow v) (eMilli v) k payload (cur + 1) ex (MaxValue n e)
                  (EffectiveStreamMaxLen (ks_config n e))) e1 of
             ((i, applied, tooLarge, full), e2) \<Rightarrow>
               if tooLarge then (Inl ErrValueTooLarge, e2)
               else if full then (Inl ErrInvalidArgument, e2)
               else if \<not> applied then (Inl ErrInvalidArgument, e2)
               else (Inr i, snapshot_done stream_ReplicateSnapshot v n k ex e2)))"

definition stream_DelLocal :: "env \<Rightarrow> bytes \<Rightarrow> bytes \<Rightarrow> bytes \<Rightarrow> engine \<Rightarrow> bool \<times> engine" where
  "stream_DelLocal v n k i e =
     (if ParseID i = None then (False, e)
      else
        let ex = host_ExpireAt v n e in
        change_local stream_ReplicateSnapshot HasStream (\<lambda>g. XDel (eNow v) k i g ex) v n k ex e)"

definition stream_TrimLocal :: "env \<Rightarrow> bytes \<Rightarrow> bytes \<Rightarrow> int \<Rightarrow> engine \<Rightarrow> bool \<times> engine" where
  "stream_TrimLocal v n k maxLen e =
     (if maxLen < 0 then (False, e)
      else
        let ex = host_ExpireAt v n e in
        change_local stream_ReplicateSnapshot HasStream (\<lambda>g. XTrim (eNow v) k maxLen g ex) v n k ex e)"

text \<open>The expiry that comes with the message is computed and then not used.\<close>

definition stream_ApplyInbox :: "env \<Rightarrow> bytes \<Rightarrow> bytes \<Rightarrow> bytes \<Rightarrow> time \<Rightarrow> engine \<Rightarrow> bool \<times> engine" where
  "stream_ApplyInbox v n k blob ex e =
     (if blob = [] then (False, e)
      else if hd blob = 65 then
        (case DecodeInboxAdd blob of
           None \<Rightarrow> (False, e)
         | Some payload \<Rightarrow> (case stream_AddLocal v n k payload e of (r, e1) \<Rightarrow> (\<not> isl r, e1)))
      else if hd blob = 68 then
        (case DecodeInboxDel blob of None \<Rightarrow> (False, e) | Some i \<Rightarrow> stream_DelLocal v n k i e)
      else if hd blob = 84 then
        (case DecodeInboxTrim blob of None \<Rightarrow> (False, e) | Some x \<Rightarrow> stream_TrimLocal v n k x e)
      else (False, e))"

definition stream_ApplyInstall :: "env \<Rightarrow> bytes \<Rightarrow> bytes \<Rightarrow> bytes \<Rightarrow> u64 \<Rightarrow> time \<Rightarrow> engine \<Rightarrow> bool \<times> engine" where
  "stream_ApplyInstall v n k blob ver ex e = host_ApplyInstall SXInstall v n k blob ver ex e"

definition stream_FetchOwner :: "env \<Rightarrow> bytes \<Rightarrow> bytes \<Rightarrow> engine \<Rightarrow> entry option \<times> engine" where
  "stream_FetchOwner v n k e = host_FetchOwner IsStream (\<lambda>b. DecodeSnapshot b \<noteq> None) SXInstall v n k e"

definition sxNeed :: "bytes \<Rightarrow> bytes \<Rightarrow> engine \<Rightarrow> engine_err option" where
  "sxNeed n k e = mode_need n k ModeStream e"

definition engine_XAdd :: "env \<Rightarrow> bytes \<Rightarrow> bytes \<Rightarrow> bytes \<Rightarrow> engine \<Rightarrow> (engine_err + bytes) \<times> engine" where
  "engine_XAdd v n k payload e =
     (case first_err [eCtx v, validateKey n k e, getKS n e, sxNeed n k e, validateValueSize n payload e] of
        Some x \<Rightarrow> (Inl x, e)
      | None \<Rightarrow>
          case remoteOwner k e of
            Some (c, r, p) \<Rightarrow>
              (if \<not> reachable_owner c p then Inl ErrUnavailable else eStreamAdd v (pAddr p) n k payload, e)
          | None \<Rightarrow> stream_AddLocal v n k payload e)"

definition sxInboxViaOwner :: "env \<Rightarrow> bytes \<Rightarrow> bytes \<Rightarrow> bytes \<Rightarrow> peer \<Rightarrow> ring \<Rightarrow> engine_err option" where
  "sxInboxViaOwner v n k blob p r = inbox_via_owner v n k blob FlagStream 0 p r"

definition engine_XDel :: "env \<Rightarrow> bytes \<Rightarrow> bytes \<Rightarrow> bytes \<Rightarrow> engine \<Rightarrow> engine_err option \<times> engine" where
  "engine_XDel v n k i e =
     checked_write (first_err [eCtx v, getKS n e, sxNeed n k e, check (ParseID i = None) ErrInvalidArgument])
       (route_write k (sxInboxViaOwner v n k (EncodeInboxDel i))
         (\<lambda>e. case stream_DelLocal v n k i e of (ok, e1) \<Rightarrow> (reject_err ok, e1))) e"

definition engine_XTrim :: "env \<Rightarrow> bytes \<Rightarrow> bytes \<Rightarrow> int \<Rightarrow> engine \<Rightarrow> engine_err option \<times> engine" where
  "engine_XTrim v n k maxLen e =
     checked_write (first_err [eCtx v, getKS n e, sxNeed n k e, check (maxLen < 0) ErrInvalidArgument])
       (route_write k (sxInboxViaOwner v n k (EncodeInboxTrim maxLen))
         (\<lambda>e. case stream_TrimLocal v n k maxLen e of (ok, e1) \<Rightarrow> (reject_err ok, e1))) e"

definition rangeFromBlob :: "bytes \<Rightarrow> bytes \<Rightarrow> int \<Rightarrow> bool \<Rightarrow> bytes \<Rightarrow> (bytes \<times> bytes) list" where
  "rangeFromBlob start stop cnt rv b =
     (case (DecodeSnapshot b, ParseBound start True, ParseBound stop False) of
        (Some lg, Some sb, Some eb) \<Rightarrow> map (\<lambda>s. (entry_ID s, sPayload s)) (log_Range lg sb eb cnt rv)
      | _ \<Rightarrow> [])"

definition sxRange ::
    "env \<Rightarrow> bytes \<Rightarrow> bytes \<Rightarrow> bytes \<Rightarrow> bytes \<Rightarrow> int \<Rightarrow> bool \<Rightarrow> engine \<Rightarrow>
     (engine_err + (bytes \<times> bytes) list) \<times> engine" where
  "sxRange v n k start stop cnt rv e =
     (case first_err [eCtx v, getKS n e, sxNeed n k e, check (ParseBound start True = None) ErrInvalidArgument,
              check (ParseBound stop False = None) ErrInvalidArgument] of
        Some x \<Rightarrow> (Inl x, e)
      | None \<Rightarrow>
          (case store_op n (XRange (eNow v) k start stop cnt rv) e of
             (Inl x, e1) \<Rightarrow> (Inl ErrInvalidArgument, e1)
           | (Inr (Some rows), e1) \<Rightarrow> (Inr rows, e1)
           | (Inr None, e1) \<Rightarrow>
               (case stream_FetchOwner v n k e1 of
                  (None, e2) \<Rightarrow> (Inr [], e2)
                | (Some ent, e2) \<Rightarrow> (Inr (rangeFromBlob start stop cnt rv (Value ent)), e2))))"

definition engine_XRange ::
    "env \<Rightarrow> bytes \<Rightarrow> bytes \<Rightarrow> bytes \<Rightarrow> bytes \<Rightarrow> int \<Rightarrow> engine \<Rightarrow> (engine_err + (bytes \<times> bytes) list) \<times> engine" where
  "engine_XRange v n k start stop cnt e = sxRange v n k start stop cnt False e"

definition engine_XRevRange ::
    "env \<Rightarrow> bytes \<Rightarrow> bytes \<Rightarrow> bytes \<Rightarrow> bytes \<Rightarrow> int \<Rightarrow> engine \<Rightarrow> (engine_err + (bytes \<times> bytes) list) \<times> engine" where
  "engine_XRevRange v n k start stop cnt e = sxRange v n k start stop cnt True e"

definition engine_XLen :: "env \<Rightarrow> bytes \<Rightarrow> bytes \<Rightarrow> engine \<Rightarrow> (engine_err + nat option) \<times> engine" where
  "engine_XLen v n k e =
     checked (first_err [eCtx v, getKS n e, sxNeed n k e])
       (local_or_fetch n (XLen (eNow v) k) (stream_FetchOwner v n k)
         (\<lambda>b. map_option (\<lambda>lg. length (Entries lg)) (DecodeSnapshot b))) e"

definition applyStream :: "env \<Rightarrow> bytes \<Rightarrow> bytes \<Rightarrow> entry \<Rightarrow> engine \<Rightarrow> bool \<times> engine" where
  "applyStream v n k ent e =
     (case Value ent of
        [] \<Rightarrow> (False, e)
      | b # bs \<Rightarrow>
          if b = 65 \<or> b = 68 \<or> b = 84 then
            if owned_elsewhere k e then (False, e)
            else stream_ApplyInbox v n k (Value ent) (ExpireAt ent) e
          else if b = 83 then stream_ApplyInstall v n k (Value ent) (Version ent) (ExpireAt ent) e
          else (False, e))"

end
