(* ===== verification/EngineApply.thy ===== *)
theory EngineApply
  imports EngineContainers EngineBlobs
begin

text \<open>
  The receiving side of replication (\<open>pkg/engine/engine.go\<close>): \<open>ApplyPut\<close> and \<open>ApplyDelete\<close>,
  which the peer handlers call for every message of another node. The message kind is in
  the flags; the tests run in the order of the source.
\<close>

section \<open>Messages\<close>

text \<open>An accepted operation is passed on when this node owns the key.\<close>

definition apply_op :: "bytes \<Rightarrow> bytes \<Rightarrow> entry \<Rightarrow> (engine \<Rightarrow> bool \<times> engine) \<Rightarrow> engine \<Rightarrow> bool \<times> engine" where
  "apply_op n k ent f e =
     (case f e of
        (ok, e1) \<Rightarrow>
          (ok,
           if \<not> ok then e1
           else case ring_of e1 of
                  None \<Rightarrow> e1
                | Some (c, r) \<Rightarrow>
                    (case Owner k r of
                       Some p \<Rightarrow> if pID p = SelfID c then replicate n k ent False e1 else e1
                     | None \<Rightarrow> e1)))"

text \<open>An operation the owner must run is refused by any other node.\<close>

definition apply_owned :: "bytes \<Rightarrow> (engine \<Rightarrow> bool \<times> engine) \<Rightarrow> engine \<Rightarrow> bool \<times> engine" where
  "apply_owned k f e = (if owned_elsewhere k e then (False, e) else f e)"

text \<open>The tests from the counters on.\<close>

definition apply_snapshots :: "env \<Rightarrow> bytes \<Rightarrow> bytes \<Rightarrow> entry \<Rightarrow> engine \<Rightarrow> bool \<times> engine" where
  "apply_snapshots v n k ent e =
     (let val = Value ent; ver = Version ent; ex = ExpireAt ent in
      if IsCounter ent then counter_ApplyInstall v n k val ver ex e
      else if IsJSONSet ent then apply_owned k (json_ApplySet v n k val ex) e
      else if IsJSONDel ent then apply_owned k (json_ApplyDel v n k val ex) e
      else if IsJSON ent then json_ApplyInstall v n k val ver ex e
      else if IsBitmapSet ent then apply_owned k (bitmap_ApplySet v n k val ex) e
      else if IsBitmap ent then bitmap_ApplyInstall v n k val ver ex e
      else if IsHLLAdd ent then apply_owned k (hll_ApplyAdd v n k val ex) e
      else if IsHLL ent then hll_ApplyInstall v n k val ver ex e
      else if IsTopKAdd ent then apply_owned k (topk_ApplyAdd v n k val ex) e
      else if IsTopK ent then topk_ApplyInstall v n k val ver ex e
      else if IsCMSIncr ent then apply_owned k (cms_ApplyIncr v n k val ex) e
      else if IsCMS ent then cms_ApplyInstall v n k val ver ex e
      else if IsVectorSet ent then applyVectorSet v n k ent e
      else if IsStream ent then applyStream v n k ent e
      else if IsNegative ent then store_op n (AcceptNegative (eNow v) k ent) e
      else store_op n (AcceptIfNewer (eNow v) k ent) e)"

definition apply_put :: "env \<Rightarrow> bytes \<Rightarrow> bytes \<Rightarrow> entry \<Rightarrow> engine \<Rightarrow> bool \<times> engine" where
  "apply_put v n k ent e =
     (let val = Value ent; ver = Version ent; ex = ExpireAt ent in
      if IsBloomAdd ent then apply_op n k ent (bloom_ApplyAdd v n k val ver ex) e
      else if IsBloom ent then bloom_ApplyMerge v n k val ver ex e
      else if IsSetAdd ent then apply_op n k ent (set_ApplyAdd v n k val ver ex) e
      else if IsSetRemove ent then apply_op n k ent (set_ApplyRemove v n k val ver ex) e
      else if IsSet ent then set_ApplyInstall v n k val ver ex e
      else if IsZSetAdd ent then apply_op n k ent (zset_ApplyAdd v n k val ver ex) e
      else if IsZSetRem ent then apply_op n k ent (zset_ApplyRem v n k val ver ex) e
      else if IsZSet ent then zset_ApplyInstall v n k val ver ex e
      else if IsGeoAdd ent then apply_op n k ent (geo_ApplyAdd v n k val ver ex) e
      else if IsGeoRem ent then apply_op n k ent (geo_ApplyRem v n k val ver ex) e
      else if IsGeo ent then geo_ApplyInstall v n k val ver ex e
      else if IsListLPush ent then apply_owned k (list_ApplyLPush v n k val ex) e
      else if IsListRPush ent then apply_owned k (list_ApplyRPush v n k val ex) e
      else if IsList ent then list_ApplyInstall v n k val ver ex e
      else if IsHashSet ent then apply_op n k ent (hash_ApplySet v n k val ver ex) e
      else if IsHashDel ent then apply_op n k ent (hash_ApplyDel v n k val ver ex) e
      else if IsHash ent then hash_ApplyInstall v n k val ver ex e
      else apply_snapshots v n k ent e)"

text \<open>\<open>noteRingGeneration\<close> only counts mismatches.\<close>

definition ApplyPutWithRingGen ::
    "env \<Rightarrow> bytes \<Rightarrow> bytes \<Rightarrow> entry \<Rightarrow> u64 \<Rightarrow> engine \<Rightarrow> (engine_err + bool) \<times> engine" where
  "ApplyPutWithRingGen v n k ent ringGeneration e =
     checked (first_err [validateKey n k e, getKS n e])
       (\<lambda>e. apply_put v n k ent (observe_ver v n k (Version ent) e)) e"

definition engine_ApplyPut :: "env \<Rightarrow> bytes \<Rightarrow> bytes \<Rightarrow> entry \<Rightarrow> engine \<Rightarrow> (engine_err + bool) \<times> engine" where
  "engine_ApplyPut v n k ent e = ApplyPutWithRingGen v n k ent 0 e"

definition ApplyDeleteWithRingGen ::
    "env \<Rightarrow> bytes \<Rightarrow> bytes \<Rightarrow> u64 \<Rightarrow> u64 \<Rightarrow> engine \<Rightarrow> (engine_err + bool) \<times> engine" where
  "ApplyDeleteWithRingGen v n k deleteVersion ringGeneration e =
     checked (first_err [validateKey n k e, getKS n e])
       (\<lambda>e. store_op n (DeleteIfVersion (eNow v) k deleteVersion) (observe_ver v n k deleteVersion e)) e"

definition engine_ApplyDelete :: "env \<Rightarrow> bytes \<Rightarrow> bytes \<Rightarrow> u64 \<Rightarrow> engine \<Rightarrow> (engine_err + bool) \<times> engine" where
  "engine_ApplyDelete v n k deleteVersion e = ApplyDeleteWithRingGen v n k deleteVersion 0 e"

end
