(* ===== verification/StoreWf.thy ===== *)
theory StoreWf
  imports Lww StoreSet StoreZSet StoreGeo StoreHash StoreList StoreCounter StoreBitmap StoreBloom
    StoreHLL StoreCMS StoreTopK StoreStream StoreVec StoreJSON
begin

text \<open>
  Every operation of the store keeps its type invariant \<open>store_ok\<close>: the store is well
  formed (\<open>mem_wf\<close>) and every entry is of at most one kind. The lemmas are collected in
  \<open>store_keeps\<close> for the engine, which reaches the store through these operations only.
\<close>

named_theorems store_keeps

section \<open>Kinds of entries\<close>

text \<open>A stored entry is a plain value, a tombstone, a negative entry or a container of one kind.\<close>

definition kinds :: "u64 list" where
  "kinds = [FlagNegative, FlagBloom, FlagSet, FlagZSet, FlagGeo, FlagList, FlagHash, FlagCounter, FlagJSON, FlagBitmap,
     FlagHLL, FlagTopK, FlagCMS, FlagVectorSet, FlagStream]"

definition one_kind :: "entry \<Rightarrow> bool" where
  "one_kind e \<longleftrightarrow>
     (\<forall>f \<in> set kinds. \<forall>g \<in> set kinds. Flags e AND f \<noteq> 0 \<longrightarrow> Flags e AND g \<noteq> 0 \<longrightarrow> f = g)"

definition store_ok :: "memory \<Rightarrow> bool" where
  "store_ok m \<longleftrightarrow> mem_wf m \<and> (\<forall>k e. view m k = Some e \<longrightarrow> one_kind e)"

text \<open>\<open>kept m m'\<close>: the store stays well formed and gains only entries of one kind.\<close>

definition kept :: "memory \<Rightarrow> memory \<Rightarrow> bool" where
  "kept m m' \<longleftrightarrow> mem_wf m' \<and> (\<forall>j e. view m' j = Some e \<longrightarrow> view m j = Some e \<or> one_kind e)"

lemma kept_ok: "kept m m' \<Longrightarrow> store_ok m \<Longrightarrow> store_ok m'"
  by (auto simp: kept_def store_ok_def)

lemma store_ok_wf: "store_ok m \<Longrightarrow> mem_wf m"
  by (simp add: store_ok_def)

lemma store_ok_NewMemory [simp]: "store_ok (NewMemory mx ttl)"
  by (simp add: store_ok_def)

lemma kept_trans: "kept a b \<Longrightarrow> kept b c \<Longrightarrow> kept a c"
  unfolding kept_def by meson

lemma kept_view: "mem_wf m' \<Longrightarrow> view m' = view m \<Longrightarrow> kept m m'"
  by (simp add: kept_def)

lemma kept_drop: "mem_wf m' \<Longrightarrow> view m' = (view m)(k := None) \<Longrightarrow> kept m m'"
  by (simp add: kept_def)

lemma kept_expire: "mem_wf m' \<Longrightarrow> view m' = expire_key now k (view m) \<Longrightarrow> kept m m'"
  by (auto simp: kept_def expire_key_def split: option.splits if_splits)

lemma kept_stored: "stored now k e m m' \<Longrightarrow> one_kind e \<Longrightarrow> kept m m'"
  unfolding kept_def by (metis fun_upd_apply option.inject stored_le stored_wf)

lemma kept_simps [simp]:
  assumes "mem_wf m"
  shows "kept m m" "kept m (removeElement k m)" "kept m (skipStale m)"
  by (rule kept_view; simp add: assms)
    (rule kept_drop, simp_all add: assms mem_wf_removeElement view_removeElement kept_view mem_wf_counters)

lemma kinds_distinct: "f \<in> set kinds \<Longrightarrow> g \<in> set kinds \<Longrightarrow> f AND g \<noteq> 0 \<Longrightarrow> f = g"
  by (auto simp: kinds_def Flag_defs)

lemma kind_one: "Flags e \<in> set kinds \<Longrightarrow> one_kind e"
  unfolding one_kind_def by (metis kinds_distinct)

lemma kindless: "\<forall>f \<in> set kinds. Flags e AND f = 0 \<Longrightarrow> one_kind e"
  by (simp add: one_kind_def)

lemma one_kind_bloom:
  assumes "one_kind e" "IsBloom e"
  shows "plain e"
proof -
  have "Flags e AND g = 0" if "g \<in> {FlagSet, FlagZSet, FlagGeo, FlagList, FlagHash, FlagJSON}" for g
  proof -
    have "g \<in> set kinds" "g \<noteq> FlagBloom" using that by (auto simp: kinds_def Flag_defs)
    moreover have "FlagBloom \<in> set kinds" by (simp add: kinds_def)
    ultimately show ?thesis using assms unfolding one_kind_def Is_defs by blast
  qed
  then show ?thesis by (simp add: plain_def Is_defs)
qed

lemma one_kind_negative:
  assumes "one_kind e" "IsNegative e"
  shows "plain e"
proof -
  have "Flags e AND g = 0" if "g \<in> {FlagSet, FlagZSet, FlagGeo, FlagList, FlagHash, FlagJSON}" for g
  proof -
    have "g \<in> set kinds" "g \<noteq> FlagNegative" using that by (auto simp: kinds_def Flag_defs)
    moreover have "FlagNegative \<in> set kinds" by (simp add: kinds_def)
    ultimately show ?thesis using assms unfolding one_kind_def Is_defs by blast
  qed
  then show ?thesis by (simp add: plain_def Is_defs)
qed

text \<open>An entry without a container flag, negative or not.\<close>

lemma bare_kind:
  assumes "\<not> IsBloom e" "\<not> IsSet e" "\<not> IsZSet e" "\<not> IsGeo e" "\<not> IsList e" "\<not> IsHash e" "\<not> IsCounter e" "\<not> IsJSON e"
    "\<not> IsBitmap e" "\<not> IsHLL e" "\<not> IsTopK e" "\<not> IsCMS e" "\<not> IsVectorSet e" "\<not> IsStream e"
  shows "one_kind e"
  using assms by (simp add: one_kind_def kinds_def Is_defs)

section \<open>The contracts keep the invariant\<close>

context cached_container
begin

lemma peek_kept: "mem_wf m \<Longrightarrow> kept m (snd (peek now k m))"
  by (rule kept_expire) (rule peek_spec, assumption)+

lemma mutate_kept:
  assumes wf: "mem_wf m" and fl: "flag \<in> set kinds" and f: "\<And>x y. ok x \<Longrightarrow> app f x = Inr y \<Longrightarrow> ok y"
  shows "kept m (snd (mutate now k v ex f m))"
proof (cases "admits dec flag now v m k")
  case True
  have "ok (base now m k)"
    using live_ok [OF wf] ok_empty by (auto simp: base_def split: option.splits)
  with f have y: "app f (base now m k) = Inr y \<Longrightarrow> ok y" for y by simp
  show ?thesis
  proof (cases "app f (base now m k)")
    case (Inl err)
    then show ?thesis using mutate_failed [OF wf True Inl] by (auto simp: kept_def split: if_splits)
  next
    case (Inr b)
    have "one_kind (result now v ex b m k)" using fl by (intro kind_one) (simp add: result_simps)
    then show ?thesis using mutate_stored [OF wf True Inr y [OF Inr]] by (blast intro: kept_stored)
  qed
qed (simp add: mutate_refused [OF wf] kept_view)

lemma install_kept:
  assumes "mem_wf m" "flag \<in> set kinds" "go_len blob"
  shows "kept m (snd (install now k blob v ex m))"
proof -
  have "one_kind (snap blob v ex)" using assms(2) by (intro kind_one) simp
  then show ?thesis
    using assms install_blocked [OF assms(1), of now v k blob ex] install_stored [OF assms(1), of now v k blob _ ex]
      install_malformed [OF assms(1), of now v k blob _ ex]
    by (cases "newer now v m k"; cases "dec blob") (auto intro: kept_view kept_drop kept_stored)
qed

end

context removable_container
begin

lemma remove_kept: "mem_wf m \<Longrightarrow> flag \<in> set kinds \<Longrightarrow> kept m (snd (remove now k x v ex m))"
  by (auto simp: remove_eq split: option.splits intro: mutate_kept rmf_ok)

end

context blob_store
begin

lemma install_kept:
  assumes "mem_wf m" "flag \<in> set kinds"
  shows "kept m (snd (install now k blob v ex m))"
proof -
  have "one_kind \<lparr>Value = blob, Version = v, ExpireAt = ex, Flags = flag\<rparr>" using assms(2) by (intro kind_one) simp
  then show ?thesis
    using assms install_blocked [OF assms(1), of now v k blob ex] install_stored(1) [OF assms(1), of now v k blob ex]
    by (cases "newer now v m k"; cases "valid blob") (auto simp: install_invalid intro: kept_view kept_stored)
qed

end

context local_blob
begin

lemma add_kept:
  assumes "mem_wf m" "flag \<in> set kinds"
  shows "kept m (snd (add now k a v ex m))"
proof (cases "pre a")
  case None
  show ?thesis
  proof (cases "app (base now m k) a")
    case (Inl too)
    then show ?thesis using add_fails [OF assms(1) None] by (blast intro: kept_view kept_expire)
  next
    case (Inr b)
    have "one_kind (result now b ex m k)" using assms(2) by (intro kind_one) simp
    then show ?thesis
      using add_fails [OF assms(1) None, of now v k] kept_stored [OF add_stored(1) [OF assms(1) None _ Inr]]
      by (blast intro: kept_view kept_expire)
  qed
qed (simp add: add_pre assms)

end

section \<open>Plain entries\<close>

lemma tombstone_kind: "one_kind (tombstone v x)"
  by (rule kindless) (simp add: kinds_def tombstone_def Flag_defs)

lemma memory_kept [store_keeps]:
  assumes "mem_wf m"
  shows "kept m (snd (Get now k m))" "kept m (snd (Peek now k m))" "kept m (snd (PeekVersion now k m))"
    "kept m (snd (DeleteIfVersion now k v m))"
    "go_len (Value e) \<Longrightarrow> one_kind e \<Longrightarrow> kept m (snd (AcceptIfNewer now k e m))"
    "go_len (Value e) \<Longrightarrow> one_kind e \<Longrightarrow> plain e \<Longrightarrow> kept m (snd (AcceptNegative now k e m))"
  subgoal using Get_spec [OF assms, of now k] by (auto simp: kept_def split: option.splits if_splits)
  subgoal using Peek_spec [OF assms, of now k] by (auto simp: kept_def split: option.splits if_splits)
  subgoal using assms by (auto simp: PeekVersion_def split: option.splits)
  subgoal using DeleteIfVersion_spec [OF assms, of now k v] tombstone_kind
    by (auto intro: kept_stored kept_view split: if_splits)
  subgoal using AcceptIfNewer_spec [OF assms, of e now k] by (auto intro: kept_stored kept_view split: if_splits)
  subgoal using AcceptNegative_spec [OF assms, of e now k] by (auto intro: kept_stored kept_view split: if_splits)
  done

lemma RangeAll_kept [store_keeps]: "mem_wf m \<Longrightarrow> kept m (snd (RangeAll now ks f m))"
proof (induction now ks f m rule: RangeAll.induct)
  case (2 now k keys fn m)
  obtain r m1 where p: "Peek now k m = (r, m1)" by (cases "Peek now k m")
  then have m1: "kept m m1" using memory_kept(2) [OF 2(3), of now k] by simp
  then have wf: "mem_wf m1" by (simp add: kept_def)
  show ?case
    using 2(1) [OF p [symmetric], of] 2(2) [OF p [symmetric]] p m1 wf
    by (auto split: option.splits prod.splits intro: kept_trans)
qed simp

section \<open>Containers\<close>

lemma kinds_mem [simp]:
  "FlagNegative \<in> set kinds" "FlagBloom \<in> set kinds" "FlagSet \<in> set kinds" "FlagZSet \<in> set kinds" "FlagGeo \<in> set kinds"
  "FlagList \<in> set kinds" "FlagHash \<in> set kinds" "FlagCounter \<in> set kinds" "FlagJSON \<in> set kinds"
  "FlagBitmap \<in> set kinds" "FlagHLL \<in> set kinds" "FlagTopK \<in> set kinds" "FlagCMS \<in> set kinds"
  "FlagVectorSet \<in> set kinds" "FlagStream \<in> set kinds"
  by (simp_all add: kinds_def)

lemma set_kept [store_keeps]:
  assumes "mem_wf m"
  shows "kept m (snd (SetContains now k x m))" "kept m (snd (HasSet now k m))" "kept m (snd (SetCard now k m))"
    "kept m (snd (SetMembers now k m))" "kept m (snd (SetRemove now k x v ex m))"
    "go_len blob \<Longrightarrow> kept m (snd (SetInstall now k blob v ex m))"
    "go_len x \<Longrightarrow> kept m (snd (SetAdd now k x v ex m))"
  using st.peek_kept [OF assms]
  by (auto simp: SetContains_def HasSet_def SetCard_def SetMembers_def split_beta split: option.split
      intro: str.remove_kept [OF assms] st.install_kept [OF assms])
    (auto simp: SetAdd_def set_ok_def set_Add_def intro!: st.mutate_kept [OF assms])

lemma zset_kept [store_keeps]:
  assumes "mem_wf m"
  shows "kept m (snd (ZScore now k x m))" "kept m (snd (HasZSet now k m))" "kept m (snd (ZCard now k m))"
    "kept m (snd (ZRange now k i j m))" "kept m (snd (ZRangeByScore now k lo hi m))"
    "kept m (snd (ZRem now k x v ex m))"
    "go_len blob \<Longrightarrow> kept m (snd (ZInstall now k blob v ex m))"
    "go_len x \<Longrightarrow> kept m (snd (ZAdd now k x s v ex m))"
  using zt.peek_kept [OF assms]
  by (auto simp: ZScore_def HasZSet_def ZCard_def ZRange_def ZRangeByScore_def split_beta split: option.split
      intro: ztr.remove_kept [OF assms] zt.install_kept [OF assms])
    (auto simp: ZAdd_def zset_ok_lookup zset_Add_def assms split: if_splits intro!: zt.mutate_kept [OF assms])

lemma geo_kept [store_keeps]:
  assumes "mem_wf m"
  shows "kept m (snd (GeoPos now k x m))" "kept m (snd (HasGeo now k m))" "kept m (snd (GeoCard now k m))"
    "kept m (snd (GeoDist fp now k x y m))" "kept m (snd (GeoRadius fp now k lon lat r lim m))"
    "kept m (snd (GeoRem now k x v ex m))"
    "go_len blob \<Longrightarrow> kept m (snd (GeoInstall now k blob v ex m))"
    "go_len x \<Longrightarrow> kept m (snd (GeoAdd now k x lon lat v ex m))"
  using gt.peek_kept [OF assms]
  by (auto simp: GeoPos_def HasGeo_def GeoCard_def GeoDist_def GeoRadius_def split_beta split: option.split
      intro: gtr.remove_kept [OF assms] gt.install_kept [OF assms])
    (auto simp: GeoAdd_def geo_ok_lookup geo_Add_def split: if_splits intro!: gt.mutate_kept [OF assms])

lemma hash_kept [store_keeps]:
  assumes "mem_wf m"
  shows "kept m (snd (HGet now k x m))" "kept m (snd (HasHash now k m))" "kept m (snd (HLen now k m))"
    "kept m (snd (HExists now k x m))" "kept m (snd (HGetAll now k m))" "kept m (snd (HDel now k x v ex m))"
    "go_len blob \<Longrightarrow> kept m (snd (HInstall now k blob v ex m))"
    "go_len x \<Longrightarrow> go_len y \<Longrightarrow> kept m (snd (HSet now k x y v ex m))"
  using ht.peek_kept [OF assms]
  by (auto simp: HGet_def HasHash_def HLen_def HExists_def HGetAll_def split_beta split: option.split
      intro: htr.remove_kept [OF assms] ht.install_kept [OF assms])
    (auto simp: HSet_def hash_ok_lookup hash_Set_def split: if_splits intro!: ht.mutate_kept [OF assms])

text \<open>A pop rewrites the cached list.\<close>

lemma lPop_kept:
  assumes wf: "mem_wf m"
  shows "kept m (snd (lPopLocked now k v ex left m))"
proof (cases "items m k")
  case None
  then show ?thesis using wf by (simp add: lPopLocked_def)
next
  case (Some it)
  show ?thesis
  proof (cases "\<exists>l y l'. \<not> Expired (entry it) now \<and> \<not> IsTombstone (entry it) \<and> IsList (entry it) \<and>
      (case lCache it of None \<Rightarrow> list_Decode (Value (entry it)) | Some l \<Rightarrow> Inr l) = Inr l \<and>
      (if left then list_LPop l else list_RPop l) = Some (y, l')")
    case True
    then obtain l y l' where live: "\<not> Expired (entry it) now" "\<not> IsTombstone (entry it)" "IsList (entry it)"
      and l: "(case lCache it of None \<Rightarrow> list_Decode (Value (entry it)) | Some l \<Rightarrow> Inr l) = Inr l"
      and p: "(if left then list_LPop l else list_RPop l) = Some (y, l')" by blast
    have "list_ok l"
      using li.cached_value [OF mem_wfD(2) [OF wf Some]] li.cached_ok [OF mem_wfD(2) [OF wf Some]] live l
      by (auto simp: Is_defs)
    then have "list_ok l'"
      using p by (auto simp: list_ok_def list_LPop_def list_RPop_def split: list.splits if_splits dest: in_set_butlastD)
    note st = li.update_spec [OF wf Some this, of now "Version (entry it) + 1"
        "if ex \<noteq> 0 then ex else ExpireAt (entry it)"]
    have "kept m (snd ((Some y, True), snd (lPopLocked now k v ex left m)))"
      using kept_stored [OF st] live l p Some
      by (simp add: lPopLocked_def setLSlot_def Let_def kind_one)
    then show ?thesis by simp
  qed (use Some wf in \<open>auto simp: lPopLocked_def split: sum.splits option.splits\<close>)
qed

lemma list_kept [store_keeps]:
  assumes "mem_wf m"
  shows "kept m (snd (LLen now k m))" "kept m (snd (HasList now k m))" "kept m (snd (LIndex now k i m))"
    "kept m (snd (LRange now k i j m))" "kept m (snd (LPop now k v ex m))" "kept m (snd (RPop now k v ex m))"
    "go_len blob \<Longrightarrow> kept m (snd (LInstall now k blob v ex m))"
    "go_len x \<Longrightarrow> kept m (snd (LPush now k x v ex m))" "go_len x \<Longrightarrow> kept m (snd (RPush now k x v ex m))"
  using li.peek_kept [OF assms]
  by (auto simp: LLen_def HasList_def LIndex_def LRange_def LPop_def RPop_def split_beta lPop_kept [OF assms]
      split: option.split intro: li.install_kept [OF assms])
    (auto simp: LPush_def RPush_def list_ok_def list_LPush_def list_RPush_def intro!: li.mutate_kept [OF assms])

section \<open>Blobs\<close>

text \<open>An entry of an uncached kind written in place.\<close>

lemma in_place_kept:
  assumes "mem_wf m" "items m k = Some it" "plain e" "one_kind e"
  shows "kept m (evictLocked now (moveToFront k (replaceItem k (it\<lparr>entry := e, cost := entryCost k e\<rparr>) m)))"
    and "kept m (moveToFront k (clampBytes (replaceItem k (it\<lparr>entry := e, cost := entryCost k e\<rparr>) m)))"
proof -
  let ?it = "it\<lparr>entry := e, cost := entryCost k e\<rparr>"
  have it: "key ?it = k" "item_wf ?it" "mat ?it = e"
    using mem_wfD(1) [OF assms(1,2)] item_wf_in_place [OF assms(3) mem_wfD(1) [OF assms(1,2)]] assms(3)
    by simp_all
  show "kept m (evictLocked now (moveToFront k (replaceItem k ?it m)))"
    using kept_stored [OF stored_replace [OF assms(1,2) it(1,2), of now]] assms(4) it(3) by simp
  have wf: "mem_wf (replaceItem k ?it m)" by (rule mem_wf_replaceItem [OF assms(1,2) it(1,2)])
  then have "clampBytes (replaceItem k ?it m) = replaceItem k ?it m" by (simp add: clampBytes_id mbytes_nonneg)
  then show "kept m (moveToFront k (clampBytes (replaceItem k ?it m)))"
    using mem_wf_moveToFront [OF wf] assms(2,4) it(3)
    by (auto simp: kept_def items_replaceItem view_replaceItem split: if_splits)
qed

lemma insert_kept:
  assumes "mem_wf m" "plain e" "one_kind e" "items m k = None"
  shows "kept m (evictLocked now (pushFront k (mkItem k e (entryCost k e)) m))"
  by (rule kept_stored [OF insert_plain_stored [OF assms(1,4,2)] assms(3)])

lemma cInsert_kept:
  "mem_wf m \<Longrightarrow> kept m (snd (cInsertLocked now k d v ex (removeElement k m)))"
  using kept_stored [OF ct.insert_over(1) [of m "\<lparr>Value = counter_Encode d, Version = v, ExpireAt = ex, Flags = FlagCounter\<rparr>" now k]]
  by (simp add: cInsertLocked_def split_beta kind_one)

lemma CIncr_kept:
  assumes "mem_wf m"
  shows "kept m (snd (CIncr now k d v ex m))"
proof (cases "items m k")
  case None
  then have "removeElement k m = m" by (simp add: removeElement_def)
  then show ?thesis using None cInsert_kept [OF assms, of now k d 1 ex] by (simp add: CIncr_def)
next
  case (Some it)
  have "kept m (evictLocked now (moveToFront k (replaceItem k (it\<lparr>entry := e, cost := entryCost k e\<rparr>) m)))"
    if "Flags e = FlagCounter" for e
    using that by (intro in_place_kept [OF assms Some]) (simp_all add: ct.flag_plain kind_one)
  then show ?thesis
    using Some assms by (auto simp: CIncr_def Let_def cInsert_kept split: sum.splits)
qed

lemma counter_kept [store_keeps]:
  assumes "mem_wf m"
  shows "kept m (snd (CGet now k m))" "kept m (snd (HasCounter now k m))" "kept m (snd (CIncr now k d v ex m))"
    "kept m (snd (CInstall now k blob v ex m))"
  using assms
  by (auto simp: CGet_def HasCounter_def split_beta split: option.split sum.split
      intro: CIncr_kept ct.install_kept)

lemma BSet_kept:
  assumes "mem_wf m"
  shows "kept m (snd (BSet now k off b v ex mv m))"
proof -
  have ins: "kept m (snd (bInsertLocked now k off b sv ex mv (removeElement k m)))" for sv
    using kept_stored [OF bt.insert_over(1) [OF assms, of
        "\<lparr>Value = bitmap_Set [] off b, Version = sv, ExpireAt = ex, Flags = FlagBitmap\<rparr>" now k]] assms
    by (simp add: bInsertLocked_def Let_def split_beta kind_one)
  have com: "kept m (snd (bCommitLocked now k it cur off b sv ex mv m))" if "items m k = Some it" for it cur sv
    using kept_stored [OF bCommitLocked_stored(1) [OF assms that]] assms
    by (cases "mv \<le> 0 \<or> int (length (bitmap_Set cur off b)) \<le> mv")
      (auto simp: bCommitLocked_def Let_def kind_one)
  have "items m k = None \<Longrightarrow> removeElement k m = m" by (simp add: removeElement_def)
  then show ?thesis
    using assms ins [of 1] com
    by (cases "items m k") (simp_all add: BSet_def EncodedLen_some)
qed

lemma bitmap_kept [store_keeps]:
  assumes "mem_wf m"
  shows "kept m (snd (HasBitmap now k m))" "kept m (snd (BGet now k off m))" "kept m (snd (BCount now k i j m))"
    "kept m (snd (BPos now k b i j m))" "kept m (snd (BSet now k off b v ex mv m))"
    "kept m (snd (BInstall now k blob v ex m))"
  using assms
  by (auto simp: HasBitmap_def BGet_def BCount_def BPos_def hasBitmapLocked_def split_beta
      split: option.split bool.split intro: BSet_kept bt.install_kept)

lemma hll_kept [store_keeps]:
  assumes "mem_wf m"
  shows "kept m (snd (HasHLL now k m))" "kept m (snd (HLLCount fp now k m))" "kept m (snd (HLLAdd now k x v ex mv m))"
    "kept m (snd (HLLInstall now k blob v ex m))"
  using assms hla.add_kept [OF assms, of now k "(x, mv)" v ex]
  by (auto simp: HasHLL_def HLLCount_def hasHLLLocked_def split_beta
      split: option.split bool.split intro: hl.install_kept)

lemma cms_kept [store_keeps]:
  assumes "mem_wf m"
  shows "kept m (snd (HasCMS now k m))" "kept m (snd (CMSQuery now k x m))" "kept m (snd (CMSIncr now k x n v ex mv m))"
    "kept m (snd (CMSInstall now k blob v ex m))"
  using assms cma.add_kept [OF assms, of now k "(x, n, mv)" v ex]
  by (auto simp: HasCMS_def CMSQuery_def hasCMSLocked_def split_beta
      split: option.split bool.split intro: cm.install_kept)

lemma topk_kept [store_keeps]:
  assumes "mem_wf m"
  shows "kept m (snd (HasTopK now k m))" "kept m (snd (TopKList now k kk m))"
    "kept m (snd (TopKAdd now k x v ex kk mv m))" "kept m (snd (TopKInstall now k blob v ex kk m))"
  using assms tka.add_kept [OF assms, of now k "(x, kk, mv)" v ex]
  by (auto simp: HasTopK_def TopKList_def hasTopKLocked_def split_beta
      split: option.split sum.split bool.split intro: tp.install_kept)

lemma VRem_kept: "mem_wf m \<Longrightarrow> kept m (snd (VRem now k x v ex m))"
  by (auto simp: VRem_def Let_def vt.flag_plain kind_one split: option.split intro!: in_place_kept(2))

lemma vec_kept [store_keeps]:
  assumes "mem_wf m"
  shows "kept m (snd (HasVectorSet now k m))" "kept m (snd (VCard now k m))" "kept m (snd (VDim now k m))"
    "kept m (snd (VEmb now k x m))" "kept m (snd (VSim fp now k vec kk me m))" "kept m (snd (VRem now k x v ex m))"
    "kept m (snd (VAdd now k x vec v ex mv m))" "kept m (snd (VSInstall now k blob v ex m))"
  using assms vta.add_kept [OF assms, of now k "(x, vec, mv)" v ex]
  by (auto simp: HasVectorSet_def VCard_def VDim_def VEmb_def VSim_def liveVSLocked_def hasVSLocked_def VRem_kept
      split_beta split: option.split sum.split bool.split intro: vt.install_kept)

lemma sxChange_kept: "mem_wf m \<Longrightarrow> kept m (snd (sxChange now k f v ex m))"
  by (auto simp: sxChange_def sxWriteLocked_def Let_def sx.flag_plain kind_one split: option.split
      intro!: in_place_kept(2))

lemma stream_kept [store_keeps]:
  assumes "mem_wf m"
  shows "kept m (snd (HasStream now k m))" "kept m (snd (XLen now k m))" "kept m (snd (XRange now k i j c rv m))"
    "kept m (snd (XDel now k i v ex m))" "kept m (snd (XTrim now k n v ex m))"
    "kept m (snd (XAdd now ms k x v ex mv at m))" "kept m (snd (SXInstall now k blob v ex m))"
  using assms sxa.add_kept [OF assms, of now k "(x, ms, mv, at)" v ex]
  by (auto simp: HasStream_def XLen_def XRange_def XDel_def XTrim_def liveStreamLocked_def sx_add_def sxChange_kept
      split_beta split: option.split sum.split bool.split intro: sx.install_kept)

lemma jInsert_kept:
  assumes "mem_wf m"
  shows "kept m (snd (insertJSONLocked now k \<lparr>Value = b, Version = sv, ExpireAt = ex, Flags = FlagJSON\<rparr> doc False
      (removeElement k m)))" (is ?over)
    and "items m k = None \<Longrightarrow>
      kept m (snd (insertJSONLocked now k \<lparr>Value = b, Version = sv, ExpireAt = ex, Flags = FlagJSON\<rparr> doc False m))"
proof -
  let ?e = "\<lparr>Value = b, Version = sv, ExpireAt = ex, Flags = FlagJSON\<rparr>"
  let ?it = "(mkItem k ?e (entryCost k ?e))\<lparr>jCache := doc, jDirty := False\<rparr>"
  have it: "key ?it = k" "item_wf ?it" "mat ?it = ?e" using item_wf_json [of ?it] by simp_all
  have "items (removeElement k m) k = None" by (simp add: items_removeElement)
  from kept_stored [OF stored_push [OF mem_wf_removeElement [OF assms] this it(1,2), of now]] it(3)
  have "kept (removeElement k m) (evictLocked now (pushFront k ?it (removeElement k m)))" by (simp add: kind_one)
  then show k: ?over
    unfolding insertJSONLocked_def Let_def using kept_trans [OF kept_simps(2) [OF assms]] by simp
  show "items m k = None \<Longrightarrow>
      kept m (snd (insertJSONLocked now k ?e doc False m))" using k by (simp add: removeElement_def)
qed

lemma json_commit:
  assumes "mem_wf m"
  shows "kept m (snd (jCommitInsertLocked now k doc sv ex mv (removeElement k m)))"
    and "items m k = None \<Longrightarrow> kept m (snd (jCommitInsertLocked now k doc sv ex mv m))"
    and "items m k = Some it \<Longrightarrow> kept m (jReplace now k it d blob sv ex m)"
    and "items m k = Some it \<Longrightarrow> kept m (snd (jCommitReplaceLocked now k it doc sv ex mv m))"
proof -
  show 1: "kept m (snd (jCommitInsertLocked now k doc sv ex mv (removeElement k m)))"
    using assms jInsert_kept [OF assms]
    by (simp add: jCommitInsertLocked_def Let_def split_beta split: option.split)
  show "items m k = None \<Longrightarrow> kept m (snd (jCommitInsertLocked now k doc sv ex mv m))"
    using 1 by (simp add: removeElement_def)
  show rep: "items m k = Some it \<Longrightarrow> kept m (jReplace now k it d blob sv ex m)" for d blob
    using kept_stored [OF jReplace_stored [OF assms]] by (simp add: kind_one)
  show "items m k = Some it \<Longrightarrow> kept m (snd (jCommitReplaceLocked now k it doc sv ex mv m))"
    using assms rep by (simp add: jCommitReplaceLocked_def Let_def split: option.split)
qed

lemma json_cached:
  assumes "mem_wf m" "items m k = Some it" "jDocLocked it = (d, it')"
  shows "kept m (putItem k it' m)" "kept m (jReplace now k it' doc blob sv ex (putItem k it' m))"
    "kept m (snd (jCommitReplaceLocked now k it' y sv ex mv (putItem k it' m)))"
proof -
  show k: "kept m (putItem k it' m)"
    by (metis assms jCache_put(1,2) jDocLocked_cached kept_view)
  note wf = jDoc_wf [OF assms]
  show "kept m (jReplace now k it' doc blob sv ex (putItem k it' m))"
    "kept m (snd (jCommitReplaceLocked now k it' y sv ex mv (putItem k it' m)))"
    by (rule kept_trans [OF k json_commit(3) [OF wf]] kept_trans [OF k json_commit(4) [OF wf]])+
qed

lemma json_kept [store_keeps]:
  assumes "mem_wf m"
  shows "kept m (snd (HasJSON now k m))" "kept m (snd (JGet now k p m))" "kept m (snd (JSet now k p x v ex mv m))"
    "kept m (snd (JDel now k p v ex m))" "kept m (snd (JInstall now k blob v ex m))"
  subgoal using assms by (simp add: HasJSON_def hasJSONLocked_def split: option.split)
  subgoal using assms
    by (auto simp: JGet_def hasJSONLocked_def json_cached items_removeElement
        split: option.split sum.split prod.split bool.split)
  subgoal using assms
    by (auto simp: JSet_def Let_def json_commit json_cached split: option.split sum.split prod.split)
  subgoal using assms
    by (auto simp: JDel_def Let_def json_commit json_cached split: option.split sum.split prod.split)
  subgoal using assms jInsert_kept [OF assms] by (auto simp: JInstall_def Let_def split: option.split)
  done

lemma bloomMutate_kept:
  assumes ok: "store_ok m" and g: "keeps_shape g"
  shows "kept m (snd (bloomMutateLocked now ky mBits k v ex g m))"
proof -
  have wf: "mem_wf m" by (rule store_ok_wf [OF ok])
  have create: "kept m (snd (bloom_create now ky mBits k v ex g (removeElement ky m)))"
  proof -
    have "one_kind e" "plain e" if "Flags e = FlagBloom" for e
    proof -
      show one: "one_kind e" using that by (simp add: kind_one)
      show "plain e" using one_kind_bloom [OF one] that by (simp add: Is_defs Flag_defs)
    qed
    then show ?thesis
      using wf kept_trans [OF kept_simps(2) [OF wf] insert_kept [OF mem_wf_removeElement [OF wf], of _ ky ky now]]
      by (simp add: bloom_create_def Let_def items_removeElement split: option.split)
  qed
  show ?thesis
  proof (cases "items m ky")
    case None
    then have "removeElement ky m = m" by (simp add: removeElement_def)
    then show ?thesis using None create by (simp add: bloomMutate_cases)
  next
    case (Some it)
    have "kept m (moveToFront ky (putItem ky (it\<lparr>entry := (entry it)\<lparr>Value := bits (g f)\<rparr>\<rparr>) m))"
      if "IsBloom (entry it)" "bloom_Open mBits k (Value (entry it)) = Some f" for f
    proof -
      have "one_kind (mat it)" using ok Some unfolding store_ok_def view_def by fastforce
      then have one: "one_kind (entry it)" by (simp add: one_kind_def)
      have len: "length (bits (g f)) = length (Value (entry it))"
        using g bloom_Open_sel [OF that(2)] by (simp add: keeps_shape_def)
      note ip = bloom_in_place [OF wf Some one_kind_bloom [OF one that(1)] len]
      show ?thesis using ip one by (auto simp: kept_def one_kind_def split: if_splits)
    qed
    then show ?thesis using Some wf create by (auto simp: bloomMutate_cases split: option.split)
  qed
qed

lemma bloom_kept [store_keeps]:
  assumes "store_ok m"
  shows "kept m (snd (BloomTest now k x mb kh m))" "kept m (snd (BloomAdd now k x mb kh v ex m))"
    "kept m (snd (BloomMerge now k bs mb kh v ex m))"
  using store_ok_wf [OF assms] bloomMutate_kept [OF assms]
  by (auto simp: BloomTest_def BloomAdd_def BloomMerge_def keeps_shape_Add keeps_shape_Merge split: option.split)

end
