(* ===== verification/EngineInv.thy ===== *)
theory EngineInv
  imports EngineApply StoreWf
begin

text \<open>
  The type invariant of the engine: after any sequence of operations every keyspace holds a
  store that satisfies \<open>store_ok\<close>. Each operation gets a lemma in the collection
  \<open>eng_keeps\<close>; the lemmas compose along the definitions.
\<close>

named_theorems eng_keeps

section \<open>The invariant\<close>

definition eng_ok :: "engine \<Rightarrow> bool" where
  "eng_ok e \<longleftrightarrow> (\<forall>n ks. keyspaces e n = Some ks \<longrightarrow> store_ok (ks_store ks))"

text \<open>The invariant with the keyspace an operation has looked up.\<close>

definition ok_at :: "bytes \<Rightarrow> engine \<Rightarrow> bool" where
  "ok_at n e \<longleftrightarrow> eng_ok e \<and> keyspaces e n \<noteq> None"

text \<open>What the Go types give of the outside: a value that was loaded or received fits an \<open>int\<close>
  length.\<close>

definition loads_ok :: "env \<Rightarrow> bool" where
  "loads_ok v \<longleftrightarrow> (\<forall>n k x. eLoad v n k = Loaded x \<longrightarrow> go_len x)"

text \<open>What an operation needs of the answer of a peer to \<open>GetOrLoad\<close>: the entry is of one kind,
  and an answer without a value carries no container. That is no assumption about the
  outside: \<open>peer_GetOrLoad\<close> gives such answers.\<close>

definition answer_ok :: "getOrLoadResult \<Rightarrow> bool" where
  "answer_ok r \<longleftrightarrow> one_kind (gEntry r) \<and> (gFound r \<or> plain (gEntry r))"

definition env_ok :: "env \<Rightarrow> bool" where
  "env_ok v \<longleftrightarrow> loads_ok v \<and>
     (\<forall>a n k r. eGetOrLoad v a n k = Inr r \<longrightarrow> go_len (Value (gEntry r)) \<and> answer_ok r)"

lemma env_ok_loads [simp]: "env_ok v \<Longrightarrow> loads_ok v"
  by (simp add: env_ok_def)

lemma ok_atD: "ok_at n e \<Longrightarrow> eng_ok e"
  by (simp add: ok_at_def)

lemma ok_atI: "eng_ok e \<Longrightarrow> getKS n e = None \<Longrightarrow> ok_at n e"
  by (auto simp: ok_at_def getKS_def split: option.splits)

lemma ok_at_fields [simp]:
  "ok_at n (e\<lparr>cluster := c\<rparr>) = ok_at n e" "ok_at n (e\<lparr>global := g\<rparr>) = ok_at n e"
  "ok_at n (e\<lparr>hitLog := h\<rparr>) = ok_at n e"
  by (simp_all add: ok_at_def eng_ok_def)

lemma ok_at_upd:
  assumes "ok_at n e" "\<And>ks. store_ok (ks_store ks) \<Longrightarrow> store_ok (ks_store (f ks))"
  shows "ok_at n (upd_ks n f e)"
  using assms by (auto simp: ok_at_def eng_ok_def upd_ks_def ks_of_def)

lemma store_op_ok:
  assumes "ok_at n e" "\<And>m. store_ok m \<Longrightarrow> kept m (snd (f m))"
  shows "ok_at n (snd (store_op n f e))"
proof -
  have "store_ok (ks_store (ks_of n e))" using assms(1) by (auto simp: ok_at_def eng_ok_def ks_of_def)
  then have "store_ok (snd (f (ks_store (ks_of n e))))" using assms(2) kept_ok by blast
  then show ?thesis
    unfolding store_op_def split_beta snd_conv
    using assms(1) by (auto simp: ok_at_def eng_ok_def upd_ks_def)
qed

section \<open>Versions, replication, guards\<close>

lemma prune_absent_ok: "store_ok m \<Longrightarrow> store_ok (fst (prune_absent now mx ks m lv))"
proof (induction now mx ks m lv rule: prune_absent.induct)
  case (2 now mx k ks m lv)
  obtain r m1 where p: "Peek now k m = (r, m1)" by (cases "Peek now k m")
  have "store_ok m1" using kept_ok [OF memory_kept(2) [OF store_ok_wf [OF 2(4)]] 2(4), of now k] by (simp add: p)
  then show ?case
    using 2(1) 2(2) [OF _ _ p [symmetric]] 2(3) [OF _ _ p [symmetric]] 2(4) by (cases r) (simp_all add: p)
qed simp

lemma prune_ok: "store_ok (ks_store ks) \<Longrightarrow> store_ok (ks_store (pruneLastVerLocked v ks))"
  using prune_absent_ok by (simp add: pruneLastVerLocked_def Let_def split_beta)

lemma nextVersion_ok: "store_ok (ks_store ks) \<Longrightarrow> store_ok (ks_store (snd (nextVersion v k lo ks)))"
  using kept_ok [OF memory_kept(3) [OF store_ok_wf]]
  by (simp add: nextVersion_def Let_def split_beta prune_ok)

lemma observeVersion_ok: "store_ok (ks_store ks) \<Longrightarrow> store_ok (ks_store (observeVersion v k x ks))"
  by (simp add: observeVersion_def prune_ok)

lemma version_keeps [eng_keeps]:
  assumes "ok_at n e"
  shows "ok_at n (snd (mint v n k lo e))" "ok_at n (observe_ver v n k x e)"
proof -
  have "store_ok (ks_store (ks_of n e))" using assms by (auto simp: ok_at_def eng_ok_def ks_of_def)
  then show "ok_at n (snd (mint v n k lo e))"
    using assms nextVersion_ok by (auto simp: mint_def split_beta ok_at_def eng_ok_def upd_ks_def)
  show "ok_at n (observe_ver v n k x e)"
    unfolding observe_ver_def by (rule ok_at_upd [OF assms observeVersion_ok])
qed

lemma replicate_keeps [eng_keeps]:
  assumes "ok_at n e"
  shows "ok_at n (EngineCore.replicate n' k ent force e)" "ok_at n (snd (replicateWait v n' k ent e))"
    "ok_at n (recordHit n' k e)"
  using assms
  by (auto simp: EngineCore.replicate_def replicateWait_def recordHit_def split: option.splits prod.splits)

lemma guard_keeps [eng_keeps]:
  assumes "ok_at n e"
  shows "ok_at n (snd (global_Allow v c e))" "ok_at n (snd (ks_Allow v c n e))" "ok_at n (load_succeeded n e)"
    "ok_at n (load_failed v n e)"
  using assms
  by (auto simp: global_Allow_def ks_Allow_def load_succeeded_def load_failed_def split_beta
      split: option.splits intro!: ok_at_upd)

section \<open>The store seen from the engine\<close>

lemmas kept_ops =
  memory_kept [OF store_ok_wf] RangeAll_kept [OF store_ok_wf] set_kept [OF store_ok_wf] zset_kept [OF store_ok_wf]
  geo_kept [OF store_ok_wf] hash_kept [OF store_ok_wf] list_kept [OF store_ok_wf] counter_kept [OF store_ok_wf]
  json_kept [OF store_ok_wf] bitmap_kept [OF store_ok_wf] hll_kept [OF store_ok_wf] topk_kept [OF store_ok_wf]
  cms_kept [OF store_ok_wf] vec_kept [OF store_ok_wf] stream_kept [OF store_ok_wf] bloom_kept

lemma plain_flags: "Flags e = 0 \<Longrightarrow> one_kind e" "Flags e = FlagNegative \<Longrightarrow> one_kind e \<and> plain e"
  subgoal by (rule kindless) simp
  subgoal by (intro conjI, simp add: kind_one, simp add: plain_def Is_defs Flag_defs)
  done

section \<open>Load-through, Get\<close>

lemma negative_keeps [eng_keeps]:
  assumes "ok_at n e"
  shows "ok_at n (store_negative_mint v n k al e)" "ok_at n (storeNegative v n k al e)"
proof -
  have 1: "ok_at n e \<Longrightarrow> ok_at n (store_negative_mint v n k al e)" for e
    by (auto simp: store_negative_mint_def Let_def split_beta plain_flags go_len_def
        intro!: eng_keeps store_op_ok kept_ops)
  show "ok_at n (store_negative_mint v n k al e)" by (rule 1 [OF assms])
  show "ok_at n (storeNegative v n k al e)"
    using assms by (auto simp: storeNegative_def split_beta split: option.split intro!: 1 store_op_ok kept_ops)
qed

lemma load_keeps [eng_keeps]:
  assumes "ok_at n e"
  shows "ok_at n (snd (get_positive v n k e))"
    "go_len val \<Longrightarrow> ok_at n (snd (load_fill v n k val al e))"
    "loads_ok v \<Longrightarrow> ok_at n (snd (loadThrough v c n k al e))"
proof -
  have g: "ok_at n e \<Longrightarrow> ok_at n (snd (get_positive v n k e))" for e
    by (auto simp: get_positive_def split_beta intro!: store_op_ok kept_ops)
  have f: "ok_at n e \<Longrightarrow> go_len val \<Longrightarrow> ok_at n (snd (load_fill v n k val al e))" for e val
    by (auto simp: load_fill_def Let_def split_beta plain_flags split: option.split
        intro!: eng_keeps g store_op_ok kept_ops)
  show "ok_at n (snd (get_positive v n k e))" by (rule g [OF assms])
  show "go_len val \<Longrightarrow> ok_at n (snd (load_fill v n k val al e))" by (rule f [OF assms])
  show "loads_ok v \<Longrightarrow> ok_at n (snd (loadThrough v c n k al e))"
    using assms
    by (auto simp: loadThrough_def Let_def split_beta loads_ok_def split: option.split bool.split load_result.split
        intro!: eng_keeps f g)
qed

lemma cluster_get_keeps [eng_keeps]:
  assumes "ok_at n e" "env_ok v"
  shows "ok_at n (snd (getViaCluster v n k e))" "ok_at n (snd (fetchFromOwner v n k e))"
  using assms
  by (auto simp: getViaCluster_def fetchFromOwner_def Let_def env_ok_def answer_ok_def one_kind_negative
      split: option.split sum.split prod.split intro!: eng_keeps store_op_ok kept_ops)

text \<open>From here on the operations are the exported ones, with their own look-up of the
  keyspace.\<close>

lemma first_err_None: "first_err xs = None \<longleftrightarrow> set xs \<subseteq> {None}"
  by (induction xs rule: first_err.induct) auto

lemma key_checks_ok: "eng_ok e \<Longrightarrow> key_checks v n k e = None \<Longrightarrow> ok_at n e"
  by (auto simp: key_checks_def first_err_None intro: ok_atI)

lemma read_op_ok:
  assumes "ok_at n e"
  shows "ok_at n (snd (store_op n (Get (eNow v) k) e))" "ok_at n (snd (store_op n (Peek (eNow v) k) e))"
  by (rule store_op_ok [OF assms], erule kept_ops)+

lemma get_ops_ok:
  assumes "ok_at n e"
  shows "env_ok v \<Longrightarrow> ok_at n (snd (get_flight v n k (fetchFromOwner v n k) e))"
    "env_ok v \<Longrightarrow> ok_at n (snd (get_flight v n k (getViaCluster v n k) e))"
    "loads_ok v \<Longrightarrow> ok_at n (snd (load_flight v n k e))"
  using assms
  by (auto simp: get_flight_def load_flight_def split_beta split: option.split sum.split
      intro!: eng_keeps store_op_ok kept_ops)

lemma engine_Get_ok:
  assumes "eng_ok e" "env_ok v"
  shows "eng_ok (snd (engine_Get v n k e))"
proof (cases "key_checks v n k e")
  case None
  note ok = key_checks_ok [OF assms(1) None]
  have 1: "ok_at n (snd (store_op n (Get (eNow v) k) e))" by (intro store_op_ok [OF ok] kept_ops)
  show ?thesis
    unfolding engine_Get_def None option.case split_beta
    using assms ok 1 get_ops_ok(1,2) [OF 1 assms(2)]
    by (auto split: option.split sum.split intro!: eng_keeps ok_atD [of n])
qed (use assms in \<open>simp add: engine_Get_def\<close>)

lemma GetOrLoadLocal_ok:
  assumes "eng_ok e" "loads_ok v"
  shows "eng_ok (snd (GetOrLoadLocal v n k e))"
proof (cases "key_checks v n k e")
  case None
  note ok = key_checks_ok [OF assms(1) None]
  obtain r e1 where 1: "store_op n (Get (eNow v) k) e = (r, e1)" by (cases "store_op n (Get (eNow v) k) e")
  obtain p ep where p: "store_op n (Peek (eNow v) k) e = (p, ep)" by (cases "store_op n (Peek (eNow v) k) e")
  obtain x y e2 where 2: "load_flight v n k e1 = ((x, y), e2)" by (cases "load_flight v n k e1") auto
  obtain q e3 where 3: "store_op n (Get (eNow v) k) e2 = (q, e3)" by (cases "store_op n (Get (eNow v) k) e2")
  have ok1: "ok_at n e1" using read_op_ok(1) [OF ok, of v k] by (simp add: 1)
  have okp: "ok_at n ep" using read_op_ok(2) [OF ok, of v k] by (simp add: p)
  have ok2: "ok_at n e2" using get_ops_ok(3) [OF ok1 assms(2), of k] by (simp add: 2)
  have ok3: "ok_at n e3" using read_op_ok(1) [OF ok2, of v k] by (simp add: 3)
  note fin = ok1 [THEN ok_atD] okp [THEN ok_atD] ok2 [THEN ok_atD] ok3 [THEN ok_atD]
  show ?thesis
  proof (cases "mode_kind (ksMode (ks_config n e))")
    case (Some kind)
    show ?thesis unfolding GetOrLoadLocal_def None Some option.case p using fin by (simp split: option.split)
  next
    case plain: None
    show ?thesis
      unfolding GetOrLoadLocal_def None plain option.case 1 prod.case 2 using fin
      by (cases r; cases y; cases x; cases q; cases "eCtxEnd v") (simp_all add: 3)
  qed
next
  case (Some x)
  show ?thesis unfolding GetOrLoadLocal_def Some option.case snd_conv by (rule assms(1))
qed

section \<open>Put, Delete\<close>

lemma putLocalApply_ok:
  assumes "ok_at n e" "go_len val"
  shows "ok_at n (snd (putLocalApply v n k val force t e))"
proof (cases "eCtx v")
  case None
  let ?ttl = "case t of None \<Rightarrow> ksTTL (ks_config n e) | Some d \<Rightarrow> d"
  obtain ver e1 where 1: "mint v n k 0 e = (ver, e1)" by (cases "mint v n k 0 e")
  let ?ent = "\<lparr>Value = val, Version = ver, ExpireAt = expireAt v ?ttl, Flags = 0\<rparr>"
  obtain b e2 where 2: "store_op n (AcceptIfNewer (eNow v) k ?ent) e1 = (b, e2)" by (cases "store_op n (AcceptIfNewer (eNow v) k ?ent) e1")
  obtain x e3 where 3: "store_op n (Peek (eNow v) k) e2 = (x, e3)" by (cases "store_op n (Peek (eNow v) k) e2")
  obtain y e4 where 4: "store_op n (Peek (eNow v) k) e3 = (y, e4)" by (cases "store_op n (Peek (eNow v) k) e3")
  have ok1: "ok_at n e1" using version_keeps(1) [OF assms(1), of v k 0] by (simp add: 1)
  have "ok_at n (snd (store_op n (AcceptIfNewer (eNow v) k ?ent) e1))"
    by (rule store_op_ok [OF ok1], rule kept_ops) (simp_all add: plain_flags assms)
  then have ok2: "ok_at n e2" by (simp add: 2)
  have ok3: "ok_at n e3" using read_op_ok(2) [OF ok2, of v k] by (simp add: 3)
  have ok4: "ok_at n e4" using read_op_ok(2) [OF ok3, of v k] by (simp add: 4)
  show ?thesis
    using ok2 ok3 ok4 replicate_keeps(1) [OF ok2]
    unfolding putLocalApply_def Let_def None option.case 1 prod.case 2 by (cases b) (simp_all add: 3 4)
next
  case (Some x)
  show ?thesis unfolding putLocalApply_def Some option.case snd_conv by (rule assms(1))
qed

lemma PutLocalAtHop_ok:
  assumes "eng_ok e" "go_len val"
  shows "eng_ok (snd (PutLocalAtHop v n k val hop t e))"
proof (cases "first_err [eCtx v, validateKey n k e, getKS n e, validateValueSize n val e, validateKeyLen n k e]")
  case None
  then have "ok_at n e" using assms(1) by (auto simp: first_err_None intro: ok_atI)
  from putLocalApply_ok [OF this assms(2), THEN ok_atD] show ?thesis
    unfolding PutLocalAtHop_def None using assms(1) by (auto split: option.split)
qed (use assms in \<open>simp add: PutLocalAtHop_def\<close>)

lemma engine_Put_ok:
  assumes "eng_ok e" "go_len val"
  shows "eng_ok (snd (engine_Put v n k val t e))"
  using assms PutLocalAtHop_ok [OF assms]
  by (auto simp: engine_Put_def putViaCluster_def PutLocal_def split: option.split)

lemma DeleteAsOwner_ok:
  assumes "eng_ok e"
  shows "eng_ok (snd (DeleteAsOwner v n k e))"
  using assms key_checks_ok [OF assms, of v n k]
  by (auto simp: DeleteAsOwner_def Let_def split_beta split: option.split
      intro!: ok_atD [of n] eng_keeps store_op_ok kept_ops)

lemma engine_Delete_ok: "eng_ok e \<Longrightarrow> eng_ok (snd (engine_Delete v n k e))"
  by (auto simp: engine_Delete_def deleteViaCluster_def DeleteAsOwner_ok split: option.split sum.split)

lemma many_loop_ok:
  assumes "\<And>k x e. (k, x) \<in> set kvs \<Longrightarrow> eng_ok e \<Longrightarrow> eng_ok (snd (f k x e))" "eng_ok e"
  shows "eng_ok (snd (many_loop f kvs e))"
  using assms
proof (induction f kvs e rule: many_loop.induct)
  case (2 f k x kvs e)
  have "eng_ok (snd (f k x e))" using 2(2) [of k x e] 2(3) by simp
  then have "eng_ok (snd (many_loop f kvs (snd (f k x e))))"
    using 2(1) [OF surjective_pairing [symmetric]] 2(2) by simp
  then show ?case by (simp add: split_beta)
qed simp

lemma batch_ok:
  assumes "eng_ok e"
  shows "\<forall>(k, x) \<in> set kvs. go_len x \<Longrightarrow> eng_ok (snd (PutMany v n kvs t e))"
    "eng_ok (snd (DeleteMany v n ks e))"
  using assms
  by (auto simp: PutMany_def DeleteMany_def split_beta intro!: many_loop_ok engine_Put_ok engine_Delete_ok)

lemma diagnostics_ok:
  assumes "eng_ok e"
  shows "eng_ok (snd (HasLocal v n k e))" "eng_ok (snd (LocalView v n k e))" "eng_ok (snd (BloomDump v n k e))"
    "eng_ok (snd (LocalEntries v n e))" "env_ok v \<Longrightarrow> eng_ok (snd (ForceLoad v n k e))"
  subgoal using assms
    by (auto simp: HasLocal_def split_beta ok_at_def split: option.split intro!: ok_atD [of n] store_op_ok kept_ops)
  subgoal using assms
    by (auto simp: LocalView_def Let_def split_beta ok_at_def split: option.split
        intro!: ok_atD [of n] store_op_ok kept_ops)
  subgoal using assms
    by (auto simp: BloomDump_def split_beta ok_at_def split: option.split intro!: ok_atD [of n] store_op_ok kept_ops)
  subgoal using assms
    by (auto simp: LocalEntries_def split_beta ok_at_def split: option.split
        intro!: ok_atD [of n] store_op_ok kept_ops)
  subgoal using assms engine_Get_ok [OF assms] key_checks_ok [OF assms, of v n k]
    by (auto simp: ForceLoad_def split_beta split: option.split intro!: ok_atD [of n] eng_keeps)
  done

lemma admin_ok:
  assumes "eng_ok e"
  shows "eng_ok (snd (UpdateKeySpace v c e))" "eng_ok (snd (DeleteKeySpace n e))" "eng_ok (engine_Close e)"
    "eng_ok (AttachCluster cl e)" "eng_ok (SetNodeInfo i a e)" "eng_ok (engine_New g mk mvs mb mvk)"
    "eng_ok (ReplicateToPeers n k ent e)"
  using assms
  by (auto simp: eng_ok_def UpdateKeySpace_def DeleteKeySpace_def engine_Close_def AttachCluster_def SetNodeInfo_def
      engine_New_def ReplicateToPeers_def EngineCore.replicate_def Let_def split: option.splits if_splits prod.splits)

end
