(* ===== verification/EngineInvModes.thy ===== *)
theory EngineInvModes
  imports EngineInv
begin

text \<open>
  The type invariant for the operations of the data-type modes and for the messages of the
  peers.
\<close>

section \<open>Shared steps\<close>

lemma host_keeps [eng_keeps]:
  assumes "ok_at n e"
  shows "ok_at n (snd (peek_version v n k e))" "ok_at n (snd (host_NextVersion v n k e))"
    "ok_at n (snd (HasBloom v n k e))" "ok_at n (host_Replicate n k ent e)"
    "ok_at n (host_ReplicateSnapshot kind flag v n k ver ex e)"
  using assms
  by (auto simp: peek_version_def host_NextVersion_def HasBloom_def host_Replicate_def host_ReplicateSnapshot_def
      split_beta split: option.split intro!: eng_keeps store_op_ok kept_ops)

lemma install_ok:
  assumes "ok_at n e" "\<And>now ver ex m. store_ok m \<Longrightarrow> kept m (snd (ins now k blob ver ex m))"
  shows "ok_at n (snd (host_ApplyInstall ins v n k blob ver ex e))"
  unfolding host_ApplyInstall_def by (rule store_op_ok [OF assms])

lemma fetch_ok:
  assumes "ok_at n e" "env_ok v"
    and "\<And>now b ver ex m. store_ok m \<Longrightarrow> go_len b \<Longrightarrow> kept m (snd (ins now k b ver ex m))"
  shows "ok_at n (snd (host_FetchOwner kind valid ins v n k e))"
proof -
  have "go_len (Value ent)" if "host_GetOrLoad v a n k e = Some ent" for a ent
    using that assms(2)
    by (auto simp: host_GetOrLoad_def env_ok_def split: option.splits if_splits sum.splits)
  then show ?thesis
    using assms(1)
    by (auto simp: host_FetchOwner_def split: option.split intro!: store_op_ok assms(3))
qed

definition rep_ok :: "replicator \<Rightarrow> bool" where
  "rep_ok rep \<longleftrightarrow> (\<forall>v n k ver ex e. ok_at n e \<longrightarrow> ok_at n (rep v n k ver ex e))"

lemma snapshot_done_ok:
  assumes "ok_at n e" "rep_ok rep"
  shows "ok_at n (snapshot_done rep v n k ex e)"
  using assms(2) version_keeps(2) [OF host_keeps(1) [OF assms(1)]]
  by (simp add: snapshot_done_def split_beta rep_ok_def)

lemma snapshot_write_ok:
  assumes "ok_at n e" "\<And>g m. store_ok m \<Longrightarrow> kept m (snd (f g m))"
    "rep_ok rep"
  shows "ok_at n (snd (snapshot_write rep f v n k ex e))"
proof -
  have "ok_at n (snd (store_op n (f (fst (peek_version v n k e) + 1)) (snd (peek_version v n k e))))"
    by (rule store_op_ok [OF host_keeps(1) [OF assms(1)] assms(2)])
  then show ?thesis
    using snapshot_done_ok [OF _ assms(3)] by (simp add: snapshot_write_def split_beta)
qed

lemma change_local_ok:
  assumes "ok_at n e" "\<And>g m. store_ok m \<Longrightarrow> kept m (snd (f g m))"
    "\<And>m. store_ok m \<Longrightarrow> kept m (snd (hs (eNow v) k m))"
    "rep_ok rep"
  shows "ok_at n (snd (change_local rep hs f v n k ex e))"
proof -
  have 1: "ok_at n (snd (store_op n (f (fst (peek_version v n k e) + 1)) (snd (peek_version v n k e))))"
    by (rule store_op_ok [OF host_keeps(1) [OF assms(1)] assms(2)])
  have 2: "ok_at n (snd (store_op n (hs (eNow v) k) e'))" if "ok_at n e'" for e'
    by (rule store_op_ok [OF that assms(3)])
  show ?thesis
    using 1 2 [OF 1] snapshot_done_ok [OF 2 [OF 1] assms(4), of v k ex]
    by (simp add: change_local_def split_beta split: bool.split)
qed

lemma op_add_ok:
  assumes "ok_at n e" "\<And>ver ex m. store_ok m \<Longrightarrow> kept m (snd (f ver ex m))"
  shows "ok_at n (snd (op_add f payload flag v n k fanout e))"
  using assms(1)
  by (auto simp: op_add_def Let_def split_beta split: bool.split intro!: eng_keeps store_op_ok assms(2))

lemma op_remove_ok:
  assumes "ok_at n e" "\<And>ver ex m. store_ok m \<Longrightarrow> kept m (snd (f ver ex m))"
    "\<And>m. store_ok m \<Longrightarrow> kept m (snd (hs (eNow v) k m))"
  shows "ok_at n (snd (op_remove f hs payload flag v n k fanout e))"
  using assms(1)
  by (auto simp: op_remove_def Let_def split_beta split: bool.split intro!: eng_keeps store_op_ok assms(2,3))

lemma read_or_fetch_ok:
  assumes "ok_at n e" "\<And>m. store_ok m \<Longrightarrow> kept m (snd (hs (eNow v) k m))"
    "\<And>m. store_ok m \<Longrightarrow> kept m (snd (rd m))" "\<And>e. ok_at n e \<Longrightarrow> ok_at n (snd (fetch e))"
  shows "ok_at n (snd (read_or_fetch hs rd fetch fromBlob none v n k e))"
  using assms(1)
  by (auto simp: read_or_fetch_def split_beta split: bool.split option.split intro!: assms(2-4) store_op_ok)

lemma local_or_fetch_ok:
  assumes "ok_at n e" "\<And>m. store_ok m \<Longrightarrow> kept m (snd (rd m))" "\<And>e. ok_at n e \<Longrightarrow> ok_at n (snd (fetch e))"
  shows "ok_at n (snd (local_or_fetch n rd fetch fromBlob e))"
  using assms(1)
  by (auto simp: local_or_fetch_def split_beta split: option.split intro!: assms(2-3) store_op_ok)

text \<open>An exported operation: checks that include the look-up of the keyspace, then the work.\<close>

lemma checked_ok:
  assumes "eng_ok e" "c = None \<Longrightarrow> getKS n e = None" "\<And>e. ok_at n e \<Longrightarrow> ok_at n (snd (f e))"
  shows "eng_ok (snd (checked c f e))"
  using assms(1,2) ok_atD [OF assms(3) [OF ok_atI [OF assms(1)]]]
  by (auto simp: checked_def split_beta split: option.split)

lemma checked_write_ok:
  assumes "eng_ok e" "c = None \<Longrightarrow> getKS n e = None" "\<And>e. ok_at n e \<Longrightarrow> ok_at n (snd (f e))"
  shows "eng_ok (snd (checked_write c f e))"
  using assms(1,2) ok_atD [OF assms(3) [OF ok_atI [OF assms(1)]]]
  by (auto simp: checked_write_def split: option.split)

lemma route_write_ok:
  assumes "ok_at n e" "\<And>e. ok_at n e \<Longrightarrow> ok_at n (snd (here e))"
  shows "ok_at n (snd (route_write k rem here e))"
  using assms by (auto simp: route_write_def split: option.split)

lemma checks_found:
  "mode_checks v n k md e = None \<Longrightarrow> getKS n e = None"
  "item_checks v n k md item bad e = None \<Longrightarrow> getKS n e = None"
  "first_err (path_checks v n k path e @ xs) = None \<Longrightarrow> getKS n e = None"
  by (auto simp: mode_checks_def item_checks_def path_checks_def first_err_None)

lemma results [simp]:
  "snd (op_result r) = snd r" "snd (write_result s) = snd s" "snd (apply_result s) = snd s"
  by (simp_all add: op_result_def write_result_def apply_result_def)

lemma as_write_kept: "kept m (snd (f m)) \<Longrightarrow> kept m (snd (as_write f m))"
  by (simp add: as_write_def split_beta)

lemma replicators:
  "rep_ok list_ReplicateSnapshot" "rep_ok json_ReplicateSnapshot" "rep_ok bitmap_ReplicateSnapshot"
  "rep_ok hll_ReplicateSnapshot" "rep_ok topk_ReplicateSnapshot" "rep_ok cms_ReplicateSnapshot"
  "rep_ok vec_ReplicateSnapshot" "rep_ok stream_ReplicateSnapshot"
  by (simp_all add: rep_ok_def host_keeps(5) list_ReplicateSnapshot_def json_ReplicateSnapshot_def
      bitmap_ReplicateSnapshot_def hll_ReplicateSnapshot_def topk_ReplicateSnapshot_def cms_ReplicateSnapshot_def
      vec_ReplicateSnapshot_def stream_ReplicateSnapshot_def)

lemmas step_ok = install_ok fetch_ok snapshot_write_ok change_local_ok op_add_ok op_remove_ok read_or_fetch_ok
  local_or_fetch_ok route_write_ok replicators as_write_kept

section \<open>Container modes\<close>

lemma set_ops_ok:
  assumes "ok_at n e"
  shows "go_len x \<Longrightarrow> ok_at n (snd (set_AddLocal v n k x fo e))" "ok_at n (snd (set_RemoveLocal v n k x fo e))"
    "go_len x \<Longrightarrow> ok_at n (snd (set_ApplyAdd v n k x ver ex e))" "ok_at n (snd (set_ApplyRemove v n k x ver ex e))"
    "go_len x \<Longrightarrow> ok_at n (snd (set_ApplyInstall v n k x ver ex e))"
  using assms
  by (auto simp: set_AddLocal_def set_RemoveLocal_def set_ApplyAdd_def set_ApplyRemove_def set_ApplyInstall_def
      intro!: step_ok store_op_ok kept_ops)

lemma message_go_len:
  assumes "go_len b"
  shows "zset_DecodeAdd b = Inr (x, s) \<Longrightarrow> go_len x" "geo_DecodeAdd b = Inr (x, lon, lat) \<Longrightarrow> go_len x"
    "hash_DecodeSet b = Inr (x, y) \<Longrightarrow> go_len x \<and> go_len y"
proof -
  assume "zset_DecodeAdd b = Inr (x, s)"
  then obtain z where z: "zset_Decode b = Inr z" "zset_ordered z = [(x, s)]"
    by (auto simp: zset_DecodeAdd_def split: sum.splits list.splits)
  then have "fmlookup z x = Some s" using set_zset_ordered [of z] by auto
  then show "go_len x" using zset_Decode_ok [OF assms z(1)] by (simp add: zset_ok_lookup)
next
  assume "geo_DecodeAdd b = Inr (x, lon, lat)"
  then obtain g where g: "geo_Decode b = Inr g" "sorted_list_of_fmap g = [(x, lon, lat)]"
    by (auto simp: geo_DecodeAdd_def geo_orderedMembers_def split: sum.splits list.splits)
  then show "go_len x" using geo_Decode_ok [OF assms g(1)] by (simp add: geo_ok_def)
next
  assume "hash_DecodeSet b = Inr (x, y)"
  then show "go_len x \<and> go_len y"
    using assms by (auto simp: hash_DecodeSet_def split: if_splits sum.splits dest: hash_consumePair_go_len)
qed

lemma zset_ops_ok:
  assumes "ok_at n e"
  shows "go_len x \<Longrightarrow> ok_at n (snd (zset_AddLocal v n k x s fo e))" "ok_at n (snd (zset_RemLocal v n k x fo e))"
    "go_len x \<Longrightarrow> ok_at n (snd (zset_ApplyAdd v n k x ver ex e))" "ok_at n (snd (zset_ApplyRem v n k x ver ex e))"
    "go_len x \<Longrightarrow> ok_at n (snd (zset_ApplyInstall v n k x ver ex e))"
    "env_ok v \<Longrightarrow> ok_at n (snd (zset_FetchOwner v n k e))"
  using assms
  by (auto simp: zset_AddLocal_def zset_RemLocal_def zset_ApplyAdd_def zset_ApplyRem_def zset_ApplyInstall_def
      zset_FetchOwner_def split: sum.split intro!: step_ok store_op_ok kept_ops dest: message_go_len)

lemma geo_ops_ok:
  assumes "ok_at n e"
  shows "go_len x \<Longrightarrow> ok_at n (snd (geo_AddLocal v n k x lon lat fo e))" "ok_at n (snd (geo_RemLocal v n k x fo e))"
    "go_len x \<Longrightarrow> ok_at n (snd (geo_ApplyAdd v n k x ver ex e))" "ok_at n (snd (geo_ApplyRem v n k x ver ex e))"
    "go_len x \<Longrightarrow> ok_at n (snd (geo_ApplyInstall v n k x ver ex e))"
    "env_ok v \<Longrightarrow> ok_at n (snd (geo_FetchOwner v n k e))"
  using assms
  by (auto simp: geo_AddLocal_def geo_RemLocal_def geo_ApplyAdd_def geo_ApplyRem_def geo_ApplyInstall_def
      geo_FetchOwner_def split: sum.split intro!: step_ok store_op_ok kept_ops dest: message_go_len)

lemma hash_ops_ok:
  assumes "ok_at n e"
  shows "go_len x \<Longrightarrow> go_len y \<Longrightarrow> ok_at n (snd (hash_SetLocal v n k x y fo e))"
    "ok_at n (snd (hash_DelLocal v n k x fo e))"
    "go_len x \<Longrightarrow> ok_at n (snd (hash_ApplySet v n k x ver ex e))" "ok_at n (snd (hash_ApplyDel v n k x ver ex e))"
    "go_len x \<Longrightarrow> ok_at n (snd (hash_ApplyInstall v n k x ver ex e))"
    "env_ok v \<Longrightarrow> ok_at n (snd (hash_FetchOwner v n k e))"
  using assms
  by (auto simp: hash_SetLocal_def hash_DelLocal_def hash_ApplySet_def hash_ApplyDel_def hash_ApplyInstall_def
      hash_FetchOwner_def split: sum.split intro!: step_ok store_op_ok kept_ops dest: message_go_len)

lemma bloom_ops_ok:
  assumes "ok_at n e"
  shows "ok_at n (snd (bloom_AddLocal v n k x fo e))" "ok_at n (snd (bloom_ApplyAdd v n k x ver ex e))"
    "ok_at n (snd (bloom_ApplyMerge v n k x ver ex e))"
  using assms
  by (auto simp: bloom_AddLocal_def bloom_ApplyAdd_def bloom_ApplyMerge_def Let_def split_beta
      split: bool.split option.split intro!: eng_keeps store_op_ok kept_ops)

lemma set_from_owner_ok:
  assumes "ok_at n e" "env_ok v" "\<And>m. store_ok m \<Longrightarrow> kept m (snd (rd m))"
  shows "ok_at n (snd (set_from_owner rd fromBlob none v n k e))"
  using assms
  by (auto simp: set_from_owner_def Let_def env_ok_def split: option.split sum.split
      intro!: store_op_ok kept_ops)

lemma bloom_api_ok:
  assumes "eng_ok e"
  shows "eng_ok (snd (engine_BloomAdd v n k x e))" "eng_ok (snd (engine_BloomTest v n k x e))"
    "eng_ok (snd (ApplyBloomMerge v n k x ver e))"
  subgoal using assms
    unfolding engine_BloomAdd_def
    by (rule checked_write_ok) (erule checks_found, auto intro!: step_ok bloom_ops_ok)
  subgoal using assms
    unfolding engine_BloomTest_def Let_def
    by (rule checked_ok) (erule checks_found, auto simp: split_beta split: bool.split option.split sum.split
        intro!: eng_keeps store_op_ok kept_ops)
  subgoal using assms
    unfolding ApplyBloomMerge_def
    by (auto simp: first_err_None intro!: checked_ok eng_keeps bloom_ops_ok)
  done

lemma set_api_ok:
  assumes "eng_ok e"
  shows "go_len x \<Longrightarrow> eng_ok (snd (engine_SetAdd v n k x e))" "eng_ok (snd (engine_SetRemove v n k x e))"
    "env_ok v \<Longrightarrow> eng_ok (snd (engine_SetContains v n k x e))" "env_ok v \<Longrightarrow> eng_ok (snd (engine_SetCard v n k e))"
    "env_ok v \<Longrightarrow> eng_ok (snd (engine_SetMembers v n k e))"
  unfolding engine_SetAdd_def engine_SetRemove_def engine_SetContains_def engine_SetCard_def engine_SetMembers_def
  by ((rule checked_ok checked_write_ok, rule assms, erule checks_found,
      auto simp: split_beta split: bool.split intro!: step_ok set_ops_ok set_from_owner_ok store_op_ok kept_ops; fail))+

lemma zset_api_ok:
  assumes "eng_ok e"
  shows "go_len x \<Longrightarrow> eng_ok (snd (engine_ZAdd v n k x s e))" "eng_ok (snd (engine_ZRem v n k x e))"
    "env_ok v \<Longrightarrow> eng_ok (snd (engine_ZScore v n k x e))" "env_ok v \<Longrightarrow> eng_ok (snd (engine_ZCard v n k e))"
    "env_ok v \<Longrightarrow> eng_ok (snd (engine_ZRange v n k i j e))"
    "env_ok v \<Longrightarrow> eng_ok (snd (engine_ZRangeByScore v n k lo hi e))"
  unfolding engine_ZAdd_def engine_ZRem_def engine_ZScore_def engine_ZCard_def engine_ZRange_def
    engine_ZRangeByScore_def
  by ((rule checked_ok checked_write_ok, rule assms, erule checks_found,
      auto simp: split_beta split: bool.split option.split intro!: step_ok zset_ops_ok store_op_ok kept_ops; fail))+

lemma geo_api_ok:
  assumes "eng_ok e"
  shows "go_len x \<Longrightarrow> eng_ok (snd (engine_GeoAdd v n k x lon lat e))" "eng_ok (snd (engine_GeoRem v n k x e))"
    "env_ok v \<Longrightarrow> eng_ok (snd (engine_GeoPos v n k x e))" "env_ok v \<Longrightarrow> eng_ok (snd (engine_GeoCard v n k e))"
    "env_ok v \<Longrightarrow> eng_ok (snd (engine_GeoDist v n k x y e))"
    "env_ok v \<Longrightarrow> eng_ok (snd (engine_GeoRadius v n k lon lat r lim e))"
  unfolding engine_GeoAdd_def engine_GeoRem_def engine_GeoPos_def engine_GeoCard_def engine_GeoDist_def
    engine_GeoRadius_def
  by ((rule checked_ok checked_write_ok, rule assms, force simp: first_err_None dest: checks_found,
      auto simp: split_beta split: bool.split option.split intro!: step_ok geo_ops_ok store_op_ok kept_ops; fail))+

lemma hash_api_ok:
  assumes "eng_ok e"
  shows "go_len x \<Longrightarrow> go_len y \<Longrightarrow> eng_ok (snd (engine_HSet v n k x y e))" "eng_ok (snd (engine_HDel v n k x e))"
    "env_ok v \<Longrightarrow> eng_ok (snd (engine_HGet v n k x e))" "env_ok v \<Longrightarrow> eng_ok (snd (engine_HExists v n k x e))"
    "env_ok v \<Longrightarrow> eng_ok (snd (engine_HLen v n k e))" "env_ok v \<Longrightarrow> eng_ok (snd (engine_HGetAll v n k e))"
  unfolding engine_HSet_def engine_HDel_def engine_HGet_def engine_HExists_def engine_HLen_def engine_HGetAll_def
  by ((rule checked_ok checked_write_ok, rule assms, force simp: first_err_None field_checks_def dest: checks_found,
      auto simp: split_beta split: bool.split option.split intro!: step_ok hash_ops_ok store_op_ok kept_ops; fail))+

section \<open>Snapshot modes\<close>

lemma list_ops_ok:
  assumes "ok_at n e"
  shows "go_len x \<Longrightarrow> ok_at n (snd (list_Push v n k x l fo e))" "ok_at n (snd (list_Pop v n k l fo e))"
    "go_len x \<Longrightarrow> ok_at n (snd (list_ApplyLPush v n k x ex e))" "go_len x \<Longrightarrow> ok_at n (snd (list_ApplyRPush v n k x ex e))"
    "go_len x \<Longrightarrow> ok_at n (snd (list_ApplyInstall v n k x ver ex e))"
    "env_ok v \<Longrightarrow> ok_at n (snd (list_FetchOwner v n k e))"
  using assms
  by (auto simp: list_Push_def list_Pop_def list_ApplyLPush_def list_ApplyRPush_def list_ApplyInstall_def
      list_FetchOwner_def list_ReplicateSnapshot_def Let_def split_beta split: bool.split
      intro!: step_ok eng_keeps snapshot_done_ok store_op_ok kept_ops)

lemma counter_ops_ok:
  assumes "ok_at n e"
  shows "ok_at n (snd (counter_IncrLocal v n k d fo e))" "ok_at n (snd (counter_ApplyInstall v n k x ver ex e))"
    "env_ok v \<Longrightarrow> ok_at n (snd (counter_FetchOwner v n k e))"
  using assms
  by (auto simp: counter_IncrLocal_def counter_ApplyInstall_def counter_FetchOwner_def counter_ReplicateSnapshot_def
      Let_def split_beta intro!: step_ok eng_keeps store_op_ok kept_ops)

lemma json_ops_ok:
  assumes "ok_at n e"
  shows "ok_at n (snd (json_SetLocal v n k p x e))" "ok_at n (snd (json_DelLocal v n k p e))"
    "ok_at n (snd (json_ApplySet v n k x ex e))" "ok_at n (snd (json_ApplyDel v n k x ex e))"
    "ok_at n (snd (json_ApplyInstall v n k x ver ex e))" "env_ok v \<Longrightarrow> ok_at n (snd (json_FetchOwner v n k e))"
  using assms
  by (auto simp: json_SetLocal_def json_DelLocal_def json_ApplySet_def json_ApplyDel_def json_del_def
      json_ApplyInstall_def json_FetchOwner_def Let_def split_beta split: sum.split
      intro!: step_ok snapshot_done_ok eng_keeps store_op_ok kept_ops)

lemma bitmap_ops_ok:
  assumes "ok_at n e"
  shows "ok_at n (snd (bitmap_SetLocal v n k off b e))" "ok_at n (snd (bitmap_ApplySet v n k x ex e))"
    "ok_at n (snd (bitmap_ApplyInstall v n k x ver ex e))" "env_ok v \<Longrightarrow> ok_at n (snd (bitmap_FetchOwner v n k e))"
  using assms
  by (auto simp: bitmap_SetLocal_def bitmap_ApplySet_def bitmap_ApplyInstall_def bitmap_FetchOwner_def Let_def
      split: sum.split intro!: step_ok kept_ops)

lemma hll_ops_ok:
  assumes "ok_at n e"
  shows "ok_at n (snd (hll_AddLocal v n k x e))" "ok_at n (snd (hll_ApplyAdd v n k x ex e))"
    "ok_at n (snd (hll_ApplyInstall v n k x ver ex e))" "env_ok v \<Longrightarrow> ok_at n (snd (hll_FetchOwner v n k e))"
  using assms
  by (auto simp: hll_AddLocal_def hll_ApplyAdd_def hll_ApplyInstall_def hll_FetchOwner_def Let_def
      intro!: step_ok kept_ops)

lemma topk_ops_ok:
  assumes "ok_at n e"
  shows "ok_at n (snd (topk_AddLocal v n k x e))" "ok_at n (snd (topk_ApplyAdd v n k x ex e))"
    "ok_at n (snd (topk_ApplyInstall v n k x ver ex e))" "env_ok v \<Longrightarrow> ok_at n (snd (topk_FetchOwner v n k e))"
  using assms
  by (auto simp: topk_AddLocal_def topk_ApplyAdd_def topk_ApplyInstall_def topk_FetchOwner_def topk_write_def
      topk_install_def intro!: step_ok kept_ops)

lemma cms_ops_ok:
  assumes "ok_at n e"
  shows "ok_at n (snd (cms_IncrLocal v n k x y e))" "ok_at n (snd (cms_ApplyIncr v n k x ex e))"
    "ok_at n (snd (cms_ApplyInstall v n k x ver ex e))" "env_ok v \<Longrightarrow> ok_at n (snd (cms_FetchOwner v n k e))"
  using assms
  by (auto simp: cms_IncrLocal_def cms_ApplyIncr_def cms_ApplyInstall_def cms_FetchOwner_def Let_def
      split: sum.split intro!: step_ok kept_ops)

lemma vec_ops_ok:
  assumes "ok_at n e"
  shows "ok_at n (snd (vec_AddLocal v n k x vec e))" "ok_at n (snd (vec_RemLocal v n k x e))"
    "ok_at n (snd (applyVectorSet v n k ent e))" "ok_at n (snd (vsCheckVec v n k vec e))"
    "ok_at n (snd (vsCheckFull v n k x e))" "env_ok v \<Longrightarrow> ok_at n (snd (vec_FetchOwner v n k e))"
  using assms
  by (auto simp: vec_AddLocal_def vec_RemLocal_def applyVectorSet_def vec_ApplyInbox_def vec_ApplyInstall_def
      vsCheckVec_def vsCheckFull_def vec_FetchOwner_def Let_def split_beta split: option.split list.split
      intro!: step_ok store_op_ok kept_ops)

lemma stream_local_ok:
  assumes "ok_at n e"
  shows "ok_at n (snd (stream_AddLocal v n k x e))" "ok_at n (snd (stream_DelLocal v n k x e))"
    "ok_at n (snd (stream_TrimLocal v n k mx e))" "env_ok v \<Longrightarrow> ok_at n (snd (stream_FetchOwner v n k e))"
  using assms
  by (auto simp: stream_AddLocal_def stream_DelLocal_def stream_TrimLocal_def stream_FetchOwner_def Let_def split_beta
      intro!: step_ok eng_keeps snapshot_done_ok store_op_ok kept_ops)

lemma stream_apply_ok: "ok_at n e \<Longrightarrow> ok_at n (snd (applyStream v n k ent e))"
  by (auto simp: applyStream_def stream_ApplyInbox_def stream_ApplyInstall_def split_beta split: option.split list.split
      intro!: stream_local_ok step_ok kept_ops)

text \<open>The exported operations.\<close>

lemma pop_ok:
  assumes "eng_ok e" "c = None \<Longrightarrow> getKS n e = None" "\<And>e. ok_at n e \<Longrightarrow> ok_at n (snd (f e))"
  shows "eng_ok (snd (case c of Some x \<Rightarrow> (Inl x, e)
      | None \<Rightarrow> case remoteOwner k e of Some (cl, r, p) \<Rightarrow> (g cl r p, e) | None \<Rightarrow> f e))"
  using assms(1,2) ok_atD [OF assms(3) [OF ok_atI [OF assms(1)]]]
  by (auto split: option.split)

lemma list_api_ok:
  assumes "eng_ok e"
  shows "go_len x \<Longrightarrow> eng_ok (snd (engine_LPush v n k x e))" "go_len x \<Longrightarrow> eng_ok (snd (engine_RPush v n k x e))"
    "eng_ok (snd (engine_LPop v n k e))" "eng_ok (snd (engine_RPop v n k e))"
    "env_ok v \<Longrightarrow> eng_ok (snd (engine_LLen v n k e))" "env_ok v \<Longrightarrow> eng_ok (snd (engine_LIndex v n k i e))"
    "env_ok v \<Longrightarrow> eng_ok (snd (engine_LRange v n k i j e))"
  unfolding engine_LPush_def engine_RPush_def lPush_def engine_LPop_def engine_RPop_def lPop_def engine_LLen_def
    engine_LIndex_def engine_LRange_def
  by ((rule checked_ok checked_write_ok pop_ok, rule assms, force simp: first_err_None dest: checks_found,
      auto simp: split_beta intro!: step_ok list_ops_ok store_op_ok kept_ops; fail))+

lemma counter_api_ok:
  assumes "eng_ok e"
  shows "eng_ok (snd (Incr v n k d e))" "env_ok v \<Longrightarrow> eng_ok (snd (CounterGet v n k e))"
  unfolding Incr_def CounterGet_def
  by ((rule checked_ok pop_ok, rule assms, erule checks_found, auto intro!: step_ok counter_ops_ok kept_ops; fail))+

lemma json_api_ok:
  assumes "eng_ok e"
  shows "eng_ok (snd (JsonSet v n k p x e))" "env_ok v \<Longrightarrow> eng_ok (snd (JsonGet v n k p e))"
    "eng_ok (snd (JsonDel v n k p e))"
  unfolding JsonSet_def JsonGet_def JsonDel_def
  by ((rule checked_ok checked_write_ok, rule assms, simp add: first_err_None path_checks_def,
      auto simp: split_beta intro!: step_ok json_ops_ok kept_ops; fail))+

lemma bitmap_api_ok:
  assumes "eng_ok e"
  shows "eng_ok (snd (BitSet v n k off b e))" "env_ok v \<Longrightarrow> eng_ok (snd (BitGet v n k off e))"
    "env_ok v \<Longrightarrow> eng_ok (snd (BitCount v n k i j e))" "env_ok v \<Longrightarrow> eng_ok (snd (BitPos v n k b i j e))"
  unfolding BitSet_def BitGet_def BitCount_def BitPos_def
  by ((rule checked_ok checked_write_ok, rule assms, force simp: first_err_None dest: checks_found,
      auto simp: split_beta intro!: step_ok bitmap_ops_ok kept_ops; fail))+

lemma sketch_api_ok:
  assumes "eng_ok e"
  shows "eng_ok (snd (engine_HLLAdd v n k x e))" "env_ok v \<Longrightarrow> eng_ok (snd (engine_HLLCount v n k e))"
    "eng_ok (snd (engine_TopKAdd v n k x e))" "env_ok v \<Longrightarrow> eng_ok (snd (engine_TopKList v n k e))"
    "eng_ok (snd (engine_CMSIncr v n k x y e))" "env_ok v \<Longrightarrow> eng_ok (snd (engine_CMSQuery v n k x e))"
  unfolding engine_HLLAdd_def engine_HLLCount_def engine_TopKAdd_def engine_TopKList_def engine_CMSIncr_def
    engine_CMSQuery_def
  by ((rule checked_ok checked_write_ok, rule assms, force simp: first_err_None dest: checks_found,
      auto simp: Let_def intro!: step_ok hll_ops_ok topk_ops_ok cms_ops_ok kept_ops; fail))+

lemma and_then_ok:
  assumes "ok_at n e" "\<And>e. ok_at n e \<Longrightarrow> ok_at n (snd (f e))" "\<And>e. ok_at n e \<Longrightarrow> ok_at n (snd (g e))"
  shows "ok_at n (snd (and_then f g e))"
  using assms(2) [OF assms(1)] assms(3) [OF assms(2) [OF assms(1)]]
  by (auto simp: and_then_def split_beta split: option.split)

lemma VSim_ok:
  assumes "eng_ok e" "env_ok v"
  shows "eng_ok (snd (engine_VSim v n k vec kk e))"
proof (cases "first_err [eCtx v, getKS n e, vsNeed n k e]")
  case None
  then have "ok_at n e" using ok_atI [OF assms(1)] by (simp add: first_err_None)
  then have 1: "ok_at n (snd (vsCheckVec v n k vec e))" by (rule vec_ops_ok)
  have "ok_at n (snd (local_or_fetch n (VSim (eFp v) (eNow v) k vec kk a) (vec_FetchOwner v n k) b
      (snd (vsCheckVec v n k vec e))))" for a b
    using 1 assms(2) by (auto intro!: step_ok vec_ops_ok kept_ops)
  with 1 None show ?thesis
    by (auto simp: engine_VSim_def checked_write_def Let_def split_beta dest: ok_atD split: option.split)
qed (simp add: engine_VSim_def checked_write_def assms(1))

lemma vec_api_ok:
  assumes "eng_ok e"
  shows "eng_ok (snd (engine_VAdd v n k x vec e))" "eng_ok (snd (engine_VRem v n k x e))"
    "env_ok v \<Longrightarrow> eng_ok (snd (engine_VCard v n k e))" "env_ok v \<Longrightarrow> eng_ok (snd (engine_VDim v n k e))"
    "env_ok v \<Longrightarrow> eng_ok (snd (engine_VEmb v n k x e))"
  unfolding engine_VAdd_def engine_VRem_def engine_VCard_def engine_VDim_def engine_VEmb_def vsReadInt_def
  by ((rule checked_ok checked_write_ok, rule assms, force simp: first_err_None,
      auto simp: split_beta intro!: and_then_ok step_ok vec_ops_ok kept_ops; fail))+

lemma sxRange_ok:
  assumes "eng_ok e" "env_ok v"
  shows "eng_ok (snd (sxRange v n k i j c rv e))"
proof -
  let ?c = "first_err [eCtx v, getKS n e, sxNeed n k e, check (ParseBound i True = None) ErrInvalidArgument,
    check (ParseBound j False = None) ErrInvalidArgument]"
  have "ok_at n e" if "?c = None" using that ok_atI [OF assms(1)] by (simp add: first_err_None)
  then have 1: "ok_at n (snd (store_op n (XRange (eNow v) k i j c rv) e))" if "?c = None"
    using that by (auto intro!: store_op_ok kept_ops)
  have "ok_at n (snd (stream_FetchOwner v n k (snd (store_op n (XRange (eNow v) k i j c rv) e))))" if "?c = None"
    using stream_local_ok(4) [OF 1 [OF that] assms(2)] .
  with 1 show ?thesis
    using assms(1) by (auto simp: sxRange_def split_beta dest: ok_atD split: option.split sum.split)
qed

lemma stream_api_ok:
  assumes "eng_ok e"
  shows "eng_ok (snd (engine_XAdd v n k x e))" "eng_ok (snd (engine_XDel v n k x e))"
    "eng_ok (snd (engine_XTrim v n k mx e))" "env_ok v \<Longrightarrow> eng_ok (snd (engine_XLen v n k e))"
  unfolding engine_XAdd_def engine_XDel_def engine_XTrim_def engine_XLen_def
  by ((rule checked_ok checked_write_ok pop_ok, rule assms, force simp: first_err_None,
      auto simp: split_beta intro!: step_ok stream_local_ok kept_ops; fail))+

section \<open>Messages of peers\<close>

lemma apply_op_ok:
  assumes "ok_at n (snd (f e))"
  shows "ok_at n (snd (apply_op n k ent f e))"
  using assms by (auto simp: apply_op_def split_beta split: option.split intro!: eng_keeps)

lemma apply_owned_ok:
  assumes "ok_at n e" "ok_at n (snd (f e))"
  shows "ok_at n (snd (apply_owned k f e))"
  using assms by (simp add: apply_owned_def)

lemma if_ok:
  assumes "c \<Longrightarrow> ok_at n (snd a)" "\<not> c \<Longrightarrow> ok_at n (snd b)"
  shows "ok_at n (snd (if c then a else b))"
  using assms by simp

lemma apply_snapshots_ok:
  assumes "ok_at n e" "go_len (Value ent)" "\<not> IsBloom ent"
    "\<not> IsSet ent" "\<not> IsZSet ent" "\<not> IsGeo ent" "\<not> IsList ent" "\<not> IsHash ent"
  shows "ok_at n (snd (apply_snapshots v n k ent e))"
  unfolding apply_snapshots_def Let_def
  by (intro if_ok apply_owned_ok counter_ops_ok json_ops_ok bitmap_ops_ok hll_ops_ok topk_ops_ok cms_ops_ok vec_ops_ok
      stream_apply_ok store_op_ok memory_kept store_ok_wf; (rule assms | assumption)?)
    (use assms in \<open>simp_all add: plain_def bare_kind\<close>)

lemma apply_put_ok:
  assumes "ok_at n e" "go_len (Value ent)"
  shows "ok_at n (snd (apply_put v n k ent e))"
  unfolding apply_put_def Let_def
  by (intro if_ok apply_op_ok apply_owned_ok apply_snapshots_ok bloom_ops_ok set_ops_ok zset_ops_ok geo_ops_ok
      list_ops_ok hash_ops_ok; (rule assms | assumption)?)

lemma apply_api_ok:
  assumes "eng_ok e"
  shows "go_len (Value ent) \<Longrightarrow> eng_ok (snd (ApplyPutWithRingGen v n k ent g e))"
    "eng_ok (snd (ApplyDeleteWithRingGen v n k dv g e))"
  unfolding ApplyPutWithRingGen_def ApplyDeleteWithRingGen_def
  by ((rule checked_ok, rule assms, force simp: first_err_None,
      auto intro!: apply_put_ok store_op_ok eng_keeps kept_ops; fail))+

end
