(* ===== verification/PeerHandlers.thy ===== *)
theory PeerHandlers
  imports EngineInvModes
begin

text \<open>
  The handlers of the peer service (\<open>internal/peerserver/server.go\<close>) with the status table of
  \<open>internal/grpcmap/status.go\<close>: what a node does with the calls of the others.

  \<^item> A handler is one step of the engine of its node. A status keeps its code; the text is
    left out.
\<close>

section \<open>Status codes\<close>

datatype code = CodeNotFound | CodeInvalidArgument | CodeUnavailable | CodeInternal

text \<open>\<open>errors.Is\<close>: an error of a batch wraps the errors of its keys.\<close>

fun err_is :: "engine_err \<Rightarrow> engine_err \<Rightarrow> bool" where
  "err_is (KeyErrors xs) target = list_ex (\<lambda>(k, x). err_is x target) xs"
| "err_is x target = (x = target)"

definition Status :: "engine_err \<Rightarrow> code" where
  "Status x =
     (if err_is x ErrNotFound \<or> err_is x ErrKeyspaceNotFound then CodeNotFound
      else if err_is x ErrInvalidArgument \<or> err_is x ErrKeyTooLarge \<or> err_is x ErrValueTooLarge \<or>
              err_is x ErrBatchTooLarge then CodeInvalidArgument
      else if err_is x ErrUnavailable then CodeUnavailable
      else CodeInternal)"

definition status_result :: "(engine_err + 'a) \<times> engine \<Rightarrow> (code + 'a) \<times> engine" where
  "status_result r = (case fst r of Inl x \<Rightarrow> Inl (Status x) | Inr y \<Rightarrow> Inr y, snd r)"

definition status_write :: "engine_err option \<times> engine \<Rightarrow> code option \<times> engine" where
  "status_write r = (map_option Status (fst r), snd r)"

section \<open>Handlers\<close>

definition peer_ApplyPut ::
    "env \<Rightarrow> bytes \<Rightarrow> bytes \<Rightarrow> entry option \<Rightarrow> u64 \<Rightarrow> engine \<Rightarrow> (code + bool) \<times> engine" where
  "peer_ApplyPut v n k ent g e =
     status_result (ApplyPutWithRingGen v n k (case ent of None \<Rightarrow> zero_entry | Some x \<Rightarrow> x) g e)"

definition peer_ApplyDelete :: "env \<Rightarrow> bytes \<Rightarrow> bytes \<Rightarrow> u64 \<Rightarrow> u64 \<Rightarrow> engine \<Rightarrow> (code + bool) \<times> engine" where
  "peer_ApplyDelete v n k dv g e = status_result (ApplyDeleteWithRingGen v n k dv g e)"

definition peer_ForwardPut ::
    "env \<Rightarrow> bytes \<Rightarrow> bytes \<Rightarrow> bytes \<Rightarrow> int \<Rightarrow> bool \<Rightarrow> nat \<Rightarrow> engine \<Rightarrow> code option \<times> engine" where
  "peer_ForwardPut v n k val ttlN ttlSet hopCount e =
     status_write (PutLocalAtHop v n k val hopCount (if ttlSet then Some ttlN else None) e)"

text \<open>A \<open>MultiError\<close> is a success that names the peers that failed.\<close>

definition peer_ForwardDelete :: "env \<Rightarrow> bytes \<Rightarrow> bytes \<Rightarrow> engine \<Rightarrow> (code + bytes list) \<times> engine" where
  "peer_ForwardDelete v n k e =
     (case DeleteAsOwner v n k e of
        (None, e1) \<Rightarrow> (Inr [], e1)
      | (Some (MultiError fails), e1) \<Rightarrow> (Inr fails, e1)
      | (Some x, e1) \<Rightarrow> (Inl (Status x), e1))"

text \<open>A response without an entry is read back as the zero entry.\<close>

definition peer_GetOrLoad :: "env \<Rightarrow> bytes \<Rightarrow> bytes \<Rightarrow> engine \<Rightarrow> (code + getOrLoadResult) \<times> engine" where
  "peer_GetOrLoad v n k e =
     (case GetOrLoadLocal v n k e of
        ((ent, None), e1) \<Rightarrow> (Inr \<lparr>gFound = True, gEntry = ent\<rparr>, e1)
      | ((ent, Some x), e1) \<Rightarrow>
          (if err_is x ErrNotFound then
             Inr \<lparr>gFound = False, gEntry = (if IsNegative ent \<or> 0 < Version ent then ent else zero_entry)\<rparr>
           else Inl (Status x), e1))"

definition peer_ListPop :: "env \<Rightarrow> bytes \<Rightarrow> bytes \<Rightarrow> bool \<Rightarrow> engine \<Rightarrow> (code + bytes option) \<times> engine" where
  "peer_ListPop v n k left e = status_result (if left then engine_LPop v n k e else engine_RPop v n k e)"

definition peer_CounterIncr :: "env \<Rightarrow> bytes \<Rightarrow> bytes \<Rightarrow> int \<Rightarrow> engine \<Rightarrow> (code + int) \<times> engine" where
  "peer_CounterIncr v n k delta e = status_result (Incr v n k delta e)"

definition peer_StreamAdd :: "env \<Rightarrow> bytes \<Rightarrow> bytes \<Rightarrow> bytes \<Rightarrow> engine \<Rightarrow> (code + bytes) \<times> engine" where
  "peer_StreamAdd v n k payload e = status_result (engine_XAdd v n k payload e)"

lemma Status_table:
  "Status ErrNotFound = CodeNotFound" "Status ErrKeyspaceNotFound = CodeNotFound"
  "Status ErrInvalidArgument = CodeInvalidArgument" "Status ErrKeyTooLarge = CodeInvalidArgument"
  "Status ErrValueTooLarge = CodeInvalidArgument" "Status ErrBatchTooLarge = CodeInvalidArgument"
  "Status ErrUnavailable = CodeUnavailable" "Status (MultiError xs) = CodeInternal" "Status ErrContext = CodeInternal"
  by (simp_all add: Status_def)

text \<open>The handlers keep the type invariant: a peer's calls cannot leave the reachable engines.\<close>

lemma peer_handlers_ok:
  assumes "eng_ok e"
  shows "go_len (Value ent) \<Longrightarrow> eng_ok (snd (peer_ApplyPut v n k (Some ent) g e))"
    "eng_ok (snd (peer_ApplyDelete v n k dv g e))"
    "go_len val \<Longrightarrow> eng_ok (snd (peer_ForwardPut v n k val d s h e))"
    "eng_ok (snd (peer_ForwardDelete v n k e))" "loads_ok v \<Longrightarrow> eng_ok (snd (peer_GetOrLoad v n k e))"
    "eng_ok (snd (peer_ListPop v n k left e))" "eng_ok (snd (peer_CounterIncr v n k delta e))"
    "eng_ok (snd (peer_StreamAdd v n k x e))"
proof -
  show "eng_ok (snd (peer_ForwardDelete v n k e))"
    using DeleteAsOwner_ok [OF assms, of v n k]
    by (auto simp: peer_ForwardDelete_def split: prod.split option.split engine_err.split)
  show "loads_ok v \<Longrightarrow> eng_ok (snd (peer_GetOrLoad v n k e))"
    using GetOrLoadLocal_ok [OF assms, of v n k]
    by (auto simp: peer_GetOrLoad_def split: prod.split option.split)
qed (simp_all add: assms peer_ApplyPut_def peer_ApplyDelete_def peer_ForwardPut_def peer_ListPop_def peer_CounterIncr_def
    peer_StreamAdd_def status_result_def status_write_def apply_api_ok PutLocalAtHop_ok list_api_ok counter_api_ok
    stream_api_ok)

section \<open>Answers to GetOrLoad\<close>

text \<open>What a node reads from a store in order is of one kind.\<close>

lemma read_kind:
  assumes "ok_at n e"
  shows "store_op n (Get now k) e = (Some ent, e1) \<Longrightarrow> one_kind ent"
    "store_op n (Peek now k) e = (Some ent, e1) \<Longrightarrow> one_kind ent"
    "get_positive v n k e = (Some ent, e1) \<Longrightarrow> one_kind ent"
proof -
  let ?m = "ks_store (ks_of n e)"
  have ok: "store_ok ?m" using assms by (auto simp: ok_at_def eng_ok_def ks_of_def)
  have g: "one_kind ent" if "fst (Get now k ?m) = Some ent" for now ent
    using that Get_spec(1) [OF store_ok_wf [OF ok], of now k] ok by (auto simp: store_ok_def split: option.splits if_splits)
  have p: "one_kind ent" if "fst (Peek now k ?m) = Some ent" for now ent
    using that Peek_spec(1) [OF store_ok_wf [OF ok], of now k] ok by (auto simp: store_ok_def split: option.splits if_splits)
  show "store_op n (Get now k) e = (Some ent, e1) \<Longrightarrow> one_kind ent"
    "store_op n (Peek now k) e = (Some ent, e1) \<Longrightarrow> one_kind ent"
    "get_positive v n k e = (Some ent, e1) \<Longrightarrow> one_kind ent"
    using g p by (auto simp: store_op_def get_positive_def split_beta split: option.splits if_splits)
qed

lemma zero_entry_kind: "one_kind (zero_entry\<lparr>Value := x\<rparr>)" "one_kind zero_entry" "plain zero_entry"
  by (simp_all add: plain_flags zero_entry_def plain_def Is_defs)

lemma load_flight_kind:
  assumes ok: "ok_at n e" and l: "loads_ok v" and r: "load_flight v n k e = ((Some ent, x), e')"
  shows "one_kind ent"
proof -
  obtain g e1 where 1: "store_op n (Get (eNow v) k) e = (g, e1)" by fastforce
  obtain q e2 where 2: "loadThrough v None n k True e1 = (q, e2)" by fastforce
  obtain h e3 where 3: "store_op n (Get (eNow v) k) e2 = (h, e3)" by fastforce
  obtain p e4 where 4: "get_positive v n k e2 = (p, e4)" by fastforce
  have ok1: "ok_at n e1" using read_op_ok(1) [OF ok, of v k] by (simp add: 1)
  have ok2: "ok_at n e2" using load_keeps(3) [OF ok1 l, of None k True] by (simp add: 2)
  note rk = read_kind(1) [OF ok, of "eNow v" k] read_kind(1) [OF ok2, of "eNow v" k] read_kind(3) [OF ok2, of v k]
  show ?thesis
    using r rk zero_entry_kind(1)
    by (auto simp: load_flight_def 1 2 3 4 split: option.splits sum.splits if_splits)
qed

lemma GetOrLoadLocal_kind:
  assumes "eng_ok e" "loads_ok v" "GetOrLoadLocal v n k e = ((ent, x), e')"
  shows "one_kind ent \<and> (x = None \<or> plain ent)"
proof (cases "key_checks v n k e")
  case (Some y)
  then show ?thesis using assms(3) zero_entry_kind by (auto simp: GetOrLoadLocal_def)
next
  case None
  note ok = key_checks_ok [OF assms(1) None]
  obtain r e1 where 1: "store_op n (Get (eNow v) k) e = (r, e1)" by fastforce
  obtain p ep where p: "store_op n (Peek (eNow v) k) e = (p, ep)" by fastforce
  obtain lx y e2 where 2: "load_flight v n k e1 = ((lx, y), e2)" by (cases "load_flight v n k e1") auto
  obtain q e3 where 3: "store_op n (Get (eNow v) k) e2 = (q, e3)" by fastforce
  have ok1: "ok_at n e1" using read_op_ok(1) [OF ok, of v k] by (simp add: 1)
  have ok2: "ok_at n e2" using get_ops_ok(3) [OF ok1 assms(2), of k] by (simp add: 2)
  have kr: "one_kind z" if "r = Some z" for z using read_kind(1) [OF ok, of "eNow v" k] that by (simp add: 1)
  have kp: "one_kind z" if "p = Some z" for z using read_kind(2) [OF ok, of "eNow v" k] that by (simp add: p)
  have kl: "one_kind z" if "lx = Some z" for z using load_flight_kind [OF ok1 assms(2), of k] that by (simp add: 2)
  have kq: "one_kind z" if "q = Some z" for z using read_kind(1) [OF ok2, of "eNow v" k] that by (simp add: 3)
  show ?thesis
  proof (cases "mode_kind (ksMode (ks_config n e))")
    case (Some kind)
    then show ?thesis
      using assms(3) kp zero_entry_kind by (auto simp: GetOrLoadLocal_def None p split: option.splits if_splits)
  next
    case plain: None
    show ?thesis
      using assms(3) kr kl kq zero_entry_kind one_kind_negative
      unfolding GetOrLoadLocal_def None plain option.case 1 prod.case
      by (auto simp: 2 3 split: option.splits if_splits)
  qed
qed

text \<open>The answers of a node whose stores are in order are those its callers rely on.\<close>

lemma peer_GetOrLoad_answer:
  assumes "eng_ok e" "loads_ok v" "fst (peer_GetOrLoad v n k e) = Inr r"
  shows "answer_ok r"
proof -
  obtain ent x e1 where g: "GetOrLoadLocal v n k e = ((ent, x), e1)" by (cases "GetOrLoadLocal v n k e") auto
  show ?thesis
    using GetOrLoadLocal_kind [OF assms(1,2) g] assms(3) zero_entry_kind
    by (auto simp: peer_GetOrLoad_def g answer_ok_def split: option.splits if_splits)
qed

end
