(* ===== verification/EngineReach.thy ===== *)
theory EngineReach
  imports PeerHandlers
begin

text \<open>
  The exported operations of \<open>engine.Engine\<close> as a type of calls, one run of a call, and the
  engines that are reachable from \<open>New\<close> by calls in a cluster of nodes that run this code.
  Every reachable engine satisfies the type invariant: each call keeps it by the lemma of
  its operation.
\<close>

section \<open>Calls\<close>

datatype kv_call =
    CGetKey bytes bytes | CPut bytes bytes bytes put_ttl | CPutMany bytes "(bytes \<times> bytes) list" put_ttl
  | CDelete bytes bytes | CDeleteMany bytes "bytes list" | CForceLoad bytes bytes
  | CHasLocal bytes bytes | CLocalView bytes bytes | CBloomDump bytes bytes | CLocalEntries bytes
  | CGetOrLoadLocal bytes bytes | CPutLocalAtHop bytes bytes bytes nat put_ttl | CDeleteAsOwner bytes bytes
  | CApplyPut bytes bytes entry u64 | CApplyDelete bytes bytes u64 u64 | CApplyBloomMerge bytes bytes bytes u64
  | CReplicateToPeers bytes bytes entry
  | CUpdateKeySpace ksconfig | CDeleteKeySpace bytes | CClose
  | CAttachCluster "cluster option" | CSetNodeInfo bytes bytes

primrec run_kv :: "env \<Rightarrow> kv_call \<Rightarrow> engine \<Rightarrow> engine" where
  "run_kv v (CGetKey n k) e = snd (engine_Get v n k e)"
| "run_kv v (CPut n k val t) e = snd (engine_Put v n k val t e)"
| "run_kv v (CPutMany n kvs t) e = snd (PutMany v n kvs t e)"
| "run_kv v (CDelete n k) e = snd (engine_Delete v n k e)"
| "run_kv v (CDeleteMany n ks) e = snd (DeleteMany v n ks e)"
| "run_kv v (CForceLoad n k) e = snd (ForceLoad v n k e)"
| "run_kv v (CHasLocal n k) e = snd (HasLocal v n k e)"
| "run_kv v (CLocalView n k) e = snd (LocalView v n k e)"
| "run_kv v (CBloomDump n k) e = snd (BloomDump v n k e)"
| "run_kv v (CLocalEntries n) e = snd (LocalEntries v n e)"
| "run_kv v (CGetOrLoadLocal n k) e = snd (GetOrLoadLocal v n k e)"
| "run_kv v (CPutLocalAtHop n k val hop t) e = snd (PutLocalAtHop v n k val hop t e)"
| "run_kv v (CDeleteAsOwner n k) e = snd (DeleteAsOwner v n k e)"
| "run_kv v (CApplyPut n k ent g) e = snd (ApplyPutWithRingGen v n k ent g e)"
| "run_kv v (CApplyDelete n k dv g) e = snd (ApplyDeleteWithRingGen v n k dv g e)"
| "run_kv v (CApplyBloomMerge n k blob ver) e = snd (ApplyBloomMerge v n k blob ver e)"
| "run_kv v (CReplicateToPeers n k ent) e = ReplicateToPeers n k ent e"
| "run_kv v (CUpdateKeySpace c) e = snd (UpdateKeySpace v c e)"
| "run_kv v (CDeleteKeySpace n) e = snd (DeleteKeySpace n e)"
| "run_kv v CClose e = engine_Close e"
| "run_kv v (CAttachCluster c) e = AttachCluster c e"
| "run_kv v (CSetNodeInfo i a) e = SetNodeInfo i a e"

datatype container_call =
    CBloomAdd bytes | CBloomTest bytes
  | CSetAdd bytes | CSetRemove bytes | CSetContains bytes | CSetCard | CSetMembers
  | CZAdd bytes f64 | CZRem bytes | CZScore bytes | CZCard | CZRange int int | CZRangeByScore f64 f64
  | CGeoAdd bytes f64 f64 | CGeoRem bytes | CGeoPos bytes | CGeoCard | CGeoDist bytes bytes
  | CGeoRadius f64 f64 f64 int
  | CHSet bytes bytes | CHDel bytes | CHGet bytes | CHExists bytes | CHLen | CHGetAll

primrec run_container :: "env \<Rightarrow> bytes \<Rightarrow> bytes \<Rightarrow> container_call \<Rightarrow> engine \<Rightarrow> engine" where
  "run_container v n k (CBloomAdd x) e = snd (engine_BloomAdd v n k x e)"
| "run_container v n k (CBloomTest x) e = snd (engine_BloomTest v n k x e)"
| "run_container v n k (CSetAdd x) e = snd (engine_SetAdd v n k x e)"
| "run_container v n k (CSetRemove x) e = snd (engine_SetRemove v n k x e)"
| "run_container v n k (CSetContains x) e = snd (engine_SetContains v n k x e)"
| "run_container v n k CSetCard e = snd (engine_SetCard v n k e)"
| "run_container v n k CSetMembers e = snd (engine_SetMembers v n k e)"
| "run_container v n k (CZAdd x s) e = snd (engine_ZAdd v n k x s e)"
| "run_container v n k (CZRem x) e = snd (engine_ZRem v n k x e)"
| "run_container v n k (CZScore x) e = snd (engine_ZScore v n k x e)"
| "run_container v n k CZCard e = snd (engine_ZCard v n k e)"
| "run_container v n k (CZRange i j) e = snd (engine_ZRange v n k i j e)"
| "run_container v n k (CZRangeByScore lo hi) e = snd (engine_ZRangeByScore v n k lo hi e)"
| "run_container v n k (CGeoAdd x lon lat) e = snd (engine_GeoAdd v n k x lon lat e)"
| "run_container v n k (CGeoRem x) e = snd (engine_GeoRem v n k x e)"
| "run_container v n k (CGeoPos x) e = snd (engine_GeoPos v n k x e)"
| "run_container v n k CGeoCard e = snd (engine_GeoCard v n k e)"
| "run_container v n k (CGeoDist x y) e = snd (engine_GeoDist v n k x y e)"
| "run_container v n k (CGeoRadius lon lat r lim) e = snd (engine_GeoRadius v n k lon lat r lim e)"
| "run_container v n k (CHSet x y) e = snd (engine_HSet v n k x y e)"
| "run_container v n k (CHDel x) e = snd (engine_HDel v n k x e)"
| "run_container v n k (CHGet x) e = snd (engine_HGet v n k x e)"
| "run_container v n k (CHExists x) e = snd (engine_HExists v n k x e)"
| "run_container v n k CHLen e = snd (engine_HLen v n k e)"
| "run_container v n k CHGetAll e = snd (engine_HGetAll v n k e)"

datatype blob_call =
    CLPush bytes | CRPush bytes | CLPop | CRPop | CLLen | CLIndex int | CLRange int int
  | CIncrBy int | CCounterGet
  | CJsonSet bytes bytes | CJsonGet bytes | CJsonDel bytes
  | CBitSet u64 bool | CBitGet u64 | CBitCount int int | CBitPos bool int int
  | CHLLAdd bytes | CHLLCount | CTopKAdd bytes | CTopKList | CCMSIncr bytes u64 | CCMSQuery bytes
  | CVAdd bytes "f32 list" | CVRem bytes | CVSim "f32 list" int | CVCard | CVDim | CVEmb bytes
  | CXAdd bytes | CXDel bytes | CXTrim int | CXRange bytes bytes int | CXRevRange bytes bytes int | CXLen

primrec run_blob :: "env \<Rightarrow> bytes \<Rightarrow> bytes \<Rightarrow> blob_call \<Rightarrow> engine \<Rightarrow> engine" where
  "run_blob v n k (CLPush x) e = snd (engine_LPush v n k x e)"
| "run_blob v n k (CRPush x) e = snd (engine_RPush v n k x e)"
| "run_blob v n k CLPop e = snd (engine_LPop v n k e)"
| "run_blob v n k CRPop e = snd (engine_RPop v n k e)"
| "run_blob v n k CLLen e = snd (engine_LLen v n k e)"
| "run_blob v n k (CLIndex i) e = snd (engine_LIndex v n k i e)"
| "run_blob v n k (CLRange i j) e = snd (engine_LRange v n k i j e)"
| "run_blob v n k (CIncrBy d) e = snd (Incr v n k d e)"
| "run_blob v n k CCounterGet e = snd (CounterGet v n k e)"
| "run_blob v n k (CJsonSet p x) e = snd (JsonSet v n k p x e)"
| "run_blob v n k (CJsonGet p) e = snd (JsonGet v n k p e)"
| "run_blob v n k (CJsonDel p) e = snd (JsonDel v n k p e)"
| "run_blob v n k (CBitSet off b) e = snd (BitSet v n k off b e)"
| "run_blob v n k (CBitGet off) e = snd (BitGet v n k off e)"
| "run_blob v n k (CBitCount i j) e = snd (BitCount v n k i j e)"
| "run_blob v n k (CBitPos b i j) e = snd (BitPos v n k b i j e)"
| "run_blob v n k (CHLLAdd x) e = snd (engine_HLLAdd v n k x e)"
| "run_blob v n k CHLLCount e = snd (engine_HLLCount v n k e)"
| "run_blob v n k (CTopKAdd x) e = snd (engine_TopKAdd v n k x e)"
| "run_blob v n k CTopKList e = snd (engine_TopKList v n k e)"
| "run_blob v n k (CCMSIncr x y) e = snd (engine_CMSIncr v n k x y e)"
| "run_blob v n k (CCMSQuery x) e = snd (engine_CMSQuery v n k x e)"
| "run_blob v n k (CVAdd x vec) e = snd (engine_VAdd v n k x vec e)"
| "run_blob v n k (CVRem x) e = snd (engine_VRem v n k x e)"
| "run_blob v n k (CVSim vec kk) e = snd (engine_VSim v n k vec kk e)"
| "run_blob v n k CVCard e = snd (engine_VCard v n k e)"
| "run_blob v n k CVDim e = snd (engine_VDim v n k e)"
| "run_blob v n k (CVEmb x) e = snd (engine_VEmb v n k x e)"
| "run_blob v n k (CXAdd x) e = snd (engine_XAdd v n k x e)"
| "run_blob v n k (CXDel i) e = snd (engine_XDel v n k i e)"
| "run_blob v n k (CXTrim mx) e = snd (engine_XTrim v n k mx e)"
| "run_blob v n k (CXRange i j c) e = snd (engine_XRange v n k i j c e)"
| "run_blob v n k (CXRevRange i j c) e = snd (engine_XRevRange v n k i j c e)"
| "run_blob v n k CXLen e = snd (engine_XLen v n k e)"

datatype call = KvCall kv_call | ContainerCall bytes bytes container_call | BlobCall bytes bytes blob_call

primrec run_call :: "env \<Rightarrow> call \<Rightarrow> engine \<Rightarrow> engine" where
  "run_call v (KvCall c) e = run_kv v c e"
| "run_call v (ContainerCall n k c) e = run_container v n k c e"
| "run_call v (BlobCall n k c) e = run_blob v n k c e"

text \<open>The arguments of a call are Go values: a byte string has an \<open>int\<close> length, and the entry of
  a peer message has a single kind.\<close>

fun kv_args_ok :: "kv_call \<Rightarrow> bool" where
  "kv_args_ok (CPut n k val t) = go_len val"
| "kv_args_ok (CPutMany n kvs t) = list_all (\<lambda>(k, x). go_len x) kvs"
| "kv_args_ok (CPutLocalAtHop n k val hop t) = go_len val"
| "kv_args_ok (CApplyPut n k ent g) = go_len (Value ent)"
| "kv_args_ok c = True"

fun container_args_ok :: "container_call \<Rightarrow> bool" where
  "container_args_ok (CSetAdd x) = go_len x"
| "container_args_ok (CZAdd x s) = go_len x"
| "container_args_ok (CGeoAdd x lon lat) = go_len x"
| "container_args_ok (CHSet x y) = (go_len x \<and> go_len y)"
| "container_args_ok c = True"

fun blob_args_ok :: "blob_call \<Rightarrow> bool" where
  "blob_args_ok (CLPush x) = go_len x"
| "blob_args_ok (CRPush x) = go_len x"
| "blob_args_ok c = True"

primrec args_ok :: "call \<Rightarrow> bool" where
  "args_ok (KvCall c) = kv_args_ok c"
| "args_ok (ContainerCall n k c) = container_args_ok c"
| "args_ok (BlobCall n k c) = blob_args_ok c"

section \<open>Reachable engines\<close>

text \<open>The network and the data source answer as they like, with two exceptions. Values that come
  in fit an \<open>int\<close> length, and an answer to \<open>GetOrLoad\<close> is one that the handler of some
  reachable engine gives: the peers run this code.\<close>

inductive reachable :: "engine \<Rightarrow> bool" where
  reachable_new: "reachable (engine_New g mkl mvs mb mvk)"
| reachable_call: "reachable e \<Longrightarrow> args_ok c \<Longrightarrow> loads_ok v \<Longrightarrow>
    (\<forall>a n k r. eGetOrLoad v a n k = Inr r \<longrightarrow> go_len (Value (gEntry r)) \<and>
       (\<exists>w e'. reachable e' \<and> loads_ok w \<and> fst (peer_GetOrLoad w n k e') = Inr r)) \<Longrightarrow>
    reachable (run_call v c e)"

lemma run_kv_ok: "eng_ok e \<Longrightarrow> env_ok v \<Longrightarrow> kv_args_ok c \<Longrightarrow> eng_ok (run_kv v c e)"
  by (cases c) (auto simp: list_all_iff engine_Get_ok engine_Put_ok engine_Delete_ok GetOrLoadLocal_ok PutLocalAtHop_ok
      DeleteAsOwner_ok diagnostics_ok admin_ok apply_api_ok bloom_api_ok intro!: batch_ok)

lemma run_container_ok:
  "eng_ok e \<Longrightarrow> env_ok v \<Longrightarrow> container_args_ok c \<Longrightarrow> eng_ok (run_container v n k c e)"
  by (cases c) (simp_all add: bloom_api_ok set_api_ok zset_api_ok geo_api_ok hash_api_ok)

lemma run_blob_ok: "eng_ok e \<Longrightarrow> env_ok v \<Longrightarrow> blob_args_ok c \<Longrightarrow> eng_ok (run_blob v n k c e)"
  by (cases c) (simp_all add: list_api_ok counter_api_ok json_api_ok bitmap_api_ok sketch_api_ok vec_api_ok VSim_ok
      stream_api_ok engine_XRange_def engine_XRevRange_def sxRange_ok)

lemma run_call_ok: "eng_ok e \<Longrightarrow> env_ok v \<Longrightarrow> args_ok c \<Longrightarrow> eng_ok (run_call v c e)"
  by (cases c) (simp_all add: run_kv_ok run_container_ok run_blob_ok)

lemma reachable_eng_ok: "reachable e \<Longrightarrow> eng_ok e"
proof (induction rule: reachable.induct)
  case (reachable_new g mkl mvs mb mvk)
  show ?case by (simp add: eng_ok_def engine_New_def)
next
  case (reachable_call e c v)
  have "env_ok v" using reachable_call(3,5) peer_GetOrLoad_answer unfolding env_ok_def by blast
  then show ?case using reachable_call(2,4) by (blast intro: run_call_ok)
qed

text \<open>C2. The type invariant of the engine: after any sequence of exported calls on a node of a cluster
  whose nodes all run this code, with any data source and any network, every keyspace holds a
  well-formed store. Its list and its map have the same keys, each item carries its own key
  and its exact cost, the byte count is the sum of the costs, cached containers agree with
  their encoding, and every entry is of at most one kind. Messages of the fan-out are
  arbitrary; values fit an \<open>int\<close> length.\<close>

theorem reachable_store_ok:
  assumes "reachable e" "keyspaces e n = Some ks"
  shows "store_ok (ks_store ks)"
  using reachable_eng_ok [OF assms(1)] assms(2) by (simp add: eng_ok_def)

section \<open>A small engine\<close>

definition demo_env :: "time \<Rightarrow> env" where
  "demo_env now =
     \<lparr>eNow = now, eMilli = 0, eCtx = None, eCtxEnd = None, eLoad = (\<lambda>n k. LoadNotFound), eOrd = [], eFp = zero_fpu,
      eTrunc = (\<lambda>x. 0), eNet = (\<lambda>l c. True), eForwardPut = (\<lambda>a n k val d s h. Some ErrRemote),
      eForwardDelete = (\<lambda>a n k. Inl ErrRemote), eGetOrLoad = (\<lambda>a n k. Inl ErrRemote),
      eApplyPut = (\<lambda>a n k ent g. Inl ErrRemote), eListPop = (\<lambda>a n k left. Inl ErrRemote),
      eCounterIncr = (\<lambda>a n k d. Inl ErrRemote), eStreamAdd = (\<lambda>a n k x. Inl ErrRemote)\<rparr>"

definition demo_cfg :: "mode \<Rightarrow> ksconfig" where
  "demo_cfg md =
     \<lparr>ksName = str ''ks'', ksMode = md, ksTTL = 0, NegativeTTL = 0, MaxBytes = 0, LoadTimeout = 0, PeerTimeout = 0,
      WarmKeys = [], RefreshInterval = 0, ksRateLimitRPS = 0,
      CircuitBreaker = \<lparr>RateLimitRPS = 0, Burst = 0, FailureThreshold = 0, OpenTimeout = 0\<rparr>, DataSource = True,
      MaxKeyLen = 0, MaxValueSize = 0, ReplicationFactor = 0, TombstoneTTL = 0, BloomBits = 0, BloomHashes = 0,
      TopKSize = 0, VectorDim = 0, VectorMetric = 0, StreamMaxLen = 0\<rparr>"

definition demo_engine :: "mode \<Rightarrow> cluster option \<Rightarrow> engine" where
  "demo_engine md c =
     run_call (demo_env 0) (KvCall (CAttachCluster c))
       (run_call (demo_env 0) (KvCall (CUpdateKeySpace (demo_cfg md))) (engine_New None 0 0 0 0))"

lemma demo_env_loads: "loads_ok (demo_env now)"
  by (simp add: loads_ok_def demo_env_def)

lemma demo_call: "reachable e \<Longrightarrow> args_ok c \<Longrightarrow> reachable (run_call (demo_env now) c e)"
  by (rule reachable_call [OF _ _ demo_env_loads]) (simp_all add: demo_env_def)

lemma demo_reachable: "reachable (demo_engine md c)"
  unfolding demo_engine_def by (intro demo_call reachable_new) simp_all

lemma demo_cluster [simp]: "cluster (demo_engine md c) = c"
  by (cases c) (simp_all add: demo_engine_def AttachCluster_def engine_New_def UpdateKeySpace_def Let_def split: option.split)

text \<open>Two nodes \<open>a\<close> and \<open>b\<close> on one ring.\<close>

definition demo_peer :: "string \<Rightarrow> peer" where
  "demo_peer s = \<lparr>pID = str s, pAddr = str (s @ '':1'')\<rparr>"

definition demo_ring :: ring where
  "demo_ring = SetPeers [demo_peer ''a'', demo_peer ''b''] (ring_New 2)"

definition demo_pool :: fanoutPool where
  "demo_pool = NewFanoutPool \<lparr>QueueSize = 1, DisableHints = False, HintMaxPerPeer = 0\<rparr>"

definition demo_self :: "string \<Rightarrow> cluster" where
  "demo_self s = \<lparr>SelfID = str s, cRing = Some demo_ring, cTransport = True, cFanout = Some demo_pool\<rparr>"

text \<open>Node \<open>b\<close> reads a key from its owner \<open>a\<close>, which holds it, and keeps a copy.\<close>

definition demo_owner_engine :: engine where
  "demo_owner_engine =
     run_call (demo_env 1) (KvCall (CPut (str ''ks'') (str ''k'') (str ''v'') None))
       (demo_engine ModeCacheOnly (Some (demo_self ''a'')))"

definition demo_answer :: getOrLoadResult where
  "demo_answer = \<lparr>gFound = True, gEntry = \<lparr>Value = str ''v'', Version = 1, ExpireAt = 0, Flags = 0\<rparr>\<rparr>"

definition demo_asking :: env where
  "demo_asking = (demo_env 2)\<lparr>eGetOrLoad := (\<lambda>a n k. if n = str ''ks'' \<and> k = str ''k'' then Inr demo_answer else Inl ErrRemote)\<rparr>"

lemma demo_answer_given: "fst (peer_GetOrLoad (demo_env 2) (str ''ks'') (str ''k'') demo_owner_engine) = Inr demo_answer"
  by code_simp

lemma demo_asking_reachable:
  assumes "reachable e" "args_ok c"
  shows "reachable (run_call demo_asking c e)"
proof (rule reachable_call [OF assms], goal_cases)
  case 1
  then show ?case by (simp add: demo_asking_def loads_ok_def demo_env_def)
next
  case 2
  have "reachable demo_owner_engine"
    unfolding demo_owner_engine_def by (intro demo_call demo_reachable) (simp add: go_len_def str_def)
  then show ?case
    using demo_env_loads demo_answer_given
    by (auto simp: demo_asking_def demo_answer_def go_len_def str_def split: if_splits)
qed

theorem reachable_store_ok_witness:
  "let e = run_call demo_asking (KvCall (CGetKey (str ''ks'') (str ''k''))) (demo_engine ModeCacheOnly (Some (demo_self ''b'')))
   in view (ks_store (ks_of (str ''ks'') e)) (str ''k'') = Some (gEntry demo_answer) \<and> store_ok (ks_store (ks_of (str ''ks'') e))"
proof -
  let ?e = "run_call demo_asking (KvCall (CGetKey (str ''ks'') (str ''k''))) (demo_engine ModeCacheOnly (Some (demo_self ''b'')))"
  have "reachable ?e" by (intro demo_asking_reachable demo_reachable) simp
  moreover have "keyspaces ?e (str ''ks'') = Some (ks_of (str ''ks'') ?e)"
  proof -
    have "(case keyspaces ?e (str ''ks'') of None \<Rightarrow> False | Some ks \<Rightarrow> True)" by code_simp
    then show ?thesis by (simp add: ks_of_def split: option.splits)
  qed
  ultimately have "store_ok (ks_store (ks_of (str ''ks'') ?e))" by (rule reachable_store_ok)
  moreover have "view (ks_store (ks_of (str ''ks'') ?e)) (str ''k'') = Some (gEntry demo_answer)" by code_simp
  ultimately show ?thesis by (simp add: Let_def)
qed

end
