(* ===== verification/Eviction.thy ===== *)
theory Eviction
  imports MemoryFacts
begin

text \<open>
  When an entry that was just written survives the eviction its own write triggers
  (\<open>evictLocked\<close> of \<open>pkg/store/memory.go\<close>): the entry stands at the front of the list, and the
  pinned entries are the only ones that are not evicted before it.
\<close>

definition pinned_share :: "time \<Rightarrow> bytes \<Rightarrow> memory \<Rightarrow> bytes \<Rightarrow> int" where
  "pinned_share now k m j =
     (case items m j of None \<Rightarrow> 0 | Some it \<Rightarrow> if j \<noteq> k \<and> lru_pinned (entry it) now then cost it else 0)"

text \<open>The cost of the pinned entries other than \<open>k\<close>.\<close>

definition pinned_cost :: "time \<Rightarrow> bytes \<Rightarrow> memory \<Rightarrow> int" where
  "pinned_cost now k m = sum_list (map (pinned_share now k m) (order m))"

text \<open>A store without a byte limit takes any entry; one with a limit must hold the entry beside
  its pinned ones.\<close>

definition has_room :: "time \<Rightarrow> bytes \<Rightarrow> entry \<Rightarrow> memory \<Rightarrow> bool" where
  "has_room now k e m \<longleftrightarrow> maxBytes m \<le> 0 \<or> pinned_cost now k m + entryCost k e \<le> maxBytes m"

lemma pinned_share_nonneg: "mem_wf m \<Longrightarrow> 0 \<le> pinned_share now k m j"
  by (auto simp: pinned_share_def split: option.split) (metis item_cost_pos less_imp_le mem_wf_def)

lemma pinned_cost_nonneg: "mem_wf m \<Longrightarrow> 0 \<le> pinned_cost now k m"
  unfolding pinned_cost_def by (rule sum_list_nonneg) (auto intro: pinned_share_nonneg)

lemma sum_list_remove1_zero:
  fixes f :: "'a \<Rightarrow> int"
  shows "f x = 0 \<Longrightarrow> sum_list (map f (remove1 x xs)) = sum_list (map f xs)"
  by (induction xs) auto

lemma mbytes_order: "mem_wf m \<Longrightarrow> mbytes m = sum_list (map (\<lambda>j. cost (the (items m j))) (order m))"
  by (simp add: mem_wf_def total_cost_def sum_list_distinct_conv_sum_set)

lemma all_pinned_cost:
  assumes wf: "mem_wf m" and o: "order m = k # rest" "items m k = Some it"
    and p: "\<forall>j \<in> set rest. \<not> unpinned now m j"
  shows "mbytes m = cost it + pinned_cost now k m"
proof -
  have d: "distinct (k # rest)" "set (k # rest) = dom (items m)" using wf o by (simp_all add: mem_wf_def)
  have "pinned_share now k m j = cost (the (items m j))" if j: "j \<in> set rest" for j
  proof -
    obtain it where "items m j = Some it" using d(2) j by (metis domD list.set_intros(2))
    then show ?thesis using p j d(1) by (auto simp: pinned_share_def unpinned_def view_def)
  qed
  then have "sum_list (map (pinned_share now k m) rest) = sum_list (map (\<lambda>j. cost (the (items m j))) rest)"
    by (simp cong: map_cong)
  moreover have "pinned_share now k m k = 0" using o(2) by (simp add: pinned_share_def)
  ultimately show ?thesis using mbytes_order [OF wf] o by (simp add: pinned_cost_def)
qed

lemma find_None_rev: "find P (rev xs) = None \<longleftrightarrow> (\<forall>x \<in> set xs. \<not> P x)"
  by (auto simp: find_None_iff)

lemma find_rev_Cons: "find P (rev (x # xs)) = (case find P (rev xs) of None \<Rightarrow> if P x then Some x else None | Some y \<Rightarrow> Some y)"
proof -
  have "find P (ys @ [x]) = (case find P ys of None \<Rightarrow> if P x then Some x else None | Some y \<Rightarrow> Some y)" for ys
    by (induction ys) auto
  then show ?thesis by simp
qed

lemma pinned_cost_evict:
  assumes "items m v = Some it" "\<not> lru_pinned (entry it) now"
  shows "pinned_cost now k ((removeElement v m)\<lparr>evictions := n\<rparr>) = pinned_cost now k m"
proof -
  have f: "pinned_share now k ((removeElement v m)\<lparr>evictions := n\<rparr>) = pinned_share now k m"
    using assms by (auto simp: fun_eq_iff pinned_share_def items_removeElement)
  show ?thesis
    using sum_list_remove1_zero [of "pinned_share now k m" v "order m"] assms
    unfolding pinned_cost_def f by (simp add: order_removeElement pinned_share_def)
qed

text \<open>The front entry survives when it fits beside the pinned ones.\<close>

lemma evict_loop_front:
  "mem_wf m \<Longrightarrow> order m = k # rest \<Longrightarrow> items m k = Some it \<Longrightarrow> pinned_cost now k m + cost it \<le> maxBytes m \<Longrightarrow>
   items (evict_loop now m) k = Some it"
proof (induction now m arbitrary: rest rule: evict_loop.induct)
  case (1 now m)
  show ?case
  proof (cases "maxBytes m < mbytes m")
    case False
    then show ?thesis using 1(4) by (subst evict_loop.simps) simp
  next
    case over: True
    let ?next = "\<lambda>v. (removeElement v m)\<lparr>evictions := evictions m + 1\<rparr>"
    show ?thesis
    proof (cases "find (unpinned now m) (rev rest)")
      case None
      then have "mbytes m = cost it + pinned_cost now k m"
        by (intro all_pinned_cost [OF 1(2-4)]) (simp add: find_None_rev)
      then show ?thesis using 1(5) over by simp
    next
      case (Some v)
      then have v: "lruVictim now m = Some v" using 1(3) by (simp add: lruVictim_unpinned find_rev_Cons del: rev.simps)
      obtain it' where it': "items m v = Some it'" "\<not> lru_pinned (entry it') now" using lruVictim_Some [OF v] by blast
      have "v \<in> set rest" using Some by (metis find_Some_iff nth_mem set_rev)
      moreover have "distinct (order m)" using 1(2) by (simp add: mem_wf_def)
      ultimately have ne: "v \<noteq> k" using 1(3) by auto
      have "items (evict_loop now (?next v)) k = Some it"
      proof (rule 1(1) [OF _ v])
        show "maxBytes m < mbytes m \<and> order m \<noteq> []" using over 1(3) by simp
        show "mem_wf (?next v)" by (simp add: mem_wf_counters mem_wf_removeElement 1(2))
        show "order (?next v) = k # remove1 v rest" using it' 1(3) ne by (simp add: order_removeElement)
        show "items (?next v) k = Some it" using 1(4) ne by (simp add: items_removeElement)
        show "pinned_cost now k (?next v) + cost it \<le> maxBytes (?next v)"
          using 1(5) pinned_cost_evict [OF it'] it'(1) by (simp add: removeElement_def clampBytes_def)
      qed
      then show ?thesis using over 1(3) v by (subst evict_loop.simps) simp
    qed
  qed
qed

lemma evictLocked_front:
  assumes wf: "mem_wf m1" and o: "order m1 = k # remove1 k (order m)" and it: "items m1 k = Some it"
    and same: "\<And>j. j \<noteq> k \<Longrightarrow> items m1 j = items m j" and mx: "maxBytes m1 = maxBytes m"
    and room: "maxBytes m \<le> 0 \<or> pinned_cost now k m + cost it \<le> maxBytes m"
  shows "items (evictLocked now m1) k = Some it"
proof -
  have f: "pinned_share now k m1 = pinned_share now k m" using same by (auto simp: pinned_share_def fun_eq_iff split: option.split)
  have z: "pinned_share now k m k = 0" by (simp add: pinned_share_def split: option.split)
  have "pinned_cost now k m1 = pinned_cost now k m"
    unfolding pinned_cost_def f o using sum_list_remove1_zero [of "pinned_share now k m" k "order m", OF z] z by simp
  then show ?thesis
    using room mx it evict_loop_front [OF wf o it, of now] by (auto simp: evictLocked_def)
qed

lemma AcceptIfNewer_room:
  assumes wf: "mem_wf m" and len: "go_len (Value e)" and room: "has_room now k e m"
    and new: "\<And>x. view m k = Some x \<Longrightarrow> Expired x now \<or> Version x < Version e"
  shows "fst (AcceptIfNewer now k e m)" "view (snd (AcceptIfNewer now k e m)) k = Some e"
proof -
  let ?m' = "snd (AcceptIfNewer now k e m)"
  have small: "\<not> (0 < maxBytes m \<and> maxBytes m < entryCost k e)"
    using room pinned_cost_nonneg [OF wf, of now k] by (auto simp: has_room_def)
  have "fst (AcceptIfNewer now k e m) \<and> view ?m' k = Some e"
  proof (cases "items m k")
    case None
    let ?it = "mkItem k e (entryCost k e)"
    have "k \<notin> set (order m)" using wf None by (auto simp: mem_wf_def)
    then have "items (evictLocked now (pushFront k ?it m)) k = Some ?it"
      using room item_wf_mkItem [OF len, of k]
      by (intro evictLocked_front [OF mem_wf_pushFront [OF wf None]])
        (auto simp: pushFront_def remove1_idem has_room_def mkItem_def)
    then show ?thesis using None small stored_push [OF wf None _ item_wf_mkItem [OF len]]
      by (auto simp: AcceptIfNewer_def view_def)
  next
    case (Some it)
    let ?it = "overwrite k e it" and ?r = "replaceItem k (overwrite k e it) m"
    have key: "key it = k" using wf Some by (simp add: mem_wf_def)
    have iw: "item_wf ?it" "key ?it = k" "cost ?it = entryCost k e"
      using item_wf_overwrite [OF len key] key by (simp_all add: overwrite_def clearCaches_def)
    have wr: "mem_wf ?r" by (rule mem_wf_replaceItem [OF wf Some iw(2,1)])
    have ir: "items ?r = (items m)(k \<mapsto> ?it)" "order ?r = order m" "maxBytes ?r = maxBytes m"
      using Some by (simp_all add: replaceItem_def addBytes_def putItem_def)
    have "items (evictLocked now (moveToFront k ?r)) k = Some ?it"
      using room iw(3) by (intro evictLocked_front [OF mem_wf_moveToFront [OF wr, of k ?it]])
        (auto simp: moveToFront_def ir has_room_def)
    moreover have "\<not> (\<not> Expired (entry it) now \<and> Version e \<le> Version (entry it))"
      using new [of "mat it"] Some by (auto simp: view_def)
    ultimately show ?thesis using Some small by (simp add: AcceptIfNewer_def view_def)
  qed
  then show "fst (AcceptIfNewer now k e m)" "view ?m' k = Some e" by simp_all
qed

end
