(* ===== verification/FanoutRuns.thy ===== *)
theory FanoutRuns
  imports Fanout
begin

text \<open>
  The fan-out pool with its goroutines interleaved.

  \<^item> A worker takes a job and starts one goroutine per peer; \<open>Apply\<close> starts them for its
    caller. A goroutine that has yet to make its call is a send in flight. Sends finish in
    any order, between any other steps.
  \<^item> The flusher is the one goroutine of \<open>hintLoop\<close>. Reading a hint, replaying it and taking
    it out are three steps, since the lock is held in the first and the last only.
  \<^item> Callers submit, apply and hint at any time.
\<close>

section \<open>Steps\<close>

record fanoutSend =
  sPeer :: peer
  sKs :: bytes
  sKey :: bytes
  sEnt :: entry
  sGen :: u64

datatype flusher = FIdle | FPeeked bytes fanoutHint | FSent bytes fanoutHint

record fanoutRun =
  rPool :: fanoutPool
  rSends :: "fanoutSend list"
  rFlusher :: flusher

datatype run_event =
    RSubmit "peer list" bytes bytes entry u64
  | RApply "peer list" bytes bytes entry u64
  | RHint peer bytes bytes entry u64
  | RTake
  | RSend nat
  | RPeek bytes
  | RReplay
  | RPop

text \<open>The goroutines started for a mutation: one for each peer that has an address.\<close>

definition sends_for :: "peer list \<Rightarrow> bytes \<Rightarrow> bytes \<Rightarrow> entry \<Rightarrow> u64 \<Rightarrow> fanoutSend list" where
  "sends_for prs ks k ent g =
     map (\<lambda>pr. \<lparr>sPeer = pr, sKs = ks, sKey = k, sEnt = ent, sGen = g\<rparr>) (filter (\<lambda>pr. pAddr pr \<noteq> []) prs)"

definition do_send :: "network \<Rightarrow> fanoutSend \<Rightarrow> fanoutPool \<Rightarrow> fanoutPool" where
  "do_send net s p = snd (applyToPeer net (sPeer s) (sKs s) (sKey s) (sEnt s) (sGen s) True p)"

text \<open>An event that is not enabled changes nothing.\<close>

fun run_step :: "network \<Rightarrow> run_event \<Rightarrow> fanoutRun \<Rightarrow> fanoutRun" where
  "run_step net (RSubmit prs ks k ent g) r = r\<lparr>rPool := Submit prs ks k ent g (rPool r)\<rparr>"
| "run_step net (RApply prs ks k ent g) r =
     (if pClosed (rPool r) then r else r\<lparr>rSends := rSends r @ sends_for prs ks k ent g\<rparr>)"
| "run_step net (RHint pr ks k ent g) r = r\<lparr>rPool := enqueueHint pr ks k ent g (rPool r)\<rparr>"
| "run_step net RTake r =
     (case pJobs (rPool r) of
        [] \<Rightarrow> r
      | j # js \<Rightarrow> r\<lparr>rPool := (rPool r)\<lparr>pJobs := js\<rparr>,
                    rSends := rSends r @ sends_for (jPeers j) (jKs j) (jKey j) (jEnt j) (jGen j)\<rparr>)"
| "run_step net (RSend i) r =
     (if i < length (rSends r)
      then r\<lparr>rPool := do_send net (rSends r ! i) (rPool r), rSends := take i (rSends r) @ drop (Suc i) (rSends r)\<rparr>
      else r)"
| "run_step net (RPeek addr) r =
     (case rFlusher r of
        FIdle \<Rightarrow> (case peekHint addr (rPool r) of None \<Rightarrow> r | Some h \<Rightarrow> r\<lparr>rFlusher := FPeeked addr h\<rparr>)
      | _ \<Rightarrow> r)"
| "run_step net RReplay r =
     (case rFlusher r of
        FPeeked addr h \<Rightarrow>
          (case replayHint net addr h (rPool r) of
             (True, p) \<Rightarrow> r\<lparr>rPool := p\<lparr>FanoutErrors := FanoutErrors p + 1\<rparr>, rFlusher := FIdle\<rparr>
           | (False, p) \<Rightarrow> r\<lparr>rPool := p, rFlusher := FSent addr h\<rparr>)
      | _ \<Rightarrow> r)"
| "run_step net RPop r =
     (case rFlusher r of
        FSent addr h \<Rightarrow>
          (let p = popHint addr (hint_id h) (rPool r)
           in r\<lparr>rPool := p\<lparr>HintsFlushed := HintsFlushed p + 1\<rparr>, rFlusher := FIdle\<rparr>)
      | _ \<Rightarrow> r)"

definition run_start :: "fanoutConfig \<Rightarrow> fanoutRun" where
  "run_start cfg = \<lparr>rPool = NewFanoutPool cfg, rSends = [], rFlusher = FIdle\<rparr>"

definition run_all :: "network \<Rightarrow> run_event list \<Rightarrow> fanoutRun \<Rightarrow> fanoutRun" where
  "run_all net evs r = fold (run_step net) evs r"

section \<open>Uninterrupted rounds\<close>

text \<open>A worker that is not interrupted does \<open>applyJob\<close>.\<close>

lemma sends_run:
  "rSends r = sends_for prs ks k ent g \<Longrightarrow>
   run_all net (replicate (length (rSends r)) (RSend 0)) r =
     r\<lparr>rPool := fold (\<lambda>pr p. if pAddr pr = [] then p else snd (applyToPeer net pr ks k ent g True p)) prs (rPool r),
       rSends := []\<rparr>"
proof (induction prs arbitrary: r)
  case Nil
  then show ?case by (cases r) (simp add: run_all_def sends_for_def)
next
  case (Cons pr prs)
  let ?r = "r\<lparr>rPool := snd (applyToPeer net pr ks k ent g True (rPool r)), rSends := sends_for prs ks k ent g\<rparr>"
  show ?case
  proof (cases "pAddr pr = []")
    case True
    then show ?thesis using Cons.IH [of r] Cons.prems by (simp add: sends_for_def)
  next
    case False
    then have s: "rSends r = \<lparr>sPeer = pr, sKs = ks, sKey = k, sEnt = ent, sGen = g\<rparr> # sends_for prs ks k ent g"
      using Cons.prems by (simp add: sends_for_def)
    then have "run_step net (RSend 0) r = ?r" by (simp add: do_send_def)
    then show ?thesis using Cons.IH [of ?r] False s by (simp add: run_all_def)
  qed
qed

lemma worker_round:
  assumes "pJobs (rPool r) = j # js" "rSends r = []"
  shows "run_all net (RTake # replicate (length (sends_for (jPeers j) (jKs j) (jKey j) (jEnt j) (jGen j))) (RSend 0)) r =
    r\<lparr>rPool := fanout_loop net (rPool r)\<rparr>"
proof -
  let ?s = "sends_for (jPeers j) (jKs j) (jKey j) (jEnt j) (jGen j)"
  let ?r = "r\<lparr>rPool := (rPool r)\<lparr>pJobs := js\<rparr>, rSends := ?s\<rparr>"
  have "run_step net RTake r = ?r" using assms by simp
  then show ?thesis
    using sends_run [of ?r "jPeers j" "jKs j" "jKey j" "jEnt j" "jGen j" net] assms
    by (cases r) (simp add: run_all_def fanout_loop_def applyJob_def)
qed

text \<open>A flusher that is not interrupted does one round of \<open>flushPeerHints\<close>.\<close>

lemma flusher_round:
  assumes "rFlusher r = FIdle" "peekHint addr (rPool r) = Some h" "\<not> fst (replayHint net addr h (rPool r))"
  shows "run_all net [RPeek addr, RReplay, RPop] r = r\<lparr>rPool := flush_round net addr h (rPool r)\<rparr>"
proof -
  obtain p where p: "replayHint net addr h (rPool r) = (False, p)"
    using assms(3) by (cases "replayHint net addr h (rPool r)") auto
  show ?thesis using assms(1,2) p by (cases r) (simp add: run_all_def flush_round_def Let_def)
qed

section \<open>Histories\<close>

text \<open>Keyspaces and keys without NUL bytes.\<close>

fun event_ok :: "run_event \<Rightarrow> bool" where
  "event_ok (RSubmit prs ks k ent g) = (nul_free ks \<and> nul_free k)"
| "event_ok (RApply prs ks k ent g) = (nul_free ks \<and> nul_free k)"
| "event_ok (RHint pr ks k ent g) = (nul_free ks \<and> nul_free k)"
| "event_ok ev = True"

text \<open>The mutation of rank \<open>n\<close> that an event hands to the pool for a peer.\<close>

fun mutates :: "run_event \<Rightarrow> bytes \<Rightarrow> bytes \<Rightarrow> bytes \<Rightarrow> nat \<Rightarrow> bool" where
  "mutates (RSubmit prs ks k ent g) a ks' k' n =
     (a \<in> pAddr ` set prs \<and> ks' = ks \<and> k' = k \<and> n = rank ent \<and> \<not> IsBloomAdd ent)"
| "mutates (RApply prs ks k ent g) a ks' k' n =
     (a \<in> pAddr ` set prs \<and> ks' = ks \<and> k' = k \<and> n = rank ent \<and> \<not> IsBloomAdd ent)"
| "mutates (RHint pr ks k ent g) a ks' k' n =
     (a = pAddr pr \<and> ks' = ks \<and> k' = k \<and> n = rank ent \<and> \<not> IsBloomAdd ent)"
| "mutates ev a ks k n = False"

text \<open>The hint ids an event can need in the queue of a peer, and the histories whose ids for
  the peer fit in its queue.\<close>

fun hint_ids :: "bytes \<Rightarrow> run_event \<Rightarrow> bytes list" where
  "hint_ids a (RSubmit prs ks k ent g) = (if a \<in> pAddr ` set prs then [hintID ks k ent] else [])"
| "hint_ids a (RApply prs ks k ent g) = (if a \<in> pAddr ` set prs then [hintID ks k ent] else [])"
| "hint_ids a (RHint pr ks k ent g) = (if a = pAddr pr then [hintID ks k ent] else [])"
| "hint_ids a ev = []"

definition fits_queue :: "fanoutConfig \<Rightarrow> bytes \<Rightarrow> run_event list \<Rightarrow> bool" where
  "fits_queue cfg a evs \<longleftrightarrow> int (length (remdups (concat (map (hint_ids a) evs)))) \<le> hintMax (NewFanoutPool cfg)"

text \<open>A step races when the flusher takes out a hint that became newer than the one it sent.\<close>

definition races :: "run_event \<Rightarrow> fanoutRun \<Rightarrow> bool" where
  "races ev r \<longleftrightarrow>
     (case (ev, rFlusher r) of
        (RPop, FSent addr h) \<Rightarrow>
          (case pHints (rPool r) addr of
             None \<Rightarrow> False
           | Some q \<Rightarrow> (case qItems q (hint_id h) of None \<Rightarrow> False | Some h' \<Rightarrow> hintNewer (hEnt h') (hEnt h)))
      | _ \<Rightarrow> False)"

fun race_free :: "network \<Rightarrow> run_event list \<Rightarrow> fanoutRun \<Rightarrow> bool" where
  "race_free net [] r = True"
| "race_free net (ev # evs) r = (\<not> races ev r \<and> race_free net evs (run_step net ev r))"

text \<open>What a peer is owed in a run: in the pool, or by a send in flight.\<close>

definition in_flight :: "bytes \<Rightarrow> bytes \<Rightarrow> bytes \<Rightarrow> nat \<Rightarrow> fanoutRun \<Rightarrow> bool" where
  "in_flight a ks k n r \<longleftrightarrow>
     (\<exists>s \<in> set (rSends r). pAddr (sPeer s) = a \<and> sKs s = ks \<and> sKey s = k \<and> rank (sEnt s) = n \<and> \<not> IsBloomAdd (sEnt s))"

definition run_owed :: "bytes \<Rightarrow> bytes \<Rightarrow> bytes \<Rightarrow> nat \<Rightarrow> fanoutRun \<Rightarrow> bool" where
  "run_owed a ks k n r \<longleftrightarrow> owed a ks k n (rPool r) \<or> in_flight a ks k n r"

section \<open>The invariant of a run\<close>

definition send_ok :: "fanoutSend \<Rightarrow> bool" where
  "send_ok s \<longleftrightarrow> pAddr (sPeer s) \<noteq> [] \<and> nul_free (sKs s) \<and> nul_free (sKey s)"

definition flusher_ok :: "fanoutRun \<Rightarrow> bool" where
  "flusher_ok r \<longleftrightarrow>
     (case rFlusher r of
        FIdle \<Rightarrow> True
      | FPeeked addr h \<Rightarrow> addr \<noteq> [] \<and> item_ok addr (hint_id h) h
      | FSent addr h \<Rightarrow> addr \<noteq> [] \<and> item_ok addr (hint_id h) h \<and>
          delivered addr (hKs h) (hKey h) (rank (hEnt h)) (rPool r))"

text \<open>The ids that are or can come into the queue of a peer.\<close>

definition run_ids :: "bytes \<Rightarrow> fanoutRun \<Rightarrow> bytes set" where
  "run_ids a r = ids_of a (rPool r) \<union>
     {hintID (jKs j) (jKey j) (jEnt j) | j. j \<in> set (pJobs (rPool r)) \<and> a \<in> pAddr ` set (jPeers j)} \<union>
     {hintID (sKs s) (sKey s) (sEnt s) | s. s \<in> set (rSends r) \<and> pAddr (sPeer s) = a}"

definition run_ok :: "bytes \<Rightarrow> bytes set \<Rightarrow> fanoutRun \<Rightarrow> bool" where
  "run_ok a I r \<longleftrightarrow> a \<noteq> [] \<and> hinting (rPool r) \<and> (\<forall>s \<in> set (rSends r). send_ok s) \<and> flusher_ok r \<and>
     run_ids a r \<subseteq> I \<and> finite I \<and> int (card I) \<le> hintMax (rPool r)"

lemma run_ids_sub:
  "run_ids a r \<subseteq> I \<longleftrightarrow> ids_of a (rPool r) \<subseteq> I \<and>
     (\<forall>j \<in> set (pJobs (rPool r)). a \<in> pAddr ` set (jPeers j) \<longrightarrow> hintID (jKs j) (jKey j) (jEnt j) \<in> I) \<and>
     (\<forall>s \<in> set (rSends r). pAddr (sPeer s) = a \<longrightarrow> hintID (sKs s) (sKey s) (sEnt s) \<in> I)"
  unfolding run_ids_def by blast

text \<open>What a step does to a run that is in order.\<close>

definition run_keeps :: "bytes \<Rightarrow> bytes set \<Rightarrow> fanoutRun \<Rightarrow> fanoutRun \<Rightarrow> bool" where
  "run_keeps a I r r' \<longleftrightarrow> run_ok a I r' \<and>
     (\<forall>ks k n. nul_free ks \<longrightarrow> nul_free k \<longrightarrow> run_owed a ks k n r \<longrightarrow> run_owed a ks k n r')"

lemma delivered_mono: "delivered a ks k n p \<Longrightarrow> set (pLog p) \<subseteq> set (pLog p') \<Longrightarrow> delivered a ks k n p'"
  by (auto simp: delivered_def)

lemma run_okD:
  assumes "run_ok a I r"
  shows "hinting (rPool r)" "pool_ok (rPool r)" "a \<noteq> []" "finite I" "int (card I) \<le> hintMax (rPool r)"
    "ids_of a (rPool r) \<subseteq> I" "s \<in> set (rSends r) \<Longrightarrow> send_ok s" "flusher_ok r" "run_ids a r \<subseteq> I"
  using assms by (auto simp: run_ok_def run_ids_def hinting_def)

text \<open>A step of the pool and of the sends in flight that leaves the flusher alone.\<close>

lemma run_keepsI:
  assumes ok: "run_ok a I r" and k: "keeps a (rPool r) p'" and log: "set (pLog (rPool r)) \<subseteq> set (pLog p')"
    and mx: "hintMax p' = hintMax (rPool r)" and ss: "\<forall>s \<in> set ss'. send_ok s"
    and ids: "run_ids a (r\<lparr>rPool := p', rSends := ss'\<rparr>) \<subseteq> I"
    and rest: "\<And>ks k n. queued a ks k n (rPool r) \<or> in_flight a ks k n r \<Longrightarrow>
      run_owed a ks k n (r\<lparr>rPool := p', rSends := ss'\<rparr>)"
  shows "run_keeps a I r (r\<lparr>rPool := p', rSends := ss'\<rparr>)"
proof -
  have "flusher_ok (r\<lparr>rPool := p', rSends := ss'\<rparr>)"
    using run_okD(8) [OF ok] delivered_mono [OF _ log] by (auto simp: flusher_ok_def split: flusher.splits)
  then have "run_ok a I (r\<lparr>rPool := p', rSends := ss'\<rparr>)"
    using run_okD(3-5) [OF ok] keeps_hinting [OF k] mx ss ids by (simp add: run_ok_def)
  moreover have "run_owed a ks k' n (r\<lparr>rPool := p', rSends := ss'\<rparr>)"
    if "run_owed a ks k' n r" "nul_free ks" "nul_free k'" for ks k' n
    using that rest keeps_settled [OF k that(2,3)] by (auto simp: run_owed_def owed_def)
  ultimately show ?thesis by (simp add: run_keeps_def)
qed

lemma fold_enqueue_fields [simp]:
  "pJobs (fold (\<lambda>pr p. enqueueHint pr ks k ent g p) prs p) = pJobs p"
  "hintMax (fold (\<lambda>pr p. enqueueHint pr ks k ent g p) prs p) = hintMax p"
  "pLog (fold (\<lambda>pr p. enqueueHint pr ks k ent g p) prs p) = pLog p"
  by (induction prs arbitrary: p) simp_all

lemma fold_enqueue_keeps:
  assumes nf: "nul_free ks" "nul_free k" and I: "finite I" "a \<in> pAddr ` set prs \<longrightarrow> hintID ks k ent \<in> I"
  shows "hinting p \<Longrightarrow> ids_of a p \<subseteq> I \<Longrightarrow> int (card I) \<le> hintMax p \<Longrightarrow>
    keeps a p (fold (\<lambda>pr p. enqueueHint pr ks k ent g p) prs p) \<and>
    ids_of a (fold (\<lambda>pr p. enqueueHint pr ks k ent g p) prs p) \<subseteq> I"
  using I(2)
proof (induction prs arbitrary: p)
  case (Cons pr prs)
  let ?p = "enqueueHint pr ks k ent g p"
  have "pool_ok p" using Cons.prems(1) by (simp add: hinting_def)
  then have k: "keeps a p ?p"
    using Cons.prems by (intro enqueueHint_keeps [OF _ nf] roomyI [OF _ _ I(1)]) auto
  moreover have "ids_of a ?p \<subseteq> I"
    using enqueueHint_ids [OF Cons.prems(1) nf, of a pr ent g] Cons.prems(2,4) by (auto split: if_splits)
  ultimately show ?case using Cons.IH [of ?p] Cons.prems(3,4) keeps_hinting [OF k] keeps_trans [OF k] by simp
qed (simp add: keeps_refl)

lemma Submit_run:
  assumes ok: "run_ok a I r" and nf: "nul_free ks" "nul_free k" and I: "a \<in> pAddr ` set prs \<longrightarrow> hintID ks k ent \<in> I"
  shows "run_keeps a I r (r\<lparr>rPool := Submit prs ks k ent g (rPool r)\<rparr>)"
proof -
  let ?p = "rPool r" and ?p' = "Submit prs ks k ent g (rPool r)"
  note d = run_okD [OF ok]
  have opn: "\<not> pClosed ?p" using d(1) by (simp add: hinting_def)
  have "run_keeps a I r (r\<lparr>rPool := ?p', rSends := rSends r\<rparr>)"
  proof (cases "int (length (pJobs ?p)) < queueSize ?p")
    case True
    then have p': "?p' = ?p\<lparr>pJobs := pJobs ?p @ [\<lparr>jPeers = prs, jKs = ks, jKey = k, jEnt = ent, jGen = g\<rparr>]\<rparr>"
      using opn by (simp add: Submit_def)
    have "keeps a ?p ?p'"
      using Submit_owed(1) [OF d(1) nf, of prs ent g] by (simp add: keeps_def p' settled_def delivered_def)
    then show ?thesis
      using d(7,9) I by (intro run_keepsI [OF ok]) (auto simp: p' run_ids_sub run_owed_def owed_def queued_def in_flight_def)
  next
    case False
    let ?d = "?p\<lparr>FanoutDropped := FanoutDropped ?p + 1\<rparr>"
    have p': "?p' = fold (\<lambda>pr p. enqueueHint pr ks k ent g p) prs ?d" using False opn by (simp add: Submit_def)
    have "hinting ?d" using d(1) by (simp add: hinting_log)
    then have f: "keeps a ?d ?p'" "ids_of a ?p' \<subseteq> I"
      using fold_enqueue_keeps [OF nf d(4) I, of ?d g] d(5,6) unfolding p' by simp_all
    have "keeps a ?p ?p'" by (rule keeps_trans [OF keeps_counters(2) [OF d(1)] f(1)])
    moreover have "run_ids a (r\<lparr>rPool := ?p', rSends := rSends r\<rparr>) \<subseteq> I"
      using f(2) d(9) by (simp add: run_ids_sub p')
    ultimately show ?thesis
      using d(7) by (intro run_keepsI [OF ok]) (auto simp: p' run_owed_def owed_def queued_def in_flight_def)
  qed
  then show ?thesis by simp
qed

lemma sends_for_ok: "nul_free ks \<Longrightarrow> nul_free k \<Longrightarrow> s \<in> set (sends_for prs ks k ent g) \<Longrightarrow> send_ok s"
  by (auto simp: sends_for_def send_ok_def)

lemma sends_for_flight:
  "a \<noteq> [] \<Longrightarrow> a \<in> pAddr ` set prs \<Longrightarrow>
   \<exists>s \<in> set (sends_for prs ks k ent g). pAddr (sPeer s) = a \<and> sKs s = ks \<and> sKey s = k \<and> sEnt s = ent"
  by (auto simp: sends_for_def)

lemma sends_for_set:
  "s \<in> set (sends_for prs ks k ent g) \<Longrightarrow> pAddr (sPeer s) \<in> pAddr ` set prs \<and> sKs s = ks \<and> sKey s = k \<and> sEnt s = ent"
  by (auto simp: sends_for_def)

lemma Apply_run:
  assumes ok: "run_ok a I r" and nf: "nul_free ks" "nul_free k" and I: "a \<in> pAddr ` set prs \<longrightarrow> hintID ks k ent \<in> I"
  shows "run_keeps a I r (r\<lparr>rSends := rSends r @ sends_for prs ks k ent g\<rparr>)"
proof -
  note d = run_okD [OF ok]
  let ?s = "sends_for prs ks k ent g"
  have "run_ids a (r\<lparr>rPool := rPool r, rSends := rSends r @ ?s\<rparr>) \<subseteq> I"
    using d(9) I by (auto simp: run_ids_sub dest!: sends_for_set)
  moreover have "\<forall>s \<in> set (rSends r @ ?s). send_ok s" using d(7) sends_for_ok [OF nf] by auto
  ultimately have "run_keeps a I r (r\<lparr>rPool := rPool r, rSends := rSends r @ ?s\<rparr>)"
    by (intro run_keepsI [OF ok keeps_refl [OF d(1)]]) (auto simp: run_owed_def owed_def in_flight_def)
  then show ?thesis by simp
qed

lemma Take_run:
  assumes ok: "run_ok a I r" and j: "pJobs (rPool r) = j # js"
  shows "run_keeps a I r (r\<lparr>rPool := (rPool r)\<lparr>pJobs := js\<rparr>,
    rSends := rSends r @ sends_for (jPeers j) (jKs j) (jKey j) (jEnt j) (jGen j)\<rparr>)"
proof -
  let ?s = "sends_for (jPeers j) (jKs j) (jKey j) (jEnt j) (jGen j)"
  note d = run_okD [OF ok]
  have nf: "nul_free (jKs j)" "nul_free (jKey j)" "hinting ((rPool r)\<lparr>pJobs := js\<rparr>)"
    using d(1) j by (auto simp: hinting_def pool_ok_def)
  have k: "keeps a (rPool r) ((rPool r)\<lparr>pJobs := js\<rparr>)" using nf(3) by (simp add: keeps_def settled_def delivered_def)
  have "run_ids a (r\<lparr>rPool := (rPool r)\<lparr>pJobs := js\<rparr>, rSends := rSends r @ ?s\<rparr>) \<subseteq> I"
    using d(9) j by (auto simp: run_ids_sub dest!: sends_for_set)
  moreover have "run_owed a ks k n (r\<lparr>rPool := (rPool r)\<lparr>pJobs := js\<rparr>, rSends := rSends r @ ?s\<rparr>)"
    if q: "queued a ks k n (rPool r) \<or> in_flight a ks k n r" for ks k n
  proof (cases "a \<in> pAddr ` set (jPeers j) \<and> jKs j = ks \<and> jKey j = k \<and> rank (jEnt j) = n \<and> \<not> IsBloomAdd (jEnt j)")
    case True
    then show ?thesis
      using sends_for_flight [OF d(3), of "jPeers j" "jKs j" "jKey j" "jEnt j" "jGen j"]
      by (auto simp: run_owed_def in_flight_def)
  next
    case False
    then show ?thesis using q j by (auto simp: run_owed_def owed_def queued_def in_flight_def)
  qed
  moreover have "\<forall>s \<in> set (rSends r @ ?s). send_ok s" using d(7) sends_for_ok [OF nf(1,2)] by auto
  ultimately show ?thesis by (intro run_keepsI [OF ok k]) auto
qed

lemma do_send_fields [simp]:
  "pJobs (do_send net s p) = pJobs p" "hintMax (do_send net s p) = hintMax p"
  by (simp_all add: do_send_def)

lemma do_send_log: "set (pLog p) \<subseteq> set (pLog (do_send net s p))"
  by (auto simp: do_send_def applyToPeer_def Let_def)

lemma nth_split_set: "i < length xs \<Longrightarrow> set xs = insert (xs ! i) (set (take i xs @ drop (Suc i) xs))"
  by (subst id_take_nth_drop [of i xs]) auto

lemma Send_run:
  assumes ok: "run_ok a I r" and i: "i < length (rSends r)"
  shows "run_keeps a I r (r\<lparr>rPool := do_send net (rSends r ! i) (rPool r),
    rSends := take i (rSends r) @ drop (Suc i) (rSends r)\<rparr>)"
proof -
  let ?s = "rSends r ! i" and ?p' = "do_send net (rSends r ! i) (rPool r)"
  let ?r' = "r\<lparr>rPool := ?p', rSends := take i (rSends r) @ drop (Suc i) (rSends r)\<rparr>"
  note d = run_okD [OF ok] and ss = nth_split_set [OF i]
  have s: "pAddr (sPeer ?s) \<noteq> []" "nul_free (sKs ?s)" "nul_free (sKey ?s)" using d(7) i by (simp_all add: send_ok_def)
  have mem: "hintID (sKs ?s) (sKey ?s) (sEnt ?s) \<in> I" if "pAddr (sPeer ?s) = a"
    using d(9) that i by (auto simp: run_ids_sub)
  have k: "keeps a (rPool r) ?p'"
    unfolding do_send_def using mem by (intro applyToPeer_keeps [OF d(1) s(2,3,1)] disjI2 roomyI [OF d(2,6,4,5)])
  have "ids_of a ?p' \<subseteq> I"
    using applyToPeer_ids [OF d(1) s(2,3), of a net "sPeer ?s" "sEnt ?s" "sGen ?s"] d(6) mem
    by (auto simp: do_send_def split: if_splits)
  then have ids: "run_ids a ?r' \<subseteq> I" using d(9) ss by (simp add: run_ids_sub)
  have "run_owed a ks k n ?r'" if "in_flight a ks k n r" for ks k n
  proof (cases "pAddr (sPeer ?s) = a \<and> sKs ?s = ks \<and> sKey ?s = k \<and> rank (sEnt ?s) = n \<and> \<not> IsBloomAdd (sEnt ?s)")
    case True
    then show ?thesis
      using applyToPeer_settles [OF d(1) s(2,3,1), of "sEnt ?s" net "sGen ?s"] by (auto simp: run_owed_def owed_def do_send_def)
  next
    case False
    then show ?thesis using that ss by (auto simp: run_owed_def in_flight_def)
  qed
  moreover have "run_owed a ks k n ?r'" if "queued a ks k n (rPool r)" for ks k n
    using that by (simp add: run_owed_def owed_def queued_def)
  moreover have "\<forall>s \<in> set (take i (rSends r) @ drop (Suc i) (rSends r)). send_ok s" using d(7) ss by simp
  ultimately show ?thesis using ids by (intro run_keepsI [OF ok k do_send_log]) auto
qed

text \<open>The steps of the flusher.\<close>

lemma Peek_run:
  assumes ok: "run_ok a I r" and pk: "peekHint addr (rPool r) = Some h"
  shows "run_keeps a I r (r\<lparr>rFlusher := FPeeked addr h\<rparr>)"
proof -
  note d = run_okD [OF ok]
  have "item_ok addr (hint_id h) h" "addr \<noteq> []" using peekHint_item [OF d(2) pk] by metis+
  then show ?thesis
    using ok by (simp add: run_keeps_def run_ok_def flusher_ok_def run_ids_def run_owed_def in_flight_def)
qed

text \<open>A step of the flusher: the pool keeps what is settled, the flusher comes into a state that
  is in order.\<close>

lemma flusher_run:
  assumes ok: "run_ok a I r" and k: "keeps a (rPool r) p'" and mx: "hintMax p' = hintMax (rPool r)"
    and jobs: "pJobs p' = pJobs (rPool r)" and ids: "ids_of a p' \<subseteq> ids_of a (rPool r)"
    and f: "flusher_ok (r\<lparr>rPool := p', rFlusher := x\<rparr>)"
  shows "run_keeps a I r (r\<lparr>rPool := p', rFlusher := x\<rparr>)"
proof -
  note d = run_okD [OF ok]
  have "run_ids a (r\<lparr>rPool := p', rFlusher := x\<rparr>) \<subseteq> I" using d(9) ids by (auto simp: run_ids_sub jobs)
  then have "run_ok a I (r\<lparr>rPool := p', rFlusher := x\<rparr>)"
    using d(3-5,7) keeps_hinting [OF k] mx f by (simp add: run_ok_def)
  moreover have "run_owed a ks k' n (r\<lparr>rPool := p', rFlusher := x\<rparr>)"
    if "run_owed a ks k' n r" "nul_free ks" "nul_free k'" for ks k' n
    using that keeps_settled [OF k that(2,3)] queued_jobs [OF jobs] by (auto simp: run_owed_def owed_def in_flight_def)
  ultimately show ?thesis by (simp add: run_keeps_def)
qed

lemma Replay_run:
  assumes ok: "run_ok a I r" and f: "rFlusher r = FPeeked addr h"
  shows "run_keeps a I r (run_step net RReplay r)"
proof -
  note d = run_okD [OF ok]
  have h: "item_ok addr (hint_id h) h" "addr \<noteq> []" using d(8) f by (simp_all add: flusher_ok_def)
  note rk = replayHint_keeps(1,4) [OF d(1) h, of a net] replayHint_keeps(2,3) [OF d(1) h, of net]
  note dl = replayHint_delivers [OF h, of net "rPool r"]
  obtain b p where p: "replayHint net addr h (rPool r) = (b, p)" by fastforce
  have k: "keeps a (rPool r) p" "keeps a (rPool r) (p\<lparr>FanoutErrors := FanoutErrors p + 1\<rparr>)"
    using rk(1) keeps_trans [OF rk(1) keeps_counters(1) [OF keeps_hinting [OF rk(1)]]] by (simp_all add: p)
  show ?thesis
  proof (cases b)
    case True
    have "run_keeps a I r (r\<lparr>rPool := p\<lparr>FanoutErrors := FanoutErrors p + 1\<rparr>, rFlusher := FIdle\<rparr>)"
      by (rule flusher_run [OF ok k(2)]) (use rk(2-4) in \<open>simp_all add: p flusher_ok_def\<close>)
    then show ?thesis using f True by (simp add: p)
  next
    case False
    have "run_keeps a I r (r\<lparr>rPool := p, rFlusher := FSent addr h\<rparr>)"
      by (rule flusher_run [OF ok k(1)]) (use rk(2-4) dl False h in \<open>simp_all add: p flusher_ok_def\<close>)
    then show ?thesis using f False by (simp add: p)
  qed
qed

lemma Pop_run:
  assumes ok: "run_ok a I r" and f: "rFlusher r = FSent addr h" and nr: "\<not> races RPop r"
  shows "run_keeps a I r (run_step net RPop r)"
proof -
  let ?p = "popHint addr (hint_id h) (rPool r)"
  note d = run_okD [OF ok]
  have h: "item_ok addr (hint_id h) h" "delivered addr (hKs h) (hKey h) (rank (hEnt h)) (rPool r)"
    using d(8) f by (simp_all add: flusher_ok_def)
  have k: "keeps a (rPool r) ?p"
    by (rule popHint_keeps [OF d(1) h]) (use nr f in \<open>auto simp: races_def\<close>)
  have "run_keeps a I r (r\<lparr>rPool := ?p\<lparr>HintsFlushed := HintsFlushed ?p + 1\<rparr>, rFlusher := FIdle\<rparr>)"
    by (rule flusher_run [OF ok keeps_trans [OF k keeps_counters(3) [OF keeps_hinting [OF k]]]])
      (use popHint_ids [OF d(2), of a addr "hint_id h"] in \<open>simp_all add: flusher_ok_def\<close>)
  then show ?thesis using f by (simp add: Let_def)
qed

section \<open>No mutation is lost\<close>

lemma run_step_keeps:
  assumes ok: "run_ok a I r" and ev: "event_ok ev" "set (hint_ids a ev) \<subseteq> I" and nr: "\<not> races ev r"
  shows "run_keeps a I r (run_step net ev r)"
proof -
  have same: "run_keeps a I r r" using ok by (simp add: run_keeps_def)
  show ?thesis
  proof (cases ev)
    case (RSubmit prs ks k ent g)
    then show ?thesis using Submit_run [OF ok, of ks k prs ent g] ev by auto
  next
    case (RApply prs ks k ent g)
    then show ?thesis using Apply_run [OF ok, of ks k prs ent g] ev same by auto
  next
    case (RHint pr ks k ent g)
    then have nf: "nul_free ks" "nul_free k" "pAddr pr = a \<Longrightarrow> hintID ks k ent \<in> I" using ev by auto
    note d = run_okD [OF ok]
    let ?p' = "enqueueHint pr ks k ent g (rPool r)"
    have "keeps a (rPool r) ?p'" using nf by (intro enqueueHint_keeps [OF d(1)] roomyI [OF d(2,6,4,5)])
    moreover have "run_ids a (r\<lparr>rPool := ?p', rSends := rSends r\<rparr>) \<subseteq> I"
      using enqueueHint_ids [OF d(1) nf(1,2), of a pr ent g] nf(3) d(9) by (auto simp: run_ids_sub split: if_splits)
    ultimately have "run_keeps a I r (r\<lparr>rPool := ?p', rSends := rSends r\<rparr>)"
      using d(7) by (intro run_keepsI [OF ok]) (auto simp: run_owed_def owed_def queued_def in_flight_def)
    then show ?thesis using RHint by simp
  next
    case RTake
    then show ?thesis using Take_run [OF ok] same by (simp split: list.split)
  next
    case (RSend i)
    then show ?thesis using Send_run [OF ok] same by simp
  next
    case (RPeek addr)
    then show ?thesis using Peek_run [OF ok] same by (simp split: flusher.split option.split)
  next
    case RReplay
    then show ?thesis using Replay_run [OF ok] same by (cases "rFlusher r") simp_all
  next
    case RPop
    then show ?thesis using Pop_run [OF ok] same nr by (cases "rFlusher r") simp_all
  qed
qed

lemma run_all_keeps:
  "run_ok a I r \<Longrightarrow> \<forall>ev \<in> set evs. event_ok ev \<and> set (hint_ids a ev) \<subseteq> I \<Longrightarrow> race_free net evs r \<Longrightarrow>
   run_keeps a I r (run_all net evs r)"
proof (induction evs arbitrary: r)
  case Nil
  then show ?case by (simp add: run_keeps_def run_all_def)
next
  case (Cons ev evs)
  have k: "run_keeps a I r (run_step net ev r)" using Cons.prems by (intro run_step_keeps) simp_all
  then have "run_keeps a I (run_step net ev r) (run_all net evs (run_step net ev r))"
    using Cons.prems by (intro Cons.IH) (simp_all add: run_keeps_def)
  then show ?case using k by (simp add: run_keeps_def run_all_def)
qed

lemma run_step_mutates:
  assumes ok: "run_ok a I r" and ev: "event_ok ev" and m: "mutates ev a ks k n"
  shows "run_owed a ks k n (run_step net ev r)"
proof (cases ev)
  case (RSubmit prs ks' k' ent g)
  then show ?thesis
    using Submit_owed(2) [OF run_okD(1) [OF ok], of ks k a prs ent g] run_okD(3) [OF ok] ev m by (auto simp: run_owed_def)
next
  case (RApply prs ks' k' ent g)
  then show ?thesis
    using sends_for_flight [OF run_okD(3) [OF ok], of prs ks k ent g] run_okD(1) [OF ok] m
    by (auto simp: run_owed_def in_flight_def hinting_def)
next
  case (RHint pr ks' k' ent g)
  then show ?thesis
    using enqueueHint_settles [OF run_okD(1) [OF ok], of ks k pr ent g] run_okD(3) [OF ok] ev m
    by (auto simp: run_owed_def owed_def)
qed (use m in simp_all)

lemma run_start_ok:
  assumes "\<not> DisableHints cfg" "fits_queue cfg a evs" "a \<noteq> []"
  shows "run_ok a (set (concat (map (hint_ids a) evs))) (run_start cfg)"
  using NewFanoutPool_hinting [OF assms(1)] assms(2,3)
  by (simp add: run_ok_def run_start_def flusher_ok_def run_ids_def ids_of_def openQ_def fits_queue_def length_remdups_card_conv)
    (simp add: NewFanoutPool_def)

lemma race_free_append: "race_free net (xs @ ys) r = (race_free net xs r \<and> race_free net ys (run_all net xs r))"
  by (induction xs arbitrary: r) (simp_all add: run_all_def)

lemma mutates_nul: "event_ok ev \<Longrightarrow> mutates ev a ks k n \<Longrightarrow> nul_free ks \<and> nul_free k"
  by (cases ev) auto

text \<open>A history owes every mutation handed to the pool.\<close>

lemma history_owes:
  assumes "\<not> DisableHints cfg" "\<forall>e \<in> set (xs @ ev # ys). event_ok e" "mutates ev a ks k n" "a \<noteq> []"
    and "fits_queue cfg a (xs @ ev # ys)" "race_free net (xs @ ev # ys) (run_start cfg)"
  obtains I where "run_ok a I (run_all net (xs @ ev # ys) (run_start cfg))"
    "run_owed a ks k n (run_all net (xs @ ev # ys) (run_start cfg))"
proof -
  let ?I = "set (concat (map (hint_ids a) (xs @ ev # ys)))" and ?r0 = "run_start cfg"
  let ?r1 = "run_all net xs ?r0"
  have ids: "\<forall>e \<in> set (xs @ ev # ys). event_ok e \<and> set (hint_ids a e) \<subseteq> ?I" using assms(2) by auto
  have rf: "race_free net xs ?r0" "\<not> races ev ?r1" "race_free net ys (run_step net ev ?r1)"
    using assms(6) by (simp_all add: race_free_append)
  have ok1: "run_ok a ?I ?r1"
    using run_all_keeps [OF run_start_ok [OF assms(1,5,4)] _ rf(1)] ids by (simp add: run_keeps_def)
  then have ok2: "run_ok a ?I (run_step net ev ?r1)"
    using run_step_keeps [OF ok1 _ _ rf(2)] ids by (simp add: run_keeps_def)
  have "run_owed a ks k n (run_step net ev ?r1)" using run_step_mutates [OF ok1 _ assms(3)] ids by simp
  moreover have "run_keeps a ?I (run_step net ev ?r1) (run_all net ys (run_step net ev ?r1))"
    using run_all_keeps [OF ok2 _ rf(3)] ids by simp
  ultimately show thesis
    using that [of ?I] mutates_nul [OF _ assms(3)] ids by (simp add: run_keeps_def run_all_def)
qed


definition run_cfg :: fanoutConfig where
  "run_cfg = \<lparr>QueueSize = 1, DisableHints = False, HintMaxPerPeer = 2\<rparr>"

definition run_ev :: "u64 \<Rightarrow> run_event" where
  "run_ev v = RSubmit [race_peer] (str ''ks'') (str ''k'') (race_ent v) 1"

text \<open>A peer that is down for the first call.\<close>

definition flaky :: network where
  "flaky l c = (l \<noteq> [])"


section \<open>Hints are delivered when the peer is back\<close>

text \<open>The rest of the work, done without further submissions: the goroutines finish, the queued
  jobs are worked off and the queue of the peer is flushed.\<close>

definition finish_sends :: "network \<Rightarrow> fanoutRun \<Rightarrow> fanoutRun" where
  "finish_sends net r = run_all net (replicate (length (rSends r)) (RSend 0)) r"

definition settle :: "network \<Rightarrow> bytes \<Rightarrow> fanoutRun \<Rightarrow> fanoutPool" where
  "settle net a r =
     (let p = rPool (finish_sends net r) in flushPeerHints net a ((fanout_loop net ^^ length (pJobs p)) p))"

lemma run_sends_all: "length (rSends r) = m \<Longrightarrow> rSends (run_all net (replicate m (RSend 0)) r) = []"
proof (induction m arbitrary: r)
  case (Suc m)
  let ?r = "run_step net (RSend 0) r"
  have "rSends ?r = tl (rSends r)" using Suc.prems by (simp add: drop_Suc)
  then have "length (rSends ?r) = m" using Suc.prems by simp
  from Suc.IH [OF this] show ?case by (simp add: run_all_def del: run_step.simps)
qed (simp add: run_all_def)

lemma race_free_sends: "race_free net (replicate m (RSend 0)) r"
  by (induction m arbitrary: r) (simp_all add: races_def del: run_step.simps)



text \<open>The history that C6 leaves out: a newer hint for the key of the hint being replayed. The
  flusher races, and the mutation is owed no more.\<close>

lemma race_loses:
  defines "evs \<equiv> [RHint race_peer (str ''ks'') (str ''k'') (race_ent 3) 1, RPeek (str ''b:1''),
    RHint race_peer (str ''ks'') (str ''k'') (race_ent 4) 1, RReplay, RPop]"
  shows "\<not> race_free (\<lambda>l c. True) evs (run_start run_cfg)"
    and "pHints (rPool (run_all (\<lambda>l c. True) evs (run_start run_cfg))) (str ''b:1'') = None"
    and "pLog (rPool (run_all (\<lambda>l c. True) evs (run_start run_cfg))) =
      [(ApplyPutCall (str ''b:1'') (str ''ks'') (str ''k'') (race_ent 3) 1, True)]"
  unfolding evs_def by code_simp+

end
