(* ===== verification/EngineProps.thy ===== *)
theory EngineProps
  imports EngineReach Eviction FanoutRuns
begin

text \<open>
  What the plain key/value operations promise: a put is read back, reaches the replicas
  through the fan-out, and is served there.
\<close>

section \<open>Minting a version\<close>

text \<open>A read-only step of the store may drop expired entries and nothing else.\<close>

definition narrower :: "time \<Rightarrow> memory \<Rightarrow> memory \<Rightarrow> bool" where
  "narrower now m m' \<longleftrightarrow> mem_wf m' \<and> maxBytes m' = maxBytes m \<and>
     (\<forall>j x. view m' j = Some x \<longrightarrow> view m j = Some x) \<and>
     (\<forall>j x. view m j = Some x \<longrightarrow> \<not> Expired x now \<longrightarrow> view m' j = Some x)"

lemma narrowerD:
  assumes "narrower now m m'"
  shows "mem_wf m'" "maxBytes m' = maxBytes m" "view m' j = Some x \<Longrightarrow> view m j = Some x"
    "view m j = Some x \<Longrightarrow> \<not> Expired x now \<Longrightarrow> view m' j = Some x"
  using assms unfolding narrower_def by blast+

lemma narrower_refl: "mem_wf m \<Longrightarrow> narrower now m m"
  by (simp add: narrower_def)

lemma narrower_trans: "narrower now a b \<Longrightarrow> narrower now b c \<Longrightarrow> narrower now a c"
  unfolding narrower_def by metis

lemma Peek_narrower: "mem_wf m \<Longrightarrow> narrower now m (snd (Peek now k m))"
  unfolding narrower_def using read_config(3) [of m now k] Peek_spec(2,3) [of m now k]
  by (cases "view m k") auto

lemma PeekVersion_narrower:
  assumes "mem_wf m"
  shows "narrower now m (snd (PeekVersion now k m))"
    and "fst (PeekVersion now k m) = (case view m k of Some e \<Rightarrow> if Expired e now then None else Some (Version e) | None \<Rightarrow> None)"
  subgoal using assms
    by (auto simp: PeekVersion_def narrower_def mem_wf_removeElement view_removeElement split: option.splits if_splits)
      (auto simp: view_def)
  subgoal by (simp add: PeekVersion_def view_def split: option.splits)
  done

lemma prune_absent_narrower: "mem_wf m \<Longrightarrow> narrower now m (fst (prune_absent now mx ks m lv))"
proof (induction now mx ks m lv rule: prune_absent.induct)
  case (2 now mx k ks m lv)
  obtain r m1 where p: "Peek now k m = (r, m1)" by (cases "Peek now k m")
  have n: "narrower now m m1" using Peek_narrower [OF 2(4), of now k] by (simp add: p)
  then have wf: "mem_wf m1" by (simp add: narrower_def)
  note IH = 2(1) [OF _ _ 2(4)] narrower_trans [OF n 2(2) [OF _ _ p [symmetric] _ wf]]
    narrower_trans [OF n 2(3) [OF _ _ p [symmetric] _ wf]]
  show ?case using IH narrower_refl [OF 2(4)] by (cases r) (simp_all add: p)
qed (simp add: narrower_refl)

lemma prune_narrower:
  assumes "mem_wf (ks_store ks)"
  shows "narrower (eNow v) (ks_store ks) (ks_store (pruneLastVerLocked v ks))" "ks_cfg (pruneLastVerLocked v ks) = ks_cfg ks"
  using prune_absent_narrower [OF assms] assms by (auto simp: pruneLastVerLocked_def Let_def split_beta narrower_refl)

lemma next_gt: "x + 1 \<noteq> 0 \<Longrightarrow> y \<le> x \<Longrightarrow> y < x + 1" for x :: u64
  using unatSuc [of x] by (simp add: word_less_nat_alt word_le_nat_alt add.commute)

lemma nextVersion_spec:
  assumes "mem_wf (ks_store ks)" "nextVersion v k lo ks = (ver, ks')"
  shows "narrower (eNow v) (ks_store ks) (ks_store ks')" "ks_cfg ks' = ks_cfg ks"
    "ver \<noteq> 0 \<Longrightarrow> view (ks_store ks) k = Some x \<Longrightarrow> \<not> Expired x (eNow v) \<Longrightarrow> Version x < ver"
proof -
  obtain pv m where p: "PeekVersion (eNow v) k (ks_store ks) = (pv, m)" by fastforce
  note pn = PeekVersion_narrower [OF assms(1), of "eNow v" k, unfolded p, simplified]
  have wf: "mem_wf m" by (rule narrowerD(1) [OF pn(1)])
  define c where "c = (let c0 = (if lastVer_of k ks < lo then lo else lastVer_of k ks) in
    case pv of Some ver \<Rightarrow> if c0 < ver then ver else c0 | None \<Rightarrow> c0)"
  have e: "(ver, ks') = (c + 1, pruneLastVerLocked v (ks\<lparr>ks_store := m, lastVer := fmupd k (c + 1) (lastVer ks)\<rparr>))"
    unfolding assms(2) [symmetric] nextVersion_def Let_def p prod.case c_def ..
  have pr: "narrower (eNow v) m (ks_store ks')" "ks_cfg ks' = ks_cfg ks"
    using e prune_narrower [of "ks\<lparr>ks_store := m, lastVer := fmupd k (c + 1) (lastVer ks)\<rparr>" v] wf by simp_all
  show "narrower (eNow v) (ks_store ks) (ks_store ks')" by (rule narrower_trans [OF pn(1) pr(1)])
  show "ks_cfg ks' = ks_cfg ks" by (rule pr(2))
  show "Version x < ver" if "ver \<noteq> 0" "view (ks_store ks) k = Some x" "\<not> Expired x (eNow v)"
  proof -
    have "Version x \<le> c" using that pn(2) by (auto simp: c_def Let_def)
    then show ?thesis using that(1) e next_gt by simp
  qed
qed

section \<open>Put, then get\<close>

lemma replicate_fields [simp]:
  "keyspaces (EngineCore.replicate n k ent f e) = keyspaces e" "maxKeyLen (EngineCore.replicate n k ent f e) = maxKeyLen e"
  "ks_of m (EngineCore.replicate n k ent f e) = ks_of m e"
  by (auto simp: EngineCore.replicate_def ks_of_def split: option.split prod.split)

lemma upd_ks_fields [simp]:
  "maxKeyLen (upd_ks n f e) = maxKeyLen e" "cluster (upd_ks n f e) = cluster e" "ks_of n (upd_ks n f e) = f (ks_of n e)"
  "maxValueSize (upd_ks n f e) = maxValueSize e" "keyspaces (upd_ks n f e) n = Some (f (ks_of n e))"
  by (simp_all add: upd_ks_def ks_of_def)

text \<open>The entry of a put.\<close>

definition put_entry :: "env \<Rightarrow> bytes \<Rightarrow> bytes \<Rightarrow> bytes \<Rightarrow> put_ttl \<Rightarrow> engine \<Rightarrow> entry" where
  "put_entry v n k val t e =
     \<lparr>Value = val, Version = fst (mint v n k 0 e),
      ExpireAt = expireAt v (case t of None \<Rightarrow> ksTTL (ks_config n e) | Some d \<Rightarrow> d), Flags = 0\<rparr>"

text \<open>The store a put finds once its version is minted has room for the entry: the keyspace has no
  byte limit, or the entry fits beside the pinned ones.\<close>

definition put_room :: "env \<Rightarrow> bytes \<Rightarrow> bytes \<Rightarrow> bytes \<Rightarrow> put_ttl \<Rightarrow> engine \<Rightarrow> bool" where
  "put_room v n k val t e \<longleftrightarrow>
     has_room (eNow v) k (put_entry v n k val t e) (ks_store (ks_of n (snd (mint v n k 0 e))))"

text \<open>The engine \<open>putLocalApply\<close> leaves before it replicates.\<close>

lemma putLocalApply_stored:
  assumes "ok_at n e" "go_len val" "eCtx v = None" "fst (mint v n k 0 e) \<noteq> 0"
    and room: "put_room v n k val t e"
  obtains e2 where "putLocalApply v n k val force t e = (None, EngineCore.replicate n k (put_entry v n k val t e) force e2)"
    "eng_ok e2" "cluster e2 = cluster e" "maxKeyLen e2 = maxKeyLen e" "getKS n e2 = None" "ks_config n e2 = ks_config n e"
    "view (ks_store (ks_of n e2)) k = Some (put_entry v n k val t e)"
proof -
  let ?ent = "put_entry v n k val t e"
  have ok: "store_ok (ks_store (ks_of n e))" using assms(1) by (auto simp: ok_at_def eng_ok_def ks_of_def)
  obtain ver ks1 where nv: "nextVersion v k 0 (ks_of n e) = (ver, ks1)" by fastforce
  note spec = nextVersion_spec [OF store_ok_wf [OF ok] nv]
  define e1 where "e1 = upd_ks n (\<lambda>_. ks1) e"
  have m: "mint v n k 0 e = (ver, e1)" by (simp add: mint_def nv e1_def)
  have wf: "mem_wf (ks_store ks1)" by (rule narrowerD(1) [OF spec(1)])
  have rm: "has_room (eNow v) k ?ent (ks_store ks1)" using room by (simp add: put_room_def m e1_def)
  have newer: "Version x < Version ?ent" if "view (ks_store ks1) k = Some x" "\<not> Expired x (eNow v)" for x
    using spec(3) [OF _ narrowerD(3) [OF spec(1) that(1)] that(2)] assms(4) by (simp add: put_entry_def m)
  obtain b m2 where a: "AcceptIfNewer (eNow v) k ?ent (ks_store ks1) = (b, m2)" by fastforce
  have len: "go_len (Value ?ent)" using assms(2) by (simp add: put_entry_def)
  have b: "b" "view m2 k = Some ?ent"
    using AcceptIfNewer_room [OF wf len rm] newer by (simp_all add: a) blast+
  have s: "store_op n (AcceptIfNewer (eNow v) k ?ent) e1 = (True, upd_ks n (\<lambda>ks. ks\<lparr>ks_store := m2\<rparr>) e1)"
    using a b(1) by (simp add: store_op_def e1_def)
  let ?e2 = "upd_ks n (\<lambda>ks. ks\<lparr>ks_store := m2\<rparr>) e1"
  have put: "putLocalApply v n k val force t e = (None, EngineCore.replicate n k ?ent force ?e2)"
    unfolding putLocalApply_def assms(3) option.case Let_def m prod.case
    using s by (simp add: put_entry_def m)
  have "ok_at n ?e2"
    using putLocalApply_ok [OF assms(1,2), of v k force t] unfolding put by (simp add: ok_at_def eng_ok_def)
  then show thesis
    using b(2) by (intro that [OF put]) (simp_all add: e1_def ok_at_def getKS_def ks_config_def spec(2))
qed

lemma key_checks_iff:
  "key_checks w n k e = None \<longleftrightarrow>
     eCtx w = None \<and> validateKey n k e = None \<and> getKS n e = None \<and> validateKeyLen n k e = None"
  by (auto simp: key_checks_def first_err_None)

text \<open>A live plain entry of the store is what \<open>Get\<close> returns.\<close>

lemma engine_Get_live:
  assumes "eng_ok e" "key_checks w n k e = None" "\<not> typed_mode (ksMode (ks_config n e))"
    "view (ks_store (ks_of n e)) k = Some ent" "\<not> Expired ent (eNow w)" "Flags ent = 0"
  shows "fst (engine_Get w n k e) = Inr (Value ent)"
proof -
  have "mem_wf (ks_store (ks_of n e))"
    using assms(1,2) by (auto simp: eng_ok_def store_ok_def ks_of_def key_checks_iff getKS_def split: option.splits)
  then have "fst (store_op n (Get (eNow w) k) e) = Some ent"
    using Get_spec(1) [of "ks_store (ks_of n e)" "eNow w" k] assms(4-6)
    by (simp add: store_op_def split_beta IsTombstone_def)
  then show ?thesis using assms(2,3,6) by (simp add: engine_Get_def split_beta IsNegative_def)
qed

text \<open>The checks of a put that passes.\<close>

definition put_passes :: "env \<Rightarrow> bytes \<Rightarrow> bytes \<Rightarrow> bytes \<Rightarrow> engine \<Rightarrow> bool" where
  "put_passes v n k val e \<longleftrightarrow>
     eCtx v = None \<and> validateKey n k e = None \<and> getKS n e = None \<and> validateValueSize n val e = None \<and>
     validateKeyLen n k e = None \<and> \<not> typed_mode (ksMode (ks_config n e))"

lemma engine_Put_here:
  assumes "put_passes v n k val e" "remoteOwner k e = None"
  shows "engine_Put v n k val t e = putLocalApply v n k val False t e"
  using assms
  by (auto simp: put_passes_def engine_Put_def putViaCluster_def PutLocal_def PutLocalAtHop_def getKS_def ks_config_def
      ks_of_def first_err_None split: option.splits)

lemma checks_same:
  assumes "maxKeyLen e' = maxKeyLen e" "ks_config n e' = ks_config n e" "getKS n e' = None" "key_checks v n k e = None"
    "eCtx w = None"
  shows "key_checks w n k e' = None"
proof -
  have "validateKey n k e' = validateKey n k e" "validateKeyLen n k e' = validateKeyLen n k e"
    using assms(1,2) by (simp_all add: validateKey_def validateKeyLen_def itemMax_def)
  then show ?thesis using assms by (simp add: key_checks_iff)
qed

lemma put_passes_checks: "put_passes v n k val e \<Longrightarrow> key_checks v n k e = None"
  by (simp add: put_passes_def key_checks_iff)

text \<open>C3. A put on the owner is read back: in every reachable engine, a put that passes the checks
  succeeds, and the next operation, a get of the same key, returns the value as long as it has
  not expired, whatever was stored under the key before, a tombstone included. The keyspace
  has no byte limit, or its limit holds the entry beside the pinned entries, and the version
  counter of the key does not wrap around.\<close>

theorem Put_then_Get:
  assumes "reachable e" "put_passes v n k val e" "remoteOwner k e = None" "go_len val"
    and "put_room v n k val t e" "fst (mint v n k 0 e) \<noteq> 0"
    and "eCtx w = None" "\<not> Expired (put_entry v n k val t e) (eNow w)"
  shows "fst (engine_Put v n k val t e) = None \<and> fst (engine_Get w n k (snd (engine_Put v n k val t e))) = Inr val"
proof -
  have ok: "ok_at n e" using ok_atI [OF reachable_eng_ok [OF assms(1)]] assms(2) by (simp add: put_passes_def)
  have c: "eCtx v = None" using assms(2) by (simp add: put_passes_def)
  obtain e2 where
    put: "putLocalApply v n k val False t e = (None, EngineCore.replicate n k (put_entry v n k val t e) False e2)" and
    e2: "eng_ok e2" "maxKeyLen e2 = maxKeyLen e" "getKS n e2 = None" "ks_config n e2 = ks_config n e"
      "view (ks_store (ks_of n e2)) k = Some (put_entry v n k val t e)"
    by (rule putLocalApply_stored [OF ok assms(4) c assms(6,5)])
  let ?e' = "EngineCore.replicate n k (put_entry v n k val t e) False e2"
  have e': "engine_Put v n k val t e = (None, ?e')" by (simp add: engine_Put_here [OF assms(2,3)] put)
  have ok': "eng_ok ?e'" using e2(1) by (simp add: eng_ok_def)
  have ch: "key_checks w n k ?e' = None" "\<not> typed_mode (ksMode (ks_config n ?e'))"
    using checks_same [OF _ _ _ put_passes_checks [OF assms(2)] assms(7), of ?e'] e2 assms(2)
    by (simp_all add: getKS_def ks_config_def put_passes_def)
  have vw: "view (ks_store (ks_of n ?e')) k = Some (put_entry v n k val t e)" using e2(5) by simp
  show ?thesis using engine_Get_live [OF ok' ch vw assms(8)] by (simp add: e' put_entry_def)
qed

text \<open>A keyspace with a byte limit that holds one of two entries.\<close>

definition bounded_engine :: engine where
  "bounded_engine =
     run_call (demo_env 0) (KvCall (CPut (str ''ks'') (str ''j'') (str ''old'') None))
       (run_call (demo_env 0) (KvCall (CUpdateKeySpace ((demo_cfg ModeCacheOnly)\<lparr>MaxBytes := 120\<rparr>)))
         (engine_New None 0 0 0 0))"

lemma bounded_engine_evicts:
  "(let m = ks_store (ks_of (str ''ks'')
        (snd (engine_Put (demo_env 1) (str ''ks'') (str ''k'') (str ''v'') (Some 10) bounded_engine)))
    in order m = [str ''k''] \<and> evictions m = 1)"
  by code_simp

theorem Put_then_Get_witness:
  "fst (engine_Get (demo_env 5) (str ''ks'') (str ''k'')
      (snd (engine_Put (demo_env 1) (str ''ks'') (str ''k'') (str ''v'') (Some 10) bounded_engine))) = Inr (str ''v'')"
proof -
  let ?n = "str ''ks''" and ?k = "str ''k''" and ?x = "str ''v''"
  have "reachable bounded_engine"
    unfolding bounded_engine_def by (intro demo_call reachable_new) (simp_all add: go_len_def str_def)
  moreover have "put_passes (demo_env 1) ?n ?k ?x bounded_engine" "put_room (demo_env 1) ?n ?k ?x (Some 10) bounded_engine"
    "fst (mint (demo_env 1) ?n ?k 0 bounded_engine) \<noteq> 0"
    "\<not> Expired (put_entry (demo_env 1) ?n ?k ?x (Some 10) bounded_engine) (eNow (demo_env 5))"
    by code_simp+
  moreover have "(case cluster bounded_engine of None \<Rightarrow> True | Some c \<Rightarrow> False)" by code_simp
  then have "remoteOwner ?k bounded_engine = None" by (simp add: remoteOwner_def ring_of_def split: option.splits)
  ultimately show ?thesis
    using Put_then_Get [of bounded_engine "demo_env 1" ?n ?k ?x "Some 10" "demo_env 5"]
    by (simp add: go_len_def str_def demo_env_def)
qed

section \<open>From the owner to a replica\<close>

lemma replicate_submits:
  assumes "ring_of e = Some (c, r)" "cFanout c = Some p" "Owner k r = Some o'" "pID o' = SelfID c"
    "replicaPeers n k (SelfID c) r e \<noteq> []"
  shows "cluster (EngineCore.replicate n k ent force e) =
    Some (c\<lparr>cFanout := Some (Submit (replicaPeers n k (SelfID c) r e) n k ent (Generation r) p)\<rparr>)"
  using assms by (simp add: EngineCore.replicate_def replicaFanout_def Let_def)

lemma replicaPeers_same:
  "getKS n e = None \<Longrightarrow> getKS n e' = None \<Longrightarrow> ks_config n e' = ks_config n e \<Longrightarrow>
   replicaPeers n k x r e' = replicaPeers n k x r e"
  by (auto simp: replicaPeers_def getKS_def ks_config_def ks_of_def split: option.splits)

text \<open>C4. A put on the owner reaches the replicas: the entry it stored is handed to the fan-out for
  every replica peer. If from then on the peer accepts calls, working off the queued jobs and
  one flush of its hints leave the entry, or something newer for the key, accepted by that
  peer, whatever the other peers do and however full the job queue and the hint queues were.
  Hints are enabled, the pool is open, the keyspace and the key have no NUL bytes, and the
  store has room for the entry.\<close>

theorem Put_reaches_replicas:
  fixes v n k val t e c r p q net
  defines "e' \<equiv> snd (engine_Put v n k val t e)"
  defines "p' \<equiv> the (cFanout (the (cluster e')))"
  assumes "reachable e" "put_passes v n k val e" "go_len val"
    and "put_room v n k val t e" "fst (mint v n k 0 e) \<noteq> 0"
    and ring: "ring_of e = Some (c, r)" "cFanout c = Some p" "Owner k r = Some o'" "pID o' = SelfID c"
    and pool: "hinting p" "nul_free n" "nul_free k"
    and q: "q \<in> set (replicaPeers n k (SelfID c) r e)" "pAddr q \<noteq> []"
    and up: "\<forall>l rc. rpcAddr rc = pAddr q \<longrightarrow> net l rc"
  shows "delivered (pAddr q) n k (rank (put_entry v n k val t e))
      (flushPeerHints net (pAddr q) ((fanout_loop net ^^ length (pJobs p')) p'))"
proof -
  let ?ent = "put_entry v n k val t e" and ?rs = "replicaPeers n k (SelfID c) r e"
  have ok: "ok_at n e" using ok_atI [OF reachable_eng_ok [OF assms(3)]] assms(4) by (simp add: put_passes_def)
  have cx: "eCtx v = None" and ks: "getKS n e = None" using assms(4) by (simp_all add: put_passes_def)
  have own: "remoteOwner k e = None" using ring by (simp add: remoteOwner_def)
  obtain e2 where put: "putLocalApply v n k val False t e = (None, EngineCore.replicate n k ?ent False e2)"
    and e2: "cluster e2 = cluster e" "getKS n e2 = None" "ks_config n e2 = ks_config n e"
    by (rule putLocalApply_stored [OF ok assms(5) cx assms(7,6)])
  have "replicaPeers n k (SelfID c) r e2 = ?rs" by (rule replicaPeers_same [OF ks e2(2,3)])
  moreover have "ring_of e2 = Some (c, r)" using ring(1) e2(1) by (simp add: ring_of_def)
  moreover have "?rs \<noteq> []" using q(1) by auto
  ultimately have p': "p' = Submit ?rs n k ?ent (Generation r) p"
    using replicate_submits [of e2 c r p k o' n ?ent False] ring
    by (simp add: p'_def e'_def engine_Put_here [OF assms(4) own] put)
  have "\<not> IsBloomAdd ?ent" by (simp add: put_entry_def IsBloomAdd_def)
  then have owed: "owed (pAddr q) n k (rank ?ent) p'"
    unfolding p' using q by (intro Submit_owed(2) [OF pool]) auto
  have h: "hinting p'" unfolding p' by (rule Submit_owed(1) [OF pool])
  show ?thesis using delivered_after [OF h q(2) pool(2,3) owed up] by (simp add: Let_def)
qed

theorem Put_reaches_replicas_witness:
  "let p = the (cFanout (the (cluster (snd (engine_Put (demo_env 1) (str ''ks'') (str ''k'') (str ''v'') None
        (demo_engine ModeCacheOnly (Some (demo_self ''a''))))))));
       p' = flushPeerHints (\<lambda>l c. True) (str ''b:1'') ((fanout_loop (\<lambda>l c. True) ^^ length (pJobs p)) p)
   in delivered (str ''b:1'') (str ''ks'') (str ''k'') 2 p'"
proof -
  let ?e = "demo_engine ModeCacheOnly (Some (demo_self ''a''))" and ?n = "str ''ks''" and ?k = "str ''k''" and ?x = "str ''v''"
  have "put_passes (demo_env 1) ?n ?k ?x ?e" "put_room (demo_env 1) ?n ?k ?x None ?e" "fst (mint (demo_env 1) ?n ?k 0 ?e) \<noteq> 0"
    "Owner ?k demo_ring = Some (demo_peer ''a'')" "pID (demo_peer ''a'') = SelfID (demo_self ''a'')" "nul_free ?n" "nul_free ?k"
    "demo_peer ''b'' \<in> set (replicaPeers ?n ?k (SelfID (demo_self ''a'')) demo_ring ?e)" "pAddr (demo_peer ''b'') = str ''b:1''"
    "str ''b:1'' \<noteq> []" "rank (put_entry (demo_env 1) ?n ?k ?x None ?e) = 2"
    by code_simp+
  moreover have "ring_of ?e = Some (demo_self ''a'', demo_ring)" by (simp add: ring_of_def demo_self_def)
  moreover have "cFanout (demo_self ''a'') = Some demo_pool" "hinting demo_pool"
    by (simp_all add: demo_self_def demo_pool_def NewFanoutPool_hinting)
  moreover have "go_len ?x" by (simp add: go_len_def str_def)
  ultimately show ?thesis
    using Put_reaches_replicas [OF demo_reachable, of "demo_env 1" ?n ?k ?x ModeCacheOnly "Some (demo_self ''a'')" None
        "demo_self ''a''" demo_ring demo_pool "demo_peer ''a''" "demo_peer ''b''" "\<lambda>l c. True"]
    by (simp add: Let_def)
qed

lemma apply_put_plain: "Flags ent = 0 \<Longrightarrow> apply_put v n k ent e = store_op n (AcceptIfNewer (eNow v) k ent) e"
  by (simp add: apply_put_def apply_snapshots_def Is_defs Let_def)

lemma observeVersion_spec:
  assumes "mem_wf (ks_store ks)"
  shows "narrower (eNow v) (ks_store ks) (ks_store (observeVersion v k x ks))" "ks_cfg (observeVersion v k x ks) = ks_cfg ks"
  using prune_narrower [of ks v] prune_narrower [of "ks\<lparr>lastVer := fmupd k x (lastVer ks)\<rparr>" v] assms
  by (simp_all add: observeVersion_def)

text \<open>C5. A replica serves the newer value: after a peer's message with a plain entry for a key,
  a get on the replica returns the value of the entry, or the value it held before if that
  has the same or a higher version; the message is answered as applied exactly in the first
  case. What the replica held under the key is a live plain value or nothing, the winner has
  not expired at the get, and the keyspace has no byte limit or room for the entry beside
  its pinned ones.\<close>

theorem ApplyPut_then_Get:
  fixes v n k ent g e
  defines "cur \<equiv> view (ks_store (ks_of n e)) k"
  defines "win \<equiv> (case cur of Some x \<Rightarrow> if Version ent \<le> Version x then x else ent | None \<Rightarrow> ent)"
  assumes "reachable e" "key_checks w n k e = None" "\<not> typed_mode (ksMode (ks_config n e))"
    and "has_room (eNow v) k ent (ks_store (ks_of n (observe_ver v n k (Version ent) e)))"
    and "Flags ent = 0" "go_len (Value ent)"
    and cur: "case cur of Some x \<Rightarrow> Flags x = 0 \<and> \<not> Expired x (eNow v) | None \<Rightarrow> True"
    and "\<not> Expired win (eNow w)"
  shows "fst (ApplyPutWithRingGen v n k ent g e) = Inr (case cur of Some x \<Rightarrow> Version x < Version ent | None \<Rightarrow> True) \<and>
    fst (engine_Get w n k (snd (ApplyPutWithRingGen v n k ent g e))) = Inr (Value win)"
proof -
  have eok: "eng_ok e" by (rule reachable_eng_ok [OF assms(3)])
  have ch: "validateKey n k e = None" "getKS n e = None" using assms(4) by (simp_all add: key_checks_iff)
  have wf: "mem_wf (ks_store (ks_of n e))" using ok_atI [OF eok ch(2)] by (auto simp: ok_at_def eng_ok_def store_ok_def ks_of_def)
  define e1 where "e1 = observe_ver v n k (Version ent) e"
  let ?m1 = "ks_store (ks_of n e1)"
  have o: "narrower (eNow v) (ks_store (ks_of n e)) ?m1" "ks_cfg (ks_of n e1) = ks_cfg (ks_of n e)"
    using observeVersion_spec [OF wf] by (simp_all add: e1_def observe_ver_def)
  have cur1: "view ?m1 k = cur"
  proof (cases cur)
    case None
    then show ?thesis using narrowerD(3) [OF o(1), of k] by (cases "view ?m1 k") (auto simp: cur_def)
  next
    case (Some x)
    then show ?thesis using narrowerD(4) [OF o(1), of k x] cur by (simp add: cur_def)
  qed
  obtain b m2 where a: "AcceptIfNewer (eNow v) k ent ?m1 = (b, m2)" by fastforce
  note acc = AcceptIfNewer_spec [OF narrowerD(1) [OF o(1)] assms(8), of "eNow v" k, unfolded a, simplified]
  have rm: "has_room (eNow v) k ent ?m1" using assms(6) by (simp add: e1_def)
  note acr = AcceptIfNewer_room [OF narrowerD(1) [OF o(1)] assms(8) rm, unfolded a cur1, simplified]
  have new: "b \<and> view m2 k = Some ent" if "case cur of Some x \<Rightarrow> Version x < Version ent | None \<Rightarrow> True"
    using acr that by (auto split: option.splits)
  have old: "\<not> b \<and> view m2 k = cur" if "cur = Some x" "\<not> Version x < Version ent" for x
    using acc cur that by (cases b) (auto simp: cur1)
  have b: "b \<longleftrightarrow> (case cur of Some x \<Rightarrow> Version x < Version ent | None \<Rightarrow> True)" and v2: "view m2 k = Some win"
    using new old by (cases cur; force simp: win_def not_less)+
  define e2 where "e2 = upd_ks n (\<lambda>ks. ks\<lparr>ks_store := m2\<rparr>) e1"
  have ap: "ApplyPutWithRingGen v n k ent g e = (Inr b, e2)"
    using ch a by (simp add: ApplyPutWithRingGen_def checked_def first_err_None apply_put_plain [OF assms(7)]
        store_op_def e1_def [symmetric] e2_def)
  have "eng_ok e2" using apply_api_ok(1) [OF eok assms(8), of v n k g] by (simp add: ap)
  moreover have "key_checks w n k e2 = None" "\<not> typed_mode (ksMode (ks_config n e2))"
    using checks_same [OF _ _ _ assms(4), of e2 w] assms(4,5) o(2)
    by (simp_all add: e2_def e1_def observe_ver_def ks_config_def getKS_def key_checks_iff)
  moreover have "view (ks_store (ks_of n e2)) k = Some win" using v2 by (simp add: e2_def)
  moreover have "Flags win = 0" using cur assms(7) by (auto simp: win_def split: option.splits)
  ultimately show ?thesis using engine_Get_live [of e2 w n k win] assms(10) by (simp add: ap b)
qed

theorem ApplyPut_then_Get_witness:
  "fst (engine_Get (demo_env 5) (str ''ks'') (str ''k'')
      (snd (ApplyPutWithRingGen (demo_env 2) (str ''ks'') (str ''k'')
        \<lparr>Value = str ''w'', Version = 7, ExpireAt = 0, Flags = 0\<rparr> 0
        (run_call (demo_env 1) (KvCall (CPut (str ''ks'') (str ''k'') (str ''v'') None)) (demo_engine ModeCacheOnly None))))) =
    Inr (str ''w'')"
proof -
  let ?e = "run_call (demo_env 1) (KvCall (CPut (str ''ks'') (str ''k'') (str ''v'') None)) (demo_engine ModeCacheOnly None)"
  let ?ent = "\<lparr>Value = str ''w'', Version = 7, ExpireAt = 0, Flags = 0\<rparr>" and ?n = "str ''ks''" and ?k = "str ''k''"
  have "reachable ?e" by (intro demo_call demo_reachable) (simp add: go_len_def str_def)
  moreover have "view (ks_store (ks_of ?n ?e)) ?k = Some \<lparr>Value = str ''v'', Version = 1, ExpireAt = 0, Flags = 0\<rparr>"
    "key_checks (demo_env 5) ?n ?k ?e = None" "\<not> typed_mode (ksMode (ks_config ?n ?e))"
    "has_room (eNow (demo_env 2)) ?k ?ent (ks_store (ks_of ?n (observe_ver (demo_env 2) ?n ?k (Version ?ent) ?e)))"
    by code_simp+
  moreover have "go_len (str ''w'')" "\<not> (7::u64) \<le> 1" by (simp add: go_len_def str_def, code_simp)
  ultimately show ?thesis
    using ApplyPut_then_Get [of ?e "demo_env 5" ?n ?k "demo_env 2" ?ent 0] by (simp add: Expired_def)
qed

section \<open>A probe of the global breaker that is never answered\<close>

definition probe_stuck :: "engine \<Rightarrow> bool" where
  "probe_stuck e \<longleftrightarrow>
     (\<exists>g. global e = Some g \<and> 0 < FailureThreshold (g_cfg g) \<and> gstate g = stateHalfOpen \<and> probeInFlight g)"

lemma probe_stuck_refuses:
  assumes "probe_stuck e"
  shows "loadThrough v cx n k al e = (Inl ErrUnavailable, e)"
proof -
  obtain g where g: "global e = Some g" "0 < FailureThreshold (g_cfg g)" "gstate g = stateHalfOpen" "probeInFlight g"
    using assms by (auto simp: probe_stuck_def)
  have "global_Allow v cx e = (False, e)"
    using Allow_breaker(2) [OF g(2-4), of "eFp v" "eNow v"] g(1)
    by (simp add: global_Allow_def AllowContext_def split: option.split)
  then show ?thesis by (simp add: loadThrough_def)
qed

lemma ks_refuses_stuck:
  assumes g: "global e = Some g" "0 < FailureThreshold (g_cfg g)" "gstate g \<noteq> stateClosed"
    and ok: "fst (Allow (eFp v) (eNow v) g) = None" and ks: "fst (Allow (eFp v) (eNow v) (ks_guard (ks_of n e))) \<noteq> None"
  shows "fst (loadThrough v None n k al e) = Inl ErrUnavailable" "probe_stuck (snd (loadThrough v None n k al e))"
proof -
  let ?g = "snd (Allow (eFp v) (eNow v) g)" and ?e1 = "e\<lparr>global := Some (snd (Allow (eFp v) (eNow v) g))\<rparr>"
  have gl: "global_Allow v None e = (True, ?e1)"
    using ok g(1) by (simp add: global_Allow_def AllowContext_def split_beta)
  have "fst (ks_Allow v None n ?e1) = False" and f: "global (snd (ks_Allow v None n ?e1)) = Some ?g"
    using ks by (auto simp: ks_Allow_def AllowContext_def split_beta upd_ks_def ks_of_def)
  then obtain e2 where a: "ks_Allow v None n ?e1 = (False, e2)" "global e2 = Some ?g"
    by (cases "ks_Allow v None n ?e1") auto
  show "fst (loadThrough v None n k al e) = Inl ErrUnavailable" by (simp add: loadThrough_def gl a(1))
  show "probe_stuck (snd (loadThrough v None n k al e))"
    using Allow_grants_probe [OF g(2) ok g(3)] g(2) by (simp add: loadThrough_def gl a probe_stuck_def)
qed

text \<open>C40. A load that the global breaker admits as its probe and that the guard of the keyspace then
  refuses reports no outcome: the probe stays in flight, and every later load of every
  keyspace is refused, at any time, although the data source was never asked.\<close>

theorem global_probe_leak:
  assumes "global e = Some g" "0 < FailureThreshold (g_cfg g)" "gstate g \<noteq> stateClosed"
    and "fst (Allow (eFp v) (eNow v) g) = None" "fst (Allow (eFp v) (eNow v) (ks_guard (ks_of n e))) \<noteq> None"
  shows "fst (loadThrough w cx m j al'
      (fold (\<lambda>(w, cx, m, j, al) e. snd (loadThrough w cx m j al e)) ls (snd (loadThrough v None n k al e)))) =
    Inl ErrUnavailable"
proof -
  let ?e = "snd (loadThrough v None n k al e)"
  have st: "probe_stuck ?e" by (rule ks_refuses_stuck(2) [OF assms])
  have "fold (\<lambda>(w, cx, m, j, al) e. snd (loadThrough w cx m j al e)) ls ?e = ?e"
    by (induction ls) (auto simp: probe_stuck_refuses [OF st])
  then show ?thesis by (simp add: probe_stuck_refuses [OF st])
qed

theorem global_probe_leak_witness:
  "let g = demo_guard\<lparr>gstate := stateOpen, openedAt := 5\<rparr>;
       e = upd_ks (str ''ks'') (\<lambda>ks. ks\<lparr>ks_guard := demo_guard\<lparr>gstate := stateOpen, openedAt := 14\<rparr>\<rparr>)
         ((demo_engine ModeLoadThrough None)\<lparr>global := Some g\<rparr>);
       e' = snd (loadThrough (demo_env 15) None (str ''ks'') (str ''k'') True e)
   in fst (loadThrough (demo_env 9000) None (str ''ks'') (str ''j'') True
        (snd (loadThrough (demo_env 100) None (str ''ks'') (str ''k'') True e'))) = Inl ErrUnavailable"
proof -
  let ?g = "demo_guard\<lparr>gstate := stateOpen, openedAt := 5\<rparr>"
  let ?e = "upd_ks (str ''ks'') (\<lambda>ks. ks\<lparr>ks_guard := demo_guard\<lparr>gstate := stateOpen, openedAt := 14\<rparr>\<rparr>)
    ((demo_engine ModeLoadThrough None)\<lparr>global := Some ?g\<rparr>)"
  have "fst (Allow zero_fpu 15 ?g) = None" "fst (Allow zero_fpu 15 (demo_guard\<lparr>gstate := stateOpen, openedAt := 14\<rparr>)) \<noteq> None"
    "0 < FailureThreshold (g_cfg ?g)"
    by code_simp+
  moreover have "global ?e = Some ?g" by (simp add: upd_ks_def)
  ultimately show ?thesis
    using global_probe_leak [of ?e ?g "demo_env 15" "str ''ks''" "demo_env 9000" None "str ''ks''" "str ''j''" True
        "[(demo_env 100, None, str ''ks'', str ''k'', True)]" "str ''k''" True]
    by (simp add: Let_def demo_env_def)
qed

end
