(* ===== verification/PeerServer.thy ===== *)
theory PeerServer
  imports EngineProps
begin

text \<open>
  How the calls of one operation chain through the cluster: a node that is not the owner
  forwards, and the handler of the peer (\<open>PeerHandlers\<close>) may forward again.

  \<^item> A chain of forwards runs on a map \<open>N\<close> from addresses to engines and a map \<open>V\<close> from
    addresses to environments. A forwarding node waits for the answer before it changes
    anything, so the engines do not change along the chain.
\<close>

section \<open>Chains of forwards\<close>

type_synonym nodes = "bytes \<rightharpoonup> engine"

text \<open>The answer of \<open>ForwardPut\<close> at address \<open>a\<close> when the calls it makes in turn are answered the
  same way, to a depth of \<open>fuel\<close>; a call beyond that depth is answered by \<open>bottom\<close>. An error
  of a peer call reaches the caller as \<open>ErrRemote\<close>.\<close>

fun forward_put ::
    "engine_err option \<Rightarrow> nat \<Rightarrow> (bytes \<Rightarrow> env) \<Rightarrow> nodes \<Rightarrow>
     bytes \<Rightarrow> bytes \<Rightarrow> bytes \<Rightarrow> bytes \<Rightarrow> int \<Rightarrow> bool \<Rightarrow> nat \<Rightarrow> engine_err option" where
  "forward_put bottom 0 V N a n k val d s h = bottom"
| "forward_put bottom (Suc fuel) V N a n k val d s h =
     (case N a of
        None \<Rightarrow> Some ErrRemote
      | Some e \<Rightarrow>
          map_option (\<lambda>c. ErrRemote)
            (fst (peer_ForwardPut ((V a)\<lparr>eForwardPut := forward_put bottom fuel V N\<rparr>) n k val d s h e)))"

text \<open>The same for \<open>ListPop\<close>, whose message has no hop count.\<close>

fun forward_pop ::
    "(engine_err + bytes option) \<Rightarrow> nat \<Rightarrow> (bytes \<Rightarrow> env) \<Rightarrow> nodes \<Rightarrow>
     bytes \<Rightarrow> bytes \<Rightarrow> bytes \<Rightarrow> bool \<Rightarrow> engine_err + bytes option" where
  "forward_pop bottom 0 V N a n k left = bottom"
| "forward_pop bottom (Suc fuel) V N a n k left =
     (case N a of
        None \<Rightarrow> Inl ErrRemote
      | Some e \<Rightarrow>
          (case fst (peer_ListPop ((V a)\<lparr>eListPop := forward_pop bottom fuel V N\<rparr>) n k left e) of
             Inl c \<Rightarrow> Inl ErrRemote
           | Inr r \<Rightarrow> Inr r))"

lemma putLocalApply_local: "putLocalApply (v\<lparr>eForwardPut := f\<rparr>) n k val b t e = putLocalApply v n k val b t e"
proof -
  have "pruneLastVerLocked (v\<lparr>eForwardPut := f\<rparr>) = pruneLastVerLocked v"
    by (intro ext) (simp add: pruneLastVerLocked_def Let_def)
  then have nv: "nextVersion (v\<lparr>eForwardPut := f\<rparr>) = nextVersion v"
    by (intro ext) (simp add: nextVersion_def)
  have fields: "eNow (v\<lparr>eForwardPut := f\<rparr>) = eNow v" "eCtx (v\<lparr>eForwardPut := f\<rparr>) = eCtx v" by simp_all
  show ?thesis unfolding putLocalApply_def mint_def expireAt_def nv fields ..
qed

lemma PutLocalAtHop_answers:
  assumes "h < maxForwardHops \<Longrightarrow> \<forall>a d s. F a n k val d s (h + 1) = G a n k val d s (h + 1)"
  shows "PutLocalAtHop (v\<lparr>eForwardPut := F\<rparr>) n k val h t e = PutLocalAtHop (v\<lparr>eForwardPut := G\<rparr>) n k val h t e"
  using assms by (auto simp: PutLocalAtHop_def putLocalApply_local split: option.split)

lemma peer_ForwardPut_answers:
  assumes "h < maxForwardHops \<Longrightarrow> \<forall>a d s. F a n k val d s (h + 1) = G a n k val d s (h + 1)"
  shows "peer_ForwardPut (v\<lparr>eForwardPut := F\<rparr>) n k val d s h e = peer_ForwardPut (v\<lparr>eForwardPut := G\<rparr>) n k val d s h e"
  using PutLocalAtHop_answers [of h F n k val G, OF assms] by (simp add: peer_ForwardPut_def)

text \<open>A put that was forwarded once is not forwarded again.\<close>

lemma forward_put_last:
  assumes "0 < h"
  shows "forward_put b (Suc f) V N a n k val d s h = forward_put b' (Suc f') V N a n k val d s h"
  using assms peer_ForwardPut_answers [of h "forward_put b f V N" n k val "forward_put b' f' V N"]
  by (simp add: maxForwardHops_def split: option.split)

lemma forward_put_settles:
  assumes "2 \<le> f" "2 \<le> g"
  shows "forward_put b f V N = forward_put b' g V N"
proof -
  obtain f' g' where f: "f = Suc (Suc f')" "g = Suc (Suc g')"
    using assms by (metis One_nat_def Suc_1 Suc_le_D Suc_le_mono)
  have "forward_put b (Suc (Suc f')) V N a n k val d s h = forward_put b' (Suc (Suc g')) V N a n k val d s h" for a n k val d s h
  proof -
    have "forward_put b (Suc f') V N x n k val y z (h + 1) = forward_put b' (Suc g') V N x n k val y z (h + 1)" for x y z
      by (rule forward_put_last) simp
    then have "peer_ForwardPut (v\<lparr>eForwardPut := forward_put b (Suc f') V N\<rparr>) n k val d s h e =
        peer_ForwardPut (v\<lparr>eForwardPut := forward_put b' (Suc g') V N\<rparr>) n k val d s h e" for v e
      by (intro peer_ForwardPut_answers) blast
    then show ?thesis unfolding forward_put.simps(2) [of _ "Suc _"] by (simp split: option.split)
  qed
  then show ?thesis unfolding f by blast
qed

text \<open>C10. Forwarding a put ends: whatever the nodes believe about the owner of the key, a put makes
  at most two forwards in a row, so its outcome does not depend on what a third call
  would answer.\<close>

theorem Put_forwarding_ends:
  assumes "2 \<le> f" "2 \<le> g"
  shows "engine_Put (v\<lparr>eForwardPut := forward_put b f V N\<rparr>) n k val t e =
    engine_Put (v\<lparr>eForwardPut := forward_put b' g V N\<rparr>) n k val t e"
  by (simp only: forward_put_settles [OF assms, of b V N b'])

theorem Put_forwarding_ends_witness:
  "let N = [str ''a:1'' \<mapsto> demo_engine ModeCacheOnly (Some (demo_self ''b'')), str ''b:1'' \<mapsto> demo_engine ModeCacheOnly (Some (demo_self ''a''))];
       e = demo_engine ModeCacheOnly (Some (demo_self ''b''))
   in fst (engine_Put ((demo_env 1)\<lparr>eForwardPut := forward_put None 2 (\<lambda>a. demo_env 1) N\<rparr>) (str ''ks'') (str ''k'') (str ''v'') None e) =
      fst (engine_Put ((demo_env 1)\<lparr>eForwardPut := forward_put (Some ErrRemote) 9 (\<lambda>a. demo_env 1) N\<rparr>) (str ''ks'') (str ''k'') (str ''v'') None e)"
  unfolding Let_def by (rule arg_cong [where f = fst], rule Put_forwarding_ends) simp_all

text \<open>A pop has no such bound: when two nodes name each other as the owner of a list, the pop goes back
  and forth until the deadline of the caller; its answer is whatever lies at the bottom of
  the chain, at every depth.\<close>

lemma lPop_forwards:
  assumes "mode_checks v n k ModeList e = None" "remoteOwner k e = Some (c, r, p)" "reachable_owner c p"
  shows "peer_ListPop (v\<lparr>eListPop := F\<rparr>) n k left e = status_result (F (pAddr p) n k left, e)"
  using assms
  by (cases left) (simp_all add: peer_ListPop_def engine_LPop_def engine_RPop_def lPop_def mode_checks_def)

lemma pop_forwarding_loops:
  assumes "N a = Some ea" "N b = Some eb"
    and "mode_checks (V a) n k ModeList ea = None" "mode_checks (V b) n k ModeList eb = None"
    and "remoteOwner k ea = Some (ca, ra, pb)" "pAddr pb = b" "cTransport ca" "b \<noteq> []"
    and "remoteOwner k eb = Some (cb, rb, pa)" "pAddr pa = a" "cTransport cb" "a \<noteq> []"
  shows "forward_pop (Inr x) fuel V N a n k left = Inr x"
proof -
  have "forward_pop (Inr x) fuel V N a n k left = Inr x \<and> forward_pop (Inr x) fuel V N b n k left = Inr x"
  proof (induction fuel)
    case (Suc fuel)
    then show ?case
      using assms lPop_forwards [OF assms(3,5), of "forward_pop (Inr x) fuel V N" left]
        lPop_forwards [OF assms(4,9), of "forward_pop (Inr x) fuel V N" left]
      by (simp add: reachable_owner_def status_result_def)
  qed simp
  then show ?thesis ..
qed

section \<open>A forwarded add after a delete\<close>

lemma SetAdd_refused:
  assumes "mem_wf m" "view m k = Some tb" "IsTombstone tb" "\<not> Expired tb now" "ver \<le> Version tb"
  shows "view (snd (SetAdd now k item ver ex m)) = view m"
proof -
  have "\<not> admits set_DecodeSet FlagSet now ver m k" using assms by (simp add: admits_def)
  then show ?thesis using st.mutate_refused [OF assms(1)] by (simp add: SetAdd_def)
qed

text \<open>C39. A \<open>SetAdd\<close> that a node forwards to the owner is lost while the owner holds a tombstone of
  the name: the message carries version 1, the owner refuses it, and the client is told that
  the add succeeded.\<close>

theorem forwarded_add_lost:
  fixes v w n k item e eo c r p
  defines "msg \<equiv> \<lparr>Value = item, Version = 1, ExpireAt = 0, Flags = FlagSetAdd\<rparr>"
  defines "call \<equiv> peer_ApplyPut w n k (Some msg) (Generation r) eo"
  assumes "item_checks v n k ModeSet item False e = None" "remoteOwner k e = Some (c, r, p)" "reachable_owner c p"
    and ans: "eApplyPut v (pAddr p) n k msg (Generation r) = (case fst call of Inl x \<Rightarrow> Inl ErrRemote | Inr b \<Rightarrow> Inr b)"
    and "reachable eo" "validateKey n k eo = None" "getKS n eo = None"
    and tb: "view (ks_store (ks_of n eo)) k = Some tb" "IsTombstone tb" "\<not> Expired tb (eNow w)" "1 \<le> Version tb"
  shows "fst (engine_SetAdd v n k item e) = None \<and> view (ks_store (ks_of n (snd call))) k = Some tb"
proof -
  have "store_ok (ks_store (ks_of n eo))"
    using ok_atI [OF reachable_eng_ok [OF assms(7)] assms(9)] by (auto simp: ok_at_def eng_ok_def ks_of_def)
  then have wf: "mem_wf (ks_store (ks_of n eo))" by (rule store_ok_wf)
  define e1 where "e1 = observe_ver w n k 1 eo"
  have o: "narrower (eNow w) (ks_store (ks_of n eo)) (ks_store (ks_of n e1))"
    using observeVersion_spec(1) [OF wf] by (simp add: e1_def observe_ver_def)
  have t1: "view (ks_store (ks_of n e1)) k = Some tb" by (rule narrowerD(4) [OF o tb(1,3)])
  have ap: "apply_put w n k msg e1 = apply_op n k msg (set_ApplyAdd w n k item 1 0) e1"
    by (simp add: apply_put_def msg_def Let_def Is_defs Flag_defs)
  let ?s = "store_op n (SetAdd (eNow w) k item 1 (or_ExpireAt w n 0 e1)) e1"
  have "view (ks_store (ks_of n (snd ?s))) k = Some tb"
    using SetAdd_refused [OF narrowerD(1) [OF o] t1 tb(2,3), of 1] tb(4) t1 by (simp add: store_op_def split_beta)
  then have "view (ks_store (ks_of n (snd (apply_put w n k msg e1)))) k = Some tb"
    by (simp add: ap apply_op_def set_ApplyAdd_def split_beta split: option.split)
  moreover have "call = (Inr (fst (apply_put w n k msg e1)), snd (apply_put w n k msg e1))"
    using assms(8,9)
    by (simp add: call_def peer_ApplyPut_def ApplyPutWithRingGen_def checked_def first_err_None status_result_def
        split_beta e1_def msg_def)
  moreover have "fst (engine_SetAdd v n k item e) = None"
    using assms(3-5) ans calculation(2)
    by (simp add: engine_SetAdd_def checked_write_def route_write_def setMutViaOwner_def mut_via_owner_def msg_def)
  ultimately show ?thesis by simp
qed

text \<open>The owner \<open>a\<close> after a delete of the key, and the other node asking it.\<close>

definition demo_owner :: engine where
  "demo_owner = run_call (demo_env 1) (KvCall (CDelete (str ''ks'') (str ''k''))) (demo_engine ModeSet (Some (demo_self ''a'')))"

definition demo_asks :: env where
  "demo_asks = (demo_env 3)\<lparr>eApplyPut := (\<lambda>a n k ent g.
     case fst (peer_ApplyPut (demo_env 3) n k (Some ent) g demo_owner) of Inl x \<Rightarrow> Inl ErrRemote | Inr b \<Rightarrow> Inr b)\<rparr>"

theorem forwarded_add_lost_witness:
  "fst (engine_SetAdd demo_asks (str ''ks'') (str ''k'') (str ''x'') (demo_engine ModeSet (Some (demo_self ''b'')))) = None"
proof -
  let ?e = "demo_engine ModeSet (Some (demo_self ''b''))" and ?n = "str ''ks''" and ?k = "str ''k''" and ?x = "str ''x''"
  let ?tb = "\<lparr>Value = [], Version = 1, ExpireAt = 300000000001, Flags = FlagTombstone\<rparr>"
  have "item_checks demo_asks ?n ?k ModeSet ?x False ?e = None" "validateKey ?n ?k demo_owner = None" "getKS ?n demo_owner = None"
    "view (ks_store (ks_of ?n demo_owner)) ?k = Some ?tb" "IsTombstone ?tb" "\<not> Expired ?tb (eNow (demo_env 3))"
    "Owner ?k demo_ring = Some (demo_peer ''a'')" "pID (demo_peer ''a'') \<noteq> []" "str ''a'' \<noteq> str ''b''"
    "reachable_owner (demo_self ''b'') (demo_peer ''a'')"
    by code_simp+
  moreover have "remoteOwner ?k ?e = Some (demo_self ''b'', demo_ring, demo_peer ''a'')"
    using calculation by (simp add: remoteOwner_def ring_of_def demo_self_def demo_peer_def)
  moreover have "reachable demo_owner"
    unfolding demo_owner_def by (intro demo_call demo_reachable) simp
  ultimately show ?thesis
    using forwarded_add_lost [of demo_asks ?n ?k ?x ?e "demo_self ''b''" demo_ring "demo_peer ''a''" "demo_env 3" demo_owner ?tb]
    by (simp add: demo_asks_def)
qed

end
