(* ===== verification/Tracker.thy ===== *)
theory Tracker
  imports Prelude
begin

text \<open>
  The hot-key counter of the warm-up service (\<open>pkg/warmup/tracker.go\<close>). Go visits a map in
  an unspecified order: where the result depends on it, the order is an argument. A nil
  tracker ignores every call and is left to the caller.
\<close>

section \<open>Definitions\<close>

record tracker =
  tCounts :: "(bytes, u64) fmap"
  tMaxKeys :: int

definition DefaultTopK :: int where "DefaultTopK = 1024"

definition NewTracker :: "int \<Rightarrow> tracker" where
  "NewTracker maxKeys = \<lparr>tCounts = fmempty, tMaxKeys = (if maxKeys \<le> 0 then DefaultTopK else maxKeys)\<rparr>"

text \<open>The loop of \<open>evictOneLocked\<close>: the first key with the smallest count.\<close>

fun coldest :: "(bytes, u64) fmap \<Rightarrow> bytes list \<Rightarrow> (bytes \<times> u64) option \<Rightarrow> (bytes \<times> u64) option" where
  "coldest m [] best = best"
| "coldest m (k # ks) best =
     (case fmlookup m k of
        None \<Rightarrow> coldest m ks best
      | Some c \<Rightarrow>
          coldest m ks
            (case best of None \<Rightarrow> Some (k, c) | Some (bk, bc) \<Rightarrow> if c < bc then Some (k, c) else Some (bk, bc)))"

definition evictOneLocked :: "bytes list \<Rightarrow> tracker \<Rightarrow> tracker" where
  "evictOneLocked ord t =
     (case coldest (tCounts t) ord None of
        None \<Rightarrow> t
      | Some (k, c) \<Rightarrow> if k \<noteq> [] then t\<lparr>tCounts := fmdrop k (tCounts t)\<rparr> else t)"

definition tracker_Hit :: "bytes list \<Rightarrow> bytes \<Rightarrow> tracker \<Rightarrow> tracker" where
  "tracker_Hit ord k t =
     (if k = [] then t
      else
        let t1 = (if k |\<notin>| fmdom (tCounts t) \<and> tMaxKeys t \<le> int (fcard (fmdom (tCounts t)))
                  then evictOneLocked ord t else t);
            c = (case fmlookup (tCounts t1) k of None \<Rightarrow> 0 | Some c \<Rightarrow> c)
        in t1\<lparr>tCounts := fmupd k (c + 1) (tCounts t1)\<rparr>)"

text \<open>The comparison of \<open>sort.Slice\<close>, higher counts first and equal counts by key, is a strict
  total order on the rows, so the result does not depend on the order of the map.\<close>

definition tracker_Top :: "int \<Rightarrow> tracker \<Rightarrow> bytes list" where
  "tracker_Top n t =
     (if n \<le> 0 then []
      else
        let rows = sort_key (\<lambda>(k, c). - int (unat c)) (sorted_list_of_fmap (tCounts t))
        in map fst (take (nat n) rows))"

definition tracker_Snapshot :: "tracker \<Rightarrow> (bytes, u64) fmap" where
  "tracker_Snapshot t = tCounts t"

section \<open>The bound\<close>

text \<open>The order visits every key once; no key is empty.\<close>

definition tracker_ok :: "tracker \<Rightarrow> bool" where
  "tracker_ok t \<longleftrightarrow> 0 < tMaxKeys t \<and> [] |\<notin>| fmdom (tCounts t) \<and> int (fcard (fmdom (tCounts t))) \<le> tMaxKeys t"

lemma NewTracker_ok: "tracker_ok (NewTracker n)"
  by (simp add: tracker_ok_def NewTracker_def DefaultTopK_def fcard.rep_eq)

lemma coldest_in:
  assumes "coldest m ks best = Some (k, c)"
  shows "best = Some (k, c) \<or> fmlookup m k = Some c"
  using assms
  by (induction m ks best rule: coldest.induct) (auto split: option.splits prod.splits if_splits)

lemma coldest_some:
  assumes "best \<noteq> None \<or> (\<exists>k \<in> set ks. k |\<in>| fmdom m)"
  shows "coldest m ks best \<noteq> None"
  using assms
  by (induction m ks best rule: coldest.induct) (auto split: option.splits)

lemma evictOne_card:
  assumes "tracker_ok t" "fset (fmdom (tCounts t)) \<subseteq> set ord" "0 < fcard (fmdom (tCounts t))"
  shows "fcard (fmdom (tCounts (evictOneLocked ord t))) = fcard (fmdom (tCounts t)) - 1"
    "fmdom (tCounts (evictOneLocked ord t)) |\<subseteq>| fmdom (tCounts t)" "tMaxKeys (evictOneLocked ord t) = tMaxKeys t"
proof -
  obtain x where "x |\<in>| fmdom (tCounts t)"
    using assms(3) by (cases "fmdom (tCounts t)") (auto simp: fcard.rep_eq)
  then have "coldest (tCounts t) ord None \<noteq> None" using assms(2) by (intro coldest_some) auto
  then obtain k c where k: "coldest (tCounts t) ord None = Some (k, c)" by auto
  then have "fmlookup (tCounts t) k = Some c" using coldest_in by fastforce
  then have d: "k |\<in>| fmdom (tCounts t)" by (simp add: fmdomI)
  then have "k \<noteq> []" using assms(1) by (auto simp: tracker_ok_def)
  then have e: "evictOneLocked ord t = t\<lparr>tCounts := fmdrop k (tCounts t)\<rparr>" using k by (simp add: evictOneLocked_def)
  show "fcard (fmdom (tCounts (evictOneLocked ord t))) = fcard (fmdom (tCounts t)) - 1"
    using d by (simp add: e fcard.rep_eq)
  show "fmdom (tCounts (evictOneLocked ord t)) |\<subseteq>| fmdom (tCounts t)" "tMaxKeys (evictOneLocked ord t) = tMaxKeys t"
    by (auto simp: e)
qed

text \<open>The tracker never holds more keys than its bound.\<close>

lemma tracker_Hit_ok:
  assumes "tracker_ok t" "fset (fmdom (tCounts t)) \<subseteq> set ord"
  shows "tracker_ok (tracker_Hit ord k t)"
proof (cases "k = []")
  case False
  let ?full = "k |\<notin>| fmdom (tCounts t) \<and> tMaxKeys t \<le> int (fcard (fmdom (tCounts t)))"
  define t1 where "t1 = (if ?full then evictOneLocked ord t else t)"
  have h: "fmdom (tCounts (tracker_Hit ord k t)) = finsert k (fmdom (tCounts t1))" "tMaxKeys (tracker_Hit ord k t) = tMaxKeys t1"
    using False by (simp_all add: tracker_Hit_def Let_def t1_def)
  have ne: "0 < fcard (fmdom (tCounts t))" if ?full using that assms(1) by (auto simp: tracker_ok_def)
  have t1: "[] |\<notin>| fmdom (tCounts t1)" "tMaxKeys t1 = tMaxKeys t"
    "k |\<in>| fmdom (tCounts t1) \<or> int (fcard (fmdom (tCounts t1))) < tMaxKeys t" "int (fcard (fmdom (tCounts t1))) \<le> tMaxKeys t"
    using assms(1) evictOne_card [OF assms ne] by (auto simp: t1_def tracker_ok_def)
  then show ?thesis using False assms(1) by (auto simp: tracker_ok_def h fcard_finsert_if)
qed (simp add: assms tracker_Hit_def)

lemma tracker_Top_keys: "set (tracker_Top n t) \<subseteq> fset (fmdom (tCounts t))"
proof
  fix k assume "k \<in> set (tracker_Top n t)"
  then obtain c where "(k, c) \<in> set (sorted_list_of_fmap (tCounts t))"
    by (auto simp: tracker_Top_def Let_def split: if_splits dest!: in_set_takeD)
  then show "k \<in> fset (fmdom (tCounts t))" by (auto simp: sorted_list_of_fmap_def)
qed

text \<open>The keys come hottest first, and a key that is left out is not hotter than one that is listed.\<close>

lemma tracker_Top_hot:
  assumes "i < length (tracker_Top n t)" "k |\<in>| fmdom (tCounts t)" "k \<notin> set (tracker_Top n t)"
  shows "the (fmlookup (tCounts t) k) \<le> the (fmlookup (tCounts t) (tracker_Top n t ! i))"
proof -
  let ?rows = "sort_key (\<lambda>(k, c). - int (unat c)) (sorted_list_of_fmap (tCounts t))"
  have top: "tracker_Top n t = map fst (take (nat n) ?rows)" using assms(1) by (auto simp: tracker_Top_def Let_def)
  have row: "fmlookup (tCounts t) (fst r) = Some (snd r)" if "r \<in> set ?rows" for r
    using that by (auto simp: set_sorted_list_of_fmap)
  have i: "i < nat n" "i < length ?rows" using assms(1) by (simp_all add: top)
  have "(k, the (fmlookup (tCounts t) k)) \<in> set ?rows" using assms(2) by (auto simp: sorted_list_of_fmap_def)
  then obtain j where j: "j < length ?rows" "?rows ! j = (k, the (fmlookup (tCounts t) k))"
    unfolding in_set_conv_nth by blast
  have "nat n \<le> j"
  proof (rule ccontr)
    assume "\<not> nat n \<le> j"
    then have "k = tracker_Top n t ! j" "j < length (tracker_Top n t)" using j by (simp_all add: top)
    then show False using assms(3) nth_mem by metis
  qed
  then have "(\<lambda>(k, c). - int (unat c)) (?rows ! i) \<le> (\<lambda>(k, c). - int (unat c)) (?rows ! j)"
    using sorted_nth_mono [OF sorted_sort_key, of i j "\<lambda>(k, c). - int (unat c)" "sorted_list_of_fmap (tCounts t)"] i j by simp
  then have "the (fmlookup (tCounts t) k) \<le> snd (?rows ! i)" using j by (simp add: split_beta word_le_def)
  then show ?thesis using row [OF nth_mem [OF i(2)]] i by (simp add: top)
qed

end
