(* ===== verification/Tokenize.thy ===== *)
theory Tokenize
  imports Prelude
begin

text \<open>
  The line splitter of the command-line client (\<open>cmd/sc/tokenize.go\<close>): shell-like words with
  single quotes, double quotes and backslashes. A line that quotes its words is split into
  exactly those words.
\<close>

section \<open>The loop\<close>

datatype tok_err = TrailingBackslash | UnclosedQuote

record tok_state =
  tArgs :: "bytes list"
  tCur :: bytes
  inSingle :: bool
  inDouble :: bool
  escaped :: bool
  started :: bool

definition tok_start :: tok_state where
  "tok_start = \<lparr>tArgs = [], tCur = [], inSingle = False, inDouble = False, escaped = False, started = False\<rparr>"

text \<open>\<open>unicode.IsSpace\<close> on a byte: tab, line feed, vertical tab, form feed, carriage return,
  space, next line and no-break space.\<close>

definition IsSpace :: "8 word \<Rightarrow> bool" where
  "IsSpace c \<longleftrightarrow> c \<in> {9, 10, 11, 12, 13, 32, 0x85, 0xA0}"

definition tok_flush :: "tok_state \<Rightarrow> tok_state" where
  "tok_flush s = (if started s then s\<lparr>tArgs := tArgs s @ [tCur s], tCur := [], started := False\<rparr> else s)"

definition tok_put :: "8 word \<Rightarrow> tok_state \<Rightarrow> tok_state" where
  "tok_put c s = s\<lparr>tCur := tCur s @ [c], started := True\<rparr>"

definition tok_step :: "8 word \<Rightarrow> tok_state \<Rightarrow> tok_state" where
  "tok_step c s =
     (if escaped s then (tok_put c s)\<lparr>escaped := False\<rparr>
      else if c = 92 \<and> \<not> inSingle s then s\<lparr>escaped := True, started := True\<rparr>
      else if inSingle s then (if c = 39 then s\<lparr>inSingle := False\<rparr> else tok_put c s)
      else if inDouble s then (if c = 34 then s\<lparr>inDouble := False\<rparr> else tok_put c s)
      else if c = 39 then s\<lparr>inSingle := True, started := True\<rparr>
      else if c = 34 then s\<lparr>inDouble := True, started := True\<rparr>
      else if IsSpace c then tok_flush s
      else tok_put c s)"

definition tokenize :: "bytes \<Rightarrow> tok_err + bytes list" where
  "tokenize line =
     (let s = fold tok_step line tok_start in
      if escaped s then Inl TrailingBackslash
      else if inSingle s \<or> inDouble s then Inl UnclosedQuote
      else Inr (tArgs (tok_flush s)))"

section \<open>Quoting\<close>

text \<open>A word in double quotes, with quotes and backslashes escaped.\<close>

definition quote_byte :: "8 word \<Rightarrow> bytes" where
  "quote_byte c = (if c = 34 \<or> c = 92 then [92, c] else [c])"

definition quote_word :: "bytes \<Rightarrow> bytes" where
  "quote_word w = [34] @ concat (map quote_byte w) @ [34]"

fun quote_line :: "bytes list \<Rightarrow> bytes" where
  "quote_line [] = []"
| "quote_line (w # ws) = quote_word w @ [32] @ quote_line ws"

lemma quoted_byte:
  assumes "inDouble s" "\<not> inSingle s" "\<not> escaped s"
  shows "fold tok_step (quote_byte c) s = tok_put c s"
  using assms by (cases s) (auto simp: quote_byte_def tok_step_def tok_put_def)

lemma quoted_bytes:
  assumes "inDouble s" "\<not> inSingle s" "\<not> escaped s" "started s"
  shows "fold tok_step (concat (map quote_byte w)) s = s\<lparr>tCur := tCur s @ w\<rparr>"
  using assms by (induction w arbitrary: s) (simp_all add: quoted_byte, simp add: tok_put_def)

lemma quoted_word:
  "fold tok_step (quote_word w @ [32]) (tok_start\<lparr>tArgs := as\<rparr>) = tok_start\<lparr>tArgs := as @ [w]\<rparr>"
  by (simp add: quote_word_def quoted_bytes tok_start_def tok_step_def tok_flush_def IsSpace_def)

lemma quoted_line: "fold tok_step (quote_line ws) tok_start = tok_start\<lparr>tArgs := ws\<rparr>"
proof -
  have "fold tok_step (quote_line ws) (tok_start\<lparr>tArgs := as\<rparr>) = tok_start\<lparr>tArgs := as @ ws\<rparr>" for as
  proof (induction ws arbitrary: as)
    case (Cons w ws)
    then show ?case using quoted_word [of w as] by simp
  qed simp
  from this [of "[]"] show ?thesis by (simp add: tok_start_def)
qed

text \<open>A quoted line gives back its words, the empty ones and those with spaces, quotes and
  backslashes included.\<close>

lemma tokenize_quote_line: "tokenize (quote_line ws) = Inr ws"
  unfolding tokenize_def quoted_line by (simp add: tok_start_def tok_flush_def)

text \<open>An open quote and a last backslash are reported.\<close>

lemma tokenize_open_quote: "tokenize (quote_line ws @ [34]) = Inl UnclosedQuote"
  unfolding tokenize_def fold_append o_apply quoted_line by (simp add: tok_step_def tok_start_def)

lemma tokenize_backslash: "tokenize (quote_line ws @ [92]) = Inl TrailingBackslash"
  unfolding tokenize_def fold_append o_apply quoted_line by (simp add: tok_step_def tok_start_def)

end
