(* ===== verification/Spec2Isabelle.thy ===== *)
theory Spec2Isabelle
  imports Lww StoreSet StoreZSet StoreGeo StoreHash StoreList StoreCounter StoreBitmap StoreBloom
    StoreHLL StoreCMS StoreTopK StoreStream StoreVec StoreJSON EngineApply
    StoreWf PeerServer Tracker Tokenize
begin

text \<open>
  A verification library for supercache, a distributed cache written in Go (\<open>src/\<close>).

  \<^bold>\<open>The program.\<close> A node holds keyspaces. A keyspace has a mode (plain values, load-through
  or one of fourteen data types), a bounded LRU store, a load guard and a version counter per
  key. A consistent hash ring names the owner and the replicas of a key. The owner applies a
  mutation, mints its version and hands the entry to a fan-out pool, which sends it to the
  replicas and keeps hints for peers that fail. Other nodes forward to the owner. Replicas
  apply what they receive by last-writer-wins.

  \<^bold>\<open>The layers, from the bottom.\<close>

  \<^descr> \<open>Prelude\<close>: Go integers, floats as bit patterns, varints, generic lemmas, the record \<open>fpu\<close> of
    float operations, and the locales \<open>total_less\<close> (sorting) and \<open>blob_codec\<close> (wire forms).
  \<^descr> Codecs: one theory per wire form of \<open>pkg/*\<close>: \<open>SetCodec\<close> (\<open>pkg/set\<close>), \<open>ListCodec\<close>
    (\<open>pkg/list\<close>), \<open>HashCodec\<close> (\<open>pkg/hashx\<close>), \<open>ZSetCodec\<close> (\<open>pkg/zset\<close>), \<open>GeoCodec\<close> (\<open>pkg/geo\<close>),
    \<open>JsonDoc\<close> and \<open>JsonText\<close> (\<open>pkg/jsonx\<close>), \<open>BitmapCodec\<close> (\<open>pkg/bitmapx\<close>), \<open>TopKTable\<close>
    (\<open>pkg/topkx\<close>), \<open>StreamLog\<close> (\<open>pkg/stream\<close>), \<open>VecCodec\<close> (\<open>pkg/vecset\<close>). They show round
    trips, the behaviour of each operation and that decoders end.
  \<^descr> The store (\<open>pkg/store/memory.go\<close>, \<open>entry.go\<close>): \<open>StoreEntry\<close> is the entry, \<open>Memory\<close> the record
    \<open>memory\<close> with one function per operation, \<open>MemoryFacts\<close> the invariant \<open>mem_wf\<close> and the
    abstract map \<open>view\<close> that the properties speak about, \<open>Eviction\<close> what survives an
    eviction, \<open>Lww\<close> the refinement of the writes to last-writer-wins and the convergence of
    replicas.
  \<^descr> The data types of the store (\<open>pkg/store/*.go\<close>, \<open>pkg/counter\<close>, \<open>pkg/bloom\<close>, \<open>pkg/hllx\<close>,
    \<open>pkg/cmsx\<close>): one theory \<open>Store*\<close> each. Three contracts carry their proofs:
    \<open>cached_container\<close> in \<open>Containers\<close> (decoded copies with a dirty bit: sets, sorted sets, geo
    indexes, lists, hashes), \<open>blob_store\<close> in \<open>BlobStores\<close> and \<open>local_blob\<close> in \<open>LocalBlobs\<close> (encoded
    values). Each is interpreted on the operations of every type it covers.
    \<open>StoreWf\<close> shows that every operation keeps \<open>store_ok\<close>: the store is well formed
    and each entry is of at most one kind.
  \<^descr> Around the store: \<open>Protect\<close> (\<open>pkg/protect\<close>), \<open>Keyspace\<close> (\<open>pkg/keyspace\<close>), \<open>Ring\<close>
    (\<open>internal/ring\<close>), \<open>Fanout\<close> and \<open>FanoutRuns\<close> (\<open>internal/peer/hints.go\<close>, \<open>transport.go\<close>),
    \<open>Tracker\<close> (\<open>pkg/warmup/tracker.go\<close>), \<open>Tokenize\<close> (\<open>cmd/sc/tokenize.go\<close>).
  \<^descr> The engine (\<open>pkg/engine\<close>, \<open>pkg/*/eng\<close>): \<open>EngineCore\<close> (keyspaces, versions, routing, get, put,
    delete, load-through), \<open>EngineHost\<close> (what the data-type packages call), \<open>EngineContainers\<close>
    and \<open>EngineBlobs\<close> (every exported operation of the data types), \<open>EngineApply\<close> (messages of the
    fan-out), \<open>PeerHandlers\<close> (\<open>internal/peerserver\<close>, \<open>internal/grpcmap\<close>).
  \<^descr> About the engine: \<open>EngineInv\<close> and \<open>EngineInvModes\<close> (each operation keeps the invariant),
    \<open>EngineReach\<close> (the engines reachable by calls), \<open>EngineProps\<close> (put, get and replication),
    \<open>PeerServer\<close> (chains of forwards).

  \<^bold>\<open>How code becomes definitions.\<close> A struct is a record, an enumeration a datatype, a method a
  function from its arguments and the state to its result and the next state, and a returned
  error a value. What lies outside is an argument: the clock, the data source, the answers of
  the peers and the order of map iterations are fields of the record \<open>env\<close>; the outcome of
  each RPC of the fan-out is the function \<open>net\<close>; float arithmetic is the record \<open>fpu\<close>, of
  which no law is assumed. A keyspace is looked up by name where the code holds a pointer.

  \<^bold>\<open>What is shown.\<close>

  \<^item> Replication: C1 convergence, C4 a put reaches the replicas, C5 a replica serves the newer
    value, C6 and C7 no mutation is lost and hints are delivered, C12 to C14 the writes
    refine last-writer-wins and a delete is not undone. C36 is the race that C6 excludes.
  \<^item> The engine: C2 the type invariant of every reachable engine, C3 put then get, C10 chains of
    forwards end. C39 and C40 are two defects: an add that is lost and a probe that is
    never answered.
  \<^item> Placement: C8, C9 and C11.
  \<^item> Data types: C15 to C35, one or two per type; C16 and C24 are defects.
  \<^item> Protection: C37 and C38.

  \<^bold>\<open>Interleaving.\<close> A call of the engine or the store is one step: the store holds its lock for a
  whole operation, and an engine call is a sequence of such operations that is not
  interrupted. Where the order of finer steps matters it is modelled: \<open>FanoutRuns\<close>
  interleaves callers, workers, the goroutine of each peer and the flusher with its separate
  peek, replay and pop; \<open>Protect\<close> interleaves the lock sections of \<open>Allow\<close>. In \<open>Fanout\<close> the
  functions \<open>applyJob\<close> and \<open>flushPeerHints\<close> run without interruption; \<open>worker_round\<close> and
  \<open>flusher_round\<close> relate them to the finer steps, and \<open>Allow_sections\<close> does so for \<open>Allow\<close>. A
  send is one step with its RPC and the hint it may queue.

  \<^bold>\<open>Idealisations.\<close>

  \<^item> Times, durations, byte counts of a store and statistics are unbounded integers: a clock
    reading plus a duration (\<open>expireAt\<close>, \<open>tombstoneExpireAt\<close>) does not overflow. Versions, counters,
    sequence numbers, hashes and lengths on the wire keep their width and wrap.
  \<^item> An operation of the store reads the clock once.
  \<^item> Values are shorter than \<open>2 ^ 63\<close> bytes (\<open>go_len\<close>), as the length of a Go slice is an \<open>int\<close>.
  \<^item> Float results are what \<open>fpu\<close> returns; comparisons of floats are defined on the bits.
  \<^item> A Go map is a partial function or a finite map; where its order shows, the order is an
    argument.
  \<^item> In a cluster the other nodes run this code: C2 takes the answers of \<open>GetOrLoad\<close> from the
    handler of reachable engines. Messages of the fan-out are arbitrary.

  \<^bold>\<open>Recursion.\<close> Loops are structural or carry a termination measure. Fuel is used in three
  places. \<open>flush_loop\<close> gets one more than the length of the queue, and \<open>flush_loop_drains\<close> shows that
  this empties it. The JSON parser gets twice the length of its input plus two, and
  \<open>json_value_fuel\<close> shows that more changes nothing. Chains of forwards get a depth and an answer
  for the call beyond it, and C10 shows that depth two is enough for puts.

  \<^bold>\<open>What is not modelled.\<close> The gRPC service, client library and stubs (one call per
  operation around the modelled ones), the command-line client apart from its splitter, node
  start-up, membership (a wrapper of a library that is not part of the repository), the
  warm-up jobs, metrics, tracing, administration pages, TLS, generated code, tests and
  benchmarks. Context deadlines appear only as the error they produce.
\<close>

end
